(* ===== verification/Sim_Prelude.thy ===== *)
theory Sim_Prelude
  imports Main "HOL-Library.Word"
begin

unbundle bit_operations_syntax

section \<open>Prelude: machine integers, faults, shared automation\<close>

text \<open>
  What every component theory shares: names for the C integer types of
  include/define.h, the error monad in which a model of a C function runs, and lemmas on
  words and lists that several components use.

  A C function that can stop the machine (arch_abort never returns) or step outside the
  defined behaviour of C returns a value of type fault + result: Inl names what went
  wrong, Inr carries the value and the new state.
\<close>

type_synonym u8 = "8 word"
type_synonym u16 = "16 word"
type_synonym u32 = "32 word"
type_synonym u64 = "64 word"

definition bindE :: "'e + 'a \<Rightarrow> ('a \<Rightarrow> 'e + 'b) \<Rightarrow> 'e + 'b" where
  "bindE m f = (case m of Inl e \<Rightarrow> Inl e | Inr x \<Rightarrow> f x)"

lemma bindE_simps [simp]:
  "bindE (Inl e) f = Inl e"
  "bindE (Inr x) f = f x"
  by (simp_all add: bindE_def)

lemma bindE_eq_Inr: "bindE m f = Inr y \<longleftrightarrow> (\<exists>x. m = Inr x \<and> f x = Inr y)"
  by (cases m) auto

lemma bindE_Inr_E [elim!]:
  assumes "bindE m f = Inr y"
  obtains x where "m = Inr x" and "f x = Inr y"
  using assms by (cases m) auto

lemma bindE_cong [cong]:
  "m = m' \<Longrightarrow> (\<And>x. m' = Inr x \<Longrightarrow> f x = f' x) \<Longrightarrow> bindE m f = bindE m' f'"
  by (cases m') auto

definition guardE :: "bool \<Rightarrow> 'e \<Rightarrow> 'e + unit" where
  "guardE b e = (if b then Inr () else Inl e)"

lemma guardE_simps [simp]:
  "guardE True e = Inr ()" "guardE False e = Inl e"
  "guardE b e = Inr u \<longleftrightarrow> b" "guardE b e = Inl e' \<longleftrightarrow> \<not> b \<and> e = e'"
  by (auto simp: guardE_def)

text \<open>The collections the component theories fill: definitions the model unfolds on a
  concrete input, and facts about single bits of words.\<close>

named_theorems model_eval \<open>definitions of the model, for evaluation on concrete inputs\<close>
named_theorems word_bits \<open>single-bit facts about words\<close>

subsection \<open>Words\<close>

lemma word_nonzero_flag_OR: "(x OR y) AND f \<noteq> 0 \<longleftrightarrow> x AND f \<noteq> 0 \<or> y AND f \<noteq> 0"
  for x y f :: "'a::len word"
  by (metis bit.conj_disj_distrib2 or_eq_0_iff)

lemma word_eq_of_unat: "unat x = n \<Longrightarrow> x = word_of_nat n"
  by auto

lemma ucast_byte [simp]: "(ucast (ucast (b::u8) :: u64) :: u32) = ucast b"
  by (simp add: bit_eq_iff bit_simps)

end
