(* ===== verification/X86_Decode.thy ===== *)
theory X86_Decode
  imports Sim_Prelude
begin

section \<open>The x86-64 instruction decoder (arch/x86_64/decode.c)\<close>

text \<open>
  The page-fault handler of the x86-64 port skips the faulting instruction, so it needs
  the instruction's length: decode_instruction reads prefixes, an opcode, a ModRM byte and
  a displacement. The model follows decode.c function by function. The code pointer is the
  list of bytes from the pointer on; reading past its end is the fault ReadPastEnd.
\<close>

datatype (plugins only: code size) x86_register =
    REG_AL | REG_BL | REG_CL | REG_DL | REG_AH | REG_BH | REG_CH | REG_DH
  | REG_SIL | REG_DIL | REG_BPL | REG_SPL
  | REG_AX | REG_BX | REG_CX | REG_DX | REG_SI | REG_DI | REG_BP | REG_SP
  | REG_EAX | REG_EBX | REG_ECX | REG_EDX | REG_ESI | REG_EDI | REG_EBP | REG_ESP
  | REG_RAX | REG_RBX | REG_RCX | REG_RDX | REG_RSI | REG_RDI | REG_RBP | REG_RSP
  | REG_R8 | REG_R9 | REG_R10 | REG_R11 | REG_R12 | REG_R13 | REG_R14 | REG_R15
  | REG_R8B | REG_R9B | REG_R10B | REG_R11B | REG_R12B | REG_R13B | REG_R14B | REG_R15B
  | REG_R8W | REG_R9W | REG_R10W | REG_R11W | REG_R12W | REG_R13W | REG_R14W | REG_R15W
  | REG_R8D | REG_R9D | REG_R10D | REG_R11D | REG_R12D | REG_R13D | REG_R14D | REG_R15D
  | REG_RIZ


subsection \<open>Data: operands, prefixes, instructions (decode.h, decode.c)\<close>

datatype operand_type =
  OPERAND_REGISTER | OPERAND_IMMEDIATE | OPERAND_MEMORY | OPERAND_MEM_OFF

text \<open>The anonymous union of struct operand: the member that was written last.\<close>

datatype operand_union =
    U_reg x86_register
  | U_mem (displacement: u32) (mem_base: x86_register) (mem_scale: int) (mem_index: x86_register)
  | U_mem_off u64
  | U_imm_val u64

record operand =
  op_type :: operand_type
  op_size :: int
  op_val :: operand_union

datatype opcode = INST_MOV | INST_INT

record instruction =
  inst_opcode :: opcode
  inst_length :: nat
  operand0 :: operand
  operand1 :: operand

text \<open>X86InstructionPrefixes is a set of flags kept in an int.\<close>

definition NONE :: u32 where "NONE = 0x00"
definition ADDRESS_SIZE_OVERRIDE :: u32 where "ADDRESS_SIZE_OVERRIDE = 0x01"
definition OPERAND_SIZE_OVERRIDE :: u32 where "OPERAND_SIZE_OVERRIDE = 0x02"
definition REX :: u32 where "REX = 0x04"
definition REX_W :: u32 where "REX_W = 0x08"
definition REX_R :: u32 where "REX_R = 0x10"
definition REX_X :: u32 where "REX_X = 0x20"
definition REX_B :: u32 where "REX_B = 0x40"

lemmas prefix_defs [model_eval] = NONE_def ADDRESS_SIZE_OVERRIDE_def OPERAND_SIZE_OVERRIDE_def
  REX_def REX_W_def REX_R_def REX_X_def REX_B_def

datatype operand_kind =
  O_R8 | O_R16_32_64 | O_R_M16_32_64 | O_R_M8 | O_R_M16 | O_IMM16_32 | O_MOFFS_16_32_64 | O_RAX

record modrm =
  mrm_mod :: u8
  mrm_reg :: u8
  mrm_rm :: u8

text \<open>
  Undecodable is the C function's return value 0. NoReturnValue is the use of the value of
  decode_int, which falls off its end without a return statement. ReadPastEnd is a read
  beyond the bytes the model was given.
\<close>

datatype decode_fault = Undecodable | NoReturnValue | ReadPastEnd

definition hasflag :: "u32 \<Rightarrow> u32 \<Rightarrow> bool" where
  [model_eval]: "hasflag pfx f \<longleftrightarrow> pfx AND f \<noteq> 0"

text \<open>A switch over 0..7 with a default that returns 0.\<close>

definition switch8 :: "u8 \<Rightarrow> 'a list \<Rightarrow> decode_fault + 'a" where
  [model_eval]: "switch8 r xs = (if unat r < length xs then Inr (xs ! unat r) else Inl Undecodable)"

subsection \<open>Prefixes and ModRM\<close>

definition prefix_flags :: "u8 \<Rightarrow> u32 option" where
  "prefix_flags b =
    (if b = 0x67 then Some ADDRESS_SIZE_OVERRIDE
     else if b = 0x66 then Some OPERAND_SIZE_OVERRIDE
     else if b = 0x40 then Some REX
     else if b = 0x41 then Some (REX OR REX_B)
     else if b = 0x42 then Some (REX OR REX_X)
     else if b = 0x43 then Some (REX OR REX_X OR REX_B)
     else if b = 0x44 then Some (REX OR REX_R)
     else if b = 0x45 then Some (REX OR REX_R OR REX_B)
     else if b = 0x46 then Some (REX OR REX_R OR REX_X)
     else if b = 0x47 then Some (REX OR REX_R OR REX_X OR REX_B)
     else if b = 0x48 then Some (REX OR REX_W)
     else if b = 0x49 then Some (REX OR REX_W OR REX_B)
     else if b = 0x4a then Some (REX OR REX_W OR REX_X)
     else if b = 0x4b then Some (REX OR REX_W OR REX_X OR REX_B)
     else if b = 0x4c then Some (REX OR REX_W OR REX_R)
     else if b = 0x4d then Some (REX OR REX_W OR REX_R OR REX_B)
     else if b = 0x4e then Some (REX OR REX_W OR REX_R OR REX_X)
     else if b = 0x4f then Some (REX OR REX_W OR REX_R OR REX_X OR REX_B)
     else None)"

fun read_prefixes :: "u32 \<Rightarrow> u8 list \<Rightarrow> decode_fault + u32 \<times> u8 list" where
  "read_prefixes p [] = Inl ReadPastEnd"
| "read_prefixes p (b # code) =
     (case prefix_flags b of
        Some f \<Rightarrow> read_prefixes (p OR f) code
      | None \<Rightarrow> Inr (p, b # code))"

fun read_modrm :: "u8 list \<Rightarrow> decode_fault + modrm \<times> u8 list" where
  "read_modrm [] = Inl ReadPastEnd"
| "read_modrm (val # code) =
     Inr (\<lparr>mrm_mod = drop_bit 6 val AND 3, mrm_reg = drop_bit 3 val AND 7, mrm_rm = val AND 7\<rparr>,
          code)"

subsection \<open>Register operands\<close>

definition by_size :: "u32 \<Rightarrow> 'a \<Rightarrow> 'a \<Rightarrow> 'a \<Rightarrow> 'a" where
  [model_eval]: "by_size pfx w64 w16 w32 =
     (if hasflag pfx REX_W then w64 else if hasflag pfx OPERAND_SIZE_OVERRIDE then w16 else w32)"

definition select_reg :: "u32 \<Rightarrow> u8 \<Rightarrow> operand_kind \<Rightarrow> decode_fault + x86_register" where
  "select_reg pfx reg kind =
    (case kind of
       O_R8 \<Rightarrow>
         if hasflag pfx REX_R then
           switch8 reg [REG_R8B, REG_R9B, REG_R10B, REG_R11B,
                        REG_R12B, REG_R13B, REG_R14B, REG_R15B]
         else
           switch8 reg [REG_AL, REG_CL, REG_DL, REG_BL,
                        if hasflag pfx REX then REG_SPL else REG_AH,
                        if hasflag pfx REX then REG_BPL else REG_CH,
                        if hasflag pfx REX then REG_SIL else REG_DH,
                        if hasflag pfx REX then REG_DIL else REG_BH]
     | O_R16_32_64 \<Rightarrow>
         if hasflag pfx REX_R then
           switch8 reg [by_size pfx REG_R8 REG_R8W REG_R8D,
                        by_size pfx REG_R9 REG_R9W REG_R9D,
                        by_size pfx REG_R10 REG_R10W REG_R10D,
                        by_size pfx REG_R11 REG_R11W REG_R11D,
                        by_size pfx REG_R12 REG_R12W REG_R12D,
                        by_size pfx REG_R13 REG_R13W REG_R13D,
                        by_size pfx REG_R14 REG_R14W REG_R14D,
                        by_size pfx REG_R15 REG_R15W REG_R15D]
         else
           switch8 reg [by_size pfx REG_RAX REG_AX REG_EAX,
                        by_size pfx REG_RCX REG_CX REG_ECX,
                        by_size pfx REG_RDX REG_DX REG_EDX,
                        by_size pfx REG_RBX REG_BX REG_EBX,
                        by_size pfx REG_RSP REG_SP REG_ESP,
                        by_size pfx REG_RBP REG_BP REG_EBP,
                        by_size pfx REG_RSI REG_SI REG_ESI,
                        by_size pfx REG_RDI REG_DI REG_EDI]
     | _ \<Rightarrow> Inl Undecodable)"

text \<open>The second switch of decode_reg_operand; REG_RIZ is in none of its cases.\<close>

definition reg_operand_size :: "x86_register \<Rightarrow> int option" where
  "reg_operand_size r =
    (if r \<in> set [REG_RAX, REG_RBX, REG_RCX, REG_RDX, REG_RSP, REG_RBP, REG_RSI, REG_RDI,
                 REG_R8, REG_R9, REG_R10, REG_R11, REG_R12, REG_R13, REG_R14, REG_R15]
     then Some 8
     else if r \<in> set [REG_EAX, REG_EBX, REG_ECX, REG_EDX, REG_ESP, REG_EBP, REG_ESI, REG_EDI,
                      REG_R8D, REG_R9D, REG_R10D, REG_R11D, REG_R12D, REG_R13D, REG_R14D, REG_R15D]
     then Some 4
     else if r \<in> set [REG_AX, REG_BX, REG_CX, REG_DX, REG_SP, REG_BP, REG_SI, REG_DI,
                      REG_R8W, REG_R9W, REG_R10W, REG_R11W, REG_R12W, REG_R13W, REG_R14W, REG_R15W]
     then Some 2
     else if r \<in> set [REG_AL, REG_BL, REG_CL, REG_DL, REG_AH, REG_BH, REG_CH, REG_DH,
                      REG_SPL, REG_BPL, REG_SIL, REG_DIL,
                      REG_R8B, REG_R9B, REG_R10B, REG_R11B, REG_R12B, REG_R13B, REG_R14B, REG_R15B]
     then Some 1
     else None)"

definition decode_reg_operand ::
  "operand \<Rightarrow> u32 \<Rightarrow> u8 \<Rightarrow> operand_kind \<Rightarrow> decode_fault + operand" where
  "decode_reg_operand oper pfx reg kind =
     bindE (select_reg pfx reg kind) (\<lambda>r.
       let oper = oper\<lparr>op_type := OPERAND_REGISTER, op_val := U_reg r\<rparr> in
       (case reg_operand_size r of
          Some n \<Rightarrow> Inr (oper\<lparr>op_size := n\<rparr>)
        | None \<Rightarrow> Inr oper))"

subsection \<open>Memory operands\<close>

definition by_addr :: "u32 \<Rightarrow> 'a \<Rightarrow> 'a \<Rightarrow> 'a" where
  [model_eval]: "by_addr pfx a32 a64 = (if hasflag pfx ADDRESS_SIZE_OVERRIDE then a32 else a64)"

text \<open>
  The switch over rm, the same in the three cases of mod: 4 (SIB) and 5 return 0. The
  switch has no default, so for rm above 7 the base would stay unset; read_modrm masks rm
  to three bits.
\<close>

definition select_base :: "u32 \<Rightarrow> u8 \<Rightarrow> decode_fault + x86_register" where
  "select_base pfx rm =
    (if hasflag pfx REX_B then
       (if rm = 0 then Inr (by_addr pfx REG_R8D REG_R8)
        else if rm = 1 then Inr (by_addr pfx REG_R9D REG_R9)
        else if rm = 2 then Inr (by_addr pfx REG_R10D REG_R10)
        else if rm = 3 then Inr (by_addr pfx REG_R11D REG_R11)
        else if rm = 6 then Inr (by_addr pfx REG_R14D REG_R14)
        else if rm = 7 then Inr (by_addr pfx REG_R15D REG_R15)
        else Inl Undecodable)
     else
       (if rm = 0 then Inr (by_addr pfx REG_EAX REG_RAX)
        else if rm = 1 then Inr (by_addr pfx REG_ECX REG_RCX)
        else if rm = 2 then Inr (by_addr pfx REG_EDX REG_RDX)
        else if rm = 3 then Inr (by_addr pfx REG_EBX REG_RBX)
        else if rm = 6 then Inr (by_addr pfx REG_ESI REG_RSI)
        else if rm = 7 then Inr (by_addr pfx REG_EDI REG_RDI)
        else Inl Undecodable))"

text \<open>Little-endian reads through a cast pointer.\<close>

fun le_word :: "u8 list \<Rightarrow> u64" where
  "le_word [] = 0"
| "le_word (b # bs) = ucast b OR push_bit 8 (le_word bs)"

fun next_byte :: "u8 list \<Rightarrow> decode_fault + u8 \<times> u8 list" where
  "next_byte [] = Inl ReadPastEnd"
| "next_byte (b # code) = Inr (b, code)"

definition read_bytes :: "nat \<Rightarrow> u8 list \<Rightarrow> decode_fault + u64 \<times> u8 list" where
  "read_bytes n code =
     (if n \<le> length code then Inr (le_word (take n code), drop n code) else Inl ReadPastEnd)"

definition decode_rm_operand ::
  "u8 list \<Rightarrow> operand \<Rightarrow> u32 \<Rightarrow> u8 \<Rightarrow> u8 \<Rightarrow> decode_fault + operand \<times> u8 list" where
  "decode_rm_operand code oper pfx md rm =
    (let finish = (\<lambda>disp code. bindE (select_base pfx rm) (\<lambda>base.
           Inr (oper\<lparr>op_type := OPERAND_MEMORY, op_val := U_mem disp base 0 REG_RIZ\<rparr>, code)))
     in if md = 0 then finish 0 code
        else if md = 1 then
          bindE (next_byte code) (\<lambda>(d, code). finish (ucast d) code)
        else if md = 2 then
          bindE (read_bytes 4 code) (\<lambda>(d, code). finish (ucast d) code)
        else Inl Undecodable)"

subsection \<open>Instructions\<close>

definition decode_mov ::
  "u32 \<Rightarrow> u8 list \<Rightarrow> instruction \<Rightarrow> operand_kind \<Rightarrow> operand_kind
    \<Rightarrow> decode_fault + instruction \<times> u8 list" where
  "decode_mov pfx code inst source dest =
    (let inst = inst\<lparr>inst_opcode := INST_MOV\<rparr> in
     if source = O_R16_32_64 \<or> source = O_R8 then
       bindE (read_modrm code) (\<lambda>(modrm, code).
       bindE (decode_reg_operand (operand0 inst) pfx (mrm_reg modrm) source) (\<lambda>src.
       bindE (decode_rm_operand code (operand1 inst) pfx (mrm_mod modrm) (mrm_rm modrm)) (\<lambda>(dst, code).
       Inr (inst\<lparr>operand0 := src, operand1 := dst\<rparr>, code))))
     else if source = O_R_M8 \<or> source = O_R_M16 \<or> source = O_R_M16_32_64 then
       bindE (read_modrm code) (\<lambda>(modrm, code).
       bindE (decode_reg_operand (operand1 inst) pfx (mrm_reg modrm) dest) (\<lambda>dst.
       bindE (decode_rm_operand code (operand0 inst) pfx (mrm_mod modrm) (mrm_rm modrm)) (\<lambda>(src, code).
       Inr (inst\<lparr>operand0 := src, operand1 := dst\<rparr>, code))))
     else if source = O_MOFFS_16_32_64 then
       bindE (read_bytes 8 code) (\<lambda>(off, code).
       if dest = O_RAX then
         Inr (inst\<lparr>operand0 := (operand0 inst)\<lparr>op_type := OPERAND_MEM_OFF, op_val := U_mem_off off\<rparr>,
                   operand1 := (operand1 inst)\<lparr>op_type := OPERAND_REGISTER,
                     op_val := U_reg (if hasflag pfx OPERAND_SIZE_OVERRIDE then REG_RAX else REG_EAX)\<rparr>\<rparr>,
              code)
       else Inl Undecodable)
     else Inl Undecodable)"

text \<open>
  decode_int fills the operand but has no return statement, and its caller tests the value:
  decode_instruction has no defined result after it.
\<close>

definition decode_int :: "u32 \<Rightarrow> u8 list \<Rightarrow> instruction \<Rightarrow> decode_fault + instruction \<times> u8 list" where
  "decode_int pfx code inst =
     bindE (next_byte code) (\<lambda>(imm, code).
       Inr (inst\<lparr>inst_opcode := INST_INT,
                 operand0 := (operand0 inst)\<lparr>op_type := OPERAND_IMMEDIATE, op_size := 1,
                   op_val := U_imm_val (ucast imm)\<rparr>\<rparr>, code))"

definition read_opcode :: "u8 list \<Rightarrow> decode_fault + u16 \<times> u8 list" where
  "read_opcode code =
     bindE (next_byte code) (\<lambda>(b, code').
     if b = 0x0f then
       bindE (next_byte code') (\<lambda>(b, code''). Inr (0x100 OR ucast b, code''))
     else Inr (ucast b, code'))"

definition decode_instruction :: "u8 list \<Rightarrow> instruction \<Rightarrow> decode_fault + instruction" where
  "decode_instruction code inst =
     bindE (read_prefixes NONE code) (\<lambda>(p, code1).
     bindE (read_opcode code1) (\<lambda>(opc, code2).
     bindE (if opc = 0xa1 then decode_mov p code2 inst O_MOFFS_16_32_64 O_RAX
            else if opc = 0x88 then decode_mov p code2 inst O_R8 O_R_M8
            else if opc = 0x89 then decode_mov p code2 inst O_R16_32_64 O_R_M16_32_64
            else if opc = 0x8a then decode_mov p code2 inst O_R_M8 O_R8
            else if opc = 0x8b then decode_mov p code2 inst O_R_M16_32_64 O_R16_32_64
            else if opc = 0xc7 then decode_mov p code2 inst O_IMM16_32 O_R_M16_32_64
            else if opc = 0xcd then bindE (decode_int p code2 inst) (\<lambda>_. Inl NoReturnValue)
            else Inl Undecodable) (\<lambda>(inst, code3).
     Inr (inst\<lparr>inst_length := length code - length code3\<rparr>))))"

definition x86_register_names :: "string list" where
  "x86_register_names =
    [''rax'', ''rbx'', ''rcx'', ''rdx'', ''rsp'', ''rbp'', ''rsi'', ''rdi'',
     ''eax'', ''ebx'', ''ecx'', ''edx'', ''esp'', ''ebp'', ''esi'', ''edi'',
     ''ax'', ''bx'', ''cx'', ''dx'', ''sp'', ''bp'', ''si'', ''di'',
     ''ah'', ''bh'', ''ch'', ''dh'', ''al'', ''bl'', ''cl'', ''dl'',
     ''spl'', ''bpl'', ''sil'', ''dil'',
     ''r8b'', ''r9b'', ''r10b'', ''r11b'', ''r12b'', ''r13b'', ''r14b'', ''r15b'',
     ''r8w'', ''r9w'', ''r10w'', ''r11w'', ''r12w'', ''r13w'', ''r14w'', ''r15w'',
     ''r8d'', ''r9d'', ''r10d'', ''r11d'', ''r12d'', ''r13d'', ''r14d'', ''r15d'',
     ''r8'', ''r9'', ''r10'', ''r11'', ''r12'', ''r13'', ''r14'', ''r15'',
     ''riz'']"

subsection \<open>Reference: prefixes, registers and numbers, read off the bytes\<close>

definition gpr64 :: "x86_register list" where
  "gpr64 = [REG_RAX, REG_RCX, REG_RDX, REG_RBX, REG_RSP, REG_RBP, REG_RSI, REG_RDI,
            REG_R8, REG_R9, REG_R10, REG_R11, REG_R12, REG_R13, REG_R14, REG_R15]"
definition gpr32 :: "x86_register list" where
  "gpr32 = [REG_EAX, REG_ECX, REG_EDX, REG_EBX, REG_ESP, REG_EBP, REG_ESI, REG_EDI,
            REG_R8D, REG_R9D, REG_R10D, REG_R11D, REG_R12D, REG_R13D, REG_R14D, REG_R15D]"
definition gpr16 :: "x86_register list" where
  "gpr16 = [REG_AX, REG_CX, REG_DX, REG_BX, REG_SP, REG_BP, REG_SI, REG_DI,
            REG_R8W, REG_R9W, REG_R10W, REG_R11W, REG_R12W, REG_R13W, REG_R14W, REG_R15W]"
definition gpr8_rex :: "x86_register list" where
  "gpr8_rex = [REG_AL, REG_CL, REG_DL, REG_BL, REG_SPL, REG_BPL, REG_SIL, REG_DIL,
               REG_R8B, REG_R9B, REG_R10B, REG_R11B, REG_R12B, REG_R13B, REG_R14B, REG_R15B]"
definition gpr8_legacy :: "x86_register list" where
  "gpr8_legacy = [REG_AL, REG_CL, REG_DL, REG_BL, REG_AH, REG_CH, REG_DH, REG_BH]"

text \<open>
  What a run of prefix bytes says, read off the bytes: 66 changes the operand size, 67 the address size, and the bytes
  40 to 4f are REX prefixes whose bits 3, 2, 1 and 0 are W, R, X and B. Every prefix of the run counts, wherever it
  stands, so that the bits of several REX prefixes are united.
\<close>

record prefixes =
  operand_size :: bool
  address_size :: bool
  rex :: bool
  rex_w :: bool
  rex_r :: bool
  rex_x :: bool
  rex_b :: bool

definition is_rex :: "u8 \<Rightarrow> bool" where
  "is_rex b \<longleftrightarrow> 0x40 \<le> b \<and> b \<le> 0x4f"

definition is_prefix_byte :: "u8 \<Rightarrow> bool" where
  "is_prefix_byte b \<longleftrightarrow> b = 0x66 \<or> b = 0x67 \<or> is_rex b"

definition rex_bit :: "nat \<Rightarrow> u8 \<Rightarrow> bool" where
  "rex_bit k b \<longleftrightarrow> is_rex b \<and> odd (unat b div 2 ^ k)"

definition prefixes_of :: "u8 list \<Rightarrow> prefixes" where
  "prefixes_of ps =
     \<lparr>operand_size = (0x66 \<in> set ps), address_size = (0x67 \<in> set ps), rex = list_ex is_rex ps, rex_w = list_ex (rex_bit 3) ps,
      rex_r = list_ex (rex_bit 2) ps, rex_x = list_ex (rex_bit 1) ps, rex_b = list_ex (rex_bit 0) ps\<rparr>"

text \<open>The register a 3-bit field names, REX.R as its fourth bit, and its width in bytes.\<close>

definition arch_width :: "prefixes \<Rightarrow> bool \<Rightarrow> int" where
  "arch_width P byte = (if byte then 1 else if rex_w P then 8 else if operand_size P then 2 else 4)"

definition arch_reg :: "prefixes \<Rightarrow> bool \<Rightarrow> nat \<Rightarrow> x86_register" where
  "arch_reg P byte n =
    (if byte then (if rex P then gpr8_rex else gpr8_legacy)
     else if rex_w P then gpr64 else if operand_size P then gpr16 else gpr32) ! (n + (if rex_r P then 8 else 0))"

definition arch_base :: "prefixes \<Rightarrow> nat \<Rightarrow> x86_register" where
  "arch_base P n = (if address_size P then gpr32 else gpr64) ! (n + (if rex_b P then 8 else 0))"

text \<open>The same from the flags the decoder keeps.\<close>

definition prefix_view :: "u32 \<Rightarrow> prefixes" where
  "prefix_view pfx =
     \<lparr>operand_size = hasflag pfx OPERAND_SIZE_OVERRIDE, address_size = hasflag pfx ADDRESS_SIZE_OVERRIDE, rex = hasflag pfx REX,
      rex_w = hasflag pfx REX_W, rex_r = hasflag pfx REX_R, rex_x = hasflag pfx REX_X, rex_b = hasflag pfx REX_B\<rparr>"

lemma prefix_view_sel [simp]:
  "operand_size (prefix_view pfx) = hasflag pfx OPERAND_SIZE_OVERRIDE"
  "address_size (prefix_view pfx) = hasflag pfx ADDRESS_SIZE_OVERRIDE" "rex (prefix_view pfx) = hasflag pfx REX"
  "rex_w (prefix_view pfx) = hasflag pfx REX_W" "rex_r (prefix_view pfx) = hasflag pfx REX_R"
  "rex_b (prefix_view pfx) = hasflag pfx REX_B"
  by (simp_all add: prefix_view_def)

text \<open>The number little-endian bytes denote.\<close>

definition little_endian :: "u8 list \<Rightarrow> nat" where
  "little_endian bs = horner_sum unat 256 bs"

lemma le_word_number: "le_word bs = word_of_nat (little_endian bs)"
proof (induction bs)
  case (Cons b bs)
  have d: "ucast b AND push_bit 8 (le_word bs) = 0"
    by (rule bit_word_eqI) (auto simp: bit_simps dest: bit_imp_le_length)
  have u: "ucast b = (word_of_nat (unat b) :: u64)"
    by (rule bit_word_eqI) (auto simp: bit_simps bit_unsigned_iff)
  have "le_word (b # bs) = ucast b + push_bit 8 (le_word bs)"
    using d by (simp add: disjunctive_add_eq_or)
  also have "\<dots> = word_of_nat (unat b) + word_of_nat (little_endian bs) * 256"
    unfolding Cons.IH u by (simp add: push_bit_eq_mult)
  finally show ?case by (simp add: little_endian_def mult.commute)
qed (simp add: little_endian_def)

lemma less8_cases:
  assumes "(n::nat) < 8"
  shows "n = 0 \<or> n = 1 \<or> n = 2 \<or> n = 3 \<or> n = 4 \<or> n = 5 \<or> n = 6 \<or> n = 7"
  using assms by arith

lemma decode_reg_operand_wide:
  assumes "unat reg < 8"
  shows "decode_reg_operand oper pfx reg O_R16_32_64 =
    Inr (oper\<lparr>op_type := OPERAND_REGISTER, op_val := U_reg (arch_reg (prefix_view pfx) False (unat reg)),
              op_size := arch_width (prefix_view pfx) False\<rparr>)"
proof -
  consider "hasflag pfx REX_W" | "\<not> hasflag pfx REX_W" "hasflag pfx OPERAND_SIZE_OVERRIDE"
    | "\<not> hasflag pfx REX_W" "\<not> hasflag pfx OPERAND_SIZE_OVERRIDE" by blast
  then show ?thesis
    using less8_cases [OF assms]
    by cases (elim disjE; cases "hasflag pfx REX_R";
      simp add: decode_reg_operand_def select_reg_def switch8_def arch_reg_def arch_width_def
        by_size_def gpr64_def gpr32_def gpr16_def reg_operand_size_def)+
qed

lemma decode_reg_operand_byte:
  assumes "unat reg < 8" and "hasflag pfx REX_R \<Longrightarrow> hasflag pfx REX"
  shows "decode_reg_operand oper pfx reg O_R8 =
    Inr (oper\<lparr>op_type := OPERAND_REGISTER, op_val := U_reg (arch_reg (prefix_view pfx) True (unat reg)),
              op_size := arch_width (prefix_view pfx) True\<rparr>)"
proof -
  consider "hasflag pfx REX_R" "hasflag pfx REX" | "\<not> hasflag pfx REX_R" "hasflag pfx REX"
    | "\<not> hasflag pfx REX_R" "\<not> hasflag pfx REX" using assms(2) by blast
  then show ?thesis
    using less8_cases [OF assms(1)]
    by cases (elim disjE;
      simp add: decode_reg_operand_def select_reg_def switch8_def arch_reg_def arch_width_def
        gpr8_rex_def gpr8_legacy_def reg_operand_size_def)+
qed

lemma select_base_arch:
  assumes "unat rm < 8"
  shows "select_base pfx rm =
    (if unat rm = 4 \<or> unat rm = 5 then Inl Undecodable else Inr (arch_base (prefix_view pfx) (unat rm)))"
proof -
  have "rm = word_of_nat (unat rm)" by simp
  then show ?thesis
    using less8_cases [OF assms]
    by (cases "hasflag pfx REX_B"; elim disjE;
        simp add: select_base_def arch_base_def by_addr_def gpr64_def gpr32_def)
qed

subsection \<open>The decoder against the encoding tables\<close>

lemma modrm_fields:
  fixes val :: u8
  shows "unat (drop_bit 6 val AND 3) = unat val div 64"
    and "unat (drop_bit 3 val AND 7) = unat val div 8 mod 8"
    and "unat (val AND 7) = unat val mod 8"
proof -
  have m: "(3::u8) = mask 2" "(7::u8) = mask 3" by (simp_all add: mask_eq_exp_minus_1)
  have "unat val < 256" using unsigned_less [of val, where ?'a = nat] by simp
  then have "unat val div 64 < 4" by (simp add: less_mult_imp_div_less)
  then show "unat (drop_bit 6 val AND 3) = unat val div 64"
    by (simp only: m take_bit_eq_mask [symmetric] unsigned_take_bit_eq unat_drop_bit_eq)
       (simp add: take_bit_eq_mod drop_bit_eq_div)
  show "unat (drop_bit 3 val AND 7) = unat val div 8 mod 8"
    by (simp only: m take_bit_eq_mask [symmetric] unsigned_take_bit_eq unat_drop_bit_eq)
       (simp add: take_bit_eq_mod drop_bit_eq_div)
  show "unat (val AND 7) = unat val mod 8"
    by (simp only: m take_bit_eq_mask [symmetric] unsigned_take_bit_eq) (simp add: take_bit_eq_mod)
qed

definition add_prefix :: "u32 \<Rightarrow> u8 \<Rightarrow> u32" where
  "add_prefix p b = (case prefix_flags b of Some f \<Rightarrow> p OR f | None \<Rightarrow> p)"

definition flags_of :: "u8 list \<Rightarrow> u32" where
  "flags_of ps = foldl add_prefix NONE ps"

lemma prefix_flags_iff: "prefix_flags b \<noteq> None \<longleftrightarrow> is_prefix_byte b"
proof -
  have "0x40 \<le> b \<and> b \<le> 0x4f \<longleftrightarrow> unat b \<in> {64..79}"
    by (auto simp: word_le_nat_alt)
  also have "\<dots> \<longleftrightarrow> b \<in> word_of_nat ` {64..79}"
    by (auto simp: image_iff unat_of_nat intro: bexI [of _ "unat b"])
  finally show ?thesis
    by (auto simp: prefix_flags_def is_prefix_byte_def is_rex_def atLeastAtMost_upt upt_rec split: if_splits)
qed

text \<open>Each byte of the table sets the flags its number says.\<close>

lemma prefix_flags_meaning:
  "prefix_view (case prefix_flags b of Some f \<Rightarrow> f | None \<Rightarrow> NONE) = prefixes_of [b]"
proof (cases "is_prefix_byte b")
  case True
  have "is_rex b \<longleftrightarrow> unat b \<in> {64..79}" by (auto simp: is_rex_def word_le_nat_alt)
  also have "\<dots> \<longleftrightarrow> b \<in> word_of_nat ` {64..79}"
    by (auto simp: image_iff unat_of_nat intro: bexI [of _ "unat b"])
  finally have "b \<in> {0x66, 0x67, 0x40, 0x41, 0x42, 0x43, 0x44, 0x45, 0x46, 0x47, 0x48, 0x49, 0x4a, 0x4b, 0x4c, 0x4d, 0x4e, 0x4f}"
    using True by (auto simp: is_prefix_byte_def atLeastAtMost_upt upt_rec)
  then show ?thesis
    by (elim insertE emptyE; simp add: prefix_view_def prefixes_of_def prefix_flags_def hasflag_def prefix_defs rex_bit_def is_rex_def)
next
  case False
  then have "prefix_flags b = None" using prefix_flags_iff [of b] by blast
  with False show ?thesis
    by (simp add: prefix_view_def prefixes_of_def hasflag_def prefix_defs rex_bit_def is_prefix_byte_def)
qed

lemma prefix_flags_rex: "prefix_flags b = Some f \<Longrightarrow> hasflag f REX_R \<Longrightarrow> hasflag f REX"
  by (auto simp: prefix_flags_def hasflag_def prefix_defs split: if_splits)

lemma hasflag_OR: "hasflag (p OR q) f \<longleftrightarrow> hasflag p f \<or> hasflag q f"
  by (simp add: hasflag_def word_nonzero_flag_OR)

lemma read_prefixes_run:
  assumes "\<forall>b\<in>set ps. is_prefix_byte b" and "\<not> is_prefix_byte b"
  shows "read_prefixes p (ps @ b # code) =
    Inr (foldl add_prefix p ps, b # code)"
  using assms
proof (induction ps arbitrary: p)
  case Nil
  then have "prefix_flags b = None" using prefix_flags_iff by blast
  then show ?case by simp
next
  case (Cons a ps)
  then obtain f where "prefix_flags a = Some f" using prefix_flags_iff [of a] by auto
  with Cons show ?case by (simp add: add_prefix_def)
qed

lemma read_prefixes_split:
  assumes "read_prefixes p code = Inr (q, code')"
  shows "\<exists>ps b rest. code = ps @ b # rest \<and> code' = b # rest \<and> (\<forall>b\<in>set ps. is_prefix_byte b)
     \<and> \<not> is_prefix_byte b"
  using assms
proof (induction p code rule: read_prefixes.induct)
  case (1 p)
  then show ?case by simp
next
  case (2 p b code)
  show ?case
  proof (cases "prefix_flags b")
    case None
    with "2.prems" prefix_flags_iff [of b] show ?thesis by (intro exI [of _ "[]"]) auto
  next
    case (Some f)
    with 2 obtain ps c rest where "code = ps @ c # rest" "code' = c # rest"
      "\<forall>b\<in>set ps. is_prefix_byte b" "\<not> is_prefix_byte c" by auto
    with Some prefix_flags_iff [of b] show ?thesis by (intro exI [of _ "b # ps"]) auto
  qed
qed

text \<open>The flags read_prefixes gathers say what the bytes say.\<close>

lemma add_prefix_view:
  "prefix_view (add_prefix p b) =
    (let P = prefix_view p; Q = prefixes_of [b]
     in \<lparr>operand_size = (operand_size P \<or> operand_size Q), address_size = (address_size P \<or> address_size Q),
         rex = (rex P \<or> rex Q), rex_w = (rex_w P \<or> rex_w Q), rex_r = (rex_r P \<or> rex_r Q), rex_x = (rex_x P \<or> rex_x Q),
         rex_b = (rex_b P \<or> rex_b Q)\<rparr>)"
  unfolding prefix_flags_meaning [symmetric] Let_def
  by (cases "prefix_flags b") (simp_all add: add_prefix_def prefix_view_def hasflag_OR, simp_all add: hasflag_def NONE_def)

lemma flags_of_view: "prefix_view (flags_of ps) = prefixes_of ps"
proof (induction ps rule: rev_induct)
  case Nil
  then show ?case by (simp add: flags_of_def prefix_view_def prefixes_of_def hasflag_def NONE_def)
next
  case (snoc b ps)
  have "prefix_view (flags_of (ps @ [b])) = prefix_view (add_prefix (flags_of ps) b)" by (simp add: flags_of_def)
  also have "\<dots> = prefixes_of (ps @ [b])"
    unfolding add_prefix_view Let_def snoc.IH by (simp add: prefixes_of_def) blast
  finally show ?case .
qed

lemma add_prefix_rex:
  "(hasflag p REX_R \<longrightarrow> hasflag p REX) \<Longrightarrow> hasflag (add_prefix p b) REX_R \<longrightarrow> hasflag (add_prefix p b) REX"
  by (auto simp: add_prefix_def hasflag_OR dest: prefix_flags_rex split: option.splits)

lemma flags_of_rex: "hasflag (flags_of ps) REX_R \<Longrightarrow> hasflag (flags_of ps) REX"
proof -
  have "hasflag p REX_R \<longrightarrow> hasflag p REX \<Longrightarrow>
      hasflag (foldl add_prefix p ps) REX_R \<longrightarrow> hasflag (foldl add_prefix p ps) REX" for p
    by (induction ps arbitrary: p) (simp_all add: add_prefix_rex)
  moreover have "\<not> hasflag NONE REX_R" by (simp add: hasflag_def NONE_def)
  ultimately show "hasflag (flags_of ps) REX_R \<Longrightarrow> hasflag (flags_of ps) REX"
    unfolding flags_of_def by blast
qed

text \<open>The encodings the decoder accepts: MOV between a register and memory through a ModRM
  byte, and MOV from an absolute 64-bit offset.\<close>

datatype mov_encoding =
    Mov_modrm (enc_prefixes: "u8 list") (enc_opcode: u8) (enc_modrm: u8) (enc_disp: "u8 list")
  | Mov_moffs (enc_prefixes: "u8 list") (enc_off: "u8 list")

definition disp_length :: "nat \<Rightarrow> nat" where
  "disp_length md = (if md = 0 then 0 else if md = 1 then 1 else 4)"

fun valid_encoding :: "mov_encoding \<Rightarrow> bool" where
  "valid_encoding (Mov_modrm ps opc val ds) \<longleftrightarrow>
     list_all is_prefix_byte ps \<and> opc \<in> {0x88, 0x89, 0x8a, 0x8b}
     \<and> unat val div 64 < 3 \<and> unat val mod 8 \<noteq> 4 \<and> unat val mod 8 \<noteq> 5
     \<and> length ds = disp_length (unat val div 64)"
| "valid_encoding (Mov_moffs ps os) \<longleftrightarrow> list_all is_prefix_byte ps \<and> length os = 8"

fun encoding_bytes :: "mov_encoding \<Rightarrow> u8 list" where
  "encoding_bytes (Mov_modrm ps opc val ds) = ps @ [opc, val] @ ds"
| "encoding_bytes (Mov_moffs ps os) = ps @ [0xa1] @ os"

definition mov_operands :: "u8 \<Rightarrow> instruction \<Rightarrow> prefixes \<Rightarrow> u8 \<Rightarrow> u8 list \<Rightarrow> instruction" where
  "mov_operands opc inst P val ds =
    (let byte = (opc = 0x88 \<or> opc = 0x8a); store = (opc = 0x88 \<or> opc = 0x89);
         regop = (\<lambda>oper. oper\<lparr>op_type := OPERAND_REGISTER,
                   op_val := U_reg (arch_reg P byte (unat val div 8 mod 8)),
                   op_size := arch_width P byte\<rparr>);
         memop = (\<lambda>oper. oper\<lparr>op_type := OPERAND_MEMORY,
                   op_val := U_mem (word_of_nat (little_endian ds)) (arch_base P (unat val mod 8)) 0 REG_RIZ\<rparr>)
     in inst\<lparr>inst_opcode := INST_MOV,
             operand0 := (if store then regop else memop) (operand0 inst),
             operand1 := (if store then memop else regop) (operand1 inst)\<rparr>)"

fun encoded_instruction :: "instruction \<Rightarrow> mov_encoding \<Rightarrow> instruction" where
  "encoded_instruction inst (Mov_modrm ps opc val ds) =
     (mov_operands opc inst (prefixes_of ps) val ds)
       \<lparr>inst_length := length (encoding_bytes (Mov_modrm ps opc val ds))\<rparr>"
| "encoded_instruction inst (Mov_moffs ps os) =
     inst\<lparr>inst_opcode := INST_MOV,
          inst_length := length (encoding_bytes (Mov_moffs ps os)),
          operand0 := (operand0 inst)\<lparr>op_type := OPERAND_MEM_OFF, op_val := U_mem_off (word_of_nat (little_endian os))\<rparr>,
          operand1 := (operand1 inst)\<lparr>op_type := OPERAND_REGISTER,
            op_val := U_reg (if operand_size (prefixes_of ps) then REG_RAX else REG_EAX)\<rparr>\<rparr>"

lemma little_endian_simps [simp]:
  "little_endian [] = 0" "little_endian (b # bs) = unat b + 256 * little_endian bs"
  by (simp_all add: little_endian_def)

lemma le_word_32: "(ucast (le_word bs) :: u32) = word_of_nat (little_endian bs)"
  unfolding le_word_number
  by (simp add: word_unat_eq_iff unsigned_ucast_eq unsigned_of_nat take_bit_take_bit)

lemma disp_byte: "(word_of_nat (unat d) :: u32) = ucast (d :: u8)"
  by (rule bit_word_eqI) (auto simp: bit_simps bit_unsigned_iff)

lemma read_bytes_append: "length bs = n \<Longrightarrow> read_bytes n (bs @ rest) = Inr (le_word bs, rest)"
  by (simp add: read_bytes_def)

lemma read_bytes_InrE:
  assumes "read_bytes n code = Inr (w, rest)"
  obtains bs where "code = bs @ rest" "length bs = n" "w = le_word bs"
  using assms by (metis append_take_drop_id length_take min.absorb2 read_bytes_def old.sum.inject(2) prod.inject sum.distinct(2))

lemma next_byte_Inr: "next_byte code = Inr (b, rest) \<longleftrightarrow> code = b # rest"
  by (cases code) auto

lemma decode_rm_operand_iff:
  assumes "unat md < 4" and "unat rm < 8"
  shows "decode_rm_operand code oper pfx md rm = Inr (oper', rest) \<longleftrightarrow>
    (\<exists>ds. code = ds @ rest \<and> length ds = disp_length (unat md) \<and> unat md < 3
      \<and> unat rm \<noteq> 4 \<and> unat rm \<noteq> 5
      \<and> oper' = oper\<lparr>op_type := OPERAND_MEMORY,
          op_val := U_mem (word_of_nat (little_endian ds)) (arch_base (prefix_view pfx) (unat rm)) 0 REG_RIZ\<rparr>)"
proof -
  have "unat md = 0 \<or> unat md = 1 \<or> unat md = 2 \<or> unat md = 3" using assms(1) by arith
  then have "md = 0 \<or> md = 1 \<or> md = 2 \<or> md = 3"
    by (elim disjE) (drule word_eq_of_unat, simp)+
  then consider (0) "md = 0" | (1) "md = 1" | (2) "md = 2" | (3) "md = 3" by blast
  then show ?thesis
  proof cases
    case 1
    show ?thesis
      by (cases code)
         (auto simp: 1 decode_rm_operand_def select_base_arch [OF assms(2)] disp_length_def
           length_Suc_conv disp_byte)
  next
    case 2
    show ?thesis
      by (auto simp: 2 decode_rm_operand_def select_base_arch [OF assms(2)] disp_length_def
          read_bytes_append le_word_32 elim!: read_bytes_InrE)
  qed (auto simp: decode_rm_operand_def select_base_arch [OF assms(2)] disp_length_def)
qed

lemma read_modrm_Cons:
  "read_modrm (val # code) =
     Inr (\<lparr>mrm_mod = drop_bit 6 val AND 3, mrm_reg = drop_bit 3 val AND 7, mrm_rm = val AND 7\<rparr>, code)"
  by simp

lemma decode_mov_modrm_iff:
  assumes "hasflag pfx REX_R \<Longrightarrow> hasflag pfx REX"
    and "(opc, src, dst) \<in> {(0x88, O_R8, O_R_M8), (0x89, O_R16_32_64, O_R_M16_32_64),
      (0x8a, O_R_M8, O_R8), (0x8b, O_R_M16_32_64, O_R16_32_64)}"
  shows "decode_mov pfx code inst src dst = Inr (inst', rest) \<longleftrightarrow>
    (\<exists>val ds. code = val # ds @ rest \<and> unat val div 64 < 3 \<and> unat val mod 8 \<noteq> 4
       \<and> unat val mod 8 \<noteq> 5 \<and> length ds = disp_length (unat val div 64)
       \<and> inst' = mov_operands opc inst (prefix_view pfx) val ds)"
proof (cases code)
  case Nil
  with assms(2) show ?thesis by (auto simp: decode_mov_def)
next
  case (Cons val code')
  have b: "unat (drop_bit 6 val AND 3) < 4" "unat (val AND 7) < 8" "unat (drop_bit 3 val AND 7) < 8"
    using unsigned_less [of val, where ?'a = nat] by (simp_all add: modrm_fields less_mult_imp_div_less)
  note reg = decode_reg_operand_wide [OF b(3), unfolded modrm_fields]
    decode_reg_operand_byte [OF b(3) assms(1), unfolded modrm_fields]
  have d: "unat (drop_bit 3 val) = unat val div 8"
    by (simp only: unat_drop_bit_eq) (simp add: drop_bit_eq_div)
  note rm = decode_rm_operand_iff [OF b(1,2), unfolded modrm_fields]
  have x: "(\<exists>val ds. val' # code' = val # ds @ rest \<and> P val ds) \<longleftrightarrow> (\<exists>ds. code' = ds @ rest \<and> P val' ds)"
    for P val' by blast
  from assms(2) show ?thesis
    unfolding Cons x
    by (elim insertE emptyE; simp add: decode_mov_def reg mov_operands_def bindE_eq_Inr rm d; auto)
qed

lemma read_opcode_Cons:
  "read_opcode (b # code) = (if b = 0x0f then bindE (next_byte code) (\<lambda>(b, code'). Inr (0x100 OR ucast b, code'))
     else Inr (ucast b, code))"
  by (simp add: read_opcode_def)

lemma read_prefixes_flags:
  assumes "list_all is_prefix_byte ps" and "\<not> is_prefix_byte b"
  shows "read_prefixes NONE (ps @ b # code) = Inr (flags_of ps, b # code)"
  using assms read_prefixes_run [of ps b] by (simp add: flags_of_def list_all_iff)

lemma opcode_not_prefix: "opc \<in> {0x88, 0x89, 0x8a, 0x8b, 0xa1} \<Longrightarrow> \<not> is_prefix_byte opc"
  by (auto simp: is_prefix_byte_def is_rex_def)

lemma opcode_facts:
  fixes b :: u8
  shows "(0x100 OR ucast b :: u16) \<noteq> 0xa1" "(0x100 OR ucast b :: u16) \<noteq> 0x88"
    "(0x100 OR ucast b :: u16) \<noteq> 0x89" "(0x100 OR ucast b :: u16) \<noteq> 0x8a"
    "(0x100 OR ucast b :: u16) \<noteq> 0x8b" "(0x100 OR ucast b :: u16) \<noteq> 0xc7"
    "(0x100 OR ucast b :: u16) \<noteq> 0xcd"
proof -
  have "bit (0x100 OR ucast b :: u16) 8" by (simp add: bit_simps)
  moreover have "\<not> bit (0xa1::u16) 8" "\<not> bit (0x88::u16) 8" "\<not> bit (0x89::u16) 8"
    "\<not> bit (0x8a::u16) 8" "\<not> bit (0x8b::u16) 8" "\<not> bit (0xc7::u16) 8" "\<not> bit (0xcd::u16) 8"
    by simp_all
  ultimately show "(0x100 OR ucast b :: u16) \<noteq> 0xa1" "(0x100 OR ucast b :: u16) \<noteq> 0x88"
    "(0x100 OR ucast b :: u16) \<noteq> 0x89" "(0x100 OR ucast b :: u16) \<noteq> 0x8a"
    "(0x100 OR ucast b :: u16) \<noteq> 0x8b" "(0x100 OR ucast b :: u16) \<noteq> 0xc7"
    "(0x100 OR ucast b :: u16) \<noteq> 0xcd"
    by metis+
qed

lemma ucast_u8_u16_eq: "ucast (b::u8) = (word_of_nat n :: u16) \<longleftrightarrow> b = word_of_nat n" if "n < 256"
proof
  assume "ucast b = (word_of_nat n :: u16)"
  then have "unat (ucast b :: u16) = unat (word_of_nat n :: u16)" by simp
  then have "unat b = n" using that unsigned_less [of b, where ?'a = nat]
    by (simp add: unsigned_ucast_eq unsigned_of_nat take_bit_nat_eq_self)
  then show "b = word_of_nat n" by auto
next
  assume "b = word_of_nat n"
  with that show "ucast b = (word_of_nat n :: u16)"
    by (simp add: unsigned_of_nat take_bit_nat_eq_self)
qed

lemma ucast_opcode:
  fixes b :: u8
  shows "(ucast b :: u16) = 0xa1 \<longleftrightarrow> b = 0xa1" "(ucast b :: u16) = 0x88 \<longleftrightarrow> b = 0x88"
    "(ucast b :: u16) = 0x89 \<longleftrightarrow> b = 0x89" "(ucast b :: u16) = 0x8a \<longleftrightarrow> b = 0x8a"
    "(ucast b :: u16) = 0x8b \<longleftrightarrow> b = 0x8b" "(ucast b :: u16) = 0xc7 \<longleftrightarrow> b = 0xc7"
    "(ucast b :: u16) = 0xcd \<longleftrightarrow> b = 0xcd"
  using ucast_u8_u16_eq [of "0xa1" b] ucast_u8_u16_eq [of "0x88" b] ucast_u8_u16_eq [of "0x89" b]
    ucast_u8_u16_eq [of "0x8a" b] ucast_u8_u16_eq [of "0x8b" b] ucast_u8_u16_eq [of "0xc7" b]
    ucast_u8_u16_eq [of "0xcd" b] by simp_all

lemma decode_mov_moffs_iff:
  "decode_mov pfx code inst O_MOFFS_16_32_64 O_RAX = Inr (inst', rest) \<longleftrightarrow>
    (\<exists>os. code = os @ rest \<and> length os = 8 \<and>
      inst' = inst\<lparr>inst_opcode := INST_MOV,
          operand0 := (operand0 inst)\<lparr>op_type := OPERAND_MEM_OFF, op_val := U_mem_off (word_of_nat (little_endian os))\<rparr>,
          operand1 := (operand1 inst)\<lparr>op_type := OPERAND_REGISTER,
            op_val := U_reg (if hasflag pfx OPERAND_SIZE_OVERRIDE then REG_RAX else REG_EAX)\<rparr>\<rparr>)"
  by (auto simp: decode_mov_def read_bytes_append le_word_number elim!: read_bytes_InrE)

lemma decode_instruction_exact:
  "decode_instruction code inst = Inr inst' \<longleftrightarrow>
    (\<exists>enc rest. valid_encoding enc \<and> code = encoding_bytes enc @ rest
       \<and> inst' = encoded_instruction inst enc)"
proof
  assume "decode_instruction code inst = Inr inst'"
  then obtain p code1 opc code2 i code3 where
    pre: "read_prefixes NONE code = Inr (p, code1)" and
    opc: "read_opcode code1 = Inr (opc, code2)" and
    body: "(if opc = 0xa1 then decode_mov p code2 inst O_MOFFS_16_32_64 O_RAX
            else if opc = 0x88 then decode_mov p code2 inst O_R8 O_R_M8
            else if opc = 0x89 then decode_mov p code2 inst O_R16_32_64 O_R_M16_32_64
            else if opc = 0x8a then decode_mov p code2 inst O_R_M8 O_R8
            else if opc = 0x8b then decode_mov p code2 inst O_R_M16_32_64 O_R16_32_64
            else Inl Undecodable) = Inr (i, code3)" and
    res: "inst' = i\<lparr>inst_length := length code - length code3\<rparr>"
    by (auto simp: decode_instruction_def decode_mov_def split: if_splits)
  from read_prefixes_split [OF pre] obtain ps b rest where
    code: "code = ps @ b # rest" "code1 = b # rest" and ps: "list_all is_prefix_byte ps"
    and nb: "\<not> is_prefix_byte b" by (auto simp: list_all_iff)
  have p: "p = flags_of ps" using pre read_prefixes_flags [OF ps nb] code by simp
  have rex: "hasflag p REX_R \<Longrightarrow> hasflag p REX" using p flags_of_rex by simp
  have b: "opc = ucast b" "code2 = rest" "b \<noteq> 0x0f"
    using opc body code(2) opcode_facts by (auto simp: read_opcode_Cons split: if_splits)
  from body consider (moffs) "b = 0xa1" "decode_mov p code2 inst O_MOFFS_16_32_64 O_RAX = Inr (i, code3)"
    | (modrm) src dst where "(b, src, dst) \<in> {(0x88, O_R8, O_R_M8), (0x89, O_R16_32_64, O_R_M16_32_64),
      (0x8a, O_R_M8, O_R8), (0x8b, O_R_M16_32_64, O_R16_32_64)}" "decode_mov p code2 inst src dst = Inr (i, code3)"
    by (auto simp: b(1) ucast_opcode split: if_splits)
  then show "\<exists>enc rest. valid_encoding enc \<and> code = encoding_bytes enc @ rest
       \<and> inst' = encoded_instruction inst enc"
  proof cases
    case moffs
    then obtain os where "rest = os @ code3" "length os = 8" by (auto simp: decode_mov_moffs_iff b)
    with moffs ps show ?thesis
      by (intro exI [of _ "Mov_moffs ps os"] exI [of _ code3])
         (auto simp: decode_mov_moffs_iff b code res p flags_of_view [symmetric])
  next
    case modrm
    from modrm(2) obtain val ds where v: "rest = val # ds @ code3" "unat val div 64 < 3"
      "unat val mod 8 \<noteq> 4" "unat val mod 8 \<noteq> 5" "length ds = disp_length (unat val div 64)"
      "i = mov_operands b inst (prefix_view p) val ds"
      by (auto simp: decode_mov_modrm_iff [OF rex modrm(1)] b)
    with modrm(1) ps show ?thesis
      by (intro exI [of _ "Mov_modrm ps b val ds"] exI [of _ code3])
         (auto simp: code res p flags_of_view)
  qed
next
  assume "\<exists>enc rest. valid_encoding enc \<and> code = encoding_bytes enc @ rest
       \<and> inst' = encoded_instruction inst enc"
  then obtain enc rest where v: "valid_encoding enc" "code = encoding_bytes enc @ rest"
    "inst' = encoded_instruction inst enc" by blast
  show "decode_instruction code inst = Inr inst'"
  proof (cases enc)
    case (Mov_moffs ps os)
    with v show ?thesis
      by (simp add: decode_instruction_def read_prefixes_flags opcode_not_prefix read_opcode_Cons flags_of_view [symmetric]
          iffD2 [OF decode_mov_moffs_iff, OF exI [of _ os]])
  next
    case (Mov_modrm ps opc val ds)
    with v(1) obtain src dst where k: "(opc, src, dst) \<in> {(0x88, O_R8, O_R_M8), (0x89, O_R16_32_64, O_R_M16_32_64),
      (0x8a, O_R_M8, O_R8), (0x8b, O_R_M16_32_64, O_R16_32_64)}" by auto
    have "decode_mov (flags_of ps) (val # ds @ rest) inst src dst = Inr (mov_operands opc inst (prefix_view (flags_of ps)) val ds, rest)"
      using v(1) Mov_modrm by (simp add: decode_mov_modrm_iff [OF flags_of_rex k] exI [of _ ds])
    with v Mov_modrm k show ?thesis
      by (auto simp: decode_instruction_def read_prefixes_flags opcode_not_prefix read_opcode_Cons flags_of_view)
  qed
qed

subsection \<open>The bytes the decoder does not decode\<close>

text \<open>
  What becomes of a ModRM byte with the bytes behind it: 11 in its upper bits names a register, and 4 and 5 in its lower
  bits a second address byte and an address relative to rip; these are not supported.
\<close>

definition modrm_failure :: "u8 \<Rightarrow> u8 list \<Rightarrow> decode_fault option" where
  "modrm_failure val ds =
    (if unat val div 64 = 3 then Some Undecodable
     else if length ds < disp_length (unat val div 64) then Some ReadPastEnd
     else if unat val mod 8 = 4 \<or> unat val mod 8 = 5 then Some Undecodable else None)"

definition decode_failure :: "u8 list \<Rightarrow> decode_fault option" where
  "decode_failure code =
    (case dropWhile is_prefix_byte code of
       [] \<Rightarrow> Some ReadPastEnd
     | b # rest \<Rightarrow>
         if b = 0x0f then Some (if rest = [] then ReadPastEnd else Undecodable)
         else if b = 0xcd then Some (if rest = [] then ReadPastEnd else NoReturnValue)
         else if b = 0xa1 then (if length rest < 8 then Some ReadPastEnd else None)
         else if b \<in> {0x88, 0x89, 0x8a, 0x8b} then
           (case rest of [] \<Rightarrow> Some ReadPastEnd | val # ds \<Rightarrow> modrm_failure val ds)
         else Some Undecodable)"

lemma read_prefixes_while:
  "read_prefixes p code =
    (case dropWhile is_prefix_byte code of
       [] \<Rightarrow> Inl ReadPastEnd | b # rest \<Rightarrow> Inr (foldl add_prefix p (takeWhile is_prefix_byte code), b # rest))"
proof (induction code arbitrary: p)
  case (Cons b code)
  show ?case
  proof (cases "prefix_flags b")
    case None
    then have "\<not> is_prefix_byte b" using prefix_flags_iff by blast
    then show ?thesis using None by simp
  next
    case (Some f)
    then have "is_prefix_byte b" using prefix_flags_iff by blast
    then show ?thesis
      using Some Cons.IH
      by (cases "dropWhile is_prefix_byte code") (simp_all add: add_prefix_def del: dropWhile_eq_Nil_conv)
  qed
qed simp

lemma decode_rm_operand_fails:
  assumes "unat md < 4" and "unat rm < 8"
  shows "decode_rm_operand code oper pfx md rm = Inl f \<longleftrightarrow>
    (if unat md = 3 then f = Undecodable
     else if length code < disp_length (unat md) then f = ReadPastEnd
     else (unat rm = 4 \<or> unat rm = 5) \<and> f = Undecodable)"
proof -
  have "unat md = 0 \<or> unat md = 1 \<or> unat md = 2 \<or> unat md = 3" using assms(1) by arith
  then have "md = 0 \<or> md = 1 \<or> md = 2 \<or> md = 3"
    by (elim disjE) (drule word_eq_of_unat, simp)+
  then show ?thesis
    by (elim disjE; cases code)
       (auto simp: decode_rm_operand_def select_base_arch [OF assms(2)] disp_length_def read_bytes_def)
qed

lemma decode_mov_modrm_fails:
  assumes "hasflag pfx REX_R \<Longrightarrow> hasflag pfx REX"
    and "(opc, src, dst) \<in> {(0x88, O_R8, O_R_M8), (0x89, O_R16_32_64, O_R_M16_32_64),
      (0x8a, O_R_M8, O_R8), (0x8b, O_R_M16_32_64, O_R16_32_64)}"
  shows "decode_mov pfx code inst src dst = Inl f \<longleftrightarrow>
    (case code of [] \<Rightarrow> f = ReadPastEnd | val # ds \<Rightarrow> modrm_failure val ds = Some f)"
proof (cases code)
  case Nil
  with assms(2) show ?thesis by (auto simp: decode_mov_def)
next
  case (Cons val code')
  have b: "unat (drop_bit 6 val AND 3) < 4" "unat (val AND 7) < 8" "unat (drop_bit 3 val AND 7) < 8"
    using unsigned_less [of val, where ?'a = nat] by (simp_all add: modrm_fields less_mult_imp_div_less)
  note reg = decode_reg_operand_wide [OF b(3)] decode_reg_operand_byte [OF b(3) assms(1)]
  have rm: "bindE (decode_rm_operand code' oper pfx (drop_bit 6 val AND 3) (val AND 7)) (\<lambda>(x, y). Inr (g x, y)) = Inl f \<longleftrightarrow>
      modrm_failure val code' = Some f" for oper and g :: "operand \<Rightarrow> instruction"
    using decode_rm_operand_fails [OF b(1,2), of code' oper pfx f, unfolded modrm_fields]
    by (cases "decode_rm_operand code' oper pfx (drop_bit 6 val AND 3) (val AND 7)")
       (auto simp: modrm_failure_def split: if_splits)
  from assms(2) show ?thesis
    unfolding Cons by (elim insertE emptyE; simp add: decode_mov_def reg rm)
qed

lemma decode_instruction_fails: "decode_instruction code inst = Inl f \<longleftrightarrow> decode_failure code = Some f"
proof (cases "dropWhile is_prefix_byte code")
  case Nil
  have "read_prefixes NONE code = Inl ReadPastEnd" unfolding read_prefixes_while Nil list.case ..
  moreover have "decode_failure code = Some ReadPastEnd" unfolding decode_failure_def Nil by simp
  ultimately show ?thesis by (auto simp: decode_instruction_def)
next
  case (Cons b rest)
  let ?p = "flags_of (takeWhile is_prefix_byte code)"
  have pre: "read_prefixes NONE code = Inr (?p, b # rest)"
    by (simp add: read_prefixes_while Cons flags_of_def)
  note R = decode_mov_modrm_fails [OF flags_of_rex]
  have after: "bindE m (\<lambda>(i, c). Inr (g i c)) = Inl f \<longleftrightarrow> m = Inl f"
    for m :: "decode_fault + instruction \<times> u8 list" and g :: "instruction \<Rightarrow> u8 list \<Rightarrow> instruction"
    by (cases m) auto
  have moffs: "decode_mov ?p rest inst O_MOFFS_16_32_64 O_RAX = Inl f \<longleftrightarrow> length rest < 8 \<and> f = ReadPastEnd"
    by (auto simp: decode_mov_def read_bytes_def)
  have imm: "decode_mov ?p rest inst O_IMM16_32 O_R_M16_32_64 = Inl f \<longleftrightarrow> f = Undecodable"
    by (auto simp: decode_mov_def)
  have int: "bindE (decode_int ?p rest inst) (\<lambda>_. Inl NoReturnValue :: decode_fault + instruction \<times> u8 list) = Inl f \<longleftrightarrow>
      f = (if rest = [] then ReadPastEnd else NoReturnValue)"
    by (cases rest) (auto simp: decode_int_def)
  show ?thesis
  proof (cases "b = 0x0f")
    case True
    then show ?thesis
      by (cases rest) (auto simp: decode_instruction_def pre read_opcode_Cons opcode_facts decode_failure_def Cons)
  next
    case False
    then show ?thesis
      unfolding decode_instruction_def pre
      by (auto simp: read_opcode_Cons after ucast_opcode moffs imm int decode_failure_def Cons
          R [where opc = "0x88"] R [where opc = "0x89"] R [where opc = "0x8a"] R [where opc = "0x8b"] split: list.splits)
  qed
qed

text \<open>Nine bytes behind the prefixes are always enough.\<close>

lemma decode_failure_end:
  assumes "decode_failure code = Some ReadPastEnd"
  shows "length code < length (takeWhile is_prefix_byte code) + 9"
proof -
  have "length (dropWhile is_prefix_byte code) < 9"
    using assms
    by (cases "dropWhile is_prefix_byte code")
       (auto simp: decode_failure_def modrm_failure_def disp_length_def simp del: dropWhile_eq_Nil_conv split: list.splits if_splits)
  then show ?thesis
    by (metis length_append takeWhile_dropWhile_id nat_add_left_cancel_less)
qed

lemma decode_failure_int:
  "decode_failure code = Some NoReturnValue \<longleftrightarrow>
    (\<exists>ps imm rest. list_all is_prefix_byte ps \<and> code = ps @ 0xcd # imm # rest)"
proof
  assume f: "decode_failure code = Some NoReturnValue"
  then obtain imm rest where "dropWhile is_prefix_byte code = 0xcd # imm # rest"
    by (auto simp: decode_failure_def modrm_failure_def neq_Nil_conv split: list.splits if_splits)
  then have "code = takeWhile is_prefix_byte code @ 0xcd # imm # rest" by (metis takeWhile_dropWhile_id)
  moreover have "list_all is_prefix_byte (takeWhile is_prefix_byte code)"
    by (auto simp: list_all_iff dest: set_takeWhileD)
  ultimately show "\<exists>ps imm rest. list_all is_prefix_byte ps \<and> code = ps @ 0xcd # imm # rest" by blast
next
  assume "\<exists>ps imm rest. list_all is_prefix_byte ps \<and> code = ps @ 0xcd # imm # rest"
  then obtain ps imm rest where ps: "list_all is_prefix_byte ps" and code: "code = ps @ 0xcd # imm # rest" by blast
  have "\<not> is_prefix_byte 0xcd" by (simp add: is_prefix_byte_def is_rex_def)
  then have "dropWhile is_prefix_byte code = 0xcd # imm # rest"
    using ps unfolding code by (subst dropWhile_append2) (auto simp: list_all_iff)
  then show "decode_failure code = Some NoReturnValue" by (simp add: decode_failure_def)
qed

text \<open>
  C21: decode_instruction accepts exactly the supported encodings: any run of prefix bytes (66, 67, 40 to 4f), then a MOV
  opcode 88, 89, 8a or 8b whose ModRM byte names a memory operand with a base register and no second address byte,
  with its 0, 1 or 4 displacement bytes, or the opcode a1 with an 8-byte offset. It then reports the length of the encoding, whatever
  bytes follow, and the operands its bytes name: the register and base from the field of the ModRM byte with R or B of the REX
  prefixes as fourth bit (all REX prefixes of the run are united), the width of the register operand from W and 66, the
  width of the base from 67, and the displacement as the unsigned number its bytes denote (the architecture extends the sign of a
  displacement of one byte; the code does not). For a1 the register is rax with 66 and eax without, which is the code's choice
  and not the architecture's. The offset of a1 has 8 bytes whatever the
  address size. The size of a memory operand, and of the register of a1, is left as it was. On every other list
  of bytes the result is the one decode_failure names: 0 (Undecodable) for an opcode or a ModRM byte that is not supported, no defined
  result (NoReturnValue) for the opcode cd, after which decode_int returns no value, and ReadPastEnd when the list given
  ends too early, which happens only when fewer than 9 bytes follow its prefixes.
\<close>

theorem decode_instruction_iff:
  "(decode_instruction code inst = Inr inst' \<longleftrightarrow>
    (\<exists>enc rest. valid_encoding enc \<and> code = encoding_bytes enc @ rest \<and> inst' = encoded_instruction inst enc)) \<and>
   (decode_instruction code inst = Inl f \<longleftrightarrow> decode_failure code = Some f) \<and>
   (decode_instruction code inst = Inl ReadPastEnd \<longrightarrow> length code < length (takeWhile is_prefix_byte code) + 9)"
  using decode_instruction_exact decode_instruction_fails decode_failure_end by blast

text \<open>A store of r9w at r8d + 0xfc: the prefixes 66 and 67 and the REX prefix 45, which is R and B.\<close>

definition blank_operand :: operand where
  "blank_operand = \<lparr>op_type = OPERAND_IMMEDIATE, op_size = 0, op_val = U_imm_val 0\<rparr>"

definition blank_instruction :: instruction where
  "blank_instruction = \<lparr>inst_opcode = INST_INT, inst_length = 0, operand0 = blank_operand, operand1 = blank_operand\<rparr>"

lemma decode_instruction_iff_witness:
  "decode_instruction [0x67, 0x66, 0x45, 0x89, 0x48, 0xfc, 0x90] blank_instruction =
     Inr \<lparr>inst_opcode = INST_MOV, inst_length = 6, operand0 = \<lparr>op_type = OPERAND_REGISTER, op_size = 2, op_val = U_reg REG_R9W\<rparr>,
       operand1 = \<lparr>op_type = OPERAND_MEMORY, op_size = 0, op_val = U_mem 0xfc REG_R8D 0 REG_RIZ\<rparr>\<rparr> \<and>
   decode_instruction [0x48, 0xcd, 0x80] blank_instruction = Inl NoReturnValue"
proof -
  let ?enc = "Mov_modrm [0x67, 0x66, 0x45] 0x89 0x48 [0xfc]"
  have p: "prefixes_of [0x67, 0x66, 0x45] =
      \<lparr>operand_size = True, address_size = True, rex = True, rex_w = False, rex_r = True, rex_x = False, rex_b = True\<rparr>"
    by (simp add: prefixes_of_def rex_bit_def is_rex_def)
  have "encoded_instruction blank_instruction ?enc = \<lparr>inst_opcode = INST_MOV, inst_length = 6,
      operand0 = \<lparr>op_type = OPERAND_REGISTER, op_size = 2, op_val = U_reg REG_R9W\<rparr>,
      operand1 = \<lparr>op_type = OPERAND_MEMORY, op_size = 0, op_val = U_mem 0xfc REG_R8D 0 REG_RIZ\<rparr>\<rparr>"
    by (simp add: p mov_operands_def blank_instruction_def blank_operand_def arch_reg_def arch_width_def arch_base_def
        gpr16_def gpr32_def)
  moreover have "valid_encoding ?enc"
    by (simp add: is_prefix_byte_def is_rex_def disp_length_def)
  moreover have "[0x67, 0x66, 0x45, 0x89, 0x48, 0xfc, 0x90] = encoding_bytes ?enc @ [0x90]" by simp
  moreover have n: "decode_failure [0x48, 0xcd, 0x80] = Some NoReturnValue"
    by (simp add: decode_failure_def is_prefix_byte_def is_rex_def)
  ultimately have "decode_instruction [0x67, 0x66, 0x45, 0x89, 0x48, 0xfc, 0x90] blank_instruction =
     Inr \<lparr>inst_opcode = INST_MOV, inst_length = 6, operand0 = \<lparr>op_type = OPERAND_REGISTER, op_size = 2, op_val = U_reg REG_R9W\<rparr>,
       operand1 = \<lparr>op_type = OPERAND_MEMORY, op_size = 0, op_val = U_mem 0xfc REG_R8D 0 REG_RIZ\<rparr>\<rparr>"
    by (intro iffD2 [OF decode_instruction_iff [THEN conjunct1]] exI [of _ ?enc] exI [of _ "[0x90]"]) simp
  then show ?thesis
    by (intro conjI iffD2 [OF decode_instruction_iff [THEN conjunct2, THEN conjunct1]] n)
qed

end
