(* ===== verification/Printf.thy ===== *)
theory Printf
  imports Sim_Prelude
begin

section \<open>Formatted output (util/printf.c)\<close>

text \<open>
  vsnprintf writes through a char pointer that runs along a caller's array. The model keeps
  the array as a list of characters of fixed length; every store and load checks its index and
  faults with OutOfBounds, so that memory safety is a theorem about the result. The pointer
  buffer is always buffer_base + count (every branch advances both by the same amount) and is
  kept as the index count.

  The variable arguments are a list of slots. A number is a 64-bit slot, read at the width the
  conversion asks for; a string is the characters before its terminating NUL.

  The Boolean arm says whether the code was built with __ARM (the arm and armv8 ports).
\<close>

datatype printf_fault = OutOfBounds | MissingArg | BadArg | PadOverflow

datatype vararg = Num u64 | Str string

text \<open>The bases the conversions pass to append_num: 2, 10 and 16.\<close>

datatype number_base = Bin | Dec | Hex

fun base_value :: "number_base \<Rightarrow> u64" where
  "base_value Bin = 2"
| "base_value Dec = 10"
| "base_value Hex = 16"

definition nul :: char where [model_eval]: "nul = CHR 0x00"

subsection \<open>Checked array accesses\<close>

definition store :: "char list \<Rightarrow> nat \<Rightarrow> char \<Rightarrow> printf_fault + char list" where
  [model_eval]: "store buf i c = (if i < length buf then Inr (buf[i := c]) else Inl OutOfBounds)"

definition load :: "char list \<Rightarrow> nat \<Rightarrow> printf_fault + char" where
  [model_eval]: "load buf i = (if i < length buf then Inr (buf ! i) else Inl OutOfBounds)"

subsection \<open>append_num and append_str\<close>

fun shift_up :: "char list \<Rightarrow> nat \<Rightarrow> nat \<Rightarrow> printf_fault + char list" where
  "shift_up buf off 0 = Inr buf"
| "shift_up buf off (Suc i) =
     bindE (load buf (off + i)) (\<lambda>x.
     bindE (store buf (off + Suc i) x) (\<lambda>buf.
     shift_up buf off i))"

definition prepend_to_buffer :: "char \<Rightarrow> char list \<Rightarrow> nat \<Rightarrow> nat \<Rightarrow> printf_fault + char list" where
  "prepend_to_buffer c buf off n = bindE (shift_up buf off n) (\<lambda>buf. store buf off c)"

definition digit_char :: "u64 \<Rightarrow> char" where
  [model_eval]: "digit_char d =
     (if d \<le> 9 then char_of (48 + unat d) else char_of (97 + unat d - 10))"

text \<open>
  new_value is an int, so the quotient is cut to 32 bits and sign-extended when it is assigned
  back to the unsigned long long value.
\<close>

definition next_value :: "bool \<Rightarrow> number_base \<Rightarrow> u64 \<Rightarrow> u64" where
  [model_eval]: "next_value arm base value =
     (let new_value :: u32 = ucast (if arm then drop_bit 4 value else value div base_value base)
      in scast new_value)"

definition digit_value :: "bool \<Rightarrow> number_base \<Rightarrow> u64 \<Rightarrow> u64" where
  [model_eval]: "digit_value arm base value =
     (if arm then value AND 0xf else value mod base_value base)"

text \<open>The digit loop; None is the early return 0 of the __ARM build for a base other than 16.\<close>

function num_loop ::
  "bool \<Rightarrow> number_base \<Rightarrow> char list \<Rightarrow> nat \<Rightarrow> int \<Rightarrow> nat \<Rightarrow> u64
    \<Rightarrow> printf_fault + (char list \<times> nat) option" where
  "num_loop arm base buf off sz n value =
     (if 0 < value \<and> int n < sz then
        if arm \<and> base \<noteq> Hex then Inr None
        else bindE (prepend_to_buffer (digit_char (digit_value arm base value)) buf off n) (\<lambda>buf.
             num_loop arm base buf off sz (Suc n) (next_value arm base value))
      else Inr (Some (buf, n)))"
  by pat_completeness auto
termination
  by (relation "measure (\<lambda>(arm, base, buf, off, sz, n, value). nat (sz - int n))") auto

declare num_loop.simps [simp del]

fun pad_loop :: "char list \<Rightarrow> nat \<Rightarrow> int \<Rightarrow> nat \<Rightarrow> char \<Rightarrow> nat \<Rightarrow> printf_fault + char list \<times> nat" where
  "pad_loop buf off sz 0 c n = Inr (buf, n)"
| "pad_loop buf off sz (Suc pad) c n =
     (if int n < sz then
        bindE (prepend_to_buffer c buf off n) (\<lambda>buf. pad_loop buf off sz pad c (Suc n))
      else Inr (buf, n))"

definition append_num ::
  "bool \<Rightarrow> char list \<Rightarrow> nat \<Rightarrow> int \<Rightarrow> u64 \<Rightarrow> number_base \<Rightarrow> bool \<Rightarrow> int \<Rightarrow> char
    \<Rightarrow> printf_fault + char list \<times> nat" where
  "append_num arm buf off sz value base is_signed pad pad_char =
    (let pad = (if sz \<le> pad then sz - 1 else pad) in
     bindE (if is_signed \<and> sint value < 0
            then bindE (prepend_to_buffer (CHR ''-'') buf off 0) (\<lambda>buf. Inr (buf, 1, - value))
            else Inr (buf, 0, value)) (\<lambda>(buf, n, value).
     bindE (if 0 < value then num_loop arm base buf off sz n value
            else if int n < sz then
              bindE (prepend_to_buffer (CHR ''0'') buf off n) (\<lambda>buf.
              bindE (store buf off (CHR ''0'')) (\<lambda>buf. Inr (Some (buf, Suc n))))
            else Inr (Some (buf, n))) (\<lambda>r.
     case r of
       None \<Rightarrow> Inr (buf, 0)
     | Some (buf, n) \<Rightarrow> pad_loop buf off sz (nat (pad - int n)) pad_char n)))"

fun str_loop :: "char list \<Rightarrow> nat \<Rightarrow> int \<Rightarrow> string \<Rightarrow> nat \<Rightarrow> printf_fault + char list \<times> nat" where
  "str_loop buf off sz [] n = Inr (buf, n)"
| "str_loop buf off sz (c # text) n =
     (if c \<noteq> nul \<and> int n < sz then
        bindE (store buf (off + n) c) (\<lambda>buf. str_loop buf off sz text (Suc n))
      else Inr (buf, n))"

function str_pad_loop :: "char list \<Rightarrow> nat \<Rightarrow> int \<Rightarrow> int \<Rightarrow> char \<Rightarrow> nat \<Rightarrow> printf_fault + char list \<times> nat" where
  "str_pad_loop buf off sz pad c n =
     (if int n < sz \<and> int n < pad then
        bindE (store buf (off + n) c) (\<lambda>buf. str_pad_loop buf off sz pad c (Suc n))
      else Inr (buf, n))"
  by pat_completeness auto
termination
  by (relation "measure (\<lambda>(buf, off, sz, pad, c, n). nat (sz - int n))") auto

declare str_pad_loop.simps [simp del]

definition append_str ::
  "char list \<Rightarrow> nat \<Rightarrow> int \<Rightarrow> string \<Rightarrow> int \<Rightarrow> char \<Rightarrow> printf_fault + char list \<times> nat" where
  "append_str buf off sz text pad pad_char =
     bindE (str_loop buf off sz text 0) (\<lambda>(buf, n). str_pad_loop buf off sz pad pad_char n)"

subsection \<open>vsnprintf\<close>

record conv_spec =
  pad_size :: int
  spec_pad_char :: char
  number_size :: nat

definition initial_spec :: conv_spec where
  [model_eval]: "initial_spec = \<lparr>pad_size = 0, spec_pad_char = CHR '' '', number_size = 4\<rparr>"

definition set_pad :: "conv_spec \<Rightarrow> int \<Rightarrow> printf_fault + conv_spec" where
  [model_eval]: "set_pad sp p = (if p \<le> 2147483647 then Inr (sp\<lparr>pad_size := p\<rparr>) else Inl PadOverflow)"

text \<open>
  The retry_format loop: flags, width and the l modifier up to the conversion character, the
  format advanced past each. None is the end of the format (case 0). A width beyond the
  range of int is the undefined signed overflow PadOverflow.
\<close>

fun scan_spec :: "string \<Rightarrow> conv_spec \<Rightarrow> printf_fault + (conv_spec \<times> char \<times> string) option" where
  "scan_spec [] sp = Inr None"
| "scan_spec (c # fmt) sp =
     (if c = nul then Inr None
      else if c = CHR ''0'' then
        (if 0 < pad_size sp then bindE (set_pad sp (pad_size sp * 10)) (scan_spec fmt)
         else scan_spec fmt (sp\<lparr>spec_pad_char := CHR ''0''\<rparr>))
      else if (49::nat) \<le> of_char c \<and> (of_char c :: nat) \<le> 57 then
        bindE (set_pad sp (pad_size sp * 10 + (of_char c - 48))) (scan_spec fmt)
      else if c = CHR ''l'' then scan_spec fmt (sp\<lparr>number_size := 8\<rparr>)
      else Inr (Some (sp, c, fmt)))"

fun va_num :: "vararg list \<Rightarrow> printf_fault + u64 \<times> vararg list" where
  "va_num [] = Inl MissingArg"
| "va_num (Num w # args) = Inr (w, args)"
| "va_num (Str s # args) = Inl BadArg"

fun va_str :: "vararg list \<Rightarrow> printf_fault + string \<times> vararg list" where
  "va_str [] = Inl MissingArg"
| "va_str (Str s # args) = Inr (s, args)"
| "va_str (Num w # args) = Inl BadArg"

definition arg_int :: "u64 \<Rightarrow> u64" where
  [model_eval]: "arg_int w = scast (ucast w :: u32)"

definition arg_uint :: "u64 \<Rightarrow> u64" where
  [model_eval]: "arg_uint w = ucast (ucast w :: u32)"

text \<open>One conversion: the array, the count and the arguments left after it.\<close>

definition convert ::
  "bool \<Rightarrow> int \<Rightarrow> conv_spec \<Rightarrow> char \<Rightarrow> vararg list \<Rightarrow> char list \<Rightarrow> nat
    \<Rightarrow> printf_fault + char list \<times> nat \<times> vararg list" where
  "convert arm sz sp c args buf count =
    (let num = append_num arm; room = (\<lambda>count. sz - 1 - int count) in
     if c = CHR ''d'' \<or> c = CHR ''u'' then
       bindE (va_num args) (\<lambda>(w, args).
       let v = (if number_size sp = 8 then w else arg_int w) in
       bindE (num buf count (room count) v Dec (c = CHR ''d'') (pad_size sp) (spec_pad_char sp)) (\<lambda>(buf, rc).
       Inr (buf, count + rc, args)))
     else if c = CHR ''b'' \<or> c = CHR ''x'' \<or> c = CHR ''p'' then
       bindE (va_num args) (\<lambda>(w, args).
       let v = (if number_size sp = 8 then w else if c = CHR ''p'' then w else arg_uint w) in
       bindE (if c = CHR ''p'' then append_str buf count (room count) ''0x'' 0 (CHR '' '')
              else Inr (buf, 0)) (\<lambda>(buf, rc).
       let count = count + rc in
       bindE (num buf count (room count) v (if c = CHR ''b'' then Bin else Hex) False
                (pad_size sp) (spec_pad_char sp)) (\<lambda>(buf, rc).
       Inr (buf, count + rc, args))))
     else if c = CHR ''s'' then
       bindE (va_str args) (\<lambda>(s, args).
       bindE (append_str buf count (room count) s (pad_size sp) (spec_pad_char sp)) (\<lambda>(buf, rc).
       Inr (buf, count + rc, args)))
     else if c = CHR ''c'' then
       bindE (va_num args) (\<lambda>(w, args).
       bindE (store buf count (char_of (unat w))) (\<lambda>buf. Inr (buf, Suc count, args)))
     else
       bindE (store buf count c) (\<lambda>buf. Inr (buf, Suc count, args)))"

lemma scan_spec_length:
  "scan_spec fmt sp = Inr (Some (sp', c, rest)) \<Longrightarrow> length rest < length fmt"
  by (induction fmt sp rule: scan_spec.induct) (auto split: if_splits intro: less_SucI)

function vsnprintf_loop ::
  "bool \<Rightarrow> int \<Rightarrow> string \<Rightarrow> vararg list \<Rightarrow> char list \<Rightarrow> nat \<Rightarrow> printf_fault + char list \<times> nat" where
  "vsnprintf_loop arm sz fmt args buf count =
     (case fmt of
        [] \<Rightarrow> Inr (buf, count)
      | c # rest \<Rightarrow>
          if c \<noteq> nul \<and> int count < sz - 1 then
            if c = CHR ''%'' then
              (case scan_spec rest initial_spec of
                 Inl e \<Rightarrow> Inl e
               | Inr None \<Rightarrow> Inr (buf, count)
               | Inr (Some (sp, conv, rest')) \<Rightarrow>
                   bindE (convert arm sz sp conv args buf count) (\<lambda>(buf, count, args).
                   vsnprintf_loop arm sz rest' args buf count))
            else
              bindE (store buf count c) (\<lambda>buf.
              vsnprintf_loop arm sz rest args buf (Suc count))
          else Inr (buf, count))"
  by pat_completeness auto
termination
  by (relation "measure (\<lambda>(arm, sz, fmt, args, buf, count). length fmt)")
     (auto dest: scan_spec_length)

declare vsnprintf_loop.simps [simp del]

definition vsnprintf ::
  "bool \<Rightarrow> char list \<Rightarrow> int \<Rightarrow> string \<Rightarrow> vararg list \<Rightarrow> printf_fault + char list \<times> nat" where
  "vsnprintf arm buf sz fmt args =
     (if sz = 0 then Inr (buf, 0)
      else bindE (vsnprintf_loop arm sz fmt args buf 0) (\<lambda>(buf, count).
           bindE (store buf count nul) (\<lambda>buf. Inr (buf, count))))"

definition snprintf ::
  "bool \<Rightarrow> char list \<Rightarrow> int \<Rightarrow> string \<Rightarrow> vararg list \<Rightarrow> printf_fault + char list \<times> nat" where
  "snprintf arm buf sz fmt args = vsnprintf arm buf sz fmt args"

definition sprintf :: "bool \<Rightarrow> char list \<Rightarrow> string \<Rightarrow> vararg list \<Rightarrow> printf_fault + char list \<times> nat" where
  "sprintf arm buf fmt args = vsnprintf arm buf 0x1000 fmt args"

subsection \<open>Output files and fprintf\<close>

text \<open>A FILE holds the character sink it was registered with; a sink changes the state 's.\<close>

record 's FILE_t =
  putch_fn :: "('s \<Rightarrow> char \<Rightarrow> 's) option"

record 's printf_files =
  output_file :: "'s FILE_t"
  debug_file :: "'s FILE_t"
  error_file :: "'s FILE_t"

definition printf_register_output :: "('s \<Rightarrow> char \<Rightarrow> 's) option \<Rightarrow> 's printf_files \<Rightarrow> 's printf_files" where
  "printf_register_output fn fs = fs\<lparr>output_file := \<lparr>putch_fn = fn\<rparr>\<rparr>"

definition printf_register_debug :: "('s \<Rightarrow> char \<Rightarrow> 's) option \<Rightarrow> 's printf_files \<Rightarrow> 's printf_files" where
  "printf_register_debug fn fs = fs\<lparr>debug_file := \<lparr>putch_fn = fn\<rparr>\<rparr>"

definition printf_register_error :: "('s \<Rightarrow> char \<Rightarrow> 's) option \<Rightarrow> 's printf_files \<Rightarrow> 's printf_files" where
  "printf_register_error fn fs = fs\<lparr>error_file := \<lparr>putch_fn = fn\<rparr>\<rparr>"

text \<open>
  fprintf formats into a 4096-byte array on its stack, whose first contents are the argument
  junk, and hands the characters before the first NUL to the file's sink.
\<close>

definition fprintf ::
  "bool \<Rightarrow> char list \<Rightarrow> 's FILE_t option \<Rightarrow> string \<Rightarrow> vararg list \<Rightarrow> 's \<Rightarrow> printf_fault + nat \<times> 's" where
  "fprintf arm junk f fmt args s =
     (case f of
        None \<Rightarrow> Inr (0, s)
      | Some file \<Rightarrow>
          (case putch_fn file of
             None \<Rightarrow> Inr (0, s)
           | Some putch \<Rightarrow>
               bindE (vsnprintf arm junk 0x1000 fmt args) (\<lambda>(buf, rc).
               Inr (rc, foldl putch s (takeWhile (\<lambda>c. c \<noteq> nul) (take 0x1000 buf))))))"

subsection \<open>Array pieces: what each writer does to pre @ ts @ rest\<close>

lemma load_piece [simp]: "load (pre @ x # rest) (length pre) = Inr x"
  by (simp add: load_def nth_append)

lemma store_piece [simp]: "store (pre @ x # rest) (length pre) c = Inr (pre @ c # rest)"
  by (simp add: store_def)

lemma shift_up_piece:
  "shift_up (pre @ ts @ r # rest) (length pre) (length ts) = Inr (pre @ hd (ts @ [r]) # ts @ rest)"
proof (induction ts arbitrary: r rest rule: rev_induct)
  case Nil
  then show ?case by simp
next
  case (snoc y ts)
  have "load (pre @ (ts @ [y]) @ r # rest) (length pre + length ts) = Inr y"
    using load_piece [of "pre @ ts" y "r # rest"] by simp
  moreover have "store (pre @ (ts @ [y]) @ r # rest) (length pre + Suc (length ts)) y
      = Inr (pre @ ts @ y # y # rest)"
    using store_piece [of "pre @ ts @ [y]" r rest y] by simp
  ultimately show ?case using snoc [of y "y # rest"] by (simp add: hd_append)
qed

lemma prepend_piece:
  assumes "rest \<noteq> []"
  shows "prepend_to_buffer c (pre @ ts @ rest) (length pre) (length ts) = Inr (pre @ (c # ts) @ tl rest)"
proof -
  obtain r rs where "rest = r # rs" using assms by (cases rest) auto
  then show ?thesis by (simp add: prepend_to_buffer_def shift_up_piece)
qed

fun code_digits :: "bool \<Rightarrow> number_base \<Rightarrow> nat \<Rightarrow> u64 \<Rightarrow> string" where
  "code_digits arm base 0 v = []"
| "code_digits arm base (Suc k) v =
     (if v = 0 then [] else code_digits arm base k (next_value arm base v) @ [digit_char (digit_value arm base v)])"

lemma length_code_digits: "length (code_digits arm base k v) \<le> k"
  by (induction arm base k v rule: code_digits.induct) auto

lemma num_loop_piece:
  assumes "\<not> (arm \<and> base \<noteq> Hex)" and "nat sz - length ts \<le> length rest"
  shows "num_loop arm base (pre @ ts @ rest) (length pre) sz (length ts) v =
    (let D = code_digits arm base (nat sz - length ts) v
     in Inr (Some (pre @ (D @ ts) @ drop (length D) rest, length ts + length D)))"
  using assms(2)
proof (induction "nat sz - length ts" arbitrary: ts rest v)
  case 0
  then have "\<not> int (length ts) < sz" by linarith
  with "0.hyps" show ?case by (simp add: num_loop.simps [of arm base _ _ sz "length ts" v] flip: "0.hyps")
next
  case (Suc k)
  have lt: "int (length ts) < sz" using Suc.hyps(2) by linarith
  have ne: "rest \<noteq> []" using Suc.hyps(2) Suc.prems by auto
  have k: "nat sz - length ts = Suc k" using Suc.hyps(2) by simp
  show ?case
  proof (cases "v = 0")
    case True
    then show ?thesis by (simp add: num_loop.simps [of arm base _ _ sz "length ts" 0] k)
  next
    case False
    let ?d = "digit_char (digit_value arm base v)"
    have "num_loop arm base (pre @ (?d # ts) @ tl rest) (length pre) sz (length (?d # ts)) (next_value arm base v)
      = (let D = code_digits arm base (nat sz - length (?d # ts)) (next_value arm base v)
         in Inr (Some (pre @ (D @ ?d # ts) @ drop (length D) (tl rest), length (?d # ts) + length D)))"
      using Suc.hyps(2) Suc.prems by (intro Suc.hyps(1)) auto
    moreover have "nat sz - Suc (length ts) = k" using k by simp
    ultimately show ?thesis
      using False lt assms(1)
      by (simp add: num_loop.simps [of arm base _ _ sz "length ts" v] prepend_piece [OF ne] k word_gt_0
          Let_def drop_Suc)
  qed
qed

lemma pad_loop_piece:
  assumes "nat sz - length ts \<le> length rest"
  shows "pad_loop (pre @ ts @ rest) (length pre) sz p c (length ts) =
    (let m = min p (nat sz - length ts)
     in Inr (pre @ (replicate m c @ ts) @ drop m rest, length ts + m))"
  using assms
proof (induction p arbitrary: ts rest)
  case 0
  then show ?case by simp
next
  case (Suc p)
  show ?case
  proof (cases "int (length ts) < sz")
    case True
    then have ne: "rest \<noteq> []" and m: "min (Suc p) (nat sz - length ts) = Suc (min p (nat sz - Suc (length ts)))"
      using Suc.prems by auto
    have "pad_loop (pre @ (c # ts) @ tl rest) (length pre) sz p c (length (c # ts)) =
       (let m = min p (nat sz - length (c # ts))
        in Inr (pre @ (replicate m c @ c # ts) @ drop m (tl rest), length (c # ts) + m))"
      using Suc.prems by (intro Suc.IH) auto
    then show ?thesis using True by (simp add: prepend_piece [OF ne] m Let_def drop_Suc replicate_append_same)
  next
    case False
    then show ?thesis by simp
  qed
qed

lemma str_loop_piece:
  assumes "nat sz - length ts \<le> length rest"
  shows "str_loop (pre @ ts @ rest) (length pre) sz s (length ts) =
    (let t = take (nat sz - length ts) (takeWhile (\<lambda>c. c \<noteq> nul) s)
     in Inr (pre @ (ts @ t) @ drop (length t) rest, length ts + length t))"
  using assms
proof (induction s arbitrary: ts rest)
  case Nil
  then show ?case by simp
next
  case (Cons c s)
  show ?case
  proof (cases "c \<noteq> nul \<and> int (length ts) < sz")
    case True
    then obtain r rs where r: "rest = r # rs" using Cons.prems by (cases rest) auto
    have st: "store (pre @ ts @ r # rs) (length pre + length ts) c = Inr (pre @ (ts @ [c]) @ rs)"
      using store_piece [of "pre @ ts" r rs c] by simp
    obtain k where k: "nat sz - length ts = Suc k" using True by (cases "nat sz - length ts") auto
    have "str_loop (pre @ (ts @ [c]) @ rs) (length pre) sz s (length (ts @ [c])) =
      (let t = take (nat sz - length (ts @ [c])) (takeWhile (\<lambda>c. c \<noteq> nul) s)
       in Inr (pre @ ((ts @ [c]) @ t) @ drop (length t) rs, length (ts @ [c]) + length t))"
      using Cons.prems r by (intro Cons.IH) auto
    moreover have "nat sz - Suc (length ts) = k" using k by simp
    ultimately show ?thesis using True by (simp add: r st k Let_def)
  next
    case False
    then show ?thesis by auto
  qed
qed

lemma str_pad_loop_piece:
  assumes "nat sz - length ts \<le> length rest"
  shows "str_pad_loop (pre @ ts @ rest) (length pre) sz pad c (length ts) =
    (let m = min (nat sz) (nat pad) - length ts
     in Inr (pre @ (ts @ replicate m c) @ drop m rest, length ts + m))"
  using assms
proof (induction "min (nat sz) (nat pad) - length ts" arbitrary: ts rest)
  case 0
  then have "\<not> (int (length ts) < sz \<and> int (length ts) < pad)" by linarith
  with "0.hyps" show ?case
    by (auto simp: str_pad_loop.simps [of _ _ sz pad c "length ts"] Let_def)
next
  case (Suc k)
  have lt: "int (length ts) < sz \<and> int (length ts) < pad" using Suc.hyps(2) by linarith
  then obtain r rs where r: "rest = r # rs" using Suc.prems by (cases rest) auto
  have st: "store (pre @ ts @ r # rs) (length pre + length ts) c = Inr (pre @ (ts @ [c]) @ rs)"
    using store_piece [of "pre @ ts" r rs c] by simp
  have k: "k = min (nat sz) (nat pad) - Suc (length ts)" using Suc.hyps(2) by linarith
  have "str_pad_loop (pre @ (ts @ [c]) @ rs) (length pre) sz pad c (length (ts @ [c])) =
      (let m = min (nat sz) (nat pad) - length (ts @ [c])
       in Inr (pre @ ((ts @ [c]) @ replicate m c) @ drop m rs, length (ts @ [c]) + m))"
    using k Suc.prems r by (intro Suc.hyps(1)) auto
  moreover have "min (nat sz) (nat pad) - Suc (length ts) = k" using Suc.hyps(2) by linarith
  ultimately show ?case
    using lt Suc.hyps(2) [symmetric] by (simp add: str_pad_loop.simps [of _ _ sz pad c "length ts"] r st Let_def)
qed


lemma append_str_piece:
  assumes "nat sz \<le> length rest"
  shows "append_str (pre @ rest) (length pre) sz s pad c =
    (let t = take (nat sz) (takeWhile (\<lambda>c. c \<noteq> nul) s);
         u = t @ replicate (min (nat sz) (nat pad) - length t) c
     in Inr (pre @ u @ drop (length u) rest, length u))"
  using str_loop_piece [of sz "[]" rest pre s] assms
    str_pad_loop_piece [of sz "take (nat sz) (takeWhile (\<lambda>c. c \<noteq> nul) s)"
      "drop (length (take (nat sz) (takeWhile (\<lambda>c. c \<noteq> nul) s))) rest" pre pad c]
  by (simp add: append_str_def Let_def add.commute)

text \<open>The text append_num leaves in an array with room for it.\<close>

definition num_text :: "bool \<Rightarrow> int \<Rightarrow> u64 \<Rightarrow> number_base \<Rightarrow> bool \<Rightarrow> int \<Rightarrow> char \<Rightarrow> string" where
  "num_text arm sz value base is_signed pad c =
    (let pad = (if sz \<le> pad then sz - 1 else pad);
         neg = is_signed \<and> sint value < 0;
         sign = (if neg then ''-'' else []);
         v = (if neg then - value else value);
         ts = (if 0 < v then code_digits arm base (nat sz - length sign) v @ sign
               else if int (length sign) < sz then CHR ''0'' # sign else sign)
     in replicate (min (nat (pad - int (length ts))) (nat sz - length ts)) c @ ts)"

lemma append_num_piece:
  assumes sz: "nat sz \<le> length rest" "is_signed \<and> sint value < 0 \<Longrightarrow> 0 < sz"
    and build: "\<not> (arm \<and> base \<noteq> Hex)"
  shows "append_num arm (pre @ rest) (length pre) sz value base is_signed pad c =
    (let t = num_text arm sz value base is_signed pad c
     in Inr (pre @ t @ drop (length t) rest, length t))"
proof -
  define pad' where "pad' = (if sz \<le> pad then sz - 1 else pad)"
  define neg where "neg = (is_signed \<and> sint value < 0)"
  define sign where "sign = (if neg then ''-'' else [])"
  define v where "v = (if neg then - value else value)"
  define rest1 where "rest1 = drop (length sign) rest"
  have ne: "neg \<Longrightarrow> rest \<noteq> []" using sz by (auto simp: neg_def)
  have st: "(if is_signed \<and> sint value < 0
            then bindE (prepend_to_buffer (CHR ''-'') (pre @ rest) (length pre) 0) (\<lambda>buf. Inr (buf, 1, - value))
            else Inr (pre @ rest, 0, value)) = Inr (pre @ sign @ rest1, length sign, v)"
    using prepend_piece [OF ne, of "CHR ''-''" pre "[]"]
    by (auto simp: sign_def v_def rest1_def neg_def [symmetric] drop_Suc)
  have r1: "nat sz - length sign \<le> length rest1" using sz by (auto simp: rest1_def)
  define ts where "ts = (if 0 < v then code_digits arm base (nat sz - length sign) v @ sign
               else if int (length sign) < sz then CHR ''0'' # sign else sign)"
  define rest2 where "rest2 = drop (length ts) rest"
  have body: "(if 0 < v then num_loop arm base (pre @ sign @ rest1) (length pre) sz (length sign) v
            else if int (length sign) < sz then
              bindE (prepend_to_buffer (CHR ''0'') (pre @ sign @ rest1) (length pre) (length sign)) (\<lambda>buf.
              bindE (store buf (length pre) (CHR ''0'')) (\<lambda>buf. Inr (Some (buf, Suc (length sign)))))
            else Inr (Some (pre @ sign @ rest1, length sign))) = Inr (Some (pre @ ts @ rest2, length ts))"
  proof (cases "0 < v")
    case True
    then show ?thesis
      using num_loop_piece [OF build r1, of pre v] by (simp add: ts_def rest2_def rest1_def Let_def add.commute)
  next
    case False
    show ?thesis
    proof (cases "int (length sign) < sz")
      case True
      then have "rest1 \<noteq> []" using r1 by auto
      from prepend_piece [OF this, of "CHR ''0''" pre sign] True False show ?thesis
        by (simp add: ts_def rest2_def rest1_def drop_Suc tl_drop)
    qed (use False in \<open>simp add: ts_def rest2_def rest1_def\<close>)
  qed
  have "append_num arm (pre @ rest) (length pre) sz value base is_signed pad c =
     pad_loop (pre @ ts @ rest2) (length pre) sz (nat (pad' - int (length ts))) c (length ts)"
    by (simp only: append_num_def Let_def pad'_def [symmetric] st bindE_simps prod.case body option.case)
  also have "\<dots> = (let m = min (nat (pad' - int (length ts))) (nat sz - length ts)
     in Inr (pre @ (replicate m c @ ts) @ drop m rest2, length ts + m))"
    using sz by (intro pad_loop_piece) (auto simp: rest2_def)
  also have "\<dots> = (let t = num_text arm sz value base is_signed pad c
     in Inr (pre @ t @ drop (length t) rest, length t))"
    by (simp only: num_text_def Let_def pad'_def [symmetric] neg_def [symmetric]
        sign_def [symmetric] v_def [symmetric] ts_def [symmetric]) (simp add: rest2_def add.commute)
  finally show ?thesis .
qed

lemma length_num_text:
  assumes "is_signed \<and> sint value < 0 \<Longrightarrow> 0 < sz"
  shows "length (num_text arm sz value base is_signed pad c) \<le> nat sz"
proof -
  have fits: "length ts \<le> nat sz \<Longrightarrow> length (replicate (min m (nat sz - length ts)) c @ ts) \<le> nat sz" for ts m
    by simp
  have d: "length (code_digits arm base (nat sz - Suc 0) (- value)) \<le> nat sz - Suc 0"
    "length (code_digits arm base (nat sz) value) \<le> nat sz"
    by (rule length_code_digits)+
  show ?thesis
    unfolding num_text_def Let_def by (rule fits) (use assms d in auto)
qed

subsection \<open>The digit loop computes the positional representation\<close>

fun base_nat :: "number_base \<Rightarrow> nat" where
  "base_nat Bin = 2" | "base_nat Dec = 10" | "base_nat Hex = 16"

definition digit_of_nat :: "nat \<Rightarrow> char" where
  [model_eval]: "digit_of_nat d = (if d \<le> 9 then char_of (48 + d) else char_of (87 + d))"

lemma base_nat_ge2: "2 \<le> base_nat base"
  by (cases base) simp_all

function digits :: "number_base \<Rightarrow> nat \<Rightarrow> string" where
  "digits base n =
     (if n = 0 then [] else digits base (n div base_nat base) @ [digit_of_nat (n mod base_nat base)])"
  by pat_completeness auto
termination
proof (relation "measure snd")
  fix base and n :: nat
  assume "n \<noteq> 0"
  moreover have "1 < base_nat base" using base_nat_ge2 [of base] by simp
  ultimately show "((base, n div base_nat base), base, n) \<in> measure snd"
    by (simp add: div_less_dividend)
qed simp

declare digits.simps [simp del]

lemma digits_0 [simp]: "digits base 0 = []"
  by (simp add: digits.simps)

lemma unat_base_value [simp]: "unat (base_value base) = base_nat base"
  by (cases base) simp_all

lemma drop_bit_4: "drop_bit 4 v = v div 16" and AND_15: "v AND 0xf = v mod 16" for v :: u64
proof -
  show "drop_bit 4 v = v div 16" by (simp add: drop_bit_eq_div)
  have "(0xf::u64) = mask 4" by (simp add: mask_eq_exp_minus_1)
  then have "v AND 0xf = take_bit 4 v" by (simp only: take_bit_eq_mask)
  then show "v AND 0xf = v mod 16" by (simp add: take_bit_eq_mod)
qed

lemma next_value_small:
  assumes "unat v < 2 ^ 31 * base_nat base" and "arm \<Longrightarrow> base = Hex"
  shows "unat (next_value arm base v) = unat v div base_nat base"
proof -
  let ?q = "if arm then drop_bit 4 v else v div base_value base"
  have q: "unat ?q = unat v div base_nat base"
    using assms(2) by (auto simp: drop_bit_4 unat_div)
  have lt: "unat v div base_nat base < 2 ^ 31"
    using assms(1) by (simp add: less_mult_imp_div_less)
  have u: "unat (ucast ?q :: u32) = unat v div base_nat base"
    using lt by (simp only: unsigned_ucast_eq q) (simp add: take_bit_nat_eq_self)
  have "sint (ucast ?q :: u32) = int (unat v div base_nat base)"
    using lt u by (simp only: sint_uint uint_nat) (simp add: signed_take_bit_int_eq_self)
  then have "(scast (ucast ?q :: u32) :: u64) = word_of_nat (unat v div base_nat base)"
    by (simp only: scast_eq) (simp del: of_nat_div)
  then have "next_value arm base v = word_of_nat (unat v div base_nat base)"
    by (simp only: next_value_def Let_def)
  moreover have "unat v div base_nat base < 2 ^ LENGTH(64)" using lt by simp
  ultimately show ?thesis by (simp only: unsigned_of_nat take_bit_nat_eq_self of_nat_id)
qed

lemma digit_value_nat:
  assumes "arm \<Longrightarrow> base = Hex"
  shows "digit_char (digit_value arm base v) = digit_of_nat (unat v mod base_nat base)"
proof -
  have d: "unat (digit_value arm base v) = unat v mod base_nat base"
    using assms by (auto simp: digit_value_def AND_15 unat_mod)
  have "digit_value arm base v \<le> 9 \<longleftrightarrow> unat (digit_value arm base v) \<le> 9"
    by (simp add: word_le_nat_alt)
  then show ?thesis unfolding digit_char_def digit_of_nat_def d by (simp add: add.commute)
qed

lemma code_digits_eq:
  assumes "unat v < 2 ^ 31 * base_nat base" and "arm \<Longrightarrow> base = Hex"
    and "length (digits base (unat v)) \<le> k"
  shows "code_digits arm base k v = digits base (unat v)"
  using assms(1,3)
proof (induction k arbitrary: v)
  case 0
  then show ?case by simp
next
  case (Suc k)
  show ?case
  proof (cases "v = 0")
    case True
    then show ?thesis by simp
  next
    case False
    then have nz: "unat v \<noteq> 0" by (simp add: unat_eq_0)
    note n = next_value_small [OF Suc.prems(1) assms(2)]
    have "unat v div base_nat base < 2 ^ 31 * base_nat base"
      using Suc.prems(1) div_le_dividend le_less_trans by blast
    moreover have "length (digits base (unat v div base_nat base)) \<le> k"
      using Suc.prems(2) nz by (simp add: digits.simps [of base "unat v"])
    ultimately have "code_digits arm base k (next_value arm base v) = digits base (unat v div base_nat base)"
      using Suc.IH [of "next_value arm base v"] n by simp
    with False nz show ?thesis
      by (simp add: digit_value_nat [OF assms(2)] digits.simps [of base "unat v"])
  qed
qed

definition number_text :: "number_base \<Rightarrow> nat \<Rightarrow> string" where
  "number_text base n = (if n = 0 then ''0'' else digits base n)"

definition pad_left :: "nat \<Rightarrow> char \<Rightarrow> string \<Rightarrow> string" where
  "pad_left w c t = replicate (w - length t) c @ t"

definition pad_right :: "nat \<Rightarrow> char \<Rightarrow> string \<Rightarrow> string" where
  "pad_right w c t = t @ replicate (w - length t) c"

lemma num_text_fits:
  assumes "unat v < 2 ^ 31 * base_nat base" and "arm \<Longrightarrow> base = Hex"
    and "is_signed \<Longrightarrow> 0 \<le> sint v"
    and "int (length (pad_left (nat pad) c (number_text base (unat v)))) < sz"
  shows "num_text arm sz v base is_signed pad c = pad_left (nat pad) c (number_text base (unat v))"
proof -
  have len: "length (number_text base (unat v)) < nat sz" "pad < sz" "length (number_text base (unat v)) + (nat pad - length (number_text base (unat v))) < nat sz"
    using assms(4) by (auto simp: pad_left_def)
  have nd: "nat (pad - int n) = nat pad - n" for n by linarith
  have ts: "(if 0 < v then code_digits arm base (nat sz - 0) v @ [] else if 0 < sz then ''0'' else [])
     = number_text base (unat v)"
  proof (cases "v = 0")
    case True
    then show ?thesis using len by (simp add: number_text_def)
  next
    case False
    then have nz: "unat v \<noteq> 0" by (simp add: unat_eq_0)
    have "code_digits arm base (nat sz) v = digits base (unat v)"
      using len(1) nz by (intro code_digits_eq assms(1,2)) (auto simp: number_text_def)
    then show ?thesis using nz False by (simp add: number_text_def word_gt_0)
  qed
  have m: "min (nat pad - n) (nat sz - n) = nat pad - n" for n
    using len(2) by simp
  have ns: "(is_signed \<and> sint v < 0) = False" using assms(3) by auto
  show ?thesis
    unfolding num_text_def Let_def ns pad_left_def
    using ts len(2) by (cases "0 < v"; cases "0 < sz") (simp_all add: nd m)
qed

subsection \<open>Memory safety of vsnprintf\<close>

text \<open>buf' differs from buf only between off and lim.\<close>

definition wrote :: "nat \<Rightarrow> nat \<Rightarrow> char list \<Rightarrow> char list \<Rightarrow> bool" where
  "wrote off lim buf buf' \<longleftrightarrow>
     length buf' = length buf \<and> take off buf' = take off buf \<and> drop lim buf' = drop lim buf"

lemma wrote_refl [simp]: "wrote off lim buf buf"
  by (simp add: wrote_def)

lemma wrote_trans:
  assumes "wrote off lim b1 b2" and "wrote off' lim b2 b3" and "off \<le> off'"
  shows "wrote off lim b1 b3"
proof -
  have "take off (take off' b3) = take off (take off' b2)" using assms(2) by (simp add: wrote_def)
  then have "take off b3 = take off b2" using assms(3) by (simp add: min_absorb1)
  with assms show ?thesis by (simp add: wrote_def)
qed

lemma wrote_piece:
  assumes "k \<le> m" "m \<le> length rest" "length rest' = length rest" "drop m rest' = drop m rest"
  shows "wrote (length pre) (length pre + m) (pre @ rest) (pre @ rest')"
  using assms by (simp add: wrote_def)

lemma split_at: "off \<le> length buf \<Longrightarrow> \<exists>pre rest. buf = pre @ rest \<and> length pre = off"
  by (metis append_take_drop_id length_take min.absorb2)

lemma append_str_safe:
  assumes "off + nat sz \<le> length buf"
  shows "\<exists>buf' n. append_str buf off sz s pad c = Inr (buf', n) \<and> n \<le> nat sz
    \<and> wrote off (off + nat sz) buf buf'"
proof -
  obtain pre rest where b: "buf = pre @ rest" "length pre = off"
    using split_at [of off buf] assms by auto
  then have r: "nat sz \<le> length rest" using assms by simp
  define t where "t = take (nat sz) (takeWhile (\<lambda>c. c \<noteq> nul) s)"
  define u where "u = t @ replicate (min (nat sz) (nat pad) - length t) c"
  have "length u \<le> nat sz" by (auto simp: u_def t_def)
  moreover have "append_str buf off sz s pad c = Inr (pre @ u @ drop (length u) rest, length u)"
    using append_str_piece [OF r, of pre s pad c] b by (simp add: t_def u_def Let_def)
  ultimately show ?thesis using r b by (auto simp: wrote_def)
qed

lemma prepend_safe:
  assumes "off + n < lim" and "lim \<le> length buf"
  shows "\<exists>buf'. prepend_to_buffer c buf off n = Inr buf' \<and> wrote off lim buf buf'"
proof -
  obtain pre rest where b: "buf = pre @ rest" "length pre = off"
    using split_at [of off buf] assms by auto
  obtain ts rest' where r: "rest = ts @ rest'" "length ts = n"
    using split_at [of n rest] assms b by auto
  then have "rest' \<noteq> []" using assms b by auto
  then obtain x xs where x: "rest' = x # xs" by (cases rest') auto
  obtain k where "lim = Suc (length pre + length ts + k)"
    using assms(1) b(2) r(2) less_imp_Suc_add by blast
  with prepend_piece [of rest' c pre ts] b r x show ?thesis
    by (auto simp: wrote_def)
qed

lemma store_safe:
  assumes "off \<le> i" "i < lim" "lim \<le> length buf"
  shows "\<exists>buf'. store buf i c = Inr buf' \<and> wrote off lim buf buf'"
  using assms by (simp add: store_def wrote_def)

lemma num_loop_safe:
  assumes "off + nat sz \<le> length buf" and "n \<le> nat sz"
  shows "\<exists>r. num_loop arm base buf off sz n v = Inr r \<and>
    (\<forall>buf' n'. r = Some (buf', n') \<longrightarrow> n' \<le> nat sz \<and> wrote off (off + nat sz) buf buf')"
  using assms
proof (induction arm base buf off sz n v rule: num_loop.induct)
  case (1 arm base buf off sz n v)
  show ?case
  proof (cases "0 < v \<and> int n < sz \<and> \<not> (arm \<and> base \<noteq> Hex)")
    case True
    then obtain b1 where b1: "prepend_to_buffer (digit_char (digit_value arm base v)) buf off n = Inr b1"
      "wrote off (off + nat sz) buf b1"
      using prepend_safe [of off n "off + nat sz" buf] "1.prems"(1) by force
    have "length b1 = length buf" using b1(2) by (simp add: wrote_def)
    then have "\<exists>r. num_loop arm base b1 off sz (Suc n) (next_value arm base v) = Inr r \<and>
      (\<forall>buf' n'. r = Some (buf', n') \<longrightarrow> n' \<le> nat sz \<and> wrote off (off + nat sz) b1 buf')"
      using True "1.prems" by (intro "1.IH") auto
    then show ?thesis
      using True b1 by (auto simp: num_loop.simps [of arm base buf off sz n v] intro: wrote_trans)
  next
    case False
    then show ?thesis using "1.prems" by (auto simp: num_loop.simps [of arm base buf off sz n v])
  qed
qed

lemma pad_loop_safe:
  assumes "off + nat sz \<le> length buf" and "n \<le> nat sz"
  shows "\<exists>buf' n'. pad_loop buf off sz p c n = Inr (buf', n') \<and> n' \<le> nat sz \<and> wrote off (off + nat sz) buf buf'"
  using assms
proof (induction buf off sz p c n rule: pad_loop.induct)
  case (2 buf off sz p c n)
  show ?case
  proof (cases "int n < sz")
    case True
    then obtain b1 where b1: "prepend_to_buffer c buf off n = Inr b1" "wrote off (off + nat sz) buf b1"
      using prepend_safe [of off n "off + nat sz" buf] "2.prems"(1) by force
    have "length b1 = length buf" using b1(2) by (simp add: wrote_def)
    then have "\<exists>buf' n'. pad_loop b1 off sz p c (Suc n) = Inr (buf', n') \<and> n' \<le> nat sz \<and> wrote off (off + nat sz) b1 buf'"
      using True "2.prems" by (intro "2.IH") auto
    then show ?thesis using True b1 by (auto intro: wrote_trans)
  qed (use "2.prems" in simp)
qed simp

lemma append_num_safe:
  assumes "off + nat sz \<le> length buf" and "is_signed \<Longrightarrow> 0 < sz"
  shows "\<exists>buf' n. append_num arm buf off sz v base is_signed pad c = Inr (buf', n) \<and> n \<le> nat sz
    \<and> wrote off (off + nat sz) buf buf'"
proof -
  have "\<exists>b1 n1 v1. (if is_signed \<and> sint v < 0
      then bindE (prepend_to_buffer (CHR ''-'') buf off 0) (\<lambda>buf. Inr (buf, 1, - v))
      else Inr (buf, 0, v)) = Inr (b1, n1, v1) \<and> n1 \<le> nat sz \<and> wrote off (off + nat sz) buf b1"
    using prepend_safe [of off 0 "off + nat sz" buf "CHR ''-''"] assms by force
  then obtain b1 n1 v1 where s1: "(if is_signed \<and> sint v < 0
      then bindE (prepend_to_buffer (CHR ''-'') buf off 0) (\<lambda>buf. Inr (buf, 1, - v))
      else Inr (buf, 0, v)) = Inr (b1, n1, v1)" and w1: "n1 \<le> nat sz" "wrote off (off + nat sz) buf b1"
    by blast
  have l1: "off + nat sz \<le> length b1" using assms(1) w1(2) by (simp add: wrote_def)
  have "\<exists>r. (if 0 < v1 then num_loop arm base b1 off sz n1 v1
       else if int n1 < sz then
         bindE (prepend_to_buffer (CHR ''0'') b1 off n1) (\<lambda>buf.
         bindE (store buf off (CHR ''0'')) (\<lambda>buf. Inr (Some (buf, Suc n1))))
       else Inr (Some (b1, n1))) = Inr r \<and>
      (\<forall>b2 n2. r = Some (b2, n2) \<longrightarrow> n2 \<le> nat sz \<and> wrote off (off + nat sz) b1 b2)"
  proof (cases "\<not> 0 < v1 \<and> int n1 < sz")
    case True
    then obtain b2 where b2: "prepend_to_buffer (CHR ''0'') b1 off n1 = Inr b2" "wrote off (off + nat sz) b1 b2"
      using prepend_safe [of off n1 "off + nat sz" b1] l1 by force
    moreover obtain b3 where "store b2 off (CHR ''0'') = Inr b3" "wrote off (off + nat sz) b2 b3"
      using store_safe [of off off "off + nat sz" b2] l1 b2(2) True by (force simp: wrote_def)
    ultimately show ?thesis using True by (auto intro: wrote_trans)
  qed (use num_loop_safe [OF l1 w1(1)] w1 in auto)
  then obtain r where s2: "(if 0 < v1 then num_loop arm base b1 off sz n1 v1
       else if int n1 < sz then
         bindE (prepend_to_buffer (CHR ''0'') b1 off n1) (\<lambda>buf.
         bindE (store buf off (CHR ''0'')) (\<lambda>buf. Inr (Some (buf, Suc n1))))
       else Inr (Some (b1, n1))) = Inr r"
      and w2: "\<And>b2 n2. r = Some (b2, n2) \<Longrightarrow> n2 \<le> nat sz \<and> wrote off (off + nat sz) b1 b2"
    by blast
  show ?thesis
  proof (cases r)
    case None
    then show ?thesis using s2 w1 by (simp add: append_num_def s1)
  next
    case (Some p)
    then obtain b2 n2 where p: "p = (b2, n2)" by (cases p)
    with Some w2 have w: "n2 \<le> nat sz" "wrote off (off + nat sz) buf b2"
      using w1(2) by (auto intro: wrote_trans)
    then have "off + nat sz \<le> length b2" using assms(1) by (simp add: wrote_def)
    from pad_loop_safe [OF this w(1), of "nat ((if sz \<le> pad then sz - 1 else pad) - int n2)" c]
    show ?thesis using s2 w Some p
      by (auto simp: append_num_def s1 Let_def intro: wrote_trans)
  qed
qed

lemma va_fault:
  "va_num args = Inl e \<Longrightarrow> e \<noteq> OutOfBounds" "va_str args = Inl e \<Longrightarrow> e \<noteq> OutOfBounds"
  by (cases args rule: va_num.cases; auto)+

lemma scan_spec_fault: "scan_spec fmt sp = Inl e \<Longrightarrow> e \<noteq> OutOfBounds"
proof (induction fmt sp rule: scan_spec.induct)
  case (2 c fmt sp)
  then show ?case by (auto simp: set_pad_def split: if_splits)
qed simp

lemma convert_safe:
  assumes "0 < sz" "nat sz \<le> length buf" "int count < sz - 1"
  shows "case convert arm sz sp c args buf count of
      Inl e \<Rightarrow> e \<noteq> OutOfBounds
    | Inr (buf', count', args') \<Rightarrow> count \<le> count' \<and> int count' \<le> sz - 1 \<and> wrote count (nat sz - 1) buf buf'"
proof -
  have lim: "count + nat (sz - 1 - int count) = nat sz - 1" using assms by linarith
  have room: "count + nat (sz - 1 - int count) \<le> length buf" using assms by linarith
  note num = append_num_safe [OF room, unfolded lim]
  note str = append_str_safe [OF room, unfolded lim]
  have st: "\<exists>buf'. store buf count ch = Inr buf' \<and> wrote count (nat sz - 1) buf buf'" for ch
    using assms by (intro store_safe) linarith+
  consider (du) "c = CHR ''d'' \<or> c = CHR ''u''" | (bx) "c = CHR ''b'' \<or> c = CHR ''x''" | (p) "c = CHR ''p''"
    | (s) "c = CHR ''s''" | (ch) "c = CHR ''c''"
    | (other) "c \<notin> {CHR ''d'', CHR ''u'', CHR ''b'', CHR ''x'', CHR ''p'', CHR ''s'', CHR ''c''}" by blast
  then show ?thesis
  proof cases
    case du
    show ?thesis
    proof (cases "va_num args")
      case (Inr wa)
      then obtain w args' where wa: "va_num args = Inr (w, args')" by (cases wa) auto
      from num [of "c = CHR ''d''" arm "if number_size sp = 8 then w else arg_int w" Dec "pad_size sp" "spec_pad_char sp"]
      show ?thesis using du assms(3) by (auto simp: convert_def wa Let_def)
    qed (use du in \<open>auto simp: convert_def va_fault\<close>)
  next
    case bx
    show ?thesis
    proof (cases "va_num args")
      case (Inr wa)
      then obtain w args' where wa: "va_num args = Inr (w, args')" by (cases wa) auto
      from num [of False arm "if number_size sp = 8 then w else arg_uint w" "if c = CHR ''b'' then Bin else Hex"
          "pad_size sp" "spec_pad_char sp"]
      show ?thesis using bx assms(3) by (auto simp: convert_def wa Let_def)
    qed (use bx in \<open>auto simp: convert_def va_fault\<close>)
  next
    case p
    show ?thesis
    proof (cases "va_num args")
      case (Inr wa)
      then obtain w args' where wa: "va_num args = Inr (w, args')" by (cases wa) auto
      obtain b1 n1 where b1: "append_str buf count (sz - 1 - int count) ''0x'' 0 (CHR '' '') = Inr (b1, n1)"
        "n1 \<le> nat (sz - 1 - int count)" "wrote count (nat sz - 1) buf b1"
        using str [of "''0x''" 0 "CHR '' ''"] by blast
      have lim1: "count + n1 + nat (sz - 1 - int (count + n1)) = nat sz - 1" using b1(2) assms by linarith
      have room1: "count + n1 + nat (sz - 1 - int (count + n1)) \<le> length b1"
        using b1(3) assms(2) lim1 by (simp add: wrote_def)
      from append_num_safe [OF room1, of False arm w Hex "pad_size sp" "spec_pad_char sp", unfolded lim1]
      obtain b2 n2 where b2: "append_num arm b1 (count + n1) (sz - 1 - int (count + n1)) w Hex False (pad_size sp) (spec_pad_char sp)
          = Inr (b2, n2)" "n2 \<le> nat (sz - 1 - int (count + n1))" "wrote (count + n1) (nat sz - 1) b1 b2"
        by auto
      have "wrote count (nat sz - 1) buf b2" using b1(3) b2(3) by (rule wrote_trans) simp
      moreover have "int (count + n1 + n2) \<le> sz - 1" using b1(2) b2(2) assms(3) by linarith
      ultimately show ?thesis using p b1(1) b2(1) by (auto simp: convert_def wa Let_def)
    qed (use p in \<open>auto simp: convert_def va_fault\<close>)
  next
    case s
    show ?thesis
    proof (cases "va_str args")
      case (Inr wa)
      then obtain w args' where wa: "va_str args = Inr (w, args')" by (cases wa) auto
      from str [of w "pad_size sp" "spec_pad_char sp"]
      show ?thesis using s assms(3) by (auto simp: convert_def wa Let_def)
    qed (use s in \<open>auto simp: convert_def va_fault\<close>)
  next
    case ch
    show ?thesis
    proof (cases "va_num args")
      case (Inr wa)
      then obtain w args' where wa: "va_num args = Inr (w, args')" by (cases wa) auto
      from st [of "char_of (unat w)"] show ?thesis using ch assms(3) by (auto simp: convert_def wa Let_def)
    qed (use ch in \<open>auto simp: convert_def va_fault\<close>)
  next
    case other
    from st [of c] show ?thesis using other assms(3) by (auto simp: convert_def Let_def)
  qed
qed

lemmas vsnprintf_loop_unfold =
  vsnprintf_loop.simps [of arm sz "[]" for arm sz, simplified]
  vsnprintf_loop.simps [of arm sz "c # rest" for arm sz c rest, simplified]

lemma vsnprintf_loop_safe:
  assumes "0 < sz" "nat sz \<le> length buf" "int count \<le> sz - 1"
  shows "case vsnprintf_loop arm sz fmt args buf count of
      Inl e \<Rightarrow> e \<noteq> OutOfBounds
    | Inr (buf', count') \<Rightarrow> int count' \<le> sz - 1 \<and> wrote count (nat sz - 1) buf buf'"
  using assms
proof (induction arm sz fmt args buf count rule: vsnprintf_loop.induct)
  case (1 arm sz fmt args buf count)
  note unf = vsnprintf_loop_unfold
  show ?case
  proof (cases fmt)
    case Nil
    with "1.prems" show ?thesis by (simp add: unf)
  next
    case (Cons c rest)
    show ?thesis
    proof (cases "c \<noteq> nul \<and> int count < sz - 1")
      case False
      with Cons "1.prems" show ?thesis by (auto simp: unf)
    next
      case room: True
      show ?thesis
      proof (cases "c = CHR ''%''")
        case False
        obtain b1 where b1: "store buf count c = Inr b1" "wrote count (nat sz - 1) buf b1"
          using store_safe [of count count "nat sz - 1" buf c] room "1.prems" by fastforce
        have "case vsnprintf_loop arm sz rest args b1 (Suc count) of
            Inl e \<Rightarrow> e \<noteq> OutOfBounds
          | Inr (buf', count') \<Rightarrow> int count' \<le> sz - 1 \<and> wrote (Suc count) (nat sz - 1) b1 buf'"
          using b1 room "1.prems" False Cons by (intro "1.IH"(2)) (auto simp: wrote_def)
        then show ?thesis using Cons room False b1
          by (auto simp: unf split: sum.splits elim!: wrote_trans [OF b1(2) [simplified]])
      next
        case pc: True
        consider (fault) e where "scan_spec rest initial_spec = Inl e"
          | (fin) "scan_spec rest initial_spec = Inr None"
          | (spec) sp conv rest' where "scan_spec rest initial_spec = Inr (Some (sp, conv, rest'))"
          by (cases "scan_spec rest initial_spec") (auto split: option.splits, metis option.exhaust prod_cases3)
        then show ?thesis
        proof cases
          case fault
          then show ?thesis using Cons room pc by (simp add: unf scan_spec_fault)
        next
          case fin
          then show ?thesis using Cons room pc by (simp add: unf)
        next
          case spec
          note cs = convert_safe [OF "1.prems"(1,2), of count arm sp conv args]
          show ?thesis
          proof (cases "convert arm sz sp conv args buf count")
            case (Inl e)
            then show ?thesis using Cons room pc spec cs by (simp add: unf)
          next
            case (Inr r)
            obtain b1 c1 a1 where r: "r = (b1, c1, a1)" by (cases r)
            have w: "count \<le> c1" "int c1 \<le> sz - 1" "wrote count (nat sz - 1) buf b1"
              using cs room Inr r by auto
            have "case vsnprintf_loop arm sz rest' a1 b1 c1 of
                Inl e \<Rightarrow> e \<noteq> OutOfBounds
              | Inr (buf', count') \<Rightarrow> int count' \<le> sz - 1 \<and> wrote c1 (nat sz - 1) b1 buf'"
              using w room "1.prems" pc Cons spec Inr r by (intro "1.IH"(1)) (auto simp: wrote_def)
            then show ?thesis using Cons room pc spec Inr r
              by (auto simp: unf split: sum.splits elim!: wrote_trans [OF w(3) [simplified] _ w(1)])
          qed
        qed
      qed
    qed
  qed
qed

text \<open>
  C20: vsnprintf never reads or writes outside the first size characters of the array it is
  given, whatever the format and the arguments; when it returns, the count is below size, the
  character at the count is the terminating NUL and everything from size on is unchanged.
\<close>

theorem vsnprintf_memory_safe:
  assumes "0 < sz" and "nat sz \<le> length buf"
  shows "case vsnprintf arm buf sz fmt args of
      Inl e \<Rightarrow> e \<noteq> OutOfBounds
    | Inr (buf', count) \<Rightarrow> int count < sz \<and> length buf' = length buf \<and> buf' ! count = nul
        \<and> drop (nat sz) buf' = drop (nat sz) buf"
proof (cases "vsnprintf_loop arm sz fmt args buf 0")
  case (Inl e)
  then show ?thesis
    using vsnprintf_loop_safe [OF assms, of 0 arm fmt args] assms by (simp add: vsnprintf_def)
next
  case (Inr r)
  obtain b1 c1 where r: "r = (b1, c1)" by (cases r)
  have w: "int c1 \<le> sz - 1" "wrote 0 (nat sz - 1) buf b1"
    using vsnprintf_loop_safe [OF assms, of 0 arm fmt args] assms Inr r by auto
  have "drop 1 (drop (nat sz - 1) b1) = drop 1 (drop (nat sz - 1) buf)"
    using w(2) by (simp add: wrote_def)
  then have "drop (nat sz) b1 = drop (nat sz) buf" using assms(1) by simp
  then show ?thesis using Inr r w assms
    by (auto simp: vsnprintf_def store_def wrote_def)
qed

subsection \<open>What a format denotes\<close>

text \<open>
  The text a conversion stands for, where it stands for one: a number is written in full when it
  is below 2^31 times its base, is not negative under %d and, in an __ARM build, is in base 16.
\<close>

definition writable :: "bool \<Rightarrow> number_base \<Rightarrow> u64 \<Rightarrow> bool" where
  "writable arm base v \<longleftrightarrow> unat v < 2 ^ 31 * base_nat base \<and> (arm \<longrightarrow> base = Hex)"

definition render_num :: "bool \<Rightarrow> conv_spec \<Rightarrow> number_base \<Rightarrow> bool \<Rightarrow> u64 \<Rightarrow> string option" where
  "render_num arm sp base is_signed v =
     (if writable arm base v \<and> (is_signed \<longrightarrow> 0 \<le> sint v)
      then Some (pad_left (nat (pad_size sp)) (spec_pad_char sp) (number_text base (unat v))) else None)"

fun render_conv :: "bool \<Rightarrow> conv_spec \<Rightarrow> char \<Rightarrow> vararg list \<Rightarrow> (string \<times> vararg list) option" where
  "render_conv arm sp c (Num w # args) =
     (let long = number_size sp = 8 in
      if c = CHR ''d'' \<or> c = CHR ''u'' then
        map_option (\<lambda>t. (t, args)) (render_num arm sp Dec (c = CHR ''d'') (if long then w else arg_int w))
      else if c = CHR ''b'' then map_option (\<lambda>t. (t, args)) (render_num arm sp Bin False (if long then w else arg_uint w))
      else if c = CHR ''x'' then map_option (\<lambda>t. (t, args)) (render_num arm sp Hex False (if long then w else arg_uint w))
      else if c = CHR ''p'' then map_option (\<lambda>t. (''0x'' @ t, args)) (render_num arm sp Hex False w)
      else if c = CHR ''s'' then None
      else if c = CHR ''c'' then Some ([char_of (unat w)], args)
      else Some ([c], Num w # args))"
| "render_conv arm sp c (Str s # args) =
     (if c = CHR ''s'' then
        Some (pad_right (nat (pad_size sp)) (spec_pad_char sp) (takeWhile (\<lambda>c. c \<noteq> nul) s), args)
      else if c \<in> set ''dubxpc'' then None else Some ([c], Str s # args))"
| "render_conv arm sp c [] = (if c \<in> set ''dubxpsc'' then None else Some ([c], []))"

function render :: "bool \<Rightarrow> string \<Rightarrow> vararg list \<Rightarrow> string option" where
  "render arm [] args = Some []"
| "render arm (c # fmt) args =
     (if c = nul then Some []
      else if c = CHR ''%'' then
        (case scan_spec fmt initial_spec of
           Inl e \<Rightarrow> None
         | Inr None \<Rightarrow> Some []
         | Inr (Some (sp, conv, fmt')) \<Rightarrow>
             Option.bind (render_conv arm sp conv args) (\<lambda>(t, args').
             map_option (\<lambda>u. t @ u) (render arm fmt' args')))
      else map_option (\<lambda>u. c # u) (render arm fmt args))"
  by pat_completeness auto
termination
  by (relation "measure (\<lambda>(arm, fmt, args). length fmt)") (auto dest: scan_spec_length)

lemma append_num_render:
  assumes "render_num arm sp base is_signed v = Some t" "nat sz \<le> length rest" "int (length t) < sz"
  shows "append_num arm (pre @ rest) (length pre) sz v base is_signed (pad_size sp) (spec_pad_char sp)
    = Inr (pre @ t @ drop (length t) rest, length t)"
proof -
  have w: "unat v < 2 ^ 31 * base_nat base" "arm \<Longrightarrow> base = Hex" "is_signed \<Longrightarrow> 0 \<le> sint v"
    and t: "t = pad_left (nat (pad_size sp)) (spec_pad_char sp) (number_text base (unat v))"
    using assms(1) by (auto simp: render_num_def writable_def split: if_splits)
  have "num_text arm sz v base is_signed (pad_size sp) (spec_pad_char sp) = t"
    using num_text_fits [OF w] assms(3) unfolding t by blast
  moreover have "is_signed \<and> sint v < 0 \<Longrightarrow> 0 < sz" "\<not> (arm \<and> base \<noteq> Hex)"
    using w(2,3) by auto
  ultimately show ?thesis
    using append_num_piece [OF assms(2), of is_signed v arm base pre "pad_size sp" "spec_pad_char sp"]
    by (simp add: Let_def)
qed

lemma append_str_render:
  assumes "t = pad_right (nat pad) pc (takeWhile (\<lambda>c. c \<noteq> nul) s)" "nat sz \<le> length rest" "int (length t) < sz"
  shows "append_str (pre @ rest) (length pre) sz s pad pc = Inr (pre @ t @ drop (length t) rest, length t)"
proof -
  let ?s = "takeWhile (\<lambda>c. c \<noteq> nul) s"
  have l: "length ?s < nat sz" "length ?s + (nat pad - length ?s) < nat sz" using assms(1,3) by (auto simp: pad_right_def)
  then have "take (nat sz) ?s = ?s" "min (nat sz) (nat pad) - length ?s = nat pad - length ?s" by auto
  then show ?thesis
    using append_str_piece [OF assms(2), of pre s pad pc] assms(1) by (simp add: pad_right_def Let_def)
qed

lemma convert_render:
  assumes "render_conv arm sp c args = Some (t, args')"
    and "nat (sz - 1) - length pre \<le> length rest" and "int (length pre + length t) < sz - 1"
  shows "convert arm sz sp c args (pre @ rest) (length pre)
    = Inr (pre @ t @ drop (length t) rest, length pre + length t, args')"
proof -
  have room: "nat (sz - 1 - int (length pre)) \<le> length rest" "int (length t) < sz - 1 - int (length pre)"
    using assms(2,3) by linarith+
  obtain r rs where rest: "rest = r # rs" using assms(2,3) by (cases rest) auto
  note num_r = append_num_render [OF _ room(1)] and str_r = append_str_render [OF _ room(1)]
  show ?thesis
  proof -
    consider (p) "c = CHR ''p''" | (num) "c \<in> {CHR ''d'', CHR ''u'', CHR ''b'', CHR ''x''}"
      | (str) "c = CHR ''s''" | (other) "c \<notin> {CHR ''p'', CHR ''d'', CHR ''u'', CHR ''b'', CHR ''x'', CHR ''s''}" by blast
    then show ?thesis
    proof cases
      case p
    from p obtain w u where u: "args = Num w # args'" "render_num arm sp Hex False w = Some u" "t = ''0x'' @ u"
      using assms(1) by (cases "(arm, sp, c, args)" rule: render_conv.cases) auto
    obtain r2 rest' where rest': "rest = r # r2 # rest'"
      using room u(3) rest by (cases rs) auto
    have "append_str (pre @ rest) (length pre) (sz - 1 - int (length pre)) ''0x'' 0 (CHR '' '')
        = Inr (pre @ ''0x'' @ drop 2 rest, 2)"
      using str_r [of "''0x''" 0 "CHR '' ''" "''0x''" pre] room u(3) by (simp add: pad_right_def nul_def numeral_2_eq_2)
    moreover have "append_num arm (pre @ ''0x'' @ drop 2 rest) (length pre + 2) (sz - 1 - int (length pre + 2)) w Hex False
        (pad_size sp) (spec_pad_char sp) = Inr (pre @ t @ drop (length t) rest, length u)"
      using append_num_render [OF u(2), of "sz - 1 - int (length pre + 2)" "drop 2 rest" "pre @ ''0x''"] room u(3) rest'
      by (simp add: Suc_nat_eq_nat_zadd1)
    ultimately show ?thesis using p u by (simp add: convert_def Let_def)
    next
      case num
      define base where "base = (if c = CHR ''b'' then Bin else if c = CHR ''x'' then Hex else Dec)"
      define v where "v w = (if c = CHR ''d'' \<or> c = CHR ''u'' then if number_size sp = 8 then w else arg_int w
          else if number_size sp = 8 then w else arg_uint w)" for w
      obtain w where w: "args = Num w # args'" "render_num arm sp base (c = CHR ''d'') (v w) = Some t"
        using num assms(1) by (cases "(arm, sp, c, args)" rule: render_conv.cases) (auto simp: base_def v_def)
      have "append_num arm (pre @ rest) (length pre) (sz - 1 - int (length pre)) (v w) base (c = CHR ''d'')
          (pad_size sp) (spec_pad_char sp) = Inr (pre @ t @ drop (length t) rest, length t)"
        by (rule num_r [OF w(2) room(2)])
      then show ?thesis
        using num unfolding base_def v_def w(1) convert_def Let_def
        by (elim insertE emptyE; cases "number_size sp = 8"; simp)
    next
      case str
      then obtain s where s: "args = Str s # args'"
        "t = pad_right (nat (pad_size sp)) (spec_pad_char sp) (takeWhile (\<lambda>c. c \<noteq> nul) s)"
        using assms(1) by (cases "(arm, sp, c, args)" rule: render_conv.cases) auto
      show ?thesis using str_r [OF s(2) room(2), of pre] by (simp add: convert_def Let_def s(1) str)
    next
      case other
      then show ?thesis
        using assms(1) room rest
        by (cases "(arm, sp, c, args)" rule: render_conv.cases)
           (auto simp: convert_def Let_def store_def split: if_splits)
    qed
  qed
qed

lemma vsnprintf_loop_render:
  assumes "render arm fmt args = Some t"
    and "nat (sz - 1) - length pre \<le> length rest" and "int (length pre + length t) < sz - 1"
  shows "vsnprintf_loop arm sz fmt args (pre @ rest) (length pre)
    = Inr (pre @ t @ drop (length t) rest, length pre + length t)"
  using assms
proof (induction arm fmt args arbitrary: t pre rest rule: render.induct)
  case (1 arm args)
  then show ?case by (simp add: vsnprintf_loop_unfold)
next
  case (2 arm c fmt args)
  have room: "int (length pre) < sz - 1" using 2(5) by linarith
  consider (stop) "c = nul" | (lit) "c \<noteq> nul" "c \<noteq> CHR ''%''" | (conv) "c \<noteq> nul" "c = CHR ''%''" by blast
  then show ?case
  proof cases
    case stop
    then show ?thesis using "2.prems" by (simp add: vsnprintf_loop_unfold)
  next
    case lit
    then obtain u where u: "render arm fmt args = Some u" "t = c # u" using "2.prems"(1) by auto
    obtain r rs where rest: "rest = r # rs" using "2.prems"(2) room by (cases rest) auto
    have "vsnprintf_loop arm sz fmt args ((pre @ [c]) @ rs) (length (pre @ [c]))
        = Inr ((pre @ [c]) @ u @ drop (length u) rs, length (pre @ [c]) + length u)"
      using "2.prems" u rest lit by (intro "2.IH"(2)) auto
    then show ?thesis using lit room u rest by (simp add: vsnprintf_loop_unfold)
  next
    case conv
    show ?thesis
    proof (cases "scan_spec fmt initial_spec")
      case (Inl e)
      then show ?thesis using conv "2.prems"(1) by simp
    next
      case (Inr o1)
      show ?thesis
      proof (cases o1)
        case None
        then show ?thesis using Inr conv room "2.prems"(1) by (simp add: vsnprintf_loop_unfold)
      next
        case (Some x)
        obtain sp cv fmt' where x: "x = (sp, cv, fmt')" by (cases x)
        obtain t1 args' u where u: "render_conv arm sp cv args = Some (t1, args')"
          "render arm fmt' args' = Some u" "t = t1 @ u"
          using conv Inr Some x "2.prems"(1) by (auto simp: bind_eq_Some_conv)
        have "convert arm sz sp cv args (pre @ rest) (length pre)
            = Inr (pre @ t1 @ drop (length t1) rest, length pre + length t1, args')"
          using u(3) "2.prems"(2,3) by (intro convert_render [OF u(1)]) auto
        moreover have "vsnprintf_loop arm sz fmt' args' ((pre @ t1) @ drop (length t1) rest) (length (pre @ t1))
            = Inr ((pre @ t1) @ u @ drop (length u) (drop (length t1) rest), length (pre @ t1) + length u)"
          using u "2.prems"(2,3) conv Inr Some x
          by (intro "2.IH"(1)) auto
        ultimately show ?thesis
          using conv room Inr Some x u by (simp add: vsnprintf_loop_unfold add.commute add.left_commute)
      qed
    qed
  qed
qed

lemma vsnprintf_render_eq:
  assumes "render arm fmt args = Some t" and "int (length t) < sz - 1" and "nat sz \<le> length buf"
  shows "vsnprintf arm buf sz fmt args = Inr (t @ nul # drop (Suc (length t)) buf, length t)"
proof -
  have "vsnprintf_loop arm sz fmt args buf 0 = Inr (t @ drop (length t) buf, length t)"
    using vsnprintf_loop_render [OF assms(1), of sz "[]" buf] assms by simp
  moreover have "length t < length buf" using assms by linarith
  ultimately show ?thesis using assms(2)
    by (auto simp: vsnprintf_def store_def list_update_append upd_conv_take_nth_drop nth_append Cons_nth_drop_Suc [symmetric])
qed

text \<open>
  C2: a format that denotes a text (render: literal characters, numbers in the positional
  representation of their base, padded, strings, pointers) is written in full, followed by a
  NUL, when the text is shorter than size - 1; the rest of the array keeps its contents and the
  length of the text is returned.
\<close>

theorem vsnprintf_renders:
  assumes "render arm fmt args = Some t" and "int (length t) < sz - 1" and "nat sz \<le> length buf"
  shows "vsnprintf arm buf sz fmt args = Inr (t @ nul # drop (Suc (length t)) buf, length t)"
  using assms by (rule vsnprintf_render_eq)

lemma fprintf_no_sink:
  "fprintf arm junk None fmt args s = Inr (0, s)"
  "fprintf arm junk (Some \<lparr>putch_fn = None\<rparr>) fmt args s = Inr (0, s)"
  by (simp_all add: fprintf_def)

lemma fprintf_render_eq:
  assumes "render arm fmt args = Some t" and "nul \<notin> set t" and "length t < 0xfff" and "0x1000 \<le> length junk"
  shows "fprintf arm junk (Some \<lparr>putch_fn = Some putch\<rparr>) fmt args s = Inr (length t, foldl putch s t)"
proof -
  have "vsnprintf arm junk 0x1000 fmt args = Inr (t @ nul # drop (Suc (length t)) junk, length t)"
    using assms by (intro vsnprintf_render_eq) auto
  moreover have "takeWhile (\<lambda>c. c \<noteq> nul) (take 0x1000 (t @ nul # rest)) = t" for rest
  proof -
    have "take 0x1000 (t @ nul # rest) = t @ nul # take (0xfff - length t) rest"
      using assms(3) by (simp add: take_Cons')
    then show ?thesis using assms(2) by (auto simp: takeWhile_append takeWhile_eq_all_conv)
  qed
  ultimately show ?thesis by (simp add: fprintf_def)
qed

text \<open>
  Fprintf hands a registered file exactly the text its format denotes, character by
  character and in order, and returns its length, whatever its stack array held before.
\<close>

theorem fprintf_renders:
  assumes "render arm fmt args = Some t" and "nul \<notin> set t" and "length t < 0xfff" and "0x1000 \<le> length junk"
  shows "fprintf arm junk (Some \<lparr>putch_fn = Some putch\<rparr>) fmt args s = Inr (length t, foldl putch s t)"
  using assms by (rule fprintf_render_eq)

subsection \<open>Concrete instances\<close>

lemma digits_numeral [simp]:
  "digits base (numeral k) = digits base (numeral k div base_nat base) @ [digit_of_nat (numeral k mod base_nat base)]"
  by (simp add: digits.simps [of base "numeral k"])

lemma digits_1 [simp]: "digits base (Suc 0) = [digit_of_nat 1]"
  by (cases base) (simp_all add: digits.simps [of base "Suc 0" for base])

lemmas render_eval = render_num_def writable_def pad_left_def pad_right_def number_text_def
  digit_of_nat_def arg_int_def arg_uint_def initial_spec_def set_pad_def nul_def char_of_def bit_Suc_0_iff

lemma vsnprintf_renders_witness:
  "render False ''%s: %04x'' [Str ''id'', Num 255] = Some ''id: 00ff'' \<and>
   vsnprintf False (replicate 16 (CHR ''*'')) 12 ''%s: %04x'' [Str ''id'', Num 255]
     = Inr (''id: 00ff'' @ nul # replicate 7 (CHR ''*''), 8)"
proof -
  have r: "render False ''%s: %04x'' [Str ''id'', Num 255] = Some ''id: 00ff''"
    by (simp add: render_eval) (simp add: numeral_eq_Suc)
  show ?thesis using r vsnprintf_renders [OF r, of 12 "replicate 16 (CHR ''*'')"] by simp
qed

lemma fprintf_renders_witness:
  "fprintf False (replicate 0x1000 (CHR ''*'')) (Some \<lparr>putch_fn = Some (\<lambda>s c. s @ [c])\<rparr>) ''%d%c''
     [Num 42, Num 10] [] = Inr (3, ''42'' @ [CHR 0x0A])"
proof -
  have r: "render False ''%d%c'' [Num 42, Num 10] = Some (''42'' @ [CHR 0x0A])"
    by (simp add: render_eval)
  show ?thesis
    using fprintf_renders [OF r, of "replicate 0x1000 (CHR ''*'')" "\<lambda>s c. s @ [c]" "[]"]
    by (simp add: nul_def)
qed

lemma vsnprintf_memory_safe_witness:
  "case vsnprintf True (replicate 4 (CHR ''*'')) 4 ''%d %s!'' [Num 7, Str ''overlong''] of
      Inl e \<Rightarrow> e \<noteq> OutOfBounds
    | Inr (buf', count) \<Rightarrow> int count < 4 \<and> length buf' = length (replicate 4 (CHR ''*'')) \<and> buf' ! count = nul
      \<and> drop (nat 4) buf' = drop (nat 4) (replicate 4 (CHR ''*''))"
  by (rule vsnprintf_memory_safe [of 4 "replicate 4 (CHR ''*'')"]) simp_all

end
