(* ===== verification/Page_Tables.thy ===== *)
theory Page_Tables
  imports Sim_Prelude
begin

section \<open>Four-level translation tables\<close>

text \<open>
  The x86_64 and the armv8 ports build the same tree: a table is a page of 512 entries of eight
  bytes, an entry of the upper three levels holds flag bits and the page-aligned address of the
  next table, an entry of the last level is the mapping. This theory holds what the two ports
  share and the argument that extending the tree for one address changes no other mapping.

  Memory is a function from the byte address of an aligned 8-byte cell to its contents. The
  entry format of a port is a pair of functions: present (the hardware follows the entry) and
  base (its address field).
\<close>

definition cell :: "u64 \<Rightarrow> u32 \<Rightarrow> u64" where
  [model_eval]: "cell t i = t + 8 * ucast i"

definition page_aligned :: "u64 \<Rightarrow> bool" where
  [model_eval]: "page_aligned t \<longleftrightarrow> t AND 0xfff = 0"

definition path :: "u32 list \<Rightarrow> bool" where
  "path p \<longleftrightarrow> (\<forall>i\<in>set p. i < 512)"

text \<open>The table a path of indices is linked to, whether or not the links are present.\<close>

fun node :: "(u64 \<Rightarrow> u64) \<Rightarrow> (u64 \<Rightarrow> u64) \<Rightarrow> u64 \<Rightarrow> u32 list \<Rightarrow> u64 option" where
  "node base m t [] = Some t"
| "node base m t (i # p) =
     (let b = base (m (cell t i)) in if b = 0 then None else node base m b p)"

text \<open>The hardware's walk: the entry a full path reads, if every entry on the way is present.\<close>

fun look :: "(u64 \<Rightarrow> bool) \<Rightarrow> (u64 \<Rightarrow> u64) \<Rightarrow> (u64 \<Rightarrow> u64) \<Rightarrow> u64 \<Rightarrow> u32 list \<Rightarrow> u64 option" where
  "look present base m t [] = None"
| "look present base m t [i] = (let e = m (cell t i) in if present e then Some e else None)"
| "look present base m t (i # j # p) =
     (let e = m (cell t i) in if present e then look present base m (base e) (j # p) else None)"

text \<open>Every entry along a path is present.\<close>

fun visible :: "(u64 \<Rightarrow> bool) \<Rightarrow> (u64 \<Rightarrow> u64) \<Rightarrow> (u64 \<Rightarrow> u64) \<Rightarrow> u64 \<Rightarrow> u32 list \<Rightarrow> bool" where
  "visible present base m t [] = True"
| "visible present base m t (i # p) =
     (present (m (cell t i)) \<and> visible present base m (base (m (cell t i))) p)"

text \<open>
  The invariant: all tables are distinct aligned pages taken from the heap between lo and the
  allocation pointer cur, each linked from one place only, and a present upper-level entry has
  a table behind it.
\<close>

definition tables_ok ::
  "(u64 \<Rightarrow> bool) \<Rightarrow> (u64 \<Rightarrow> u64) \<Rightarrow> (u64 \<Rightarrow> u64) \<Rightarrow> u64 \<Rightarrow> u64 \<Rightarrow> u64 \<Rightarrow> bool" where
  "tables_ok present base m root lo cur \<longleftrightarrow>
     0 < lo \<and> page_aligned cur \<and>
     (\<forall>p t. path p \<and> length p \<le> 3 \<and> node base m root p = Some t \<longrightarrow>
        page_aligned t \<and> lo \<le> t \<and> t < cur) \<and>
     (\<forall>p q t. path p \<and> path q \<and> length p \<le> 3 \<and> length q \<le> 3 \<and>
        node base m root p = Some t \<and> node base m root q = Some t \<longrightarrow> p = q) \<and>
     (\<forall>p t i. path p \<and> length p \<le> 2 \<and> i < 512 \<and> node base m root p = Some t \<and>
        present (m (cell t i)) \<longrightarrow> base (m (cell t i)) \<noteq> 0)"

text \<open>
  What descending through entry i of table t may do to the memory m and the allocation pointer:
  nothing when the entry is present; otherwise make it present with an empty table behind it,
  which is the table it still names, or the next page of the heap.
\<close>

definition descended ::
  "(u64 \<Rightarrow> bool) \<Rightarrow> (u64 \<Rightarrow> u64) \<Rightarrow> u64 \<Rightarrow> u32 \<Rightarrow> (u64 \<Rightarrow> u64) \<Rightarrow> u64 \<Rightarrow> (u64 \<Rightarrow> u64) \<Rightarrow> u64 \<Rightarrow> u64 \<Rightarrow> bool" where
  "descended present base t i m cur m' cur' c \<longleftrightarrow>
     (if present (m (cell t i)) then m' = m \<and> cur' = cur \<and> c = base (m (cell t i))
      else present (m' (cell t i)) \<and> base (m' (cell t i)) = c \<and>
        (\<forall>j<512. \<not> present (m' (cell c j))) \<and>
        (\<forall>a. a \<noteq> cell t i \<longrightarrow> (\<forall>j<512. a \<noteq> cell c j) \<longrightarrow> m' a = m a) \<and>
        (if base (m (cell t i)) = 0
         then c = cur \<and> cur' = cur + 0x1000 \<and> cur < cur' \<and> (\<forall>j<512. base (m' (cell c j)) = 0)
         else c = base (m (cell t i)) \<and> cur' = cur \<and>
           (\<forall>j<512. base (m' (cell c j)) = base (m (cell c j)))))"

text \<open>Every entry of the upper-level tables has the given shape.\<close>

definition shaped ::
  "(u64 \<Rightarrow> bool) \<Rightarrow> (u64 \<Rightarrow> u64) \<Rightarrow> (u64 \<Rightarrow> u64) \<Rightarrow> u64 \<Rightarrow> bool" where
  "shaped shape base m root \<longleftrightarrow>
     (\<forall>p t i. path p \<and> length p \<le> 2 \<and> i < 512 \<and> node base m root p = Some t \<longrightarrow> shape (m (cell t i)))"

subsection \<open>Cells of distinct tables are distinct\<close>

lemma page_aligned_take_bit: "page_aligned t \<longleftrightarrow> take_bit 12 t = 0"
proof -
  have "(0xfff::u64) = mask 12" by (simp add: mask_eq_exp_minus_1)
  then show ?thesis unfolding page_aligned_def by (simp only: take_bit_eq_mask)
qed

lemma page_aligned_nat: "page_aligned t \<longleftrightarrow> unat t mod 4096 = 0"
proof -
  have "unat (take_bit 12 t) = unat t mod 2 ^ 12"
    by (simp only: unsigned_take_bit_eq) (simp add: take_bit_eq_mod)
  then show ?thesis unfolding page_aligned_take_bit by (simp add: unat_eq_0 [symmetric])
qed

lemma page_aligned_next:
  assumes "page_aligned t"
  shows "page_aligned (t + 0x1000)"
proof -
  have "4096 dvd unat t + 4096" using assms by (auto simp: page_aligned_nat)
  moreover have "(4096::nat) dvd 2 ^ 64" by simp
  ultimately have "4096 dvd (unat t + 4096) mod 2 ^ 64" by (rule dvd_mod)
  then show ?thesis by (simp add: page_aligned_nat unat_word_ariths)
qed

lemma unat_cell:
  assumes "page_aligned t" and "i < 512"
  shows "unat (cell t i) = unat t + 8 * unat i"
proof -
  obtain k where k: "unat t = 4096 * k" using assms(1) by (auto simp: page_aligned_nat)
  have "unat t < 2 ^ 64" using unsigned_less [of t, where ?'a = nat] by simp
  with k have "4096 * k < 4096 * 2 ^ 52" by simp
  then have "k < 2 ^ 52" by simp
  then have b: "unat t + 8 * 511 < 2 ^ 64" using k by simp
  have i: "unat i < 512" using assms(2) by (simp add: word_less_nat_alt)
  have "unat (ucast i :: u64) = unat i"
    using i by (simp add: unsigned_ucast_eq take_bit_nat_eq_self)
  then have "unat (8 * ucast i :: u64) = 8 * unat i"
    using i by (simp add: unat_mult_lem [THEN iffD1])
  then show ?thesis unfolding cell_def using b i by (subst unat_add_lem [THEN iffD1]) simp_all
qed

lemma cell_inject:
  assumes "page_aligned t" "page_aligned u" "i < 512" "j < 512"
  shows "cell t i = cell u j \<longleftrightarrow> t = u \<and> i = j"
proof
  assume e: "cell t i = cell u j"
  have "unat i < 512" "unat j < 512" using assms(3,4) by (simp_all add: word_less_nat_alt)
  moreover have "unat t + 8 * unat i = unat u + 8 * unat j"
    using e unat_cell [OF assms(1,3)] unat_cell [OF assms(2,4)] by simp
  moreover obtain a b where "unat t = 4096 * a" "unat u = 4096 * b"
    using assms(1,2) by (auto simp: page_aligned_nat elim!: dvdE)
  ultimately have "4096 * a + 8 * unat i = 4096 * b + 8 * unat j" "unat i < 512" "unat j < 512"
    and tu: "unat t = 4096 * a" "unat u = 4096 * b" by simp_all
  then have "a = b \<and> unat i = unat j"
    by (cases a b rule: linorder_cases) linarith+
  then have "unat i = unat j" "unat t = unat u" using tu by simp_all
  then show "t = u \<and> i = j" by (simp add: word_unat_eq_iff)
qed simp

lemma cell_of_nat_iff: "(\<exists>j<512. a = cell t (word_of_nat j)) \<longleftrightarrow> (\<exists>j<512. a = cell t j)"
proof
  assume "\<exists>j<512. a = cell t (word_of_nat j)"
  then obtain j where j: "j < 512" "a = cell t (word_of_nat j)" by blast
  then have "(word_of_nat j :: u32) < 512"
    by (simp add: word_less_nat_alt unsigned_of_nat take_bit_nat_eq_self)
  then show "\<exists>j<512. a = cell t j" using j(2) by blast
next
  assume "\<exists>j<512. a = cell t j"
  then obtain j where j: "j < 512" "a = cell t j" by blast
  then have "unat j < 512" by (simp add: word_less_nat_alt)
  then show "\<exists>j<512. a = cell t (word_of_nat j)" using j(2) by (intro exI [of _ "unat j"]) simp
qed

lemma path_simps [simp]:
  "path []" "path (i # p) \<longleftrightarrow> i < 512 \<and> path p" "path (p @ q) \<longleftrightarrow> path p \<and> path q"
  by (auto simp: path_def)

lemma snoc_extends:
  assumes "\<not> (\<exists>r. q = p @ [i] @ r)"
  shows "(\<exists>r. q @ [j] = p @ [i] @ r) \<longleftrightarrow> q = p \<and> j = i"
proof
  assume "\<exists>r. q @ [j] = p @ [i] @ r"
  then obtain r where r: "q @ [j] = p @ [i] @ r" by blast
  then show "q = p \<and> j = i" using assms by (cases r rule: rev_cases) (auto simp flip: append_assoc)
qed auto

lemma node_append:
  "node base m t (p @ q) = Option.bind (node base m t p) (\<lambda>u. node base m u q)"
  by (induction p arbitrary: t) (simp_all add: Let_def)

lemma node_snoc:
  "node base m t (p @ [i]) = Some c \<longleftrightarrow>
     (\<exists>u. node base m t p = Some u \<and> base (m (cell u i)) = c \<and> c \<noteq> 0)"
  by (auto simp: node_append Let_def bind_eq_Some_conv split: if_splits)

lemma node_prefix: "node base m t (p @ q) \<noteq> None \<Longrightarrow> node base m t p \<noteq> None"
  by (auto simp: node_append bind_eq_Some_conv)

subsection \<open>The bits of an address that select its page\<close>

lemma bit_0x1ff: "bit (0x1ff :: u64) n \<longleftrightarrow> n < 9"
proof -
  have "(0x1ff :: u64) = mask 9" by (simp add: mask_eq_exp_minus_1)
  then show ?thesis by (simp only: bit_mask_iff) auto
qed

lemma index_eq_iff:
  fixes x y :: u32 and a b :: u64
  assumes "\<And>n. bit x n \<longleftrightarrow> n < 9 \<and> bit a (k + n)" and "\<And>n. bit y n \<longleftrightarrow> n < 9 \<and> bit b (k + n)"
  shows "x = y \<longleftrightarrow> (\<forall>n<9. bit a (k + n) = bit b (k + n))"
proof
  assume "x = y"
  then have "bit x n = bit y n" for n by simp
  then show "\<forall>n<9. bit a (k + n) = bit b (k + n)" unfolding assms by blast
next
  assume "\<forall>n<9. bit a (k + n) = bit b (k + n)"
  then show "x = y" by (intro bit_eqI) (simp only: assms, blast)
qed

lemma page_bits_iff:
  fixes a b :: u64
  shows "(\<forall>n. 12 \<le> n \<and> n < 48 \<longrightarrow> bit a n = bit b n) \<longleftrightarrow>
    (\<forall>n<9. bit a (39 + n) = bit b (39 + n)) \<and> (\<forall>n<9. bit a (30 + n) = bit b (30 + n)) \<and>
    (\<forall>n<9. bit a (21 + n) = bit b (21 + n)) \<and> (\<forall>n<9. bit a (12 + n) = bit b (12 + n))"
proof
  assume e: "(\<forall>n<9. bit a (39 + n) = bit b (39 + n)) \<and> (\<forall>n<9. bit a (30 + n) = bit b (30 + n)) \<and>
    (\<forall>n<9. bit a (21 + n) = bit b (21 + n)) \<and> (\<forall>n<9. bit a (12 + n) = bit b (12 + n))"
  show "\<forall>n. 12 \<le> n \<and> n < 48 \<longrightarrow> bit a n = bit b n"
  proof (intro allI impI)
    fix n :: nat assume "12 \<le> n \<and> n < 48"
    then consider "12 \<le> n" "n - 12 < 9" | "21 \<le> n" "n - 21 < 9" | "30 \<le> n" "n - 30 < 9" | "39 \<le> n" "n - 39 < 9"
      by linarith
    then show "bit a n = bit b n"
    proof cases
      case 1
      then show ?thesis using e [THEN conjunct2, THEN conjunct2, THEN conjunct2, rule_format, of "n - 12"] by simp
    next
      case 2
      then show ?thesis using e [THEN conjunct2, THEN conjunct2, THEN conjunct1, rule_format, of "n - 21"] by simp
    next
      case 3
      then show ?thesis using e [THEN conjunct2, THEN conjunct1, rule_format, of "n - 30"] by simp
    next
      case 4
      then show ?thesis using e [THEN conjunct1, rule_format, of "n - 39"] by simp
    qed
  qed
qed auto

lemma bit_0xfff: "bit (0xfff :: u64) n \<longleftrightarrow> n < 12"
proof -
  have "(0xfff :: u64) = mask 12" by (simp add: mask_eq_exp_minus_1)
  then show ?thesis by (simp only: bit_mask_iff) auto
qed

lemma high_bits_zero:
  assumes "a < 2 ^ 48" and "48 \<le> n"
  shows "\<not> bit (a :: u64) n"
proof -
  have "unat a < 2 ^ 48" using assms(1) by (simp add: word_less_nat_alt)
  then have "take_bit 48 a = a" by (simp add: word_unat_eq_iff unsigned_take_bit_eq take_bit_nat_eq_self)
  then have "bit a n = bit (take_bit 48 a) n" by simp
  then show ?thesis using assms(2) by (simp add: bit_take_bit_iff)
qed

lemma same_page:
  assumes "\<forall>n. 12 \<le> n \<and> n < 48 \<longrightarrow> bit a n = bit b n" "a < 2 ^ 48" "b < 2 ^ 48"
  shows "a AND NOT 0xfff = (b AND NOT 0xfff :: u64)"
proof -
  have "bit a n = bit b n" if "12 \<le> n" for n
    using that assms high_bits_zero by (cases "n < 48") auto
  then show ?thesis
    by (intro bit_eqI) (auto simp only: bit_and_iff bit_not_iff bit_0xfff not_less)
qed

subsection \<open>Descending and writing a last-level entry\<close>

locale entry_format =
  fixes present :: "u64 \<Rightarrow> bool" and base :: "u64 \<Rightarrow> u64"
  assumes base_aligned: "page_aligned (base e)"
begin

lemma visible_snoc:
  assumes "node base m t p = Some u"
  shows "visible present base m t (p @ [i]) \<longleftrightarrow> visible present base m t p \<and> present (m (cell u i))"
  using assms by (induction p arbitrary: t) (auto simp: Let_def split: if_splits)

lemma visible_prefix: "visible present base m t (p @ q) \<Longrightarrow> visible present base m t p"
  by (induction p arbitrary: t) auto

lemma look_snoc:
  assumes "node base m t p = Some u"
  shows "look present base m t (p @ [i]) =
    (if visible present base m t p \<and> present (m (cell u i)) then Some (m (cell u i)) else None)"
  using assms
proof (induction p arbitrary: t)
  case (Cons j p)
  then show ?case by (cases p) (auto simp: Let_def split: if_splits)
qed (simp add: Let_def)

lemma look_invisible:
  "\<not> visible present base m t p \<Longrightarrow> look present base m t (p @ [i]) = None"
proof (induction p arbitrary: t)
  case (Cons j p)
  then show ?case by (cases p) (auto simp: Let_def)
qed simp

lemma tables_okD:
  assumes "tables_ok present base m root lo cur" "path p" "length p \<le> 3" "node base m root p = Some t"
  shows "page_aligned t" "lo \<le> t" "t < cur" "t \<noteq> 0"
    "\<lbrakk>path q; length q \<le> 3; node base m root q = Some t\<rbrakk> \<Longrightarrow> p = q"
    "\<lbrakk>length p \<le> 2; i < 512; present (m (cell t i))\<rbrakk> \<Longrightarrow> base (m (cell t i)) \<noteq> 0"
proof -
  show "page_aligned t" "lo \<le> t" "t < cur" using assms unfolding tables_ok_def by blast+
  then show "t \<noteq> 0" using assms(1) unfolding tables_ok_def by (metis leD word_coorder.extremum word_le_0_iff)
  show "p = q" if "path q" "length q \<le> 3" "node base m root q = Some t"
    using assms that unfolding tables_ok_def by blast
  show "base (m (cell t i)) \<noteq> 0" if "length p \<le> 2" "i < 512" "present (m (cell t i))"
    using assms that unfolding tables_ok_def by blast
qed

lemma visible_node:
  assumes "tables_ok present base m root lo cur"
  shows "\<lbrakk>path p; length p \<le> 3; visible present base m root p\<rbrakk> \<Longrightarrow> \<exists>u. node base m root p = Some u"
proof (induction p rule: rev_induct)
  case (snoc i p)
  then obtain u where u: "node base m root p = Some u" using visible_prefix [of m root p "[i]"] by auto
  then have "base (m (cell u i)) \<noteq> 0"
    using tables_okD(6) [OF assms _ _ u] snoc.prems visible_snoc [OF u] by auto
  then show ?case using u by (auto simp: node_append Let_def)
qed simp

text \<open>Where a cell of a table can lie, seen from the table that is being extended.\<close>

lemma cell_of_node:
  assumes "tables_ok present base m root lo cur"
    and "path q" "length q \<le> 3" "node base m root q = Some u" "j < 512"
    and "path p" "length p \<le> 3" "node base m root p = Some t" "i < 512"
  shows "cell u j = cell t i \<longleftrightarrow> q = p \<and> j = i"
  using cell_inject [OF tables_okD(1) [OF assms(1-4)] tables_okD(1) [OF assms(1,6-8)] assms(5,9)]
    tables_okD(5) [OF assms(1-4), of p] assms(4,6,7,8) by auto

text \<open>The tree after a descent that had to make its entry present.\<close>

lemma nodes_relinked:
  assumes ok: "tables_ok present base m root lo cur"
    and p: "path p" "length p \<le> 2" "node base m root p = Some t" "i < 512"
    and d: "descended present base t i m cur m' cur' c" "\<not> present (m (cell t i))" "base (m (cell t i)) \<noteq> 0"
  shows "\<lbrakk>path q; length q \<le> 3\<rbrakk> \<Longrightarrow> node base m' root q = node base m root q"
proof (induction q rule: rev_induct)
  case (snoc j q)
  then have IH: "node base m' root q = node base m root q" by simp
  have c: "node base m root (p @ [i]) = Some c" "base (m' (cell t i)) = c" "base (m (cell t i)) = c"
    using p(3) d by (auto simp: descended_def node_snoc)
  have "base (m' (cell u j)) = base (m (cell u j))" if u: "node base m root q = Some u" for u
  proof -
    have "u = c \<or> (\<forall>k<512. cell u j \<noteq> cell c k)"
      using cell_of_node [OF ok _ _ u, of j "p @ [i]" c] c(1) p snoc.prems u by (cases "q = p @ [i]") auto
    then show ?thesis
      using d c snoc.prems by (cases "cell u j = cell t i") (auto simp: descended_def)
  qed
  then show ?case using IH by (cases "node base m root q") (auto simp: node_append Let_def)
qed simp

lemma nodes_fresh:
  assumes ok: "tables_ok present base m root lo cur"
    and p: "path p" "length p \<le> 2" "node base m root p = Some t" "i < 512"
    and d: "descended present base t i m cur m' cur' c" "\<not> present (m (cell t i))" "base (m (cell t i)) = 0"
  shows "\<lbrakk>path q; length q \<le> 3\<rbrakk> \<Longrightarrow> node base m' root q =
    (if q = p @ [i] then Some cur else if \<exists>r. q = p @ [i] @ r then None else node base m root q)"
proof (induction q rule: rev_induct)
  case (snoc j q)
  then have IH: "node base m' root q =
      (if q = p @ [i] then Some cur else if \<exists>r. q = p @ [i] @ r then None else node base m root q)"
    and q: "path q" "length q \<le> 2" "j < 512" by simp_all
  have c: "c = cur" "base (m' (cell t i)) = cur" "page_aligned cur" "cur \<noteq> 0"
    "\<And>k. k < 512 \<Longrightarrow> base (m' (cell cur k)) = 0"
    using d p(3) tables_okD(3) [OF ok p(1) _ p(3)] p(2) ok
    by (auto simp: descended_def tables_ok_def word_neq_0_conv [symmetric])
  consider (child) "q = p @ [i]" | (below) "q \<noteq> p @ [i]" "\<exists>r. q = p @ [i] @ r"
    | (other) "\<not> (\<exists>r. q = p @ [i] @ r)" by blast
  then show ?case
  proof cases
    case child
    then have "node base m' root q = Some cur" using IH by simp
    then have "node base m' root (q @ [j]) = None"
      using c(5) q(3) by (simp add: node_append [of _ _ _ q] Let_def)
    then show ?thesis using child by auto
  next
    case below
    then show ?thesis using IH by (auto simp: node_append)
  next
    case other
    then have n: "node base m' root q = node base m root q" using IH by auto
    show ?thesis
    proof (cases "node base m root q")
      case None
      moreover have "q \<noteq> p" using None p(3) by auto
      ultimately show ?thesis
        using n unfolding snoc_extends [OF other] append1_eq_conv by (simp add: node_append [of _ _ _ q])
    next
      case (Some u)
      have u: "page_aligned u" "u \<noteq> cur" using tables_okD(1,3) [OF ok q(1) _ Some] q(2) by auto
      have "cell u j \<noteq> cell c k" if "k < 512" for k
        using cell_inject [OF u(1) c(3) q(3) that] u(2) c(1) by simp
      then have "cell u j \<noteq> cell t i \<Longrightarrow> m' (cell u j) = m (cell u j)"
        using d(1,2) by (auto simp: descended_def)
      moreover have "cell u j = cell t i \<longleftrightarrow> q = p \<and> j = i"
        using cell_of_node [OF ok q(1) _ Some q(3) p(1) _ p(3,4)] q(2) p(2) by simp
      ultimately show ?thesis
        using n Some c(2,4) unfolding snoc_extends [OF other] append1_eq_conv
        by (auto simp: node_append [of _ _ _ q] Let_def)
    qed
  qed
qed auto

lemma other_cells:
  assumes ok: "tables_ok present base m root lo cur"
    and p: "path p" "length p \<le> 2" "node base m root p = Some t" "i < 512"
    and d: "descended present base t i m cur m' cur' c" "\<not> present (m (cell t i))"
    and q: "path q" "length q \<le> 3" "node base m root q = Some u" "j < 512" "q \<noteq> p @ [i]" "q \<noteq> p \<or> j \<noteq> i"
  shows "m' (cell u j) = m (cell u j)"
proof -
  have "cell u j \<noteq> cell t i" using cell_of_node [OF ok q(1-4) p(1) _ p(3,4)] p(2) q(6) by auto
  moreover have "cell u j \<noteq> cell c k" if "k < 512" for k
  proof (cases "base (m (cell t i)) = 0")
    case True
    then have "c = cur" "page_aligned cur" "u \<noteq> cur"
      using d ok tables_okD(3) [OF ok q(1-3)] by (auto simp: descended_def tables_ok_def)
    then show ?thesis using cell_inject [OF tables_okD(1) [OF ok q(1-3)] _ q(4) that] by auto
  next
    case False
    then have "node base m root (p @ [i]) = Some c" using d p(3) by (auto simp: descended_def node_snoc)
    then show ?thesis using cell_of_node [OF ok q(1-4) _ _ _ that, of "p @ [i]" c] p q(5) by simp
  qed
  ultimately show ?thesis using d by (auto simp: descended_def)
qed

lemma nodes_other:
  assumes "tables_ok present base m root lo cur"
    and "path p" "length p \<le> 2" "node base m root p = Some t" "i < 512"
    and "descended present base t i m cur m' cur' c" "\<not> present (m (cell t i))"
    and "path q" "length q \<le> 3" "\<not> (\<exists>r. q = p @ [i] @ r)"
  shows "node base m' root q = node base m root q"
  using nodes_relinked [OF assms(1-7) _ assms(8,9)] nodes_fresh [OF assms(1-7) _ assms(8,9)] assms(10)
  by (cases "base (m (cell t i)) = 0") auto

lemma descend_node:
  assumes "tables_ok present base m root lo cur"
    and "path p" "length p \<le> 2" "node base m root p = Some t" "i < 512"
    and "descended present base t i m cur m' cur' c"
  shows "node base m' root (p @ [i]) = Some c"
proof (cases "present (m (cell t i))")
  case True
  then show ?thesis
    using assms(6) tables_okD(6) [OF assms(1,2) _ assms(4,3,5)] assms(3,4) by (simp add: descended_def node_snoc)
next
  case False
  note D = assms(1-6) False
  show ?thesis
  proof (cases "base (m (cell t i)) = 0")
    case True
    then show ?thesis using nodes_fresh [OF D True, of "p @ [i]"] assms(2,3,5,6) False by (simp add: descended_def)
  next
    case nz: False
    then have "node base m root (p @ [i]) = Some c" using assms(4,6) False by (auto simp: descended_def node_snoc)
    then show ?thesis using nodes_relinked [OF D nz, of "p @ [i]"] assms(2,3,5) by simp
  qed
qed

lemma visible_other:
  assumes D: "tables_ok present base m root lo cur"
    "path p" "length p \<le> 2" "node base m root p = Some t" "i < 512"
    "descended present base t i m cur m' cur' c" "\<not> present (m (cell t i))"
  shows "\<lbrakk>path q; length q \<le> 3; \<not> (\<exists>r. q = p @ [i] @ r)\<rbrakk> \<Longrightarrow>
    visible present base m' root q = visible present base m root q"
proof (induction q rule: rev_induct)
  case (snoc j q)
  then have ne: "\<not> (\<exists>r. q = p @ [i] @ r)" by (metis append_assoc)
  then have n: "node base m' root q = node base m root q"
    and IH: "visible present base m' root q = visible present base m root q"
    using snoc nodes_other [OF D, of q] by simp_all
  show ?case
  proof (cases "node base m root q")
    case None
    then have "\<not> visible present base m root q" using visible_node [OF D(1), of q] snoc.prems by auto
    then show ?thesis using IH visible_prefix [of _ root q "[j]"] by blast
  next
    case (Some u)
    have "q \<noteq> p \<or> j \<noteq> i" "q \<noteq> p @ [i]" using snoc.prems(3) ne by auto
    then have "m' (cell u j) = m (cell u j)" using snoc.prems Some by (intro other_cells [OF D]) auto
    then show ?thesis using IH n Some by (simp add: visible_snoc)
  qed
qed simp

lemma descend_visible:
  assumes "tables_ok present base m root lo cur"
    and "path p" "length p \<le> 2" "node base m root p = Some t" "i < 512"
    and "descended present base t i m cur m' cur' c" and "visible present base m root p"
  shows "visible present base m' root (p @ [i])"
proof (cases "present (m (cell t i))")
  case True
  then show ?thesis using assms(4,6,7) by (simp add: descended_def visible_snoc)
next
  case False
  note D = assms(1-6) False
  have "node base m' root p = Some t" "visible present base m' root p"
    using nodes_other [OF D, of p] visible_other [OF D, of p] assms by simp_all
  then show ?thesis using assms(6) False by (simp add: descended_def visible_snoc)
qed

text \<open>Descending changes no mapping.\<close>

lemma descend_look:
  assumes "tables_ok present base m root lo cur"
    and "path p" "length p \<le> 2" "node base m root p = Some t" "i < 512"
    and "descended present base t i m cur m' cur' c"
    and "path q" "length q = 4"
  shows "look present base m' root q = look present base m root q"
proof (cases "present (m (cell t i))")
  case True
  then show ?thesis using assms(6) by (simp add: descended_def)
next
  case False
  note D = assms(1-6) False
  obtain r j where q: "q = r @ [j]" "path r" "length r = 3" "j < 512"
    using assms(7,8) by (cases q rule: rev_cases) auto
  show ?thesis
  proof (cases "\<exists>x. r = p @ [i] @ x")
    case True
    then obtain x where x: "r = (p @ [i]) @ x" by auto
    have "\<not> visible present base m root (p @ [i])" using False visible_snoc [OF assms(4)] by simp
    then have "\<not> visible present base m root r" unfolding x by (metis visible_prefix)
    then have l: "look present base m root q = None" unfolding q(1) by (rule look_invisible)
    obtain k y where k: "x @ [j] = k # y" "k < 512" using q x by (cases x) auto
    then have q': "q = ((p @ [i]) @ [k]) @ y" using q(1) x by simp
    have "\<not> visible present base m' root ((p @ [i]) @ [k])"
      using visible_snoc [OF descend_node [OF D(1-6)]] assms(6) False k(2) by (simp add: descended_def)
    moreover have "y = [] \<or> (\<exists>y' z. y = y' @ [z])" by (cases y rule: rev_cases) auto
    ultimately have "look present base m' root q = None"
    proof (elim disjE exE)
      assume "y = []"
      then show ?thesis
        using look_snoc [OF descend_node [OF D(1-6)], of k] assms(6) False k(2) q' by (simp add: descended_def)
    next
      fix y' z
      assume "y = y' @ [z]" and nv: "\<not> visible present base m' root ((p @ [i]) @ [k])"
      then have "q = (((p @ [i]) @ [k]) @ y') @ [z]" using q' by simp
      then show ?thesis using look_invisible visible_prefix nv by metis
    qed
    with l show ?thesis by simp
  next
    case other: False
    have n: "node base m' root r = node base m root r"
      and v: "visible present base m' root r = visible present base m root r"
      using nodes_other [OF D q(2) _ other] visible_other [OF D q(2) _ other] q(3) by simp_all
    show ?thesis
    proof (cases "node base m root r")
      case None
      then have "\<not> visible present base m root r" using visible_node [OF D(1) q(2)] q(3) by auto
      then show ?thesis using v q(1) by (simp add: look_invisible)
    next
      case (Some u)
      have "r \<noteq> p @ [i]" "r \<noteq> p" using other q(3) assms(3) by auto
      then have "m' (cell u j) = m (cell u j)" using q Some by (intro other_cells [OF D]) auto
      then show ?thesis using n v Some q(1) by (simp add: look_snoc)
    qed
  qed
qed

lemma page_gap:
  assumes "page_aligned t" "page_aligned u" "t < u"
  shows "unat t + 0x1000 \<le> unat u"
proof -
  obtain a b where "unat t = 4096 * a" "unat u = 4096 * b"
    using assms(1,2) by (auto simp: page_aligned_nat elim!: dvdE)
  then show ?thesis using assms(3) by (simp add: word_less_nat_alt)
qed

lemma descend_tables_ok:
  assumes ok: "tables_ok present base m root lo cur"
    and p: "path p" "length p \<le> 2" "node base m root p = Some t" "i < 512"
    and d: "descended present base t i m cur m' cur' c"
  shows "tables_ok present base m' root lo cur'"
proof (cases "present (m (cell t i))")
  case True
  then show ?thesis using ok d by (simp add: descended_def)
next
  case False
  note D = ok p d False
  have lo: "0 < lo" "page_aligned cur" "page_aligned cur'" "cur \<le> cur'"
    using ok d False by (auto simp: tables_ok_def descended_def page_aligned_next split: if_splits)
  have node': "node base m' root q = Some u \<Longrightarrow>
      q = p @ [i] \<and> u = c \<or> node base m root q = Some u \<and> (base (m (cell t i)) = 0 \<longrightarrow> \<not> (\<exists>r. q = p @ [i] @ r))"
    if "path q" "length q \<le> 3" for q u
    using nodes_relinked [OF D _ that] nodes_fresh [OF D _ that] d False
    by (cases "base (m (cell t i)) = 0") (auto simp: descended_def split: if_splits)
  have c: "if base (m (cell t i)) = 0 then c = cur \<and> cur < cur' else node base m root (p @ [i]) = Some c \<and> cur' = cur"
    using d False p(3) by (auto simp: descended_def node_snoc)
  have len: "path (p @ [i])" "length (p @ [i]) \<le> 3" using p by simp_all
  show ?thesis
    unfolding tables_ok_def
  proof (intro conjI allI impI; (elim conjE)?)
    show "0 < lo" "page_aligned cur'" using lo by auto
  next
    fix q u assume q: "path q" "length q \<le> 3" and u: "node base m' root q = Some u"
    have lc: "lo \<le> cur" using tables_okD(2,3) [OF ok p(1) _ p(3)] p(2) by simp
    have "page_aligned u \<and> lo \<le> u \<and> u < cur'"
    proof (cases "node base m root q = Some u")
      case True
      then show ?thesis using tables_okD(1-3) [OF ok q True] lo(4) by simp
    next
      case False
      then have "q = p @ [i]" "u = c" using node' [OF q u] by auto
      then show ?thesis using c lo lc False by (auto split: if_splits)
    qed
    then show "page_aligned u" "lo \<le> u" "u < cur'" by simp_all
  next
    fix q r u
    assume q: "path q" "length q \<le> 3" and r: "path r" "length r \<le> 3"
      and u: "node base m' root q = Some u" "node base m' root r = Some u"
    have "node base m root x = Some cur \<Longrightarrow> path x \<Longrightarrow> length x \<le> 3 \<Longrightarrow> False" for x
      using tables_okD(3) [OF ok, of x cur] by simp
    then show "q = r"
      using node' [OF q u(1)] node' [OF r u(2)] c tables_okD(5) [OF ok q _ r] tables_okD(5) [OF ok q _ len]
        tables_okD(5) [OF ok r _ len] q r by (cases "base (m (cell t i)) = 0") auto
  next
    fix q u j
    assume q: "path q" "length q \<le> 2" "j < 512" and u: "node base m' root q = Some u"
      and pr: "present (m' (cell u j))"
    consider "q = p @ [i]" "u = c" | "q = p" "j = i" | "q \<noteq> p @ [i]" "q \<noteq> p \<or> j \<noteq> i"
      using descend_node [OF D(1-6)] u by (cases "q = p @ [i]") auto
    then show "base (m' (cell u j)) \<noteq> 0"
    proof cases
      case 1
      then show ?thesis using pr d False q(3) by (simp add: descended_def)
    next
      case 2
      then show ?thesis using descend_node [OF D(1-6)] u by (auto simp: node_snoc)
    next
      case 3
      then have n: "node base m root q = Some u" using node' [OF q(1) _ u] q(2) by auto
      then have "m' (cell u j) = m (cell u j)" using 3 q by (intro other_cells [OF D]) auto
      then show ?thesis using tables_okD(6) [OF ok q(1) _ n q(2,3)] q(2) pr by simp
    qed
  qed
qed

lemma shapedD:
  "\<lbrakk>shaped shape base m root; path p; length p \<le> 2; i < 512; node base m root p = Some t\<rbrakk> \<Longrightarrow> shape (m (cell t i))"
  unfolding shaped_def by blast

lemma descend_shaped:
  assumes ok: "tables_ok present base m root lo cur"
    and p: "path p" "length p \<le> 2" "node base m root p = Some t" "i < 512"
    and d: "descended present base t i m cur m' cur' c"
    and g: "shaped shape base m root"
    and new: "\<not> present (m (cell t i)) \<longrightarrow> shape (m' (cell t i)) \<and> (\<forall>j<512. shape (m' (cell c j)))"
  shows "shaped shape base m' root"
proof (cases "present (m (cell t i))")
  case True
  then show ?thesis using d g by (simp add: descended_def)
next
  case False
  note D = ok p d False
  show ?thesis
    unfolding shaped_def
  proof (intro allI impI; elim conjE)
    fix q u and j :: u32
    assume q: "path q" "length q \<le> 2" "j < 512" and u: "node base m' root q = Some u"
    have n: "q \<noteq> p @ [i] \<Longrightarrow> node base m root q = Some u"
      using nodes_relinked [OF D _ q(1)] nodes_fresh [OF D _ q(1)] q(2) u
      by (cases "base (m (cell t i)) = 0") (auto split: if_splits)
    consider "q = p @ [i]" | "q = p" "j = i" | "q \<noteq> p @ [i]" "q \<noteq> p \<or> j \<noteq> i" by blast
    then show "shape (m' (cell u j))"
    proof cases
      case 1
      then have "u = c" using descend_node [OF D(1-6)] u by simp
      then show ?thesis using new False q(3) by simp
    next
      case 2
      then have "u = t" using n p(3) by auto
      then show ?thesis using 2 new False by simp
    next
      case 3
      then have nu: "node base m root q = Some u" using n by blast
      then have "m' (cell u j) = m (cell u j)" using 3 q by (intro other_cells [OF D]) auto
      then show ?thesis using shapedD [OF g q nu] by simp
    qed
  qed
qed

text \<open>Writing entry i of the last-level table t maps the path to it and nothing else.\<close>

lemma leaf_nodes:
  assumes ok: "tables_ok present base m root lo cur"
    and p: "path p" "length p = 3" "node base m root p = Some t" "i < 512"
    and m': "\<And>a. a \<noteq> cell t i \<Longrightarrow> m' a = m a"
  shows "\<lbrakk>path q; length q \<le> 3\<rbrakk> \<Longrightarrow>
    node base m' root q = node base m root q \<and>
    visible present base m' root q = visible present base m root q"
proof (induction q rule: rev_induct)
  case (snoc j q)
  then have IH: "node base m' root q = node base m root q"
    "visible present base m' root q = visible present base m root q" by simp_all
  show ?case
  proof (cases "node base m root q")
    case None
    then have "\<not> visible present base m root q" using visible_node [OF ok, of q] snoc.prems by auto
    then show ?thesis
      using IH None visible_prefix [of _ root q "[j]"] by (auto simp: node_append)
  next
    case (Some u)
    have "cell u j \<noteq> cell t i"
      using cell_of_node [OF ok _ _ Some _ p(1) _ p(3,4), of j] snoc.prems p(2) by auto
    then show ?thesis using IH Some m' by (simp add: visible_snoc node_append Let_def)
  qed
qed simp

lemma leaf_tables_ok:
  assumes ok: "tables_ok present base m root lo cur"
    and p: "path p" "length p = 3" "node base m root p = Some t" "i < 512"
  shows "tables_ok present base (m(cell t i := e)) root lo cur"
proof -
  have "cell u j \<noteq> cell t i" if "path q" "length q \<le> 2" "node base m root q = Some u" "j < 512" for q u j
    using cell_of_node [OF ok that(1) _ that(3,4) p(1) _ p(3,4)] that(2) p(2) by auto
  then have same: "(m(cell t i := e)) (cell u j) = m (cell u j)"
    if "path q" "length q \<le> 2" "node base m root q = Some u" "j < 512" for q u j
    using that by simp
  have n: "node base (m(cell t i := e)) root q = node base m root q" if "path q" "length q \<le> 3" for q
    using leaf_nodes [OF ok p _ that, of "m(cell t i := e)"] by simp
  show ?thesis
    unfolding tables_ok_def
  proof (intro conjI allI impI; (elim conjE)?)
    show "0 < lo" "page_aligned cur" using ok by (simp_all add: tables_ok_def)
  next
    fix q u assume q: "path q" "length q \<le> 3" and "node base (m(cell t i := e)) root q = Some u"
    then have "node base m root q = Some u" using n [OF q] by simp
    then show "page_aligned u" "lo \<le> u" "u < cur" using tables_okD(1-3) [OF ok q] by blast+
  next
    fix q r u
    assume q: "path q" "length q \<le> 3" and r: "path r" "length r \<le> 3"
      and "node base (m(cell t i := e)) root q = Some u" "node base (m(cell t i := e)) root r = Some u"
    then have "node base m root q = Some u" "node base m root r = Some u" using n [OF q] n [OF r] by simp_all
    then show "q = r" using tables_okD(5) [OF ok q _ r] by blast
  next
    fix q u j
    assume q: "path q" "length q \<le> 2" "j < 512" and u: "node base (m(cell t i := e)) root q = Some u"
      and pr: "present ((m(cell t i := e)) (cell u j))"
    have nu: "node base m root q = Some u" using u n [OF q(1)] q(2) by simp
    show "base ((m(cell t i := e)) (cell u j)) \<noteq> 0"
      using tables_okD(6) [OF ok q(1) _ nu q(2,3)] q(2) pr unfolding same [OF q(1,2) nu q(3)] by simp
  qed
qed

lemma leaf_shaped:
  assumes ok: "tables_ok present base m root lo cur"
    and p: "path p" "length p = 3" "node base m root p = Some t" "i < 512"
    and g: "shaped shape base m root"
  shows "shaped shape base (m(cell t i := e)) root"
  unfolding shaped_def
proof (intro allI impI; elim conjE)
  fix q u and j :: u32
  assume q: "path q" "length q \<le> 2" "j < 512" and u: "node base (m(cell t i := e)) root q = Some u"
  have nu: "node base m root q = Some u"
    using u leaf_nodes [OF ok p _ q(1), of "m(cell t i := e)"] q(2) by simp
  have "cell u j \<noteq> cell t i" using cell_of_node [OF ok q(1) _ nu q(3) p(1) _ p(3,4)] q(2) p(2) by auto
  then show "shape ((m(cell t i := e)) (cell u j))" using shapedD [OF g q nu] by simp
qed

lemma leaf_look:
  assumes ok: "tables_ok present base m root lo cur"
    and p: "path p" "length p = 3" "node base m root p = Some t" "i < 512"
    and v: "visible present base m root p" and e: "present e"
    and q: "path q" "length q = 4"
  shows "look present base (m(cell t i := e)) root q = (if q = p @ [i] then Some e else look present base m root q)"
proof -
  obtain r j where r: "q = r @ [j]" "path r" "length r = 3" "j < 512"
    using q by (cases q rule: rev_cases) auto
  have n: "node base (m(cell t i := e)) root r = node base m root r"
    "visible present base (m(cell t i := e)) root r = visible present base m root r"
    using leaf_nodes [OF ok p _ r(2), of "m(cell t i := e)"] r(3) by simp_all
  show ?thesis
  proof (cases "node base m root r")
    case None
    then have "\<not> visible present base m root r" using visible_node [OF ok r(2)] r(3) by auto
    moreover have "r \<noteq> p" using None p(3) by auto
    ultimately show ?thesis using n r by (simp add: look_invisible)
  next
    case (Some u)
    have "cell u j = cell t i \<longleftrightarrow> r = p \<and> j = i"
      using cell_of_node [OF ok r(2) _ Some r(4) p(1) _ p(3,4)] r(3) p(2) by simp
    then show ?thesis using n r Some v e by (auto simp: look_snoc p(3))
  qed
qed

text \<open>A root page that links nothing is a tree without mappings.\<close>

lemma fresh_root:
  assumes "page_aligned root" "0 < lo" "lo \<le> root" "root < cur" "page_aligned cur"
    and z: "\<forall>j<512. base (m (cell root j)) = 0 \<and> \<not> present (m (cell root j)) \<and> shape (m (cell root j))"
  shows "tables_ok present base m root lo cur" "shaped shape base m root"
    "\<lbrakk>path q; length q = 4\<rbrakk> \<Longrightarrow> look present base m root q = None"
proof -
  have n: "node base m root p = (if p = [] then Some root else None)" if "path p" for p
    using that z by (cases p) auto
  show "tables_ok present base m root lo cur" "shaped shape base m root"
    using assms by (auto simp: tables_ok_def shaped_def n split: if_splits)
  show "look present base m root q = None" if "path q" "length q = 4"
    using that z by (cases q rule: remdups_adj.cases) auto
qed

text \<open>Making every entry of the root absent, with its address kept, leaves no mapping at all.\<close>

lemma cleared_root:
  assumes ok: "tables_ok present base m root lo cur" and g: "shaped shape base m root"
    and cl: "\<forall>j<512. \<not> present (m' (cell root j)) \<and> base (m' (cell root j)) = base (m (cell root j)) \<and> shape (m' (cell root j))"
    and fr: "\<forall>a. (\<forall>j<512. a \<noteq> cell root j) \<longrightarrow> m' a = m a"
  shows "tables_ok present base m' root lo cur" "shaped shape base m' root"
    "\<lbrakk>path q; length q = 4\<rbrakk> \<Longrightarrow> look present base m' root q = None"
proof -
  have root: "node base m root [] = Some root" by simp
  have other: "m' (cell u j) = m (cell u j)"
    if "path q" "length q \<le> 3" "node base m root q = Some u" "q \<noteq> []" "j < 512" for q u j
    using cell_of_node [OF ok that(1-3,5) _ _ root] that(4) fr by auto
  have b: "base (m' (cell u j)) = base (m (cell u j))"
    if "path q" "length q \<le> 3" "node base m root q = Some u" "j < 512" for q u j
    using other [OF that(1-3) _ that(4)] cl that(3,4) by (cases "q = []") auto
  have n: "\<lbrakk>path q; length q \<le> 3\<rbrakk> \<Longrightarrow> node base m' root q = node base m root q" for q
  proof (induction q rule: rev_induct)
    case (snoc j q)
    then show ?case using b [of q _ j] by (cases "node base m root q") (auto simp: node_append Let_def)
  qed simp
  have pr: "present (m' (cell u j)) \<Longrightarrow> present (m (cell u j))"
    and sh: "length q \<le> 2 \<Longrightarrow> shape (m' (cell u j))"
    if "path q" "length q \<le> 3" "node base m root q = Some u" "j < 512" for q u j
    using other [OF that(1-3) _ that(4)] cl that shapedD [OF g that(1) _ that(4,3)] by (cases "q = []"; auto)+
  show "tables_ok present base m' root lo cur"
    unfolding tables_ok_def
  proof (intro conjI allI impI; (elim conjE)?)
    show "0 < lo" "page_aligned cur" using ok by (simp_all add: tables_ok_def)
  next
    fix q u assume q: "path q" "length q \<le> 3" and "node base m' root q = Some u"
    then have "node base m root q = Some u" using n [OF q] by simp
    then show "page_aligned u" "lo \<le> u" "u < cur" using tables_okD(1-3) [OF ok q] by blast+
  next
    fix q r u
    assume q: "path q" "length q \<le> 3" and r: "path r" "length r \<le> 3"
      and "node base m' root q = Some u" "node base m' root r = Some u"
    then have "node base m root q = Some u" "node base m root r = Some u" using n [OF q] n [OF r] by simp_all
    then show "q = r" using tables_okD(5) [OF ok q _ r] by blast
  next
    fix q u j
    assume q: "path q" "length q \<le> 2" "j < 512" and u: "node base m' root q = Some u"
      and p: "present (m' (cell u j))"
    have nu: "node base m root q = Some u" using u n [OF q(1)] q(2) by simp
    show "base (m' (cell u j)) \<noteq> 0"
      using tables_okD(6) [OF ok q(1) _ nu q(2,3)] pr [OF q(1) _ nu q(3) p] b [OF q(1) _ nu q(3)] q(2) by simp
  qed
  show "shaped shape base m' root"
    unfolding shaped_def using sh n by (metis le_Suc_eq numeral_2_eq_2 numeral_3_eq_3)
  show "look present base m' root q = None" if "path q" "length q = 4"
    using that cl by (cases q rule: remdups_adj.cases) auto
qed

text \<open>Nothing outside the heap pages in use is written.\<close>

lemma cell_bounds:
  assumes "page_aligned u" "page_aligned cur" "lo \<le> u" "u < cur" "j < 512"
  shows "lo \<le> cell u j \<and> cell u j < cur"
proof -
  have "unat j < 512" using assms(5) by (simp add: word_less_nat_alt)
  then have "unat u \<le> unat (cell u j)" "unat (cell u j) < unat u + 4096"
    using unat_cell [OF assms(1,5)] by simp_all
  then show ?thesis
    using page_gap [OF assms(1,2,4)] assms(3) by (simp add: word_less_nat_alt word_le_nat_alt)
qed

lemma descend_frame:
  assumes ok: "tables_ok present base m root lo cur"
    and p: "path p" "length p \<le> 2" "node base m root p = Some t" "i < 512"
    and d: "descended present base t i m cur m' cur' c"
    and a: "a < lo \<or> cur' \<le> a"
  shows "m' a = m a"
proof (cases "present (m (cell t i))")
  case True
  then show ?thesis using d by (simp add: descended_def)
next
  case False
  note ok' = descend_tables_ok [OF ok p d]
  have c: "page_aligned c" "lo \<le> c" "c < cur'" "page_aligned cur'" "cur \<le> cur'"
    using tables_okD(1-3) [OF ok' _ _ descend_node [OF ok p d]] p ok' d False
    by (auto simp: tables_ok_def descended_def split: if_splits)
  have "t < cur'" using less_le_trans [OF tables_okD(3) [OF ok p(1) _ p(3)] c(5)] p(2) by simp
  then have "a \<noteq> cell t i"
    using cell_bounds [OF tables_okD(1) [OF ok p(1) _ p(3)] c(4) _ _ p(4), of lo]
      tables_okD(2) [OF ok p(1) _ p(3)] p(2) a by auto
  moreover have "a \<noteq> cell c j" if "j < 512" for j
    using cell_bounds [OF c(1,4,2,3) that] a by auto
  ultimately show ?thesis using d False by (auto simp: descended_def)
qed

lemma descend_cur:
  assumes "tables_ok present base m root lo cur" and "descended present base t i m cur m' cur' c"
  shows "cur \<le> cur'"
  using assms by (auto simp: descended_def split: if_splits)

text \<open>Three descents and a write: the whole insertion of one page.\<close>

lemma insert_page:
  fixes shape :: "u64 \<Rightarrow> bool"
  assumes ok: "tables_ok present base m root lo cur"
    and root: "node base m root [] = Some root" and ix: "path [i0, i1, i2, i3]"
    and d1: "descended present base root i0 m cur m1 cur1 t1"
    and d2: "descended present base t1 i1 m1 cur1 m2 cur2 t2"
    and d3: "descended present base t2 i2 m2 cur2 m3 cur3 t3"
    and e: "present e"
  shows "tables_ok present base (m3(cell t3 i3 := e)) root lo cur3"
    "\<lbrakk>path q; length q = 4\<rbrakk> \<Longrightarrow> look present base (m3(cell t3 i3 := e)) root q =
      (if q = [i0, i1, i2, i3] then Some e else look present base m root q)"
    "a < lo \<or> cur3 \<le> a \<Longrightarrow> (m3(cell t3 i3 := e)) a = m a"
    "cur \<le> cur3"
    "\<lbrakk>shaped shape base m root;
      \<not> present (m (cell root i0)) \<longrightarrow> shape (m1 (cell root i0)) \<and> (\<forall>j<512. shape (m1 (cell t1 j)));
      \<not> present (m1 (cell t1 i1)) \<longrightarrow> shape (m2 (cell t1 i1)) \<and> (\<forall>j<512. shape (m2 (cell t2 j)));
      \<not> present (m2 (cell t2 i2)) \<longrightarrow> shape (m3 (cell t2 i2)) \<and> (\<forall>j<512. shape (m3 (cell t3 j)))\<rbrakk>
     \<Longrightarrow> shaped shape base (m3(cell t3 i3 := e)) root"
proof -
  have ix: "i0 < 512" "i1 < 512" "i2 < 512" "i3 < 512" using ix by simp_all
  have ok1: "tables_ok present base m1 root lo cur1" by (rule descend_tables_ok [OF ok _ _ root ix(1) d1]) simp_all
  have n1: "node base m1 root [i0] = Some t1" using descend_node [OF ok _ _ root ix(1) d1] by simp
  have v1: "visible present base m1 root [i0]" using descend_visible [OF ok _ _ root ix(1) d1] by simp
  have ok2: "tables_ok present base m2 root lo cur2"
    by (rule descend_tables_ok [OF ok1 _ _ n1 ix(2) d2]) (simp_all add: ix)
  have n2: "node base m2 root [i0, i1] = Some t2" using descend_node [OF ok1 _ _ n1 ix(2) d2] ix by simp
  have v2: "visible present base m2 root [i0, i1]" using descend_visible [OF ok1 _ _ n1 ix(2) d2] ix v1 by simp
  have ok3: "tables_ok present base m3 root lo cur3"
    by (rule descend_tables_ok [OF ok2 _ _ n2 ix(3) d3]) (simp_all add: ix)
  have n3: "node base m3 root [i0, i1, i2] = Some t3" using descend_node [OF ok2 _ _ n2 ix(3) d3] ix by simp
  have v3: "visible present base m3 root [i0, i1, i2]" using descend_visible [OF ok2 _ _ n2 ix(3) d3] ix v2 by simp
  have p3: "path [i0, i1, i2]" "length [i0, i1, i2] = 3" using ix by simp_all
  show "tables_ok present base (m3(cell t3 i3 := e)) root lo cur3"
    by (rule leaf_tables_ok [OF ok3 p3 n3 ix(4)])
  show "shaped shape base (m3(cell t3 i3 := e)) root"
    if g: "shaped shape base m root"
      and new: "\<not> present (m (cell root i0)) \<longrightarrow> shape (m1 (cell root i0)) \<and> (\<forall>j<512. shape (m1 (cell t1 j)))"
        "\<not> present (m1 (cell t1 i1)) \<longrightarrow> shape (m2 (cell t1 i1)) \<and> (\<forall>j<512. shape (m2 (cell t2 j)))"
        "\<not> present (m2 (cell t2 i2)) \<longrightarrow> shape (m3 (cell t2 i2)) \<and> (\<forall>j<512. shape (m3 (cell t3 j)))"
  proof -
    have g1: "shaped shape base m1 root" using descend_shaped [OF ok _ _ root ix(1) d1 g new(1)] by simp
    have g2: "shaped shape base m2 root" using descend_shaped [OF ok1 _ _ n1 ix(2) d2 g1 new(2)] ix by simp
    have "shaped shape base m3 root" using descend_shaped [OF ok2 _ _ n2 ix(3) d3 g2 new(3)] ix by simp
    then show ?thesis by (rule leaf_shaped [OF ok3 p3 n3 ix(4)])
  qed
  show "cur \<le> cur3" using descend_cur [OF ok d1] descend_cur [OF ok1 d2] descend_cur [OF ok2 d3] by simp
  show "look present base (m3(cell t3 i3 := e)) root q =
      (if q = [i0, i1, i2, i3] then Some e else look present base m root q)" if q: "path q" "length q = 4"
  proof -
    have "look present base m3 root q = look present base m root q"
      using descend_look [OF ok _ _ root ix(1) d1 q] descend_look [OF ok1 _ _ n1 ix(2) d2 q]
        descend_look [OF ok2 _ _ n2 ix(3) d3 q] ix by simp
    then show ?thesis using leaf_look [OF ok3 p3 n3 ix(4) v3 e q] by simp
  qed
  show "(m3(cell t3 i3 := e)) a = m a" if a: "a < lo \<or> cur3 \<le> a"
  proof -
    have c: "cur1 \<le> cur2" "cur2 \<le> cur3" using descend_cur [OF ok1 d2] descend_cur [OF ok2 d3] by simp_all
    have "a \<noteq> cell t3 i3"
      using cell_bounds [OF tables_okD(1) [OF ok3 p3(1) _ n3] _ tables_okD(2,3) [OF ok3 p3(1) _ n3] ix(4)]
        ok3 a by (auto simp: tables_ok_def)
    moreover have "m3 a = m2 a" by (rule descend_frame [OF ok2 _ _ n2 ix(3) d3 a]) (simp_all add: ix)
    moreover have "m2 a = m1 a" by (rule descend_frame [OF ok1 _ _ n1 ix(2) d2]) (use a c ix in auto)
    moreover have "m1 a = m a" by (rule descend_frame [OF ok _ _ root ix(1) d1]) (use a c ix in auto)
    ultimately show ?thesis by simp
  qed
qed

end

subsection \<open>Mapping many pages\<close>

text \<open>
  The interface the region loops of all three ports use: mapping one page keeps the port's
  invariant and updates the translation at that page. view is the translation the hardware
  would do, key the page a virtual address lies in, desc the descriptor for a physical page.
\<close>

fun map_pages :: "('a \<Rightarrow> 'a \<Rightarrow> 's \<Rightarrow> 'e + 's) \<Rightarrow> ('a \<times> 'a) list \<Rightarrow> 's \<Rightarrow> 'e + 's" where
  "map_pages map_page [] s = Inr s"
| "map_pages map_page ((pa, va) # ps) s = bindE (map_page pa va s) (map_pages map_page ps)"

lemma map_pages_append:
  "map_pages f (ps @ qs) s = bindE (map_pages f ps s) (map_pages f qs)"
  by (induction f ps s rule: map_pages.induct) (auto simp: bindE_def split: sum.splits)

locale page_mapper =
  fixes map_page :: "'a \<Rightarrow> 'a \<Rightarrow> 's \<Rightarrow> 'e + 's"
    and inv :: "'s \<Rightarrow> bool" and view :: "'s \<Rightarrow> 'k \<Rightarrow> 'd option"
    and key :: "'a \<Rightarrow> 'k" and desc :: "'a \<Rightarrow> 'd"
  assumes map_page_inv: "\<lbrakk>inv s; map_page pa va s = Inr s'\<rbrakk> \<Longrightarrow> inv s'"
    and map_page_view: "\<lbrakk>inv s; map_page pa va s = Inr s'\<rbrakk> \<Longrightarrow> view s' = (view s)(key va \<mapsto> desc pa)"
begin

lemma map_pages_inv: "\<lbrakk>inv s; map_pages map_page ps s = Inr s'\<rbrakk> \<Longrightarrow> inv s'"
  by (induction ps arbitrary: s) (auto, metis map_page_inv)

lemma map_pages_other:
  "\<lbrakk>inv s; map_pages map_page ps s = Inr s'; k \<notin> key ` snd ` set ps\<rbrakk> \<Longrightarrow> view s' k = view s k"
  by (induction ps arbitrary: s) (auto, metis map_page_inv map_page_view fun_upd_other)

text \<open>Pages that agree on what a key is mapped to leave exactly that mapping.\<close>

lemma map_pages_at:
  assumes "inv s" "map_pages map_page ps s = Inr s'" "k \<in> key ` snd ` set ps"
    and "\<And>pa va. \<lbrakk>(pa, va) \<in> set ps; key va = k\<rbrakk> \<Longrightarrow> desc pa = d"
  shows "view s' k = Some d"
  using assms
proof (induction ps arbitrary: s)
  case (Cons pv ps)
  obtain pa va where pv: "pv = (pa, va)" by (cases pv)
  with Cons.prems obtain s1 where s1: "map_page pa va s = Inr s1" "map_pages map_page ps s1 = Inr s'" by auto
  have inv: "inv s1" using Cons.prems(1) s1(1) map_page_inv by blast
  show ?case
  proof (cases "k \<in> key ` snd ` set ps")
    case True
    then show ?thesis using Cons.prems(4) by (intro Cons.IH [OF inv s1(2)]) auto
  next
    case False
    then have "key va = k" "desc pa = d" using Cons.prems(3,4) pv by auto
    then show ?thesis
      using map_pages_other [OF inv s1(2) False] map_page_view [OF Cons.prems(1) s1(1)] by simp
  qed
qed simp

text \<open>An identity region: each page is mapped to itself.\<close>

lemma identity_region:
  assumes "inv s" "map_pages map_page (map (\<lambda>a. (a, a)) as) s = Inr s'"
    and "\<forall>a\<in>set as. \<forall>b\<in>set as. key a = key b \<longrightarrow> desc a = desc b"
  shows "a \<in> set as \<Longrightarrow> view s' (key a) = Some (desc a)"
    "k \<notin> key ` set as \<Longrightarrow> view s' k = view s k"
proof -
  have ks: "key ` snd ` set (map (\<lambda>a. (a, a)) as) = key ` set as" by (simp add: image_image)
  show "view s' (key a) = Some (desc a)" if "a \<in> set as"
  proof (rule map_pages_at [OF assms(1,2)])
    show "key a \<in> key ` snd ` set (map (\<lambda>a. (a, a)) as)" using that ks by simp
  next
    fix pa va assume "(pa, va) \<in> set (map (\<lambda>a. (a, a)) as)" and k: "key va = key a"
    then have "pa \<in> set as" "pa = va" by auto
    then show "desc pa = desc a" using assms(3) that k by blast
  qed
  show "view s' k = view s k" if "k \<notin> key ` set as"
    using that ks by (intro map_pages_other [OF assms(1,2)]) simp
qed

end

subsection \<open>Identity-mapped regions\<close>

text \<open>
  The region loops of the arm and armv8 ports, for (i = start; i <= hi; i += step), map each
  page to itself. The counter is a machine word: a region that ends less than a step below the
  end of the address space would never leave the loop, which is the value None.
\<close>

partial_function (option) identity_loop ::
  "('a::len word \<Rightarrow> 'a word \<Rightarrow> 's \<Rightarrow> 'e + 's) \<Rightarrow> 'a word \<Rightarrow> 'a word \<Rightarrow> 'a word \<Rightarrow> 's \<Rightarrow> ('e + 's) option" where
  "identity_loop f step hi i s =
     (if i \<le> hi then
        (case f i i s of Inl e \<Rightarrow> Some (Inl e) | Inr s' \<Rightarrow> identity_loop f step hi (i + step) s')
      else Some (Inr s))"

definition region_pages :: "'a::len word \<Rightarrow> 'a word \<Rightarrow> 'a word \<Rightarrow> 'a word list" where
  "region_pages step hi i =
     (if i \<le> hi
      then map (\<lambda>k. i + step * word_of_nat k) [0..<(unat hi - unat i) div unat step + 1] else [])"

lemma region_pages_step:
  assumes "0 < step" and "unat hi + unat step < 2 ^ LENGTH('a)" and "i \<le> (hi :: 'a::len word)"
  shows "region_pages step hi i = i # region_pages step hi (i + step)"
    and "unat (i + step) = unat i + unat step"
proof -
  have le: "unat i \<le> unat hi" using assms(3) by (simp add: word_le_nat_alt)
  have st: "0 < unat step" using assms(1) by (simp add: word_less_nat_alt)
  show n: "unat (i + step) = unat i + unat step"
    using le assms(2) by (subst unat_add_lem [THEN iffD1]) simp_all
  show "region_pages step hi i = i # region_pages step hi (i + step)"
  proof (cases "i + step \<le> hi")
    case True
    then have "unat i + unat step \<le> unat hi" using n by (simp add: word_le_nat_alt)
    then have "(unat hi - unat i) div unat step = Suc ((unat hi - unat (i + step)) div unat step)"
      using st by (simp add: n le_div_geq)
    then show ?thesis
      using True assms(3) by (simp add: region_pages_def upt_conv_Cons map_Suc_upt [symmetric] algebra_simps del: upt_Suc)
  next
    case False
    then have "\<not> unat i + unat step \<le> unat hi" using n by (simp add: word_le_nat_alt)
    then have "unat hi - unat i < unat step" using le by linarith
    then show ?thesis using False assms(3) by (simp add: region_pages_def)
  qed
qed

lemma identity_loop_eq:
  assumes "0 < step" and "unat hi + unat step < 2 ^ LENGTH('a)"
  shows "identity_loop f step hi i s =
    Some (map_pages f (map (\<lambda>a. (a, a)) (region_pages step (hi :: 'a::len word) i)) s)"
proof (induction "Suc (unat hi) - unat i" arbitrary: i s rule: less_induct)
  case less
  show ?case
  proof (cases "i \<le> hi")
    case True
    note R = region_pages_step [OF assms True]
    have "Suc (unat hi) - unat (i + step) < Suc (unat hi) - unat i"
      using True assms(1) R(2) by (simp add: word_le_nat_alt word_less_nat_alt)
    from less [OF this] show ?thesis
      using True by (subst identity_loop.simps) (auto simp: R(1) split: sum.splits)
  next
    case False
    then show ?thesis by (subst identity_loop.simps) (simp add: region_pages_def)
  qed
qed

end
