(* ===== verification/X86_Memory.thy ===== *)
theory X86_Memory
  imports Page_Tables
begin

section \<open>The x86_64 machine: state, heap and page tables (heap.c, mem.c)\<close>

text \<open>
  One record holds what the files of arch/x86_64 keep in static variables and in memory. Memory
  is a function from the address of an aligned 8-byte cell to its contents; the other operations
  on devices (control registers, ports, the local APIC) are appended to the list bus in program
  order. Function pointers are names of the functions the code stores in them.

  A call of arch_abort ends the run: it is the error value of the operation, with the values the
  message it prints shows. The symbols of the linker script are the record image.
\<close>

datatype x86_fault =
    Out_of_memory
  | Unhandled_syscall u64
  | Unhandled_page_fault u64 u64 u64
  | Unhandled_irq u64
  | Undefined_instruction u64
  | Unknown_exception u64 "u64 option"
  | General_protection u64 u64
  | Cannot_decode u64
  | Break_handler
  | Device_mapping
  | No_answer

datatype syscall_handler = default_syscall_handler | syscall_skip_handler
datatype page_fault_handler = default_page_fault_handler | return_handler | mem_skip_handler
datatype irq_handler = default_irq_handler | arch_irq_handler
datatype undef_handler = default_undef_handler | undef_skip_handler

datatype bus_op =
    Write_cr3 u64
  | Invlpg u64
  | Lidt u16 u64
  | Lapic_store u32 u32
  | Lapic_load u32
  | Outb u16 u8
  | Inb u16
  | Sti
  | Cli

record image =
  sym_TEXT_START :: u64
  sym_TEXT_END :: u64
  sym_DATA_START :: u64
  sym_DATA_END :: u64
  sym_HEAP_START :: u64
  sym_HEAP_SIZE :: u64

record x86_state =
  cells :: "u64 \<Rightarrow> u64"
  heap_base :: u64
  heap_cur :: u64
  heap_end :: u64
  heap_size :: u64
  initial_pagetables :: u64
  runtime_pagetables :: u64
  cr3 :: u64
  mem_inited :: bool
  syscall_handler_fn :: syscall_handler
  page_fault_handler_fn :: page_fault_handler
  irq_handler_fn :: irq_handler
  undef_handler_fn :: undef_handler
  benchmark_irq_handler :: "nat option"
  use_framebuffer :: bool
  bus :: "bus_op list"

definition issue :: "bus_op \<Rightarrow> x86_state \<Rightarrow> x86_state" where
  [model_eval]: "issue op s = s\<lparr>bus := bus s @ [op]\<rparr>"

definition poke :: "u64 \<Rightarrow> u64 \<Rightarrow> x86_state \<Rightarrow> x86_state" where
  [model_eval]: "poke a v s = s\<lparr>cells := (cells s)(a := v)\<rparr>"

subsection \<open>The page heap\<close>

definition heap_init :: "image \<Rightarrow> x86_state \<Rightarrow> x86_state" where
  "heap_init img s =
     (let s = s\<lparr>heap_base := sym_HEAP_START img, heap_cur := sym_HEAP_START img,
                heap_size := sym_HEAP_SIZE img\<rparr>
      in s\<lparr>heap_end := heap_base s + heap_size s\<rparr>)"

text \<open>The rep stosq of util.S: 0x200 eight-byte stores of zero.\<close>

definition fast_zero_page :: "u64 \<Rightarrow> (u64 \<Rightarrow> u64) \<Rightarrow> u64 \<Rightarrow> u64" where
  "fast_zero_page page m = foldl (\<lambda>m j. m(cell page (word_of_nat j) := 0)) m [0..<0x200]"

definition heap_alloc_page :: "x86_state \<Rightarrow> x86_fault + u64 \<times> x86_state" where
  "heap_alloc_page s =
     (let page = heap_cur s in
      if heap_end s \<le> heap_cur s then Inl Out_of_memory
      else
        let s = s\<lparr>heap_cur := heap_cur s + 0x1000\<rparr> in
        Inr (page, s\<lparr>cells := fast_zero_page page (cells s)\<rparr>))"

definition heap_free_page :: "u64 \<Rightarrow> x86_state \<Rightarrow> x86_state" where
  "heap_free_page p s = s"

subsection \<open>Page-table entries\<close>

definition PF_PRESENT :: u64 where [model_eval]: "PF_PRESENT = 1"
definition PF_WRITABLE :: u64 where [model_eval]: "PF_WRITABLE = 2"
definition PF_USER :: u64 where [model_eval]: "PF_USER = 4"

definition set_base_address :: "u64 \<Rightarrow> u64 \<Rightarrow> u64" where
  [model_eval]: "set_base_address pte base_addr = (base_addr AND NOT 0xfff) OR (pte AND 0xfff)"

definition get_base_address :: "u64 \<Rightarrow> u64" where
  [model_eval]: "get_base_address pte = pte AND NOT 0xfff"

definition set_flags :: "u64 \<Rightarrow> u64 \<Rightarrow> u64" where
  [model_eval]: "set_flags pte flags = (flags AND 0xfff) OR (pte AND NOT 0xfff)"

definition get_flags :: "u64 \<Rightarrow> u64" where
  [model_eval]: "get_flags pte = pte AND 0xfff"

definition is_present :: "u64 \<Rightarrow> bool" where
  [model_eval]: "is_present pte \<longleftrightarrow> get_flags pte AND PF_PRESENT \<noteq> 0"

record table_indicies =
  idx_pml :: u32
  idx_pdp :: u32
  idx_pd :: u32
  idx_pt :: u32

definition calculate_indicies :: "u64 \<Rightarrow> table_indicies" where
  [model_eval]: "calculate_indicies virt_addr =
    \<lparr>idx_pml = ucast (drop_bit 39 virt_addr AND 0x1ff),
     idx_pdp = ucast (drop_bit 30 virt_addr AND 0x1ff),
     idx_pd = ucast (drop_bit 21 virt_addr AND 0x1ff),
     idx_pt = ucast (drop_bit 12 virt_addr AND 0x1ff)\<rparr>"

definition table_flags :: u64 where
  [model_eval]: "table_flags = PF_PRESENT OR PF_WRITABLE OR PF_USER"

text \<open>
  __create_page_mapping repeats one block for the PML4, the PDP and the PD: the entry is made
  present, with a page of the heap behind it when it names none, and its address is the table
  of the next level.
\<close>

definition enter_table :: "u64 \<Rightarrow> u32 \<Rightarrow> x86_state \<Rightarrow> x86_fault + u64 \<times> x86_state" where
  "enter_table table idx s =
     (let a = cell table idx in
      bindE (if \<not> is_present (cells s a) then
               bindE (if get_base_address (cells s a) = 0 then
                        bindE (heap_alloc_page s) (\<lambda>(page, s).
                        Inr (poke a (set_base_address (cells s a) page) s))
                      else Inr s) (\<lambda>s.
               Inr (poke a (set_flags (cells s a) table_flags) s))
             else Inr s) (\<lambda>s.
      Inr (get_base_address (cells s a), s)))"

definition create_page_mapping :: "u64 \<Rightarrow> u64 \<Rightarrow> u64 \<Rightarrow> x86_state \<Rightarrow> x86_fault + x86_state" where
  "create_page_mapping pml4 phys_addr virt_addr s =
     (let idx = calculate_indicies virt_addr in
      bindE (enter_table pml4 (idx_pml idx) s) (\<lambda>(pdp, s).
      bindE (enter_table pdp (idx_pdp idx) s) (\<lambda>(pd, s).
      bindE (enter_table pd (idx_pd idx) s) (\<lambda>(pt, s).
      let a = cell pt (idx_pt idx);
          s = poke a (set_base_address (cells s a) phys_addr) s
      in Inr (poke a (set_flags (cells s a) table_flags) s)))))"

definition mem_create_page_mapping_data :: "u64 \<Rightarrow> u64 \<Rightarrow> x86_state \<Rightarrow> x86_fault + x86_state" where
  "mem_create_page_mapping_data phys_addr virt_addr s =
     create_page_mapping (runtime_pagetables s) phys_addr virt_addr s"

definition mem_create_page_mapping_code :: "u64 \<Rightarrow> u64 \<Rightarrow> x86_state \<Rightarrow> x86_fault + x86_state" where
  "mem_create_page_mapping_code phys_addr virt_addr s =
     create_page_mapping (runtime_pagetables s) phys_addr virt_addr s"

definition mem_create_page_mapping_device :: "u64 \<Rightarrow> u64 \<Rightarrow> x86_state \<Rightarrow> x86_fault + x86_state" where
  "mem_create_page_mapping_device phys_addr virt_addr s = Inl Device_mapping"

subsection \<open>Turning paging on and off, initialisation\<close>

definition mem_get_page_size :: u64 where
  "mem_get_page_size = push_bit 12 1"

definition write_cr3 :: "u64 \<Rightarrow> x86_state \<Rightarrow> x86_state" where
  "write_cr3 addr s = issue (Write_cr3 addr) (s\<lparr>cr3 := addr\<rparr>)"

definition mem_mmu_enable :: "x86_state \<Rightarrow> x86_state" where
  "mem_mmu_enable s = write_cr3 (runtime_pagetables s) s"

definition mem_mmu_disable :: "x86_state \<Rightarrow> x86_state" where
  "mem_mmu_disable s = write_cr3 (initial_pagetables s) s"

definition mem_tlb_flush :: "x86_state \<Rightarrow> x86_state" where
  "mem_tlb_flush s = write_cr3 (cr3 s) s"

definition mem_tlb_evict :: "u64 \<Rightarrow> x86_state \<Rightarrow> x86_state" where
  "mem_tlb_evict ptr s = issue (Invlpg ptr) s"

definition LAPIC :: u64 where [model_eval]: "LAPIC = 0xfee00000"

fun map_page_ranges :: "nat \<Rightarrow> u64 \<Rightarrow> u64 \<Rightarrow> x86_state \<Rightarrow> x86_fault + x86_state" where
  "map_page_ranges 0 phys_addr virt_addr s = Inr s"
| "map_page_ranges (Suc n) phys_addr virt_addr s =
     bindE (mem_create_page_mapping_data phys_addr virt_addr s)
       (map_page_ranges n (phys_addr + 0x1000) (virt_addr + 0x1000))"

text \<open>NR_PAGES and the shift give an unsigned long that is passed as the int nr_pages.\<close>

definition as_count :: "u64 \<Rightarrow> nat" where
  "as_count w = nat (sint (ucast w :: u32))"

definition NR_PAGES :: "u64 \<Rightarrow> u64 \<Rightarrow> u64" where
  "NR_PAGES a b = (b - a) div 0x1000 + 1"

definition prepare_runtime_pagetables :: "image \<Rightarrow> x86_state \<Rightarrow> x86_fault + x86_state" where
  "prepare_runtime_pagetables img s =
     bindE (map_page_ranges 1 0xb8000 0xb8000 s) (\<lambda>s.
     bindE (map_page_ranges (as_count (NR_PAGES (sym_TEXT_START img) (sym_TEXT_END img)))
              (sym_TEXT_START img) (sym_TEXT_START img) s) (\<lambda>s.
     bindE (map_page_ranges (as_count (NR_PAGES (sym_DATA_START img) (sym_DATA_END img)))
              (sym_DATA_START img) (sym_DATA_START img) s) (\<lambda>s.
     bindE (map_page_ranges (as_count (drop_bit 12 (sym_HEAP_SIZE img)))
              (sym_HEAP_START img) (sym_HEAP_START img) s) (\<lambda>s.
     bindE (mem_create_page_mapping_data LAPIC LAPIC s) (\<lambda>s.
     Inr (mem_tlb_flush s))))))"

definition irq_reset_page_fault_handler :: "x86_state \<Rightarrow> x86_state" where
  "irq_reset_page_fault_handler s = s\<lparr>page_fault_handler_fn := default_page_fault_handler\<rparr>"

definition mem_init :: "image \<Rightarrow> x86_state \<Rightarrow> x86_fault + x86_state" where
  "mem_init img s =
     (if mem_inited s then Inr s
      else
        let s = irq_reset_page_fault_handler (s\<lparr>mem_inited := True\<rparr>) in
        bindE (heap_alloc_page s) (\<lambda>(page, s).
        prepare_runtime_pagetables img (s\<lparr>runtime_pagetables := page\<rparr>)))"

definition mem_reset :: "x86_state \<Rightarrow> x86_state" where
  "mem_reset s = irq_reset_page_fault_handler s"

definition early_mem_init :: "x86_state \<Rightarrow> x86_fault + x86_state" where
  "early_mem_init s =
     (let s = s\<lparr>initial_pagetables := 0x8000\<rparr> in
      bindE (create_page_mapping (initial_pagetables s) LAPIC LAPIC s) (\<lambda>s.
      Inr (mem_tlb_flush s)))"

subsection \<open>Entries\<close>

lemma base_of_set_base [simp]: "get_base_address (set_base_address e b) = b AND NOT 0xfff"
  and flags_of_set_base [simp]: "get_flags (set_base_address e b) = get_flags e"
  and base_of_set_flags [simp]: "get_base_address (set_flags e f) = get_base_address e"
  and flags_of_set_flags [simp]: "get_flags (set_flags e f) = f AND 0xfff"
  by (simp_all add: get_base_address_def set_base_address_def get_flags_def set_flags_def
      bit.conj_disj_distrib2 and.assoc)

lemma base_aligned: "page_aligned (get_base_address e)"
  by (simp add: page_aligned_def get_base_address_def and.assoc)

lemma aligned_base:
  assumes "page_aligned a"
  shows "a AND NOT 0xfff = a"
proof -
  have "a = (a AND 0xfff) OR (a AND NOT 0xfff)"
    by (simp flip: bit.conj_disj_distrib)
  then show ?thesis using assms by (simp add: page_aligned_def)
qed

lemma present_flags: "get_flags e = table_flags \<Longrightarrow> is_present e"
  by (simp add: is_present_def table_flags_def PF_PRESENT_def PF_WRITABLE_def PF_USER_def)

lemma entry_zero [simp]: "\<not> is_present 0" "get_base_address 0 = 0"
  by (simp_all add: is_present_def get_flags_def get_base_address_def)

lemma table_flags_mask [simp]: "table_flags AND 0xfff = table_flags"
  by (simp add: table_flags_def PF_PRESENT_def PF_WRITABLE_def PF_USER_def)

interpretation x86: entry_format is_present get_base_address
  by unfold_locales (rule base_aligned)

lemma poke_simps [simp]:
  "cells (poke a v s) = (cells s)(a := v)" "heap_cur (poke a v s) = heap_cur s"
  "heap_base (poke a v s) = heap_base s" "heap_end (poke a v s) = heap_end s"
  "runtime_pagetables (poke a v s) = runtime_pagetables s"
  by (simp_all add: poke_def)

subsection \<open>Allocation\<close>

lemma fast_zero_page_eq:
  "fast_zero_page page m a = (if \<exists>j<512. a = cell page j then 0 else m a)"
proof -
  have "foldl (\<lambda>m j. m(cell page (word_of_nat j) := 0)) m [0..<n] a
      = (if \<exists>j<n. a = cell page (word_of_nat j) then 0 else m a)" for n
    by (induction n) (auto simp: less_Suc_eq)
  then show ?thesis unfolding fast_zero_page_def by (simp add: cell_of_nat_iff)
qed

lemma heap_alloc_page_eq:
  "heap_alloc_page s = (if heap_end s \<le> heap_cur s then Inl Out_of_memory
     else Inr (heap_cur s, s\<lparr>heap_cur := heap_cur s + 0x1000, cells := fast_zero_page (heap_cur s) (cells s)\<rparr>))"
  by (simp add: heap_alloc_page_def Let_def)

text \<open>The heap ends a page below the end of the address space, so its pointer never wraps.\<close>

definition heap_ok :: "x86_state \<Rightarrow> bool" where
  [model_eval]: "heap_ok s \<longleftrightarrow> heap_end s \<le> 0xfffffffffffff000"

lemma heap_step:
  assumes "heap_ok s" "\<not> heap_end s \<le> heap_cur s"
  shows "heap_cur s < heap_cur s + 0x1000"
proof -
  have "unat (heap_cur s) < unat (heap_end s)" "unat (heap_end s) \<le> 0xfffffffffffff000"
    using assms by (simp_all add: heap_ok_def word_le_nat_alt word_less_nat_alt)
  then have "unat (heap_cur s) + 0x1000 < 2 ^ 64" by simp
  then have "unat (heap_cur s + 0x1000) = unat (heap_cur s) + 0x1000"
    by (subst unat_add_lem [THEN iffD1]) simp_all
  then show ?thesis by (simp add: word_less_nat_alt)
qed

subsection \<open>One level\<close>

lemma enter_table_descends:
  assumes r: "enter_table t i s = Inr (c, s')"
    and t: "page_aligned t" "i < 512" "t < heap_cur s" "page_aligned (heap_cur s)" "heap_cur s \<noteq> 0"
    and z: "\<not> is_present (cells s (cell t i)) \<longrightarrow> get_base_address (cells s (cell t i)) = 0"
    and h: "heap_ok s"
  shows "descended is_present get_base_address t i (cells s) (heap_cur s) (cells s') (heap_cur s') c"
    and "\<not> is_present (cells s (cell t i)) \<Longrightarrow> get_flags (cells s' (cell t i)) = table_flags"
    and "s' = s\<lparr>cells := cells s', heap_cur := heap_cur s'\<rparr>"
proof -
  have ne: "cell t i \<noteq> cell (heap_cur s) j"
    and ne': "cell (heap_cur s) j \<noteq> cell t i" if "j < 512" for j
    using cell_inject [OF t(1,4,2) that] t(3) by auto
  have all: "descended is_present get_base_address t i (cells s) (heap_cur s) (cells s') (heap_cur s') c \<and>
     (\<not> is_present (cells s (cell t i)) \<longrightarrow> get_flags (cells s' (cell t i)) = table_flags) \<and>
     s' = s\<lparr>cells := cells s', heap_cur := heap_cur s'\<rparr>"
  proof (cases "is_present (cells s (cell t i))")
    case True
    then show ?thesis using r by (auto simp: enter_table_def descended_def)
  next
    case False
    let ?m = "fast_zero_page (heap_cur s) (cells s)"
    let ?e = "set_flags (set_base_address (?m (cell t i)) (heap_cur s)) table_flags"
    have nf: "\<not> heap_end s \<le> heap_cur s"
      using r False z by (auto simp: enter_table_def heap_alloc_page_eq Let_def)
    then have s': "s' = s\<lparr>heap_cur := heap_cur s + 0x1000, cells := ?m(cell t i := ?e)\<rparr>"
      and c: "c = get_base_address ?e"
      using r False z by (auto simp: enter_table_def heap_alloc_page_eq Let_def poke_def)
    have c': "c = heap_cur s" using aligned_base [OF t(4)] c by simp
    have e: "is_present ?e" "get_flags ?e = table_flags" by (simp_all add: present_flags)
    have zero: "?m (cell (heap_cur s) j) = 0" if "j < 512" for j
      using that by (auto simp: fast_zero_page_eq)
    have other: "?m a = cells s a" if "\<forall>j<512. a \<noteq> cell (heap_cur s) j" for a
      using that by (auto simp: fast_zero_page_eq)
    show ?thesis
      using False z c' e zero other ne ne' heap_step [OF h nf] aligned_base [OF t(4)]
      by (auto simp: descended_def s')
  qed
  then show "descended is_present get_base_address t i (cells s) (heap_cur s) (cells s') (heap_cur s') c"
    "\<not> is_present (cells s (cell t i)) \<Longrightarrow> get_flags (cells s' (cell t i)) = table_flags"
    "s' = s\<lparr>cells := cells s', heap_cur := heap_cur s'\<rparr>" by blast+
qed

subsection \<open>The invariant and the hardware's walk\<close>

definition links_flagged :: "(u64 \<Rightarrow> u64) \<Rightarrow> u64 \<Rightarrow> bool" where
  "links_flagged m root \<longleftrightarrow>
     shaped (\<lambda>e. get_base_address e \<noteq> 0 \<longrightarrow> get_flags e = table_flags) get_base_address m root"

definition tables_built :: "u64 \<Rightarrow> x86_state \<Rightarrow> bool" where
  "tables_built root s \<longleftrightarrow>
     tables_ok is_present get_base_address (cells s) root (heap_base s) (heap_cur s) \<and>
     links_flagged (cells s) root \<and> heap_ok s"

definition va_path :: "u64 \<Rightarrow> u32 list" where
  [model_eval]: "va_path va = (let idx = calculate_indicies va in [idx_pml idx, idx_pdp idx, idx_pd idx, idx_pt idx])"

text \<open>
  The processor's four-level walk: an entry whose present bit is clear faults, an upper-level
  entry with bit 7 set ends the walk with a large page, which is the value Inl.
\<close>

fun hw_walk :: "(u64 \<Rightarrow> u64) \<Rightarrow> u64 \<Rightarrow> u32 list \<Rightarrow> (u64 + u64) option" where
  "hw_walk m t [] = None"
| "hw_walk m t [i] = (let e = m (cell t i) in if e AND 1 = 0 then None else Some (Inr e))"
| "hw_walk m t (i # j # p) =
     (let e = m (cell t i) in
      if e AND 1 = 0 then None
      else if e AND 0x80 \<noteq> 0 then Some (Inl e)
      else hw_walk m (e AND NOT 0xfff) (j # p))"

definition x86_translate :: "u64 \<Rightarrow> x86_state \<Rightarrow> u64 \<Rightarrow> (u64 + u64) option" where
  "x86_translate root s va = hw_walk (cells s) root (va_path va)"

definition page_entry :: "u64 \<Rightarrow> u64" where
  [model_eval]: "page_entry pa = (pa AND NOT 0xfff) OR table_flags"

definition x86_view :: "u64 \<Rightarrow> x86_state \<Rightarrow> u32 list \<Rightarrow> u64 option" where
  "x86_view root s q =
     (if path q \<and> length q = 4 then look is_present get_base_address (cells s) root q else None)"

lemma is_present_bit: "is_present e \<longleftrightarrow> e AND 1 \<noteq> 0"
  by (simp add: is_present_def get_flags_def PF_PRESENT_def and.assoc)

lemma absent_bit: "e AND 1 = 0 \<longleftrightarrow> \<not> is_present e"
  by (simp add: is_present_bit)

lemma flagged_small: "get_flags e = table_flags \<Longrightarrow> e AND 0x80 = 0"
proof -
  assume "get_flags e = table_flags"
  then have "e AND 0xfff = table_flags" by (simp add: get_flags_def)
  moreover have "e AND 0x80 = (e AND 0xfff) AND 0x80" by (simp add: and.assoc)
  ultimately show ?thesis by (simp add: table_flags_def PF_PRESENT_def PF_WRITABLE_def PF_USER_def)
qed

lemma hw_walk_look:
  assumes ok: "tables_ok is_present get_base_address m root lo cur" and f: "links_flagged m root"
  shows "\<lbrakk>path p; path (q # qs); length p + length (q # qs) = 4; node get_base_address m root p = Some t\<rbrakk> \<Longrightarrow>
    hw_walk m t (q # qs) = map_option Inr (look is_present get_base_address m t (q # qs))"
proof (induction qs arbitrary: p q t)
  case Nil
  then show ?case by (simp add: Let_def is_present_bit)
next
  case (Cons r qs)
  let ?e = "m (cell t q)"
  show ?case
  proof (cases "is_present ?e")
    case False
    then show ?thesis by (simp add: Let_def is_present_bit)
  next
    case True
    have b: "get_base_address ?e \<noteq> 0"
      using x86.tables_okD(6) [OF ok Cons.prems(1) _ Cons.prems(4)] Cons.prems True by simp
    then have "get_flags ?e = table_flags"
      using x86.shapedD [OF f [unfolded links_flagged_def] Cons.prems(1) _ _ Cons.prems(4)] Cons.prems by simp
    then have "?e AND 0x80 = 0" by (rule flagged_small)
    moreover have "node get_base_address m root (p @ [q]) = Some (get_base_address ?e)"
      using Cons.prems(4) b by (simp add: node_append Let_def)
    then have "hw_walk m (get_base_address ?e) (r # qs)
        = map_option Inr (look is_present get_base_address m (get_base_address ?e) (r # qs))"
      using Cons.prems by (intro Cons.IH [of "p @ [q]"]) auto
    ultimately show ?thesis
      using True unfolding hw_walk.simps look.simps Let_def absent_bit get_base_address_def [symmetric] by simp
  qed
qed

lemma index_less: "(ucast (w AND 0x1ff :: u64) :: u32) < 512"
proof -
  have "(0x1ff :: u64) = mask 9" by (simp add: mask_eq_exp_minus_1)
  then have "w AND 0x1ff = take_bit 9 w" by (simp only: take_bit_eq_mask)
  then have "unat (w AND 0x1ff) < 2 ^ 9" by (simp only: unsigned_take_bit_eq take_bit_nat_less_exp)
  then show ?thesis
    by (simp add: word_less_nat_alt unsigned_ucast_eq take_bit_nat_eq_self)
qed

lemma path_va_path [simp]: "path (va_path va)" and length_va_path [simp]: "length (va_path va) = 4"
  by (simp_all add: va_path_def Let_def calculate_indicies_def index_less)

lemma translate_view:
  assumes "tables_built root s"
  shows "x86_translate root s va = map_option Inr (x86_view root s (va_path va))"
  using assms hw_walk_look [of "cells s" root "heap_base s" "heap_cur s" "[]"]
    path_va_path [of va] length_va_path [of va]
  by (cases "va_path va") (auto simp: x86_translate_def x86_view_def tables_built_def)

subsection \<open>Mapping one page\<close>

lemma tables_builtD:
  assumes "tables_built root s"
  shows "tables_ok is_present get_base_address (cells s) root (heap_base s) (heap_cur s)"
    "links_flagged (cells s) root" "heap_ok s"
    "page_aligned (heap_cur s)"
proof -
  show "tables_ok is_present get_base_address (cells s) root (heap_base s) (heap_cur s)"
    "links_flagged (cells s) root" "heap_ok s"
    using assms by (simp_all add: tables_built_def)
  then show "page_aligned (heap_cur s)" unfolding tables_ok_def by blast
qed

lemma memory_only_trans:
  assumes "s1 = s0\<lparr>cells := cells s1, heap_cur := heap_cur s1\<rparr>"
    and "s2 = s1\<lparr>cells := cells s2, heap_cur := heap_cur s2\<rparr>"
  shows "s2 = s0\<lparr>cells := cells s2, heap_cur := heap_cur s2\<rparr>"
  using assms by (cases s0; cases s1; cases s2) simp

lemma enter_level:
  assumes b: "tables_built root s" and p: "path p" "length p \<le> 2" "node get_base_address (cells s) root p = Some t" "i < 512"
    and r: "enter_table t i s = Inr (c, s')"
  shows "descended is_present get_base_address t i (cells s) (heap_cur s) (cells s') (heap_cur s') c"
    and "\<not> is_present (cells s (cell t i)) \<Longrightarrow> get_flags (cells s' (cell t i)) = table_flags"
    and "s' = s\<lparr>cells := cells s', heap_cur := heap_cur s'\<rparr>"
    and "tables_built root s'"
    and "node get_base_address (cells s') root (p @ [i]) = Some c"
    and "\<not> is_present (cells s (cell t i)) \<longrightarrow>
      (get_base_address (cells s' (cell t i)) \<noteq> 0 \<longrightarrow> get_flags (cells s' (cell t i)) = table_flags) \<and>
      (\<forall>j<512. get_base_address (cells s' (cell c j)) \<noteq> 0 \<longrightarrow> get_flags (cells s' (cell c j)) = table_flags)"
proof -
  note D = tables_builtD [OF b]
  have t: "page_aligned t" "t < heap_cur s" "heap_cur s \<noteq> 0"
    using x86.tables_okD(1,3) [OF D(1) p(1) _ p(3)] p(2) by auto
  have z: "\<not> is_present (cells s (cell t i)) \<longrightarrow> get_base_address (cells s (cell t i)) = 0"
    using x86.shapedD [OF D(2) [unfolded links_flagged_def] p(1,2,4,3)] present_flags by blast
  note E = enter_table_descends [OF r t(1) p(4) t(2) D(4) t(3) z D(3)]
  show d: "descended is_present get_base_address t i (cells s) (heap_cur s) (cells s') (heap_cur s') c"
    by (rule E(1))
  show f: "get_flags (cells s' (cell t i)) = table_flags" if "\<not> is_present (cells s (cell t i))"
    using that by (rule E(2))
  show e: "s' = s\<lparr>cells := cells s', heap_cur := heap_cur s'\<rparr>"
    by (rule E(3))
  have "heap_base s' = heap_base s" "heap_end s' = heap_end s" by (subst e, simp)+
  moreover show new: "\<not> is_present (cells s (cell t i)) \<longrightarrow>
      (get_base_address (cells s' (cell t i)) \<noteq> 0 \<longrightarrow> get_flags (cells s' (cell t i)) = table_flags) \<and>
      (\<forall>j<512. get_base_address (cells s' (cell c j)) \<noteq> 0 \<longrightarrow> get_flags (cells s' (cell c j)) = table_flags)"
    using d z f by (auto simp: descended_def)
  ultimately show "tables_built root s'"
    using x86.descend_tables_ok [OF D(1) p d]
      x86.descend_shaped [OF D(1) p d D(2) [unfolded links_flagged_def] new] D(3)
    by (simp add: tables_built_def links_flagged_def heap_ok_def)
  show "node get_base_address (cells s') root (p @ [i]) = Some c"
    by (rule x86.descend_node [OF D(1) p d])
qed

lemma set_leaf: "set_flags (set_base_address e pa) table_flags = page_entry pa"
  by (simp add: set_flags_def set_base_address_def page_entry_def bit.conj_disj_distrib2 and.assoc or.commute)

lemma page_entry_present [simp]: "is_present (page_entry pa)"
  by (metis present_flags set_leaf flags_of_set_flags table_flags_mask)

lemma create_page_mapping_ok:
  assumes b: "tables_built root s" and r: "create_page_mapping root pa va s = Inr s'"
  shows "tables_built root s'"
    and "x86_view root s' = (x86_view root s)(va_path va \<mapsto> page_entry pa)"
    and "s' = s\<lparr>cells := cells s', heap_cur := heap_cur s'\<rparr>"
    and "a < heap_base s \<or> heap_cur s' \<le> a \<Longrightarrow> cells s' a = cells s a"
    and "heap_cur s \<le> heap_cur s'"
proof -
  obtain i0 i1 i2 i3 where ix: "va_path va = [i0, i1, i2, i3]"
    "calculate_indicies va = \<lparr>idx_pml = i0, idx_pdp = i1, idx_pd = i2, idx_pt = i3\<rparr>"
    by (cases "calculate_indicies va") (simp add: va_path_def)
  have lt: "path [i0, i1, i2, i3]" using path_va_path [of va] ix(1) by simp
  obtain t1 s1 t2 s2 t3 s3 where
    r1: "enter_table root i0 s = Inr (t1, s1)" and r2: "enter_table t1 i1 s1 = Inr (t2, s2)" and
    r3: "enter_table t2 i2 s2 = Inr (t3, s3)" and
    s': "s' = poke (cell t3 i3) (page_entry pa) s3"
    using r unfolding create_page_mapping_def ix(2) by (auto simp: Let_def set_leaf poke_def)
  have l: "i0 < 512" "i1 < 512" "i2 < 512" "i3 < 512" using lt by simp_all
  have root: "node get_base_address (cells s) root [] = Some root" by simp
  note E1 = enter_level [OF b _ _ root l(1) r1]
  have n1: "node get_base_address (cells s1) root [i0] = Some t1" using E1(5) by simp
  note E2 = enter_level [OF E1(4) _ _ n1 l(2) r2]
  have n2: "node get_base_address (cells s2) root [i0, i1] = Some t2" using E2(5) l by simp
  note E3 = enter_level [OF E2(4) _ _ n2 l(3) r3]
  have d: "descended is_present get_base_address root i0 (cells s) (heap_cur s) (cells s1) (heap_cur s1) t1"
    "descended is_present get_base_address t1 i1 (cells s1) (heap_cur s1) (cells s2) (heap_cur s2) t2"
    "descended is_present get_base_address t2 i2 (cells s2) (heap_cur s2) (cells s3) (heap_cur s3) t3"
    using E1(1) E2(1) E3(1) l by simp_all
  have f: "\<not> is_present (cells s (cell root i0)) \<longrightarrow>
      (get_base_address (cells s1 (cell root i0)) \<noteq> 0 \<longrightarrow> get_flags (cells s1 (cell root i0)) = table_flags) \<and>
      (\<forall>j<512. get_base_address (cells s1 (cell t1 j)) \<noteq> 0 \<longrightarrow> get_flags (cells s1 (cell t1 j)) = table_flags)"
    "\<not> is_present (cells s1 (cell t1 i1)) \<longrightarrow>
      (get_base_address (cells s2 (cell t1 i1)) \<noteq> 0 \<longrightarrow> get_flags (cells s2 (cell t1 i1)) = table_flags) \<and>
      (\<forall>j<512. get_base_address (cells s2 (cell t2 j)) \<noteq> 0 \<longrightarrow> get_flags (cells s2 (cell t2 j)) = table_flags)"
    "\<not> is_present (cells s2 (cell t2 i2)) \<longrightarrow>
      (get_base_address (cells s3 (cell t2 i2)) \<noteq> 0 \<longrightarrow> get_flags (cells s3 (cell t2 i2)) = table_flags) \<and>
      (\<forall>j<512. get_base_address (cells s3 (cell t3 j)) \<noteq> 0 \<longrightarrow> get_flags (cells s3 (cell t3 j)) = table_flags)"
    using E1(6) E2(6) E3(6) l by simp_all
  have s1: "s1 = s\<lparr>cells := cells s1, heap_cur := heap_cur s1\<rparr>" using E1(3) by simp
  have s2: "s2 = s1\<lparr>cells := cells s2, heap_cur := heap_cur s2\<rparr>" using E2(3) l by simp
  have s3: "s3 = s2\<lparr>cells := cells s3, heap_cur := heap_cur s3\<rparr>" using E3(3) l by simp
  have s3': "s3 = s\<lparr>cells := cells s3, heap_cur := heap_cur s3\<rparr>"
    by (rule memory_only_trans [OF memory_only_trans [OF s1 s2] s3])
  note D = tables_builtD [OF b]
  note I = x86.insert_page(1-4) [OF D(1) root lt d page_entry_present [of pa]]
    and J = x86.insert_page(5) [OF D(1) root lt d page_entry_present [of pa] D(2) [unfolded links_flagged_def] f]
  have c: "cells s' = (cells s3)(cell t3 i3 := page_entry pa)" "heap_cur s' = heap_cur s3"
    by (simp_all add: s')
  show e: "s' = s\<lparr>cells := cells s', heap_cur := heap_cur s'\<rparr>"
    unfolding c by (subst s', subst s3') (simp add: poke_def)
  have h: "heap_base s' = heap_base s" "heap_end s' = heap_end s" by (subst e, simp)+
  show "tables_built root s'"
    using I(1) J D(3) h
    by (simp add: tables_built_def links_flagged_def c heap_ok_def)
  show "x86_view root s' = (x86_view root s)(va_path va \<mapsto> page_entry pa)"
  proof
    fix q
    show "x86_view root s' q = ((x86_view root s)(va_path va \<mapsto> page_entry pa)) q"
      using I(2) [of q] lt unfolding x86_view_def c(1) ix(1) by (cases "q = [i0, i1, i2, i3]") (simp_all del: look.simps)
  qed
  show "cells s' a = cells s a" if "a < heap_base s \<or> heap_cur s' \<le> a"
    using I(3) that by (simp add: c)
  show "heap_cur s \<le> heap_cur s'" using I(4) by (simp add: c)
qed

subsection \<open>Mapping many pages, building the runtime tables\<close>

lemma mem_create_page_mapping_ok:
  assumes "tables_built (runtime_pagetables s) s" "mem_create_page_mapping_data pa va s = Inr s'"
  shows "tables_built (runtime_pagetables s') s'"
    and "x86_view (runtime_pagetables s') s' = (x86_view (runtime_pagetables s) s)(va_path va \<mapsto> page_entry pa)"
    and "s' = s\<lparr>cells := cells s', heap_cur := heap_cur s'\<rparr>"
    and "runtime_pagetables s' = runtime_pagetables s"
proof -
  note C = create_page_mapping_ok [OF assms(1) assms(2) [unfolded mem_create_page_mapping_data_def]]
  show "s' = s\<lparr>cells := cells s', heap_cur := heap_cur s'\<rparr>" by (rule C(3))
  then have "runtime_pagetables s' = runtime_pagetables (s\<lparr>cells := cells s', heap_cur := heap_cur s'\<rparr>)"
    by (rule arg_cong)
  then show r: "runtime_pagetables s' = runtime_pagetables s" by simp
  show "tables_built (runtime_pagetables s') s'" "x86_view (runtime_pagetables s') s' = (x86_view (runtime_pagetables s) s)(va_path va \<mapsto> page_entry pa)"
    unfolding r by (fact C)+
qed

interpretation x86_data: page_mapper mem_create_page_mapping_data
  "\<lambda>s. tables_built (runtime_pagetables s) s" "\<lambda>s. x86_view (runtime_pagetables s) s" va_path page_entry
  by unfold_locales (fact mem_create_page_mapping_ok)+

lemma map_pages_memory_only:
  "\<lbrakk>tables_built (runtime_pagetables s) s; map_pages mem_create_page_mapping_data ps s = Inr s'\<rbrakk> \<Longrightarrow>
    s' = s\<lparr>cells := cells s', heap_cur := heap_cur s'\<rparr>"
proof (induction ps arbitrary: s)
  case (Cons p ps)
  obtain pa va where p: "p = (pa, va)" by (cases p)
  obtain s1 where s1: "mem_create_page_mapping_data pa va s = Inr s1"
    "map_pages mem_create_page_mapping_data ps s1 = Inr s'"
    using Cons.prems(2) p by auto
  note M = mem_create_page_mapping_ok [OF Cons.prems(1) s1(1)]
  show ?case by (rule memory_only_trans [OF M(3) Cons.IH [OF M(1) s1(2)]])
qed simp

definition range_pages :: "nat \<Rightarrow> u64 \<Rightarrow> u64 list" where
  "range_pages n a = map (\<lambda>i. a + 0x1000 * word_of_nat i) [0..<n]"

lemma map_page_ranges_eq:
  "map_page_ranges n pa va s =
     map_pages mem_create_page_mapping_data (zip (range_pages n pa) (range_pages n va)) s"
proof (induction n arbitrary: pa va s)
  case (Suc n)
  have "range_pages (Suc n) a = a # range_pages n (a + 0x1000)" for a
    by (simp add: range_pages_def upt_conv_Cons map_Suc_upt [symmetric] algebra_simps del: upt_Suc)
  then show ?case by (simp add: Suc.IH cong: bindE_cong)
qed (simp add: range_pages_def)

lemma zip_self: "zip xs xs = map (\<lambda>a. (a, a)) xs"
  by (induction xs) auto

text \<open>The pages mem_init maps, in order: framebuffer, text, data, heap, local APIC.\<close>

definition runtime_pages :: "image \<Rightarrow> u64 list" where
  "runtime_pages img = range_pages 1 0xb8000
     @ range_pages (as_count (NR_PAGES (sym_TEXT_START img) (sym_TEXT_END img))) (sym_TEXT_START img)
     @ range_pages (as_count (NR_PAGES (sym_DATA_START img) (sym_DATA_END img))) (sym_DATA_START img)
     @ range_pages (as_count (drop_bit 12 (sym_HEAP_SIZE img))) (sym_HEAP_START img)
     @ [LAPIC]"

lemma map_pages_single: "map_pages f [(pa, va)] s = f pa va s"
  by (cases "f pa va s") auto

lemma prepare_runtime_pagetables_eq:
  "prepare_runtime_pagetables img s =
     bindE (map_pages mem_create_page_mapping_data (map (\<lambda>a. (a, a)) (runtime_pages img)) s)
       (\<lambda>s. Inr (mem_tlb_flush s))"
proof -
  have assoc: "bindE (bindE m f) g = bindE m (\<lambda>x. bindE (f x) g)"
    for m :: "x86_fault + x86_state" and f :: "x86_state \<Rightarrow> x86_fault + x86_state" and g :: "x86_state \<Rightarrow> x86_fault + x86_state"
    by (cases m) auto
  show ?thesis
    by (simp add: prepare_runtime_pagetables_def runtime_pages_def map_pages_append map_page_ranges_eq
        zip_self assoc map_pages_single del: map_page_ranges.simps map_pages.simps(2))
qed

lemma index_bits: "bit (ucast (drop_bit k w AND 0x1ff :: u64) :: u32) n \<longleftrightarrow> n < 9 \<and> bit w (k + n)"
  by (simp only: bit_simps bit_0x1ff possible_bit_word o_apply) auto

lemma va_path_eq_iff:
  "va_path a = va_path b \<longleftrightarrow> (\<forall>n. 12 \<le> n \<and> n < 48 \<longrightarrow> bit a n = bit b n)"
  unfolding page_bits_iff va_path_def calculate_indicies_def Let_def table_indicies.simps list.inject
    index_eq_iff [OF index_bits index_bits] by simp

lemma same_path_same_entry:
  assumes "va_path a = va_path b" "a < 2 ^ 48" "b < 2 ^ 48"
  shows "page_entry a = page_entry b"
  using same_page [OF _ assms(2,3)] assms(1) unfolding va_path_eq_iff page_entry_def by simp

lemma fresh_tables:
  assumes "page_aligned root" "0 < lo" "lo \<le> root" "root < cur" "page_aligned cur"
    and z: "\<And>j. j < 512 \<Longrightarrow> m (cell root j) = 0"
  shows "tables_ok is_present get_base_address m root lo cur" "links_flagged m root"
    "\<lbrakk>path q; length q = 4\<rbrakk> \<Longrightarrow> look is_present get_base_address m root q = None"
proof -
  have "\<forall>j<512. get_base_address (m (cell root j)) = 0 \<and> \<not> is_present (m (cell root j)) \<and>
      (get_base_address (m (cell root j)) \<noteq> 0 \<longrightarrow> get_flags (m (cell root j)) = table_flags)"
    using z by simp
  note F = x86.fresh_root [OF assms(1-5) this]
  show "tables_ok is_present get_base_address m root lo cur" "links_flagged m root"
    "\<lbrakk>path q; length q = 4\<rbrakk> \<Longrightarrow> look is_present get_base_address m root q = None"
    unfolding links_flagged_def by (fact F)+
qed

lemma mapping_correct:
  assumes "tables_built (runtime_pagetables s) s"
    and "mem_create_page_mapping_data pa va s = Inr s'"
  shows "tables_built (runtime_pagetables s') s'"
    and "x86_translate (runtime_pagetables s') s' va' =
      (if \<forall>n. 12 \<le> n \<and> n < 48 \<longrightarrow> bit va' n = bit va n then Some (Inr (page_entry pa))
       else x86_translate (runtime_pagetables s) s va')"
    and "a < heap_base s \<or> heap_cur s' \<le> a \<Longrightarrow> cells s' a = cells s a"
proof -
  note M = mem_create_page_mapping_ok [OF assms]
  show b: "tables_built (runtime_pagetables s') s'" by (rule M(1))
  show "x86_translate (runtime_pagetables s') s' va' =
      (if \<forall>n. 12 \<le> n \<and> n < 48 \<longrightarrow> bit va' n = bit va n then Some (Inr (page_entry pa))
       else x86_translate (runtime_pagetables s) s va')"
    unfolding translate_view [OF b] translate_view [OF assms(1)] M(2) va_path_eq_iff [symmetric] by simp
  show "cells s' a = cells s a" if "a < heap_base s \<or> heap_cur s' \<le> a"
    using create_page_mapping_ok(4) [OF assms(1) assms(2) [unfolded mem_create_page_mapping_data_def] that] .
qed

text \<open>
  C11: when mapping a page as data or as code succeeds, the tables are still a well-built tree, the processor translates exactly
  the addresses of that virtual page to the physical page with the flags present, writable and
  user, and the translation of every other page and everything outside the heap pages are
  unchanged. Mapping a page as device memory always stops the machine.
\<close>

theorem x86_mapping_correct:
  assumes "tables_built (runtime_pagetables s) s"
    and "f \<in> {mem_create_page_mapping_data, mem_create_page_mapping_code}" and "f pa va s = Inr s'"
  shows "tables_built (runtime_pagetables s') s' \<and>
    (\<forall>va'. x86_translate (runtime_pagetables s') s' va' =
      (if \<forall>n. 12 \<le> n \<and> n < 48 \<longrightarrow> bit va' n = bit va n then Some (Inr (page_entry pa))
       else x86_translate (runtime_pagetables s) s va')) \<and>
    (\<forall>a. a < heap_base s \<or> heap_cur s' \<le> a \<longrightarrow> cells s' a = cells s a) \<and>
    (\<forall>pa va s. mem_create_page_mapping_device pa va s = Inl Device_mapping)"
proof -
  have "mem_create_page_mapping_data pa va s = Inr s'"
    using assms(2,3) by (auto simp: mem_create_page_mapping_data_def mem_create_page_mapping_code_def)
  from mapping_correct [OF assms(1) this] show ?thesis by (auto simp: mem_create_page_mapping_device_def)
qed

lemma enter_table_succeeds:
  assumes "unat (heap_cur s) + 0x1000 * Suc n \<le> unat (heap_end s)"
  shows "\<exists>c s'. enter_table t i s = Inr (c, s') \<and> unat (heap_cur s') + 0x1000 * n \<le> unat (heap_end s')
    \<and> heap_end s' = heap_end s"
proof -
  have "\<not> heap_end s \<le> heap_cur s" using assms by (simp add: word_le_nat_alt)
  moreover have "unat (heap_cur s + 0x1000) = unat (heap_cur s) + 0x1000"
    using assms unsigned_less [of "heap_end s", where ?'a = nat] by (subst unat_add_lem [THEN iffD1]) auto
  ultimately show ?thesis
    using assms by (auto simp: enter_table_def heap_alloc_page_eq Let_def poke_def)
qed

lemma enter_table_error: "enter_table t i s = Inl e \<Longrightarrow> e = Out_of_memory"
  by (auto simp: enter_table_def heap_alloc_page_eq Let_def bindE_def split: sum.splits if_splits)

lemma create_page_mapping_succeeds:
  assumes "unat (heap_cur s) + 0x3000 + 0x1000 * n \<le> unat (heap_end s)"
  shows "\<exists>s'. create_page_mapping root pa va s = Inr s' \<and>
    unat (heap_cur s') + 0x1000 * n \<le> unat (heap_end s') \<and> heap_end s' = heap_end s"
proof -
  have h: "unat (heap_cur s) + 0x1000 * Suc (n + 2) \<le> unat (heap_end s)" using assms by simp
  obtain t1 s1 where r1: "enter_table root (idx_pml (calculate_indicies va)) s = Inr (t1, s1)"
    "unat (heap_cur s1) + 0x1000 * Suc (n + 1) \<le> unat (heap_end s1)" "heap_end s1 = heap_end s"
    using enter_table_succeeds [OF h] by (metis Suc_1 add_Suc_right)
  obtain t2 s2 where r2: "enter_table t1 (idx_pdp (calculate_indicies va)) s1 = Inr (t2, s2)"
    "unat (heap_cur s2) + 0x1000 * Suc n \<le> unat (heap_end s2)" "heap_end s2 = heap_end s1"
    using enter_table_succeeds [OF r1(2)] by (metis Suc_eq_plus1)
  obtain t3 s3 where r3: "enter_table t2 (idx_pd (calculate_indicies va)) s2 = Inr (t3, s3)"
    "unat (heap_cur s3) + 0x1000 * n \<le> unat (heap_end s3)" "heap_end s3 = heap_end s2"
    using enter_table_succeeds [OF r2(2)] by blast
  show ?thesis
    using r3(2) by (simp add: create_page_mapping_def r1(1,3) r2(1,3) r3(1,3) Let_def)
qed

lemmas mapping_succeeds =
  create_page_mapping_succeeds [of s n "runtime_pagetables s" for s n, folded mem_create_page_mapping_data_def]

lemma mapping_error:
  "mem_create_page_mapping_data pa va s = Inl e \<Longrightarrow> e = Out_of_memory"
  by (auto simp: mem_create_page_mapping_data_def create_page_mapping_def Let_def bindE_def
      dest: enter_table_error split: sum.splits prod.splits)

lemma map_pages_succeeds:
  "unat (heap_cur s) + 0x3000 * length ps \<le> unat (heap_end s) \<Longrightarrow>
    \<exists>s'. map_pages mem_create_page_mapping_data ps s = Inr s'"
proof (induction ps arbitrary: s)
  case (Cons p ps)
  obtain pa va where p: "p = (pa, va)" by (cases p)
  have "unat (heap_cur s) + 0x3000 + 0x1000 * (3 * length ps) \<le> unat (heap_end s)" using Cons.prems by simp
  from mapping_succeeds [OF this, of pa va] Cons.IH show ?case by (fastforce simp: p)
qed simp

text \<open>
  Mapping a page never fails while three pages are left in the heap, and running out of
  memory is the only way it can fail.
\<close>

theorem x86_mapping_total:
  "(unat (heap_cur s) + 0x3000 \<le> unat (heap_end s) \<longrightarrow> (\<exists>s'. mem_create_page_mapping_data pa va s = Inr s')) \<and>
   (\<forall>e. mem_create_page_mapping_data pa va s = Inl e \<longrightarrow> e = Out_of_memory)"
  using mapping_succeeds [of s 0 pa va] mapping_error [of pa va s] by auto

lemma mem_init_parts:
  assumes "heap_ok s" "page_aligned (heap_cur s)" "0 < heap_base s" "heap_base s \<le> heap_cur s"
    and "\<forall>a\<in>set (runtime_pages img). a < 2 ^ 48"
    and "\<not> mem_inited s" and "mem_init img s = Inr s'"
  shows "tables_built (runtime_pagetables s') s'"
    and "a \<in> set (runtime_pages img) \<Longrightarrow>
      x86_translate (runtime_pagetables s') s' a = Some (Inr (page_entry a))"
    and "va_path va \<notin> va_path ` set (runtime_pages img) \<Longrightarrow>
      x86_translate (runtime_pagetables s') s' va = None"
    and "page_fault_handler_fn s' = default_page_fault_handler" "mem_init img s' = Inr s'"
proof -
  let ?s0 = "irq_reset_page_fault_handler (s\<lparr>mem_inited := True\<rparr>)"
  let ?m = "fast_zero_page (heap_cur s) (cells s)"
  let ?s1 = "?s0\<lparr>heap_cur := heap_cur s + 0x1000, cells := ?m, runtime_pagetables := heap_cur s\<rparr>"
  have nf: "\<not> heap_end s \<le> heap_cur s"
    using assms(6,7) by (auto simp: mem_init_def heap_alloc_page_eq irq_reset_page_fault_handler_def)
  obtain s2 where s2: "map_pages mem_create_page_mapping_data (map (\<lambda>a. (a, a)) (runtime_pages img)) ?s1 = Inr s2"
    and s': "s' = mem_tlb_flush s2"
    using assms(6,7) nf
    by (auto simp: mem_init_def heap_alloc_page_eq irq_reset_page_fault_handler_def prepare_runtime_pagetables_eq Let_def)
  note F = fresh_tables [of "heap_cur s" "heap_base s" "heap_cur s + 0x1000" ?m, OF assms(2-4)
      heap_step [OF assms(1) nf] page_aligned_next]
  have z: "?m (cell (heap_cur s) j) = 0" if "j < 512" for j
    using that by (auto simp: fast_zero_page_eq)
  have b1: "tables_built (runtime_pagetables ?s1) ?s1"
    using F(1,2) z assms(1,2) by (simp add: tables_built_def heap_ok_def irq_reset_page_fault_handler_def)
  have v1: "x86_view (runtime_pagetables ?s1) ?s1 q = None" for q
    using F(3) z assms(2) by (simp add: x86_view_def)
  have b2: "tables_built (runtime_pagetables s2) s2"
    using x86_data.map_pages_inv [OF b1 s2] .
  have agree: "\<forall>a\<in>set (runtime_pages img). \<forall>b\<in>set (runtime_pages img).
      va_path a = va_path b \<longrightarrow> page_entry a = page_entry b"
    using same_path_same_entry assms(5) by blast
  note R = x86_data.identity_region [OF b1 s2 agree]
  have t: "x86_translate (runtime_pagetables s') s' = x86_translate (runtime_pagetables s2) s2"
    "tables_built (runtime_pagetables s') s' = tables_built (runtime_pagetables s2) s2"
    by (auto simp: s' mem_tlb_flush_def write_cr3_def issue_def fun_eq_iff x86_translate_def tables_built_def heap_ok_def)
  show "tables_built (runtime_pagetables s') s'" using b2 t by simp
  show "x86_translate (runtime_pagetables s') s' a = Some (Inr (page_entry a))" if "a \<in> set (runtime_pages img)"
    using R(1) [OF that] unfolding t translate_view [OF b2] by simp
  show "x86_translate (runtime_pagetables s') s' va = None" if "va_path va \<notin> va_path ` set (runtime_pages img)"
    using R(2) [OF that] v1 unfolding t translate_view [OF b2] by simp
  have "page_fault_handler_fn s2 = default_page_fault_handler \<and> mem_inited s2"
    by (subst (1 2) map_pages_memory_only [OF b1 s2]) (simp add: irq_reset_page_fault_handler_def)
  then show "page_fault_handler_fn s' = default_page_fault_handler" "mem_init img s' = Inr s'"
    by (simp_all add: s' mem_tlb_flush_def write_cr3_def issue_def mem_init_def)
qed

text \<open>The pages of a section are enough for its last byte.\<close>

lemma same_page_number:
  assumes "unat a div 0x1000 = unat (p :: u64) div 0x1000"
  shows "va_path a = va_path p" and "page_entry a = page_entry p"
proof -
  have "unat (drop_bit 12 a) = unat (drop_bit 12 p)"
    using assms by (simp only: unat_drop_bit_eq) (simp add: drop_bit_eq_div)
  then have d: "drop_bit 12 a = drop_bit 12 p" by (simp only: word_unat_eq_iff)
  have "bit a n = bit p n" if "12 \<le> n" for n
  proof -
    have "bit a n = bit (drop_bit 12 a) (n - 12)" "bit p n = bit (drop_bit 12 p) (n - 12)"
      using that by (simp_all add: bit_drop_bit_eq)
    then show ?thesis unfolding d by simp
  qed
  then show "va_path a = va_path p" unfolding va_path_eq_iff by blast
  have r: "x AND NOT 0xfff = push_bit 12 (drop_bit 12 x)" for x :: u64
  proof -
    have m: "(0xfff :: u64) = mask 12" by (simp add: mask_eq_exp_minus_1)
    show ?thesis unfolding m by (auto intro!: bit_word_eqI simp: bit_simps)
  qed
  show "page_entry a = page_entry p" by (simp only: page_entry_def r d)
qed

lemma section_page:
  assumes "page_aligned lo" "lo \<le> a" "a \<le> hi" "unat hi - unat lo < 2 ^ 42"
  shows "\<exists>p\<in>set (range_pages (as_count (NR_PAGES lo hi)) lo). unat a div 0x1000 = unat p div 0x1000"
proof -
  let ?k = "(unat a - unat lo) div 0x1000"
  have le: "unat lo \<le> unat a" "unat a \<le> unat hi" using assms(2,3) by (simp_all add: word_le_nat_alt)
  have n: "(unat hi - unat lo) div 0x1000 + 1 < 2 ^ 31" using assms(4) by simp
  have "unat (NR_PAGES lo hi) = (unat hi - unat lo) div 0x1000 + 1"
  proof -
    have "unat ((hi - lo) div 0x1000) = (unat hi - unat lo) div 0x1000"
      using le by (simp add: unat_div unat_sub word_le_nat_alt)
    then show ?thesis unfolding NR_PAGES_def using n by (subst unat_add_lem [THEN iffD1]) simp_all
  qed
  then have "as_count (NR_PAGES lo hi) = (unat hi - unat lo) div 0x1000 + 1"
    using n by (simp add: as_count_def sint_uint signed_take_bit_int_eq_self uint_nat unsigned_ucast_eq take_bit_nat_eq_self)
  moreover have "?k \<le> (unat hi - unat lo) div 0x1000" using le by (intro div_le_mono) simp
  ultimately have m: "lo + 0x1000 * word_of_nat ?k \<in> set (range_pages (as_count (NR_PAGES lo hi)) lo)"
    unfolding range_pages_def by (simp only: set_map set_upt) (rule image_eqI [where x = ?k], simp_all)
  obtain q where q: "unat lo = 0x1000 * q"
  proof -
    have m: "(0xfff :: u64) = mask 12" by (simp add: mask_eq_exp_minus_1)
    have "unat (lo AND 0xfff) = unat lo mod 0x1000"
      unfolding m by (simp only: take_bit_eq_mask [symmetric] unsigned_take_bit_eq) (simp add: take_bit_eq_mod)
    then have "unat lo mod 0x1000 = 0" using assms(1) by (simp add: page_aligned_def)
    then show ?thesis using that by (auto simp: mod_eq_0_iff_dvd elim: dvdE)
  qed
  have "unat lo + 0x1000 * ?k \<le> unat a" using le(1) times_div_less_eq_dividend [of "0x1000" "unat a - unat lo"] by linarith
  then have u: "unat (lo + 0x1000 * word_of_nat ?k) = unat lo + 0x1000 * ?k"
    using unsigned_less [of a, where ?'a = nat]
    by (simp add: unat_word_ariths unsigned_of_nat take_bit_eq_mod mod_add_right_eq mod_mult_right_eq)
  have "unat a = 0x1000 * q + (unat a - unat lo)" using q le(1) by simp
  then have "unat a div 0x1000 = q + ?k" by (metis div_mult_self4 zero_neq_numeral)
  moreover have "(unat lo + 0x1000 * ?k) div 0x1000 = q + ?k" unfolding q by simp
  ultimately show ?thesis using m u by (intro bexI [of _ "lo + 0x1000 * word_of_nat ?k"]) simp_all
qed

text \<open>
  C9: when mem_init returns for the first time, the runtime tables identity-map the framebuffer
  page, every page of the text, data and heap sections and the local APIC, and map nothing else; in particular
  each address of a text or data section that starts on a page and has less than 2 to the 42 bytes, up to and with the end the
  linker gives, translates to its own page. The page-fault handler is the default one. A second call does nothing.
\<close>

theorem mem_init_identity:
  assumes "heap_ok s" "page_aligned (heap_cur s)" "0 < heap_base s" "heap_base s \<le> heap_cur s"
    and "\<forall>a\<in>set (runtime_pages img). a < 2 ^ 48"
    and "\<not> mem_inited s" and "mem_init img s = Inr s'"
  shows "tables_built (runtime_pagetables s') s' \<and>
    (\<forall>a\<in>set (runtime_pages img). x86_translate (runtime_pagetables s') s' a = Some (Inr (page_entry a))) \<and>
    (\<forall>(lo, hi)\<in>{(sym_TEXT_START img, sym_TEXT_END img), (sym_DATA_START img, sym_DATA_END img)}.
      page_aligned lo \<and> unat hi - unat lo < 2 ^ 42 \<longrightarrow>
        (\<forall>a. lo \<le> a \<and> a \<le> hi \<longrightarrow> x86_translate (runtime_pagetables s') s' a = Some (Inr (page_entry a)))) \<and>
    (\<forall>va. va_path va \<notin> va_path ` set (runtime_pages img) \<longrightarrow>
      x86_translate (runtime_pagetables s') s' va = None) \<and>
    page_fault_handler_fn s' = default_page_fault_handler \<and> mem_init img s' = Inr s'"
proof -
  note P = mem_init_parts [OF assms]
  have "x86_translate (runtime_pagetables s') s' a = Some (Inr (page_entry a))"
    if sec: "(lo, hi) \<in> {(sym_TEXT_START img, sym_TEXT_END img), (sym_DATA_START img, sym_DATA_END img)}"
      and al: "page_aligned lo" "unat hi - unat lo < 2 ^ 42" and a: "lo \<le> a" "a \<le> hi" for lo hi a
  proof -
    obtain p where p: "p \<in> set (range_pages (as_count (NR_PAGES lo hi)) lo)" "unat a div 0x1000 = unat p div 0x1000"
      using section_page [OF al(1) a al(2)] by blast
    with sec have "p \<in> set (runtime_pages img)" by (auto simp: runtime_pages_def)
    then show ?thesis
      using P(2) [of p] unfolding x86_translate_def same_page_number [OF p(2)] by simp
  qed
  then show ?thesis using P by blast
qed

lemma mem_init_succeeds:
  assumes "unat (heap_cur s) + 0x1000 + 0x3000 * length (runtime_pages img) \<le> unat (heap_end s)"
  shows "\<exists>s'. mem_init img s = Inr s'"
proof (cases "mem_inited s")
  case False
  let ?s1 = "s\<lparr>mem_inited := True, page_fault_handler_fn := default_page_fault_handler, heap_cur := heap_cur s + 0x1000,
     cells := fast_zero_page (heap_cur s) (cells s), runtime_pagetables := heap_cur s\<rparr>"
  have "unat (heap_cur s + 0x1000) = unat (heap_cur s) + 0x1000"
    using assms unsigned_less [of "heap_end s", where ?'a = nat] by (subst unat_add_lem [THEN iffD1]) auto
  then have "unat (heap_cur ?s1) + 0x3000 * length (map (\<lambda>a. (a, a)) (runtime_pages img)) \<le> unat (heap_end ?s1)"
    using assms by simp
  from map_pages_succeeds [OF this] obtain s2 where
    "map_pages mem_create_page_mapping_data (map (\<lambda>a. (a, a)) (runtime_pages img)) ?s1 = Inr s2" by blast
  moreover have "\<not> heap_end s \<le> heap_cur s" using assms by (simp add: word_le_nat_alt)
  ultimately show ?thesis
    using False by (simp add: mem_init_def heap_alloc_page_eq irq_reset_page_fault_handler_def prepare_runtime_pagetables_eq Let_def)
qed (simp add: mem_init_def)

subsection \<open>Concrete instances\<close>

definition blank_x86 :: x86_state where
  "blank_x86 = \<lparr>cells = (\<lambda>_. 0), heap_base = 0x100000, heap_cur = 0x101000, heap_end = 0x10000000, heap_size = 0xff00000,
     initial_pagetables = 0x8000, runtime_pagetables = 0x100000, cr3 = 0x8000, mem_inited = False,
     syscall_handler_fn = default_syscall_handler, page_fault_handler_fn = default_page_fault_handler,
     irq_handler_fn = default_irq_handler, undef_handler_fn = default_undef_handler,
     benchmark_irq_handler = None, use_framebuffer = False, bus = []\<rparr>"

definition demo_image :: image where
  "demo_image = \<lparr>sym_TEXT_START = 0x200000, sym_TEXT_END = 0x201000, sym_DATA_START = 0x202000, sym_DATA_END = 0x202800,
     sym_HEAP_START = 0x300000, sym_HEAP_SIZE = 0x2000\<rparr>"

lemma blank_x86_built: "tables_built (runtime_pagetables blank_x86) blank_x86"
  using fresh_tables [of "0x100000" "0x100000" "0x101000" "\<lambda>_. 0"]
  by (simp add: tables_built_def blank_x86_def heap_ok_def page_aligned_def)

lemma x86_mapping_correct_witness:
  "\<exists>s'. x86_translate (runtime_pagetables s') s' 0x7fff12345678 = Some (Inr (page_entry 0xb8000))"
proof -
  have "unat (heap_cur blank_x86) + 0x3000 + 0x1000 * 0 \<le> unat (heap_end blank_x86)" by (simp add: blank_x86_def)
  from mapping_succeeds [OF this] obtain s'
    where "mem_create_page_mapping_data 0xb8000 0x7fff12345000 blank_x86 = Inr s'" by blast
  from x86_mapping_correct [where f = mem_create_page_mapping_data, OF blank_x86_built _ this]
  have "x86_translate (runtime_pagetables s') s' 0x7fff12345678 =
    (if \<forall>n. 12 \<le> n \<and> n < 48 \<longrightarrow> bit (0x7fff12345678 :: u64) n = bit (0x7fff12345000 :: u64) n
     then Some (Inr (page_entry 0xb8000)) else x86_translate (runtime_pagetables blank_x86) blank_x86 0x7fff12345678)"
    by blast
  moreover have "va_path 0x7fff12345678 = va_path 0x7fff12345000"
    by (simp add: va_path_def calculate_indicies_def)
  ultimately show ?thesis by (auto simp: va_path_eq_iff)
qed

lemma x86_mapping_total_witness:
  "\<exists>s'. mem_create_page_mapping_data 0xb8000 0x7fff12345000 blank_x86 = Inr s'"
  using x86_mapping_total [of blank_x86 "0xb8000" "0x7fff12345000"] by (simp add: blank_x86_def)

lemma demo_pages: "runtime_pages demo_image =
    [0xb8000, 0x200000, 0x201000, 0x202000, 0x300000, 0x301000, 0xfee00000]"
  by (simp add: runtime_pages_def demo_image_def range_pages_def NR_PAGES_def as_count_def LAPIC_def upt_rec)

lemma mem_init_identity_witness:
  "\<exists>s'. mem_init demo_image blank_x86 = Inr s' \<and>
     x86_translate (runtime_pagetables s') s' 0xfee00000 = Some (Inr (page_entry 0xfee00000)) \<and>
     x86_translate (runtime_pagetables s') s' 0x2027ff = Some (Inr (page_entry 0x2027ff)) \<and>
     x86_translate (runtime_pagetables s') s' 0x400000 = None"
proof -
  have "unat (heap_cur blank_x86) + 0x1000 + 0x3000 * length (runtime_pages demo_image) \<le> unat (heap_end blank_x86)"
    by (simp add: blank_x86_def demo_pages)
  from mem_init_succeeds [OF this] obtain s' where s': "mem_init demo_image blank_x86 = Inr s'" by blast
  have h: "heap_ok blank_x86" "page_aligned (heap_cur blank_x86)" "0 < heap_base blank_x86"
    "heap_base blank_x86 \<le> heap_cur blank_x86" "\<forall>a\<in>set (runtime_pages demo_image). a < 2 ^ 48" "\<not> mem_inited blank_x86"
    by (simp_all add: blank_x86_def heap_ok_def page_aligned_def demo_pages)
  note R = mem_init_identity [OF h s']
  have "va_path 0x400000 \<notin> va_path ` set (runtime_pages demo_image)"
    by (simp add: demo_pages va_path_def calculate_indicies_def)
  then have "x86_translate (runtime_pagetables s') s' 0xfee00000 = Some (Inr (page_entry 0xfee00000))"
    "x86_translate (runtime_pagetables s') s' 0x400000 = None" using R by (simp_all add: demo_pages)
  moreover have "sym_DATA_START demo_image = 0x202000" "sym_DATA_END demo_image = 0x202800" "page_aligned 0x202000"
    by (simp_all add: demo_image_def page_aligned_def)
  then have "x86_translate (runtime_pagetables s') s' 0x2027ff = Some (Inr (page_entry 0x2027ff))"
    using R [THEN conjunct2, THEN conjunct2, THEN conjunct1] by simp
  ultimately show ?thesis using s' by blast
qed

end
