(* ===== verification/X86_Trap.thy ===== *)
theory X86_Trap
  imports X86_Memory X86_Decode
begin

section \<open>Traps, the local APIC and the architecture interface (irq.c, exception.c, arch.c, pit.c)\<close>

text \<open>
  The interrupt descriptor table is written into a page of the heap; the addresses of the trap
  entry points of trap.S are the parameter of irq_init. The processor's side of a trap, the
  mcontext the entry code pushes, is a record. A handler is run by name; what it leaves is the
  new context or the fault of the abort it ends in.

  Reads of devices take their values from the list of answers they are given, one per read, so
  that a polling loop that never sees its bit ends in No_answer.
\<close>

record mcontext =
  r15 :: u64  r14 :: u64  r13 :: u64  r12 :: u64  r11 :: u64  r10 :: u64  r9 :: u64  r8 :: u64
  rbp :: u64
  rsi :: u64  rdi :: u64  rdx :: u64  rcx :: u64  rbx :: u64  rax :: u64
  mc_flags :: u64  rsp :: u64  extra :: u64  rip :: u64
  tempCS :: u64  tempFLAGS :: u64  tempSP :: u64  tempSS :: u64

subsection \<open>The interrupt descriptor table\<close>

record IDT =
  off_low :: u16
  sel :: u16
  zero0 :: u8
  idt_type :: u8
  off_mid :: u16
  off_high :: u32
  zero1 :: u32

definition set_idt :: "u64 \<Rightarrow> bool \<Rightarrow> IDT" where
  [model_eval]: "set_idt fn allow_user =
    \<lparr>off_low = ucast (fn AND 0xffff), sel = 0x8, zero0 = 0,
     idt_type = 0x8e OR (if allow_user then 0x60 else 0),
     off_mid = ucast (drop_bit 16 fn AND 0xffff), off_high = ucast (drop_bit 32 fn), zero1 = 0\<rparr>"

text \<open>The packed layout of an entry in two cells.\<close>

definition idt_low :: "IDT \<Rightarrow> u64" where
  [model_eval]: "idt_low e = ucast (off_low e) OR push_bit 16 (ucast (sel e)) OR push_bit 32 (ucast (zero0 e))
     OR push_bit 40 (ucast (idt_type e)) OR push_bit 48 (ucast (off_mid e))"

definition idt_high :: "IDT \<Rightarrow> u64" where
  [model_eval]: "idt_high e = ucast (off_high e) OR push_bit 32 (ucast (zero1 e))"

definition store_idt :: "u64 \<Rightarrow> u8 \<Rightarrow> IDT \<Rightarrow> (u64 \<Rightarrow> u64) \<Rightarrow> u64 \<Rightarrow> u64" where
  [model_eval]: "store_idt idt v e m =
     m(cell idt (2 * ucast v) := idt_low e, cell idt (2 * ucast v + 1) := idt_high e)"

record trap_entries =
  trap_unknown :: u64
  trap_unknown_arg :: u64
  trap_page_fault :: u64
  trap_syscall :: u64
  trap_irq :: u64
  trap_undef :: u64
  trap_gpf :: u64
  trap_timer :: u64

text \<open>The assignments after the loop that fills the table with trap_unknown, in program order.\<close>

definition idt_assignments :: "trap_entries \<Rightarrow> (u8 \<times> u64 \<times> bool) list" where
  "idt_assignments tr =
    [(0x06, trap_undef tr, False), (0x08, trap_unknown_arg tr, False), (0x08, trap_unknown_arg tr, False),
     (0x0a, trap_unknown_arg tr, False), (0x0b, trap_unknown_arg tr, False), (0x0c, trap_unknown_arg tr, False),
     (0x0d, trap_gpf tr, False), (0x0e, trap_page_fault tr, False), (0x11, trap_unknown_arg tr, False),
     (0x1e, trap_unknown_arg tr, False), (0x20, trap_timer tr, False), (0x30, trap_irq tr, False),
     (0x80, trap_syscall tr, True)]"

definition fill_idt :: "trap_entries \<Rightarrow> u64 \<Rightarrow> (u64 \<Rightarrow> u64) \<Rightarrow> u64 \<Rightarrow> u64" where
  "fill_idt tr idt m =
    (let m = foldl (\<lambda>m i. store_idt idt (word_of_nat i) (set_idt (trap_unknown tr) False) m) m [0..<0x100]
     in foldl (\<lambda>m (v, fn, user). store_idt idt v (set_idt fn user) m) m (idt_assignments tr))"

subsection \<open>The local APIC\<close>

definition TPR :: u32 where [model_eval]: "TPR = 0x80"
definition EOI :: u32 where [model_eval]: "EOI = 0xB0"
definition SVR :: u32 where [model_eval]: "SVR = 0xF0"
definition ESR :: u32 where [model_eval]: "ESR = 0x280"
definition ICRLO :: u32 where [model_eval]: "ICRLO = 0x300"
definition INIT :: u32 where [model_eval]: "INIT = 0x500"
definition DELIVS :: u32 where [model_eval]: "DELIVS = 0x1000"
definition LEVEL :: u32 where [model_eval]: "LEVEL = 0x8000"
definition BCAST :: u32 where [model_eval]: "BCAST = 0x80000"
definition ICRHI :: u32 where [model_eval]: "ICRHI = 0x310"
definition TIMER :: u32 where [model_eval]: "TIMER = 0x320"
definition LINT0 :: u32 where [model_eval]: "LINT0 = 0x350"
definition LINT1 :: u32 where [model_eval]: "LINT1 = 0x360"
definition LERROR :: u32 where [model_eval]: "LERROR = 0x370"
definition MASKED :: u32 where [model_eval]: "MASKED = 0x10000"
definition TICR :: u32 where [model_eval]: "TICR = 0x380"
definition TCCR :: u32 where [model_eval]: "TCCR = 0x390"
definition TDCR :: u32 where [model_eval]: "TDCR = 0x3E0"

text \<open>A write is followed by a read of the register with index 1 (LAPIC[1]).\<close>

definition lapic_write :: "u32 \<Rightarrow> u32 \<Rightarrow> x86_state \<Rightarrow> x86_state" where
  [model_eval]: "lapic_write reg value s = issue (Lapic_load 4) (issue (Lapic_store (4 * drop_bit 2 reg) value) s)"

fun lapic_read :: "u32 \<Rightarrow> u32 list \<Rightarrow> x86_state \<Rightarrow> x86_fault + u32 \<times> u32 list \<times> x86_state" where
  "lapic_read reg [] s = Inl No_answer"
| "lapic_read reg (v # vs) s = Inr (v, vs, issue (Lapic_load (4 * drop_bit 2 reg)) s)"

definition lapic_acknowledge_irq :: "x86_state \<Rightarrow> x86_state" where
  "lapic_acknowledge_irq s = lapic_write EOI 0 s"

definition lapic_issue_interrupt :: "u32 \<Rightarrow> x86_state \<Rightarrow> x86_state" where
  "lapic_issue_interrupt irq s = lapic_write ICRLO (irq AND 0xff) (lapic_write ICRHI 0 s)"

definition lapic_timer_read :: "u32 list \<Rightarrow> x86_state \<Rightarrow> x86_fault + u32 \<times> u32 list \<times> x86_state" where
  "lapic_timer_read vs s = lapic_read TCCR vs s"

definition lapic_timer_start :: "x86_state \<Rightarrow> x86_state" where
  "lapic_timer_start s = lapic_write TIMER 32 s"

definition lapic_timer_stop :: "x86_state \<Rightarrow> x86_state" where
  "lapic_timer_stop s = lapic_write TIMER MASKED s"

definition lapic_timer_reset :: "x86_state \<Rightarrow> x86_state" where
  "lapic_timer_reset s = lapic_write TICR 0xffffffff (lapic_write TDCR 3 (lapic_write TIMER MASKED s))"

text \<open>while (lapic_read(ICRLO) & DELIVS): one answer is consumed per poll.\<close>

fun lapic_wait :: "u32 list \<Rightarrow> x86_state \<Rightarrow> x86_fault + u32 list \<times> x86_state" where
  "lapic_wait [] s = Inl No_answer"
| "lapic_wait (v # vs) s =
     (let s = issue (Lapic_load (4 * drop_bit 2 ICRLO)) s
      in if v AND DELIVS \<noteq> 0 then lapic_wait vs s else Inr (vs, s))"

definition lapic_init :: "u32 list \<Rightarrow> x86_state \<Rightarrow> x86_fault + u32 list \<times> x86_state" where
  "lapic_init vs s =
    (let s = foldl (\<lambda>s (reg, value). lapic_write reg value s) s
       [(SVR, 0x1ff), (TIMER, MASKED), (LINT0, MASKED), (LINT1, MASKED), (LERROR, MASKED),
        (ESR, 0), (ESR, 0), (EOI, 0), (ICRHI, 0), (ICRLO, BCAST OR INIT OR LEVEL)]
     in bindE (lapic_wait vs s) (\<lambda>(vs, s). Inr (vs, lapic_timer_reset (lapic_write TPR 0 s))))"

subsection \<open>Handlers\<close>

definition irq_install_syscall_handler :: "syscall_handler \<Rightarrow> x86_state \<Rightarrow> x86_state" where
  "irq_install_syscall_handler h s = s\<lparr>syscall_handler_fn := h\<rparr>"

definition irq_install_page_fault_handler :: "page_fault_handler \<Rightarrow> x86_state \<Rightarrow> x86_state" where
  "irq_install_page_fault_handler h s = s\<lparr>page_fault_handler_fn := h\<rparr>"

definition irq_install_irq_handler :: "irq_handler \<Rightarrow> x86_state \<Rightarrow> x86_state" where
  "irq_install_irq_handler h s = s\<lparr>irq_handler_fn := h\<rparr>"

definition irq_install_undef_handler :: "undef_handler \<Rightarrow> x86_state \<Rightarrow> x86_state" where
  "irq_install_undef_handler h s = s\<lparr>undef_handler_fn := h\<rparr>"

definition irq_reset_syscall_handler :: "x86_state \<Rightarrow> x86_state" where
  "irq_reset_syscall_handler s = s\<lparr>syscall_handler_fn := default_syscall_handler\<rparr>"

definition irq_reset_irq_handler :: "x86_state \<Rightarrow> x86_state" where
  "irq_reset_irq_handler s = s\<lparr>irq_handler_fn := default_irq_handler\<rparr>"

definition irq_reset_undef_handler :: "x86_state \<Rightarrow> x86_state" where
  "irq_reset_undef_handler s = s\<lparr>undef_handler_fn := default_undef_handler\<rparr>"

definition irq_init :: "trap_entries \<Rightarrow> u32 list \<Rightarrow> x86_state \<Rightarrow> x86_fault + u32 list \<times> x86_state" where
  "irq_init tr vs s =
     (let limit = 16 * 0x100 in
      bindE (heap_alloc_page s) (\<lambda>(base, s).
      let s = issue (Lidt limit base) (s\<lparr>cells := fill_idt tr base (cells s)\<rparr>) in
      bindE (lapic_init vs s) (\<lambda>(vs, s).
      Inr (vs, irq_reset_undef_handler (irq_reset_irq_handler
                (irq_reset_page_fault_handler (irq_reset_syscall_handler s)))))))"

definition handle_trap_unknown :: "mcontext \<Rightarrow> x86_fault + mcontext" where
  "handle_trap_unknown mc = Inl (Unknown_exception (rip mc) None)"

definition handle_trap_unknown_arg :: "mcontext \<Rightarrow> u64 \<Rightarrow> x86_fault + mcontext" where
  "handle_trap_unknown_arg mc val = Inl (Unknown_exception (rip mc) (Some val))"

definition handle_trap_gpf :: "mcontext \<Rightarrow> u64 \<Rightarrow> x86_fault + mcontext" where
  "handle_trap_gpf mc val = Inl (General_protection (rip mc) val)"

definition handle_trap_timer :: "mcontext \<Rightarrow> x86_fault + mcontext" where
  "handle_trap_timer mc = Inr mc"

subsection \<open>What the handlers do to the interrupted context (exception.c)\<close>

text \<open>Little-endian reads at any address out of the 8-byte cells.\<close>

definition read_byte :: "(u64 \<Rightarrow> u64) \<Rightarrow> u64 \<Rightarrow> u8" where
  [model_eval]: "read_byte m a = ucast (drop_bit (8 * unat (a AND 7)) (m (a AND NOT 7)))"

definition read_code :: "(u64 \<Rightarrow> u64) \<Rightarrow> nat \<Rightarrow> u64 \<Rightarrow> u8 list" where
  "read_code m n a = map (\<lambda>i. read_byte m (a + word_of_nat i)) [0..<n]"

definition read_u64 :: "(u64 \<Rightarrow> u64) \<Rightarrow> u64 \<Rightarrow> u64" where
  "read_u64 m a = le_word (read_code m 8 a)"

definition run_return_handler :: "(u64 \<Rightarrow> u64) \<Rightarrow> mcontext \<Rightarrow> mcontext" where
  "run_return_handler m mc = (mc\<lparr>rip := read_u64 m (tempSP mc)\<rparr>)\<lparr>tempSP := tempSP mc + 8\<rparr>"

text \<open>
  decode_instruction is given the window bytes from rip on; inst0 is the uninitialised
  structure on the stack. How a page-fault handler does not return to the context: the run is
  Aborted by arch_abort (for a result 0 of the decoder, after a debug message with the bytes); the test of the
  decoder's result is Undefined_result, because the decoder of the opcode cd returns no value, and C does not say
  how the handler goes on; or the decoder needs a byte behind the window (Window_end), which is not in the code.
\<close>

datatype page_fault_end = Aborted x86_fault | Undefined_result | Window_end

definition run_mem_skip_handler ::
  "nat \<Rightarrow> instruction \<Rightarrow> (u64 \<Rightarrow> u64) \<Rightarrow> mcontext \<Rightarrow> page_fault_end + mcontext" where
  "run_mem_skip_handler window inst0 m mc =
     (case decode_instruction (read_code m window (rip mc)) inst0 of
        Inl Undecodable \<Rightarrow> Inl (Aborted (Cannot_decode (rip mc)))
      | Inl NoReturnValue \<Rightarrow> Inl Undefined_result
      | Inl ReadPastEnd \<Rightarrow> Inl Window_end
      | Inr inst \<Rightarrow> Inr (mc\<lparr>rip := rip mc + word_of_nat (inst_length inst)\<rparr>))"

definition run_page_fault ::
  "nat \<Rightarrow> instruction \<Rightarrow> x86_state \<Rightarrow> mcontext \<Rightarrow> u64 \<Rightarrow> page_fault_end + mcontext" where
  "run_page_fault window inst0 s mc va =
     (case page_fault_handler_fn s of
        default_page_fault_handler \<Rightarrow> Inl (Aborted (Unhandled_page_fault (extra mc) (rip mc) va))
      | return_handler \<Rightarrow> Inr (run_return_handler (cells s) mc)
      | mem_skip_handler \<Rightarrow> run_mem_skip_handler window inst0 (cells s) mc)"

definition run_syscall :: "x86_state \<Rightarrow> mcontext \<Rightarrow> x86_fault + mcontext" where
  "run_syscall s mc =
     (case syscall_handler_fn s of
        default_syscall_handler \<Rightarrow> Inl (Unhandled_syscall (rip mc))
      | syscall_skip_handler \<Rightarrow> Inr mc)"

definition run_undef :: "x86_state \<Rightarrow> mcontext \<Rightarrow> x86_fault + mcontext" where
  "run_undef s mc =
     (case undef_handler_fn s of
        default_undef_handler \<Rightarrow> Inl (Undefined_instruction (rip mc))
      | undef_skip_handler \<Rightarrow> Inr (mc\<lparr>rip := rip mc + 2\<rparr>))"

text \<open>The benchmark handler the interrupt runs, if one is installed.\<close>

definition run_irq :: "x86_state \<Rightarrow> mcontext \<Rightarrow> x86_fault + nat option" where
  "run_irq s mc =
     (case irq_handler_fn s of
        default_irq_handler \<Rightarrow> Inl (Unhandled_irq (rip mc))
      | arch_irq_handler \<Rightarrow> Inr (benchmark_irq_handler s))"

definition arch_ifault_install_return :: "x86_state \<Rightarrow> x86_state" where
  "arch_ifault_install_return s = irq_install_page_fault_handler return_handler s"

definition arch_ifault_install_break :: "x86_state \<Rightarrow> x86_fault + x86_state" where
  "arch_ifault_install_break s = Inl Break_handler"

definition arch_dfault_install_skip :: "x86_state \<Rightarrow> x86_state" where
  "arch_dfault_install_skip s = irq_install_page_fault_handler mem_skip_handler s"

definition arch_syscall_install_skip :: "x86_state \<Rightarrow> x86_state" where
  "arch_syscall_install_skip s = irq_install_syscall_handler syscall_skip_handler s"

definition arch_undef_install_skip :: "x86_state \<Rightarrow> x86_state" where
  "arch_undef_install_skip s = irq_install_undef_handler undef_skip_handler s"

subsection \<open>arch.c\<close>

definition arch_init :: "image \<Rightarrow> trap_entries \<Rightarrow> u32 list \<Rightarrow> x86_state \<Rightarrow> x86_fault + u32 list \<times> x86_state" where
  "arch_init img tr vs s = bindE (early_mem_init (heap_init img s)) (irq_init tr vs)"

text \<open>
  parse_cmdline looks for the letters f and b one after the other, followed by a space or the
  end. The pointer is advanced by each switch, so a failed match swallows the character it
  looked at; after a match at the terminating NUL, or a NUL swallowed by an inner switch, it
  reads on behind the string, which is the value None.
\<close>

function parse_cmdline :: "string \<Rightarrow> bool \<Rightarrow> bool option" where
  "parse_cmdline cmdline fb =
     (case cmdline of
        [] \<Rightarrow> None
      | c # rest \<Rightarrow>
          if c = CHR 0x00 then Some fb
          else if c = CHR ''f'' then
            (case rest of
               [] \<Rightarrow> None
             | d # rest' \<Rightarrow>
                 if d = CHR ''b'' then
                   (case rest' of
                      [] \<Rightarrow> None
                    | e # rest'' \<Rightarrow> parse_cmdline rest'' (fb \<or> e = CHR '' '' \<or> e = CHR 0x00))
                 else parse_cmdline rest' fb)
          else parse_cmdline rest fb)"
  by pat_completeness auto
termination
  by (relation "measure (\<lambda>(cmdline, fb). length cmdline)") auto

declare parse_cmdline.simps [simp del]

definition arch_coprocessor_access :: "x86_state \<Rightarrow> x86_state" where
  "arch_coprocessor_access s = issue (Outb 0xf1 0) s"

definition arch_irq_enable :: "x86_state \<Rightarrow> x86_state" where
  "arch_irq_enable s = issue Sti s"

definition arch_irq_disable :: "x86_state \<Rightarrow> x86_state" where
  "arch_irq_disable s = issue Cli s"

definition arch_irq_install_handler :: "nat option \<Rightarrow> x86_state \<Rightarrow> x86_state" where
  "arch_irq_install_handler h s =
     (let s = s\<lparr>benchmark_irq_handler := h\<rparr>
      in if h \<noteq> None then irq_install_irq_handler arch_irq_handler s else irq_reset_irq_handler s)"

subsection \<open>The programmable interval timer (pit.c)\<close>

text \<open>data is what inb returns from port 0x61.\<close>

definition pit_init_oneshot :: "u8 \<Rightarrow> u16 \<Rightarrow> x86_state \<Rightarrow> x86_state" where
  "pit_init_oneshot data x s =
     issue (Outb 0x42 (ucast (drop_bit 8 x)))
       (issue (Outb 0x42 (ucast x))
         (issue (Outb 0x43 0xb2)
           (issue (Outb 0x61 ((data AND 0xfd) OR 1)) (issue (Inb 0x61) s))))"

definition pit_start :: "u8 \<Rightarrow> x86_state \<Rightarrow> x86_state" where
  "pit_start data s =
     (let data = data AND 0xfe
      in issue (Outb 0x61 (data OR 1)) (issue (Outb 0x61 data) (issue (Inb 0x61) s)))"

definition pit_expired :: "u8 \<Rightarrow> bool" where
  "pit_expired expired \<longleftrightarrow> \<not> (expired AND 0x20 \<noteq> 0)"

subsection \<open>The descriptor the processor reads\<close>

record gate =
  gate_offset :: u64
  gate_selector :: u16
  gate_attr :: u8

definition gate :: "(u64 \<Rightarrow> u64) \<Rightarrow> u64 \<Rightarrow> u8 \<Rightarrow> gate" where
  "gate m idt v =
    (let low = m (cell idt (2 * ucast v)); high = m (cell idt (2 * ucast v + 1))
     in \<lparr>gate_offset = (low AND 0xffff) OR push_bit 16 (drop_bit 48 low) OR push_bit 32 (high AND 0xffffffff),
         gate_selector = ucast (drop_bit 16 low), gate_attr = ucast (drop_bit 40 low)\<rparr>)"

text \<open>The handler and privilege each vector is meant to have.\<close>

definition vector_entry :: "trap_entries \<Rightarrow> u8 \<Rightarrow> u64" where
  "vector_entry tr v =
    (if v = 0x06 then trap_undef tr
     else if v \<in> {0x08, 0x0a, 0x0b, 0x0c, 0x11, 0x1e} then trap_unknown_arg tr
     else if v = 0x0d then trap_gpf tr
     else if v = 0x0e then trap_page_fault tr
     else if v = 0x20 then trap_timer tr
     else if v = 0x30 then trap_irq tr
     else if v = 0x80 then trap_syscall tr
     else trap_unknown tr)"

definition interrupt_gate :: "u64 \<Rightarrow> bool \<Rightarrow> gate" where
  "interrupt_gate fn user = \<lparr>gate_offset = fn, gate_selector = 8, gate_attr = (if user then 0xee else 0x8e)\<rparr>"

lemma mask_bits:
  "bit (0xffff :: u64) n \<longleftrightarrow> n < 16" "bit (0xffffffff :: u64) n \<longleftrightarrow> n < 32"
proof -
  have "(0xffff :: u64) = mask 16" "(0xffffffff :: u64) = mask 32" by (simp_all add: mask_eq_exp_minus_1)
  then show "bit (0xffff :: u64) n \<longleftrightarrow> n < 16" "bit (0xffffffff :: u64) n \<longleftrightarrow> n < 32"
    by (simp_all only: bit_mask_iff) auto
qed

lemma idt_low_bits:
  "bit (idt_low e) n \<longleftrightarrow>
     (if n < 16 then bit (off_low e) n else if n < 32 then bit (sel e) (n - 16)
      else if n < 40 then bit (zero0 e) (n - 32) else if n < 48 then bit (idt_type e) (n - 40)
      else n < 64 \<and> bit (off_mid e) (n - 48))"
  by (auto simp: idt_low_def bit_simps dest: bit_imp_le_length)

lemma set_idt_bits:
  "bit (off_low (set_idt fn user)) n \<longleftrightarrow> n < 16 \<and> bit fn n"
  "bit (off_mid (set_idt fn user)) n \<longleftrightarrow> n < 16 \<and> bit fn (16 + n)"
  "bit (off_high (set_idt fn user)) n \<longleftrightarrow> n < 32 \<and> bit fn (32 + n)"
  "sel (set_idt fn user) = 8" "zero0 (set_idt fn user) = 0" "zero1 (set_idt fn user) = 0"
  "idt_type (set_idt fn user) = (if user then 0xee else 0x8e)"
proof -
  have "bit (ucast (w AND 0xffff :: u64) :: u16) n \<longleftrightarrow> n < 16 \<and> bit w n" for w
    by (simp only: bit_unsigned_iff bit_and_iff mask_bits possible_bit_word) auto
  then show "bit (off_low (set_idt fn user)) n \<longleftrightarrow> n < 16 \<and> bit fn n"
    "bit (off_mid (set_idt fn user)) n \<longleftrightarrow> n < 16 \<and> bit fn (16 + n)"
    by (simp_all only: set_idt_def IDT.simps bit_drop_bit_eq o_apply)
  show "bit (off_high (set_idt fn user)) n \<longleftrightarrow> n < 32 \<and> bit fn (32 + n)"
    by (simp add: set_idt_def bit_unsigned_iff bit_drop_bit_eq)
qed (simp_all add: set_idt_def)

lemma gate_of_set_idt:
  assumes "m (cell idt (2 * ucast v)) = idt_low (set_idt fn user)"
    and "m (cell idt (2 * ucast v + 1)) = idt_high (set_idt fn user)"
  shows "gate m idt v = interrupt_gate fn user"
proof -
  have high: "bit (idt_high (set_idt fn user)) n \<longleftrightarrow> n < 32 \<and> bit fn (32 + n)" for n
    by (simp add: idt_high_def set_idt_bits bit_unsigned_iff) auto
  have "bit (gate_offset (gate m idt v)) n \<longleftrightarrow> bit fn n" if "n < 64" for n
  proof -
    consider "n < 16" | "16 \<le> n" "n < 32" | "32 \<le> n" by linarith
    then show ?thesis
      unfolding gate_def Let_def assms gate.simps
      unfolding bit_or_iff bit_and_iff bit_push_bit_iff bit_drop_bit_eq mask_bits idt_low_bits high set_idt_bits o_apply
      by cases (use that in \<open>auto simp: possible_bit_word\<close>)
  qed
  then have "gate_offset (gate m idt v) = fn" by (intro bit_eqI) simp
  moreover have "bit (gate_selector (gate m idt v)) n \<longleftrightarrow> bit (8 :: u16) n" if "n < 16" for n
    using that by (simp add: gate_def Let_def assms idt_low_bits set_idt_bits bit_unsigned_iff bit_drop_bit_eq)
  then have "gate_selector (gate m idt v) = 8" by (intro bit_eqI) simp
  moreover have "bit (gate_attr (gate m idt v)) n \<longleftrightarrow> bit (if user then 0xee else 0x8e :: u8) n" if "n < 8" for n
    using that by (simp add: gate_def Let_def assms idt_low_bits set_idt_bits bit_unsigned_iff bit_drop_bit_eq)
  then have "gate_attr (gate m idt v) = (if user then 0xee else 0x8e)" by (intro bit_eqI) simp
  ultimately show ?thesis by (simp add: interrupt_gate_def)
qed


lemma vector_index: "2 * ucast (v :: u8) < (512 :: u32)" "2 * ucast v + 1 < (512 :: u32)"
  and vector_index_inject: "2 * ucast v = (2 * ucast w :: u32) \<longleftrightarrow> v = w" "2 * ucast v + 1 = (2 * ucast w + 1 :: u32) \<longleftrightarrow> v = w"
  and vector_index_parity: "2 * ucast v \<noteq> (2 * ucast w + 1 :: u32)" "2 * ucast v + 1 \<noteq> (2 * ucast w :: u32)"
proof -
  have b: "unat x < 256" for x :: u8 using unsigned_less [of x, where ?'a = nat] by simp
  have u: "unat (ucast x :: u32) = unat x" for x :: u8
    using b [of x] by (simp add: unsigned_ucast_eq take_bit_nat_eq_self)
  have d: "unat (2 * ucast x :: u32) = 2 * unat x" for x :: u8
    using b [of x] u [of x] by (simp add: unat_mult_lem [THEN iffD1])
  have d1: "unat (2 * ucast x + 1 :: u32) = 2 * unat x + 1" for x :: u8
    using b [of x] d [of x] by (subst unat_add_lem [THEN iffD1]) simp_all
  show "2 * ucast v < (512 :: u32)" "2 * ucast v + 1 < (512 :: u32)"
    using b [of v] by (simp_all add: word_less_nat_alt d d1)
  show "2 * ucast v = (2 * ucast w :: u32) \<longleftrightarrow> v = w" "2 * ucast v + 1 = (2 * ucast w + 1 :: u32) \<longleftrightarrow> v = w"
    by (simp_all only: word_unat_eq_iff d d1) simp_all
  show "2 * ucast v \<noteq> (2 * ucast w + 1 :: u32)" "2 * ucast v + 1 \<noteq> (2 * ucast w :: u32)"
    by (simp_all only: word_unat_eq_iff d d1, presburger+)
qed

lemma gate_store_idt:
  assumes "page_aligned idt"
  shows "gate (store_idt idt w (set_idt fn user) m) idt v =
    (if v = w then interrupt_gate fn user else gate m idt v)"
proof (cases "v = w")
  case True
  then show ?thesis
    by (simp add: gate_of_set_idt store_idt_def cell_inject [OF assms assms] vector_index vector_index_parity)
next
  case False
  then show ?thesis
    by (simp add: gate_def store_idt_def cell_inject [OF assms assms] vector_index vector_index_parity
        vector_index_inject)
qed

lemma gate_fill:
  assumes "page_aligned idt" and "n \<le> 256"
  shows "gate (foldl (\<lambda>m i. store_idt idt (word_of_nat i) (set_idt fn False) m) m [0..<n]) idt v =
    (if unat v < n then interrupt_gate fn False else gate m idt v)"
  using assms(2)
proof (induction n)
  case (Suc n)
  have "v = word_of_nat n \<longleftrightarrow> unat v = n"
    using Suc.prems by (auto simp: unsigned_of_nat take_bit_nat_eq_self)
  then show ?case using Suc by (auto simp: gate_store_idt [OF assms(1)])
qed simp

lemma gate_fill_idt:
  assumes "page_aligned idt"
  shows "gate (fill_idt tr idt m) idt v = interrupt_gate (vector_entry tr v) (v = 0x80)"
proof -
  have "unat v < 256" using unsigned_less [of v, where ?'a = nat] by simp
  then have "gate (foldl (\<lambda>m i. store_idt idt (word_of_nat i) (set_idt (trap_unknown tr) False) m) m [0..<256]) idt v
      = interrupt_gate (trap_unknown tr) False"
    using gate_fill [OF assms, of 256 "trap_unknown tr" m v] by simp
  then show ?thesis
    by (simp add: fill_idt_def idt_assignments_def gate_store_idt [OF assms] vector_entry_def)
qed

lemma cells_issue [simp]: "cells (issue op s) = cells s"
  by (simp add: issue_def)

lemma cells_lapic_write [simp]: "cells (lapic_write r v s) = cells s"
  by (simp add: lapic_write_def)

lemma cells_lapic_wait: "lapic_wait vs s = Inr (vs', s') \<Longrightarrow> cells s' = cells s"
  by (induction vs s rule: lapic_wait.induct) (auto simp: Let_def split: if_splits)

lemma cells_lapic_init: "lapic_init vs s = Inr (vs', s') \<Longrightarrow> cells s' = cells s"
  by (auto simp: lapic_init_def Let_def lapic_timer_reset_def dest: cells_lapic_wait)

text \<open>What start-up does on the bus: one LIDT, then accesses to the local APIC only.\<close>

definition on_lapic :: "bus_op \<Rightarrow> bool" where
  "on_lapic op \<longleftrightarrow> (\<exists>r. op = Lapic_load r) \<or> (\<exists>r v. op = Lapic_store r v)"

definition lapic_traffic :: "x86_state \<Rightarrow> x86_state \<Rightarrow> bool" where
  "lapic_traffic s s' \<longleftrightarrow> (\<exists>ops. bus s' = bus s @ ops \<and> list_all on_lapic ops)"

lemma lapic_traffic_refl: "lapic_traffic s s"
  by (simp add: lapic_traffic_def)

lemma lapic_traffic_trans: "lapic_traffic s t \<Longrightarrow> lapic_traffic t u \<Longrightarrow> lapic_traffic s u"
  by (force simp: lapic_traffic_def)

lemma lapic_traffic_issue: "on_lapic op \<Longrightarrow> lapic_traffic s t \<Longrightarrow> lapic_traffic s (issue op t)"
  by (force simp: lapic_traffic_def issue_def)

lemma lapic_traffic_write: "lapic_traffic s t \<Longrightarrow> lapic_traffic s (lapic_write r v t)"
  by (auto simp: lapic_write_def on_lapic_def intro!: lapic_traffic_issue)

lemma lapic_traffic_wait: "lapic_wait vs t = Inr (vs', t') \<Longrightarrow> lapic_traffic s t \<Longrightarrow> lapic_traffic s t'"
proof (induction vs t rule: lapic_wait.induct)
  case (2 v vs t)
  have "lapic_traffic s (issue (Lapic_load (4 * drop_bit 2 ICRLO)) t)"
    using "2.prems"(2) by (rule lapic_traffic_issue [rotated]) (simp add: on_lapic_def)
  with 2 show ?case by (auto simp: Let_def split: if_splits)
qed simp

lemma lapic_traffic_init: "lapic_init vs s = Inr (vs', s') \<Longrightarrow> lapic_traffic s s'"
  by (auto simp: lapic_init_def Let_def lapic_timer_reset_def
      intro!: lapic_traffic_write intro: lapic_traffic_refl elim: lapic_traffic_wait)

lemma irq_init_bus:
  assumes "irq_init tr vs s = Inr (vs', s')"
  obtains ops where "bus s' = bus s @ Lidt 0x1000 (heap_cur s) # ops" "list_all on_lapic ops"
proof -
  obtain t where t: "bus t = bus s @ [Lidt 0x1000 (heap_cur s)]" "lapic_traffic t s'"
  proof -
    from assms obtain b s1 s2 where a: "heap_alloc_page s = Inr (b, s1)"
      and l: "lapic_init vs (issue (Lidt 0x1000 b) (s1\<lparr>cells := fill_idt tr b (cells s1)\<rparr>)) = Inr (vs', s2)"
      and s': "bus s' = bus s2"
      by (auto simp: irq_init_def Let_def irq_reset_undef_handler_def irq_reset_irq_handler_def
          irq_reset_page_fault_handler_def irq_reset_syscall_handler_def)
    have "b = heap_cur s" "bus s1 = bus s" using a by (auto simp: heap_alloc_page_eq split: if_splits)
    with lapic_traffic_init [OF l] s' show ?thesis
      by (intro that [of "issue (Lidt 0x1000 b) (s1\<lparr>cells := fill_idt tr b (cells s1)\<rparr>)"])
         (simp_all add: issue_def lapic_traffic_def)
  qed
  then show ?thesis using that by (auto simp: lapic_traffic_def)
qed

lemma irq_init_vectors:
  assumes "page_aligned (heap_cur s)" and "irq_init tr vs s = Inr (vs', s')"
  shows "gate (cells s') (heap_cur s) v = interrupt_gate (vector_entry tr v) (v = 0x80)"
    and "syscall_handler_fn s' = default_syscall_handler" "page_fault_handler_fn s' = default_page_fault_handler"
    "irq_handler_fn s' = default_irq_handler" "undef_handler_fn s' = default_undef_handler"
  using assms
  by (auto simp: irq_init_def heap_alloc_page_eq Let_def irq_reset_undef_handler_def irq_reset_irq_handler_def
      irq_reset_page_fault_handler_def irq_reset_syscall_handler_def gate_fill_idt
      dest!: cells_lapic_init split: if_splits)

text \<open>
  C24: irq_init takes the next page of the heap for the interrupt table and executes exactly one LIDT, with the address of
  this page and the size of the table, 0x1000, as its limit; everything else it does on the bus is an access to the local APIC. In the
  memory it leaves, every one of the 256 vectors at that address is a present interrupt gate in the code
  segment with the handler meant for it (undefined opcode, the exceptions with an error code,
  general protection, page fault, timer, inter-processor interrupt 0x30, system call 0x80,
  everything else the unknown trap), only the system call may be raised from user mode, and the four
  replaceable handlers are the default ones.
\<close>

theorem irq_init_installs_vectors:
  assumes "page_aligned (heap_cur s)" and "irq_init tr vs s = Inr (vs', s')"
  shows "(\<exists>ops. bus s' = bus s @ Lidt 0x1000 (heap_cur s) # ops \<and> list_all on_lapic ops) \<and>
    (\<forall>v. gate (cells s') (heap_cur s) v = interrupt_gate (vector_entry tr v) (v = 0x80)) \<and>
    syscall_handler_fn s' = default_syscall_handler \<and> page_fault_handler_fn s' = default_page_fault_handler \<and>
    irq_handler_fn s' = default_irq_handler \<and> undef_handler_fn s' = default_undef_handler"
  using irq_init_vectors [OF assms] irq_init_bus [OF assms(2)] by blast

subsection \<open>Waiting for the local APIC\<close>

lemma lapic_wait_bus:
  "lapic_wait (bs @ v # vs) s =
    Inr (vs, s\<lparr>bus := bus s @ replicate (Suc (length bs)) (Lapic_load 0x300)\<rparr>)"
  if "\<forall>b\<in>set bs. b AND DELIVS \<noteq> 0" "v AND DELIVS = 0"
  using that
  by (induction bs arbitrary: s) (simp_all add: Let_def issue_def ICRLO_def replicate_append_same)

lemma lapic_wait_inv:
  "lapic_wait vs s = Inr (vs', s') \<Longrightarrow>
    \<exists>bs v. vs = bs @ v # vs' \<and> (\<forall>b\<in>set bs. b AND DELIVS \<noteq> 0) \<and> v AND DELIVS = 0"
proof (induction vs s rule: lapic_wait.induct)
  case (2 v vs s)
  show ?case
  proof (cases "v AND DELIVS \<noteq> 0")
    case True
    with 2 obtain bs w where "vs = bs @ w # vs'" "\<forall>b\<in>set bs. b AND DELIVS \<noteq> 0" "w AND DELIVS = 0"
      by (auto simp: Let_def)
    with True show ?thesis by (intro exI [of _ "v # bs"] exI [of _ w]) simp
  next
    case False
    with "2.prems" show ?thesis by (intro exI [of _ "[]"] exI [of _ v]) (simp add: Let_def)
  qed
qed simp

text \<open>
  The loop that waits for the local APIC to deliver the INIT ends exactly when some answer
  has the delivery bit clear; it then has read the register once for that answer and once for
  every answer before it, and changed nothing else.
\<close>

theorem lapic_wait_ends:
  "lapic_wait vs s = Inr (vs', s') \<longleftrightarrow>
    (\<exists>bs v. vs = bs @ v # vs' \<and> \<not> (\<exists>b\<in>set bs. b AND DELIVS = 0) \<and> v AND DELIVS = 0 \<and>
       s' = s\<lparr>bus := bus s @ replicate (Suc (length bs)) (Lapic_load 0x300)\<rparr>)"
  using lapic_wait_inv [of vs s vs' s'] lapic_wait_bus by (fastforce simp del: lapic_wait.simps)

subsection \<open>Skipping a faulting instruction\<close>

lemma inst_length_encoded [simp]: "inst_length (encoded_instruction inst enc) = length (encoding_bytes enc)"
  by (cases "(inst, enc)" rule: encoded_instruction.cases) simp_all

text \<open>
  C22: with the skip handler installed, a page fault resumes after the faulting instruction and
  changes no register but rip, exactly when the bytes at rip begin with one of the move encodings the
  decoder supports; arch_abort stops the run exactly when they are an opcode or a ModRM byte the decoder refuses; for the
  opcode cd, and for nothing else, the handler tests a value decode_int never returned, so that C does not say
  how it goes on. The model looks at window bytes: that it runs out of them is a fourth outcome, which needs a
  run of prefixes that leaves less than 9 bytes of the window behind it.
\<close>

theorem page_fault_skip:
  "let run = run_page_fault window inst0 (arch_dfault_install_skip s) mc va; code = read_code (cells s) window (rip mc) in
    (run = Inr mc' \<longleftrightarrow>
      (\<exists>enc rest. valid_encoding enc \<and> code = encoding_bytes enc @ rest \<and>
         mc' = mc\<lparr>rip := rip mc + word_of_nat (length (encoding_bytes enc))\<rparr>)) \<and>
    (run = Inl (Aborted f) \<longleftrightarrow> f = Cannot_decode (rip mc) \<and> decode_failure code = Some Undecodable) \<and>
    (run = Inl Undefined_result \<longleftrightarrow> (\<exists>ps imm rest. list_all is_prefix_byte ps \<and> code = ps @ 0xcd # imm # rest)) \<and>
    (run = Inl Window_end \<longrightarrow> window < length (takeWhile is_prefix_byte code) + 9)"
proof -
  let ?code = "read_code (cells s) window (rip mc)"
  have run: "run_page_fault window inst0 (arch_dfault_install_skip s) mc va =
      (case decode_instruction ?code inst0 of
         Inl Undecodable \<Rightarrow> Inl (Aborted (Cannot_decode (rip mc))) | Inl NoReturnValue \<Rightarrow> Inl Undefined_result
       | Inl ReadPastEnd \<Rightarrow> Inl Window_end | Inr inst \<Rightarrow> Inr (mc\<lparr>rip := rip mc + word_of_nat (inst_length inst)\<rparr>))"
    by (simp add: arch_dfault_install_skip_def irq_install_page_fault_handler_def run_page_fault_def run_mem_skip_handler_def)
  let ?run = "run_page_fault window inst0 (arch_dfault_install_skip s) mc va"
  have "?run = Inr mc' \<longleftrightarrow> (\<exists>inst. decode_instruction ?code inst0 = Inr inst \<and>
      mc' = mc\<lparr>rip := rip mc + word_of_nat (inst_length inst)\<rparr>)"
    unfolding run by (auto split: sum.splits decode_fault.splits)
  also have "\<dots> \<longleftrightarrow> (\<exists>enc rest. valid_encoding enc \<and> ?code = encoding_bytes enc @ rest \<and>
       mc' = mc\<lparr>rip := rip mc + word_of_nat (inst_length (encoded_instruction inst0 enc))\<rparr>)"
    unfolding decode_instruction_exact by blast
  finally have skip: "?run = Inr mc' \<longleftrightarrow> (\<exists>enc rest. valid_encoding enc \<and> ?code = encoding_bytes enc @ rest \<and>
       mc' = mc\<lparr>rip := rip mc + word_of_nat (length (encoding_bytes enc))\<rparr>)"
    unfolding inst_length_encoded .
  have stop: "?run = Inl (Aborted f) \<longleftrightarrow> f = Cannot_decode (rip mc) \<and> decode_failure ?code = Some Undecodable"
    unfolding run decode_instruction_fails [of _ inst0, symmetric] by (auto split: sum.splits decode_fault.splits)
  have undef: "?run = Inl Undefined_result \<longleftrightarrow> (\<exists>ps imm rest. list_all is_prefix_byte ps \<and> ?code = ps @ 0xcd # imm # rest)"
    unfolding run decode_failure_int [symmetric] decode_instruction_fails [of _ inst0, symmetric]
    by (auto split: sum.splits decode_fault.splits)
  have "?run = Inl Window_end \<Longrightarrow> decode_failure ?code = Some ReadPastEnd"
    unfolding run decode_instruction_fails [of _ inst0, symmetric] by (auto split: sum.splits decode_fault.splits)
  then have "?run = Inl Window_end \<longrightarrow> window < length (takeWhile is_prefix_byte ?code) + 9"
    using decode_failure_end [of ?code] by (auto simp: read_code_def)
  then show ?thesis unfolding Let_def using skip stop undef by (intro conjI)
qed

subsection \<open>Concrete instances\<close>

text \<open>A cell with a load of rax from the address in rax, an opcode the decoder refuses and a system call.\<close>

definition demo_code :: "u64 \<Rightarrow> u64" where
  "demo_code a = (if a = 0x100000 then 0x0f80cd04008b4890 else 0)"

definition stopped_at :: "u64 \<Rightarrow> mcontext" where
  "stopped_at a = \<lparr>r15 = 15, r14 = 14, r13 = 13, r12 = 12, r11 = 11, r10 = 10, r9 = 9, r8 = 8, rbp = 7, rsi = 6, rdi = 5, rdx = 4,
     rcx = 3, rbx = 2, rax = 1, mc_flags = 0, rsp = 0, extra = 0, rip = a, tempCS = 0, tempFLAGS = 0, tempSP = 0, tempSS = 0\<rparr>"

lemma irq_init_installs_vectors_witness:
  "\<exists>s'. irq_init \<lparr>trap_unknown = 1, trap_unknown_arg = 2, trap_page_fault = 3, trap_syscall = 4, trap_irq = 5,
       trap_undef = 6, trap_gpf = 7, trap_timer = 8\<rparr> [0x1000, 0] blank_x86 = Inr ([], s') \<and>
     gate (cells s') 0x101000 0x0e = interrupt_gate 3 False \<and> (\<exists>ops. bus s' = Lidt 0x1000 0x101000 # ops \<and> list_all on_lapic ops)"
proof -
  let ?tr = "\<lparr>trap_unknown = 1, trap_unknown_arg = 2, trap_page_fault = 3, trap_syscall = 4, trap_irq = 5,
       trap_undef = 6, trap_gpf = 7, trap_timer = 8\<rparr> :: trap_entries"
  have "\<exists>s'. irq_init ?tr [0x1000, 0] blank_x86 = Inr ([], s')"
    by (simp add: irq_init_def heap_alloc_page_eq blank_x86_def Let_def lapic_init_def DELIVS_def)
  then obtain s' where s': "irq_init ?tr [0x1000, 0] blank_x86 = Inr ([], s')" by blast
  have h: "heap_cur blank_x86 = 0x101000" by (simp add: blank_x86_def)
  then have "page_aligned (heap_cur blank_x86)" by (simp add: page_aligned_def)
  moreover have "bus blank_x86 = []" by (simp add: blank_x86_def)
  ultimately have "gate (cells s') 0x101000 0x0e = interrupt_gate (vector_entry ?tr 0x0e) False"
    "\<exists>ops. bus s' = Lidt 0x1000 0x101000 # ops \<and> list_all on_lapic ops"
    using irq_init_installs_vectors [OF _ s'] unfolding h by simp_all
  then show ?thesis using s' by (simp add: vector_entry_def)
qed

lemma demo_code_bytes:
  "read_code demo_code 8 0x100001 = [0x48, 0x8b, 0x00, 0x04, 0xcd, 0x80, 0x0f, 0x00]"
  "read_code demo_code 8 0x100004 = [0x04, 0xcd, 0x80, 0x0f, 0x00, 0x00, 0x00, 0x00]"
  "read_code demo_code 8 0x100005 = [0xcd, 0x80, 0x0f, 0x00, 0x00, 0x00, 0x00, 0x00]"
  by (simp_all add: read_code_def read_byte_def upt_rec demo_code_def)

lemma page_fault_skip_witness:
  "run_page_fault 8 blank_instruction (arch_dfault_install_skip (blank_x86\<lparr>cells := demo_code\<rparr>)) (stopped_at 0x100001) 0 =
     Inr (stopped_at 0x100004) \<and>
   run_page_fault 8 blank_instruction (arch_dfault_install_skip (blank_x86\<lparr>cells := demo_code\<rparr>)) (stopped_at 0x100004) 0 =
     Inl (Aborted (Cannot_decode 0x100004)) \<and>
   run_page_fault 8 blank_instruction (arch_dfault_install_skip (blank_x86\<lparr>cells := demo_code\<rparr>)) (stopped_at 0x100005) 0 =
     Inl Undefined_result"
proof -
  note R = page_fault_skip [of 8 blank_instruction "blank_x86\<lparr>cells := demo_code\<rparr>", unfolded Let_def]
  have c: "cells (blank_x86\<lparr>cells := demo_code\<rparr>) = demo_code" "rip (stopped_at a) = a" for a
    by (simp_all add: stopped_at_def)
  have "valid_encoding (Mov_modrm [0x48] 0x8b 0x00 [])" by (simp add: is_prefix_byte_def is_rex_def disp_length_def)
  moreover have "[0x48, 0x8b, 0x00, 0x04, 0xcd, 0x80, 0x0f, 0x00] = encoding_bytes (Mov_modrm [0x48] 0x8b 0x00 []) @ [0x04, 0xcd, 0x80, 0x0f, 0x00]"
    by simp
  moreover have "stopped_at 0x100004 = (stopped_at 0x100001)\<lparr>rip := 0x100001 + word_of_nat (length (encoding_bytes (Mov_modrm [0x48] 0x8b 0x00 [])))\<rparr>"
    by (simp add: stopped_at_def)
  ultimately have 1: "\<exists>enc rest. valid_encoding enc \<and> [0x48, 0x8b, 0x00, 0x04, 0xcd, 0x80, 0x0f, 0x00] = encoding_bytes enc @ rest \<and>
      stopped_at 0x100004 = (stopped_at 0x100001)\<lparr>rip := 0x100001 + word_of_nat (length (encoding_bytes enc))\<rparr>"
    by blast
  have 2: "decode_failure [0x04, 0xcd, 0x80, 0x0f, 0x00, 0x00, 0x00, 0x00] = Some Undecodable"
    by (simp add: decode_failure_def is_prefix_byte_def is_rex_def)
  have "list_all is_prefix_byte [] \<and> [0xcd, 0x80, 0x0f, 0x00, 0x00, 0x00, 0x00, 0x00] = [] @ 0xcd # 0x80 # [0x0f, 0x00, 0x00, 0x00, 0x00, 0x00 :: u8]"
    by simp
  then have 3: "\<exists>ps imm rest. list_all is_prefix_byte ps \<and> [0xcd, 0x80, 0x0f, 0x00, 0x00, 0x00, 0x00, 0x00] = ps @ 0xcd # imm # rest"
    by blast
  show ?thesis
  proof (intro conjI)
    show "run_page_fault 8 blank_instruction (arch_dfault_install_skip (blank_x86\<lparr>cells := demo_code\<rparr>)) (stopped_at 0x100001) 0 =
        Inr (stopped_at 0x100004)"
      by (rule iffD2 [OF R [THEN conjunct1]]) (unfold c demo_code_bytes, rule 1)
    show "run_page_fault 8 blank_instruction (arch_dfault_install_skip (blank_x86\<lparr>cells := demo_code\<rparr>)) (stopped_at 0x100004) 0 =
        Inl (Aborted (Cannot_decode 0x100004))"
      by (rule iffD2 [OF R [THEN conjunct2, THEN conjunct1]]) (unfold c demo_code_bytes, simp add: 2)
    show "run_page_fault 8 blank_instruction (arch_dfault_install_skip (blank_x86\<lparr>cells := demo_code\<rparr>)) (stopped_at 0x100005) 0 =
        Inl Undefined_result"
      by (rule iffD2 [OF R [THEN conjunct2, THEN conjunct2, THEN conjunct1]]) (unfold c demo_code_bytes, rule 3)
  qed
qed

end
