(* ===== verification/Armv8_Memory.thy ===== *)
theory Armv8_Memory
  imports Page_Tables
begin

section \<open>The armv8 port: heap and translation tables\<close>

text \<open>
  The state holds the page heap, the translation tables in memory (8-byte cells), the system
  registers the port writes and its static variables. A C function that returns an int and may
  abort gives fault + int and the new state; the SIMBENCH_DEBUG output is not modelled.
\<close>

datatype armv8_fault = Out_of_heap | Armv8_abort | No_handler | No_return_value

datatype sync_handler = handle_syscall | exception_skip | armv8_pabt_return

record armv8_state =
  a8_cells :: "u64 \<Rightarrow> u64"
  heap_ptr :: u64
  sym_HEAP_END :: u64
  l0_table :: u64
  SCTLR_EL1 :: u32
  TTBR0_EL1 :: u64
  TCR_EL1 :: u64
  CPACR_EL1 :: u32
  CNTKCTL_EL1 :: u32
  SPSR_EL1 :: u32
  ELR_EL1 :: u64
  ESR_EL1 :: u32
  CurrentEL :: u32
  global_syscall_no :: int
  el0_sync_table :: "nat \<Rightarrow> sync_handler option"
  el0_irq_handler :: "nat option"
  backup_lr :: u64

definition a8_poke :: "u64 \<Rightarrow> u64 \<Rightarrow> armv8_state \<Rightarrow> armv8_state" where
  [model_eval]: "a8_poke a v s = s\<lparr>a8_cells := (a8_cells s)(a := v)\<rparr>"

subsection \<open>heap.c\<close>

definition armv8_heap_init :: "u64 \<Rightarrow> armv8_state \<Rightarrow> armv8_state" where
  "armv8_heap_init heap_start s = s\<lparr>heap_ptr := heap_start\<rparr>"

definition armv8_heap_get_page :: "armv8_state \<Rightarrow> armv8_fault + u64 \<times> armv8_state" where
  "armv8_heap_get_page s =
     (let page_ptr = heap_ptr s; s = s\<lparr>heap_ptr := heap_ptr s + 4096\<rparr>
      in if sym_HEAP_END s < heap_ptr s then Inl Out_of_heap else Inr (page_ptr, s))"

subsection \<open>txln_table.c\<close>

definition get_txln_table :: "armv8_state \<Rightarrow> armv8_fault + u64 \<times> armv8_state" where
  "get_txln_table s =
     (if l0_table s = 0
      then bindE (armv8_heap_get_page s) (\<lambda>(page, s). Inr (page, s\<lparr>l0_table := page\<rparr>))
      else Inr (l0_table s, s))"

text \<open>The sizes of the tables, after the widths of the address fields; all are 512 for 48-bit addresses.\<close>

definition VA_BITS :: int where "VA_BITS = 48"
definition TXLT_T0SZ :: int where "TXLT_T0SZ = 64 - VA_BITS"
definition TXLT_L0_X :: int where "TXLT_L0_X = 28 - TXLT_T0SZ"
definition TXLT_L0_Y :: int where "TXLT_L0_Y = TXLT_L0_X + 35"
definition TXLT_L0_ENTRIES :: int where "TXLT_L0_ENTRIES = push_bit (nat (TXLT_L0_Y - 38)) 1"
definition TXLT_L1_X :: int where "TXLT_L1_X = 12"
definition TXLT_L1_Y :: int where "TXLT_L1_Y = TXLT_L1_X + 26"
definition TXLT_L1_ENTRIES :: int where "TXLT_L1_ENTRIES = push_bit (nat (TXLT_L1_Y - 29)) 1"
definition TXLT_L2_X :: int where "TXLT_L2_X = 12"
definition TXLT_L2_Y :: int where "TXLT_L2_Y = TXLT_L2_X + 17"
definition TXLT_L2_ENTRIES :: int where "TXLT_L2_ENTRIES = push_bit (nat (TXLT_L2_Y - 20)) 1"
definition TXLT_L3_Y :: int where "TXLT_L3_Y = 20"
definition TXLT_L3_ENTRIES :: int where "TXLT_L3_ENTRIES = push_bit (nat (TXLT_L3_Y - 11)) 1"

lemma table_sizes:
  "TXLT_L0_ENTRIES = 512" "TXLT_L1_ENTRIES = TXLT_L0_ENTRIES" "TXLT_L2_ENTRIES = TXLT_L0_ENTRIES" "TXLT_L3_ENTRIES = TXLT_L0_ENTRIES"
  by (simp_all add: TXLT_L0_ENTRIES_def TXLT_L0_Y_def TXLT_L0_X_def TXLT_T0SZ_def VA_BITS_def TXLT_L1_ENTRIES_def TXLT_L1_Y_def
      TXLT_L1_X_def TXLT_L2_ENTRIES_def TXLT_L2_Y_def TXLT_L2_X_def TXLT_L3_ENTRIES_def TXLT_L3_Y_def push_bit_eq_mult)

text \<open>clear_l0_table to clear_l3_table are the same loop, as the four sizes are.\<close>

definition clear_entries :: "u64 \<Rightarrow> (u64 \<Rightarrow> u64) \<Rightarrow> u64 \<Rightarrow> u64" where
  "clear_entries table m =
     foldl (\<lambda>m j. m(cell table (word_of_nat j) := m (cell table (word_of_nat j)) AND NOT 0x3)) m [0..<nat TXLT_L0_ENTRIES]"

definition clear_table :: "u64 \<Rightarrow> armv8_state \<Rightarrow> armv8_state" where
  [model_eval]: "clear_table table s = s\<lparr>a8_cells := clear_entries table (a8_cells s)\<rparr>"

definition clear_txln_table :: "armv8_state \<Rightarrow> armv8_fault + armv8_state" where
  "clear_txln_table s = bindE (get_txln_table s) (\<lambda>(table, s). Inr (clear_table table s))"

definition table_mask :: u64 where [model_eval]: "table_mask = 0xfffffffff000"

text \<open>
  get_l0_descriptor, get_l1_descriptor and get_l2_descriptor differ in the bits of the virtual
  address that index the table.
\<close>

definition get_descriptor :: "nat \<Rightarrow> u64 \<Rightarrow> u64 \<Rightarrow> armv8_state \<Rightarrow> armv8_fault + u64 \<times> armv8_state" where
  "get_descriptor shift table virt_addr s =
     (let idx = ucast (drop_bit shift virt_addr) AND 511 :: u32;
          descriptor = a8_cells s (cell table idx)
      in if descriptor AND 0x3 = 0 then
           let table_page = descriptor AND table_mask in
           bindE (if table_page = 0 then armv8_heap_get_page s else Inr (table_page, s)) (\<lambda>(table_page, s).
           let s = clear_table table_page s;
               descriptor = table_page OR 3
           in Inr (descriptor, a8_poke (cell table idx) descriptor s))
         else Inr (descriptor, s))"

definition get_l1_table :: "u64 \<Rightarrow> u64 \<Rightarrow> armv8_state \<Rightarrow> armv8_fault + u64 \<times> armv8_state" where
  "get_l1_table l0 virt_addr s =
     bindE (get_descriptor 39 l0 virt_addr s) (\<lambda>(descriptor, s). Inr (descriptor AND table_mask, s))"

definition get_l2_table :: "u64 \<Rightarrow> u64 \<Rightarrow> armv8_state \<Rightarrow> armv8_fault + u64 \<times> armv8_state" where
  "get_l2_table l1 virt_addr s =
     bindE (get_descriptor 30 l1 virt_addr s) (\<lambda>(descriptor, s). Inr (descriptor AND table_mask, s))"

definition get_l3_table :: "u64 \<Rightarrow> u64 \<Rightarrow> armv8_state \<Rightarrow> armv8_fault + u64 \<times> armv8_state" where
  "get_l3_table l2 virt_addr s =
     bindE (get_descriptor 21 l2 virt_addr s) (\<lambda>(descriptor, s). Inr (descriptor AND table_mask, s))"

definition get_l3_descriptor :: "u64 \<Rightarrow> u64 \<Rightarrow> u64" where
  "get_l3_descriptor table virt_addr = cell table (ucast (drop_bit 12 virt_addr) AND 511)"

definition PRIVS_DATA :: u8 where [model_eval]: "PRIVS_DATA = 1"
definition PRIVS_CODE :: u8 where [model_eval]: "PRIVS_CODE = 3"

definition insert_mapping :: "u64 \<Rightarrow> u64 \<Rightarrow> u64 \<Rightarrow> u8 \<Rightarrow> armv8_state \<Rightarrow> armv8_state" where
  "insert_mapping l3 virt_addr phys_addr privs s =
     (let d = (phys_addr AND NOT 0xfff) OR 0x3;
          d = d OR push_bit 6 (ucast privs);
          d = d OR push_bit 10 1
      in a8_poke (get_l3_descriptor l3 virt_addr) d s)"

definition insert_mapping_device :: "u64 \<Rightarrow> u64 \<Rightarrow> u64 \<Rightarrow> armv8_state \<Rightarrow> armv8_state" where
  "insert_mapping_device l3 virt_addr phys_addr s =
     (let d = (phys_addr AND NOT 0xfff) OR 0x3;
          d = d OR push_bit 6 1;
          d = d OR push_bit 2 1;
          d = d OR push_bit 10 1
      in a8_poke (get_l3_descriptor l3 virt_addr) d s)"

text \<open>The three tables on the way to the page, as each mem_create_page_mapping function gets them.\<close>

definition walk_tables :: "u64 \<Rightarrow> armv8_state \<Rightarrow> armv8_fault + u64 \<times> armv8_state" where
  "walk_tables virt_addr s =
     bindE (get_txln_table s) (\<lambda>(l0, s).
     bindE (get_l1_table l0 virt_addr s) (\<lambda>(l1, s).
     bindE (get_l2_table l1 virt_addr s) (\<lambda>(l2, s).
     get_l3_table l2 virt_addr s)))"

definition a8_create_page_mapping_data :: "u64 \<Rightarrow> u64 \<Rightarrow> armv8_state \<Rightarrow> armv8_fault + armv8_state" where
  "a8_create_page_mapping_data phys_addr virt_addr s =
     bindE (walk_tables virt_addr s) (\<lambda>(l3, s). Inr (insert_mapping l3 virt_addr phys_addr PRIVS_DATA s))"

definition a8_create_page_mapping_code :: "u64 \<Rightarrow> u64 \<Rightarrow> armv8_state \<Rightarrow> armv8_fault + armv8_state" where
  "a8_create_page_mapping_code phys_addr virt_addr s =
     bindE (walk_tables virt_addr s) (\<lambda>(l3, s). Inr (insert_mapping l3 virt_addr phys_addr PRIVS_CODE s))"

definition a8_create_page_mapping_device :: "u64 \<Rightarrow> u64 \<Rightarrow> armv8_state \<Rightarrow> armv8_fault + armv8_state" where
  "a8_create_page_mapping_device phys_addr virt_addr s =
     bindE (walk_tables virt_addr s) (\<lambda>(l3, s). Inr (insert_mapping_device l3 virt_addr phys_addr s))"

subsection \<open>mem.c\<close>

definition a8_page_size :: u64 where "a8_page_size = push_bit 12 1"

text \<open>
  The mapping functions return 0, so the early return 1 of the loops is never taken. None is a
  loop whose counter wraps.
\<close>

definition create_region_data :: "u64 \<Rightarrow> u64 \<Rightarrow> armv8_state \<Rightarrow> (armv8_fault + armv8_state) option" where
  "create_region_data region_start region_end s =
     identity_loop a8_create_page_mapping_data a8_page_size region_end (region_start AND NOT (a8_page_size - 1)) s"

definition create_region_code :: "u64 \<Rightarrow> u64 \<Rightarrow> armv8_state \<Rightarrow> (armv8_fault + armv8_state) option" where
  "create_region_code region_start region_end s =
     identity_loop a8_create_page_mapping_code a8_page_size region_end (region_start AND NOT (a8_page_size - 1)) s"

definition create_region_device :: "u64 \<Rightarrow> u64 \<Rightarrow> armv8_state \<Rightarrow> (armv8_fault + armv8_state) option" where
  "create_region_device region_start region_end s =
     identity_loop a8_create_page_mapping_device a8_page_size region_end (region_start AND NOT (a8_page_size - 1)) s"

definition bindL :: "('e + 's) option \<Rightarrow> ('s \<Rightarrow> ('e + 't) option) \<Rightarrow> ('e + 't) option" where
  "bindL m f = (case m of None \<Rightarrow> None | Some (Inl e) \<Rightarrow> Some (Inl e) | Some (Inr s) \<Rightarrow> f s)"

text \<open>The device list is the chain mem_get_device_info returns, as a list of its ranges.\<close>

fun map_devices :: "(u64 \<times> u64) list \<Rightarrow> armv8_state \<Rightarrow> (armv8_fault + armv8_state) option" where
  "map_devices [] s = Some (Inr s)"
| "map_devices ((lo, hi) # devs) s = bindL (create_region_device lo hi s) (map_devices devs)"

record a8_image =
  a8_TEXT_START :: u64
  a8_TEXT_END :: u64
  a8_DATA_START :: u64
  a8_DATA_END :: u64
  a8_devices :: "(u64 \<times> u64) list"

definition syscall_mem_init :: "a8_image \<Rightarrow> armv8_state \<Rightarrow> (armv8_fault + armv8_state) option" where
  "syscall_mem_init img s =
     (let t0sz = 64 - 48 :: u64; t1sz = 16 :: u64;
          s = s\<lparr>SCTLR_EL1 := SCTLR_EL1 s AND NOT (push_bit 19 1)\<rparr> in
      bindL (Some (get_txln_table s)) (\<lambda>(table, s).
      let s = s\<lparr>TTBR0_EL1 := table\<rparr>;
          s = s\<lparr>TCR_EL1 := 0 OR push_bit 0 t0sz OR push_bit 16 t1sz\<rparr> in
      bindL (Some (clear_txln_table s)) (\<lambda>s.
      bindL (create_region_code (a8_TEXT_START img) (a8_TEXT_END img) s) (\<lambda>s.
      bindL (create_region_data (a8_DATA_START img) (a8_DATA_END img) s) (\<lambda>s.
      map_devices (a8_devices img) s)))))"

definition syscall_mem_mmu_enable :: "armv8_state \<Rightarrow> armv8_state" where
  "syscall_mem_mmu_enable s = s\<lparr>SCTLR_EL1 := SCTLR_EL1 s OR 1\<rparr>"

definition syscall_mem_mmu_disable :: "armv8_state \<Rightarrow> armv8_state" where
  "syscall_mem_mmu_disable s = s\<lparr>SCTLR_EL1 := SCTLR_EL1 s AND NOT 1\<rparr>"

section \<open>The armv8 tables are a tree of the shared kind\<close>

definition a8_present :: "u64 \<Rightarrow> bool" where
  [model_eval]: "a8_present e \<longleftrightarrow> e AND 3 \<noteq> 0"

definition a8_base :: "u64 \<Rightarrow> u64" where
  [model_eval]: "a8_base e = e AND table_mask"

lemma a8_base_aligned: "page_aligned (a8_base e)"
  by (simp add: page_aligned_def a8_base_def table_mask_def and.assoc)

interpretation a8: entry_format a8_present a8_base
  by unfold_locales (rule a8_base_aligned)

text \<open>
  The port never zeroes a heap page: it relies on the memory behind the allocation pointer to
  hold no table addresses. The heap lies in the 48-bit physical address space.
\<close>

definition free_clear :: "armv8_state \<Rightarrow> bool" where
  "free_clear s \<longleftrightarrow> (\<forall>a. heap_ptr s \<le> a \<and> a < sym_HEAP_END s \<longrightarrow> a8_base (a8_cells s a) = 0)"

definition a8_shape :: "u64 \<Rightarrow> bool" where
  [model_eval]: "a8_shape e \<longleftrightarrow> (e AND 3 \<noteq> 0 \<longrightarrow> e AND 3 = 3)"

definition a8_built :: "u64 \<Rightarrow> armv8_state \<Rightarrow> bool" where
  "a8_built lo s \<longleftrightarrow>
     tables_ok a8_present a8_base (a8_cells s) (l0_table s) lo (heap_ptr s) \<and>
     shaped a8_shape a8_base (a8_cells s) (l0_table s) \<and>
     free_clear s \<and> sym_HEAP_END s \<le> 0x1000000000000"

lemma cleared_entry [simp]: "\<not> a8_present (e AND - 4)" "a8_base (e AND - 4) = a8_base e" "a8_shape (e AND - 4)"
  by (simp_all add: a8_present_def a8_base_def a8_shape_def table_mask_def and.assoc)

lemma clear_entries_eq:
  "clear_entries t m a = (if \<exists>j<512. a = cell t j then m a AND NOT 3 else m a)"
proof -
  have "foldl (\<lambda>m j. m(cell t (word_of_nat j) := m (cell t (word_of_nat j)) AND NOT 0x3)) m [0..<n] a
      = (if \<exists>j<n. a = cell t (word_of_nat j) then m a AND NOT 3 else m a)" for n a and m :: "u64 \<Rightarrow> u64"
    by (induction n) (auto simp: less_Suc_eq and.assoc)
  then show ?thesis by (simp add: clear_entries_def cell_of_nat_iff table_sizes(1))
qed

lemma aligned_small_base:
  assumes "page_aligned a" "a < 0x1000000000000"
  shows "a8_base a = a"
proof -
  have "unat a < 2 ^ 48" using assms(2) by (simp add: word_less_nat_alt)
  then have h: "take_bit 48 a = a" by (simp add: word_unat_eq_iff unsigned_take_bit_eq take_bit_nat_eq_self)
  have l: "take_bit 12 a = 0" using assms(1) by (simp add: page_aligned_take_bit)
  have "bit a n \<Longrightarrow> n < 48 \<and> 12 \<le> n" for n
  proof -
    assume b: "bit a n"
    have "bit (take_bit 48 a) n" using b h by simp
    moreover have "\<not> bit (take_bit 12 a) n" using l by simp
    ultimately show ?thesis using b by (auto simp: bit_take_bit_iff)
  qed
  moreover have "bit table_mask n \<longleftrightarrow> n < 48 \<and> 12 \<le> n" for n
  proof -
    have m: "table_mask = mask 48 AND NOT (mask 12)" by (simp add: table_mask_def mask_eq_exp_minus_1)
    show ?thesis unfolding m bit_and_iff bit_not_iff bit_mask_iff possible_bit_word by auto
  qed
  ultimately show ?thesis by (intro bit_eqI) (auto simp: a8_base_def bit_and_iff)
qed

lemma table_entry:
  assumes "page_aligned a" "a < 0x1000000000000"
  shows "a8_present (a OR 3)" "a8_base (a OR 3) = a" "a8_shape (a OR 3)" "(a OR 3) AND table_mask = a"
proof -
  have "a AND 3 = (a AND 0xfff) AND 3" by (simp add: and.assoc)
  then have "a AND 3 = 0" using assms(1) by (simp add: page_aligned_def)
  then show "a8_present (a OR 3)" "a8_shape (a OR 3)"
    by (simp_all add: a8_present_def a8_shape_def bit.conj_disj_distrib2)
  show "a8_base (a OR 3) = a" "(a OR 3) AND table_mask = a"
    using aligned_small_base [OF assms] by (simp_all add: a8_base_def bit.conj_disj_distrib2 table_mask_def)
qed

subsection \<open>One level\<close>

lemma heap_get_page_eq:
  "armv8_heap_get_page s =
     (if sym_HEAP_END s < heap_ptr s + 4096 then Inl Out_of_heap
      else Inr (heap_ptr s, s\<lparr>heap_ptr := heap_ptr s + 4096\<rparr>))"
  by (simp add: armv8_heap_get_page_def Let_def)

lemma heap_room:
  assumes "\<not> sym_HEAP_END s < heap_ptr s + 4096" "sym_HEAP_END s \<le> 0x1000000000000" "heap_ptr s \<le> sym_HEAP_END s"
  shows "heap_ptr s < heap_ptr s + 4096" "heap_ptr s < 0x1000000000000" "heap_ptr s + 4096 \<le> sym_HEAP_END s"
proof -
  have "unat (heap_ptr s) \<le> 2 ^ 48" using assms(2,3) by (simp add: word_le_nat_alt)
  then have n: "unat (heap_ptr s + 4096) = unat (heap_ptr s) + 4096"
    by (subst unat_add_lem [THEN iffD1]) simp_all
  then show "heap_ptr s < heap_ptr s + 4096" by (simp add: word_less_nat_alt)
  show "heap_ptr s + 4096 \<le> sym_HEAP_END s" using assms(1) by simp
  then show "heap_ptr s < 0x1000000000000" using n assms(2) by (simp add: word_less_nat_alt word_le_nat_alt)
qed

lemma get_descriptor_descends:
  assumes r: "get_descriptor k t va s = Inr (d, s')"
    and i: "i = ucast (drop_bit k va) AND 511"
    and t: "page_aligned t" "i < 512" "t < heap_ptr s" "page_aligned (heap_ptr s)" "heap_ptr s \<noteq> 0"
    and h: "free_clear s" "sym_HEAP_END s \<le> 0x1000000000000" "heap_ptr s \<le> sym_HEAP_END s"
    and z: "a8_base (a8_cells s (cell t i)) \<noteq> 0 \<Longrightarrow>
      a8_base (a8_cells s (cell t i)) \<noteq> t \<and> a8_base (a8_cells s (cell t i)) < heap_ptr s"
    and c: "c = d AND table_mask"
  shows "descended a8_present a8_base t i (a8_cells s) (heap_ptr s) (a8_cells s') (heap_ptr s') c"
    and "s' = s\<lparr>a8_cells := a8_cells s', heap_ptr := heap_ptr s'\<rparr>"
    and "\<not> a8_present (a8_cells s (cell t i)) \<Longrightarrow>
      a8_shape (a8_cells s' (cell t i)) \<and> (\<forall>j<512. a8_shape (a8_cells s' (cell c j)))"
    and "heap_ptr s' \<le> sym_HEAP_END s'"
proof -
  let ?d = "a8_cells s (cell t i)"
  have "descended a8_present a8_base t i (a8_cells s) (heap_ptr s) (a8_cells s') (heap_ptr s') c \<and>
     s' = s\<lparr>a8_cells := a8_cells s', heap_ptr := heap_ptr s'\<rparr> \<and>
     (\<not> a8_present ?d \<longrightarrow> a8_shape (a8_cells s' (cell t i)) \<and> (\<forall>j<512. a8_shape (a8_cells s' (cell c j)))) \<and>
     heap_ptr s' \<le> sym_HEAP_END s'"
  proof (cases "a8_present ?d")
    case True
    then show ?thesis
      using r c h(3) unfolding i by (auto simp: get_descriptor_def Let_def a8_present_def descended_def a8_base_def)
  next
    case False
    define page where "page = (if a8_base ?d = 0 then heap_ptr s else a8_base ?d)"
    define cur where "cur = (if a8_base ?d = 0 then heap_ptr s + 4096 else heap_ptr s)"
    have room: "a8_base ?d = 0 \<Longrightarrow> \<not> sym_HEAP_END s < heap_ptr s + 4096"
      using r False unfolding i
      by (auto simp: get_descriptor_def Let_def a8_present_def a8_base_def heap_get_page_eq)
    have p: "page_aligned page" "page \<noteq> t" "page < 0x1000000000000"
      using t z heap_room(2) [OF _ h(2,3)] room h(2,3) a8_base_aligned
      by (auto simp: page_def intro: less_le_trans)
    note E = table_entry [OF p(1,3)]
    have s': "s' = s\<lparr>heap_ptr := cur, a8_cells := (clear_entries page (a8_cells s))(cell t i := page OR 3)\<rparr>" "d = page OR 3"
      using r False room unfolding i page_def cur_def
      by (auto simp: get_descriptor_def Let_def a8_present_def a8_base_def heap_get_page_eq a8_poke_def
          clear_table_def split: if_splits)
    have cp: "c = page" using c s'(2) E(4) by simp
    have ne: "cell t i \<noteq> cell page j" "cell page j \<noteq> cell t i" if "j < 512" for j
      using cell_inject [OF t(1) p(1) t(2) that] p(2) by auto
    have fresh: "a8_base (a8_cells s (cell page j)) = 0" if "a8_base ?d = 0" "j < 512" for j
    proof -
      note R = heap_room [OF room [OF that(1)] h(2,3)]
      have "heap_ptr s \<le> cell page j \<and> cell page j < heap_ptr s + 4096"
        using a8.cell_bounds [OF p(1) page_aligned_next [OF t(4)] _ _ that(2), of "heap_ptr s"] R that(1)
        by (simp add: page_def)
      then show ?thesis using h(1) R(3) by (auto simp: free_clear_def intro: less_le_trans)
    qed
    have m: "a8_cells s' (cell t i) = page OR 3"
      "a8_cells s' (cell page j) = a8_cells s (cell page j) AND NOT 3" if "j < 512" for j
      using ne that by (auto simp: s' clear_entries_eq)
    have o: "a8_cells s' a = a8_cells s a" if "a \<noteq> cell t i" "\<forall>j<512. a \<noteq> cell page j" for a
      using that by (auto simp: s' clear_entries_eq)
    have m0: "a8_cells s' (cell t i) = page OR 3" by (simp add: s')
    have cur': "heap_ptr s' = cur" by (simp add: s')
    have hp: "cur \<le> sym_HEAP_END s" "a8_base ?d = 0 \<Longrightarrow> heap_ptr s < cur"
      using heap_room [OF room h(2,3)] h(3) by (auto simp: cur_def)
    have "descended a8_present a8_base t i (a8_cells s) (heap_ptr s) (a8_cells s') (heap_ptr s') c"
      using False E m m0 o fresh hp unfolding descended_def cp cur'
      by (auto simp: page_def cur_def)
    moreover have "s' = s\<lparr>a8_cells := a8_cells s', heap_ptr := heap_ptr s'\<rparr>" by (simp add: s')
    moreover have "a8_shape (a8_cells s' (cell t i)) \<and> (\<forall>j<512. a8_shape (a8_cells s' (cell c j)))"
      using E m m0 cp by auto
    moreover have "heap_ptr s' \<le> sym_HEAP_END s'" using hp(1) by (simp add: s')
    ultimately show ?thesis by blast
  qed
  then show "descended a8_present a8_base t i (a8_cells s) (heap_ptr s) (a8_cells s') (heap_ptr s') c"
    "s' = s\<lparr>a8_cells := a8_cells s', heap_ptr := heap_ptr s'\<rparr>"
    "\<not> a8_present (a8_cells s (cell t i)) \<Longrightarrow>
      a8_shape (a8_cells s' (cell t i)) \<and> (\<forall>j<512. a8_shape (a8_cells s' (cell c j)))"
    "heap_ptr s' \<le> sym_HEAP_END s'" by blast+
qed

subsection \<open>Mapping one page\<close>

lemma a8_builtD:
  assumes "a8_built lo s"
  shows "tables_ok a8_present a8_base (a8_cells s) (l0_table s) lo (heap_ptr s)"
    "shaped a8_shape a8_base (a8_cells s) (l0_table s)" "free_clear s" "sym_HEAP_END s \<le> 0x1000000000000"
    "page_aligned (heap_ptr s)" "l0_table s \<noteq> 0"
proof -
  show ok: "tables_ok a8_present a8_base (a8_cells s) (l0_table s) lo (heap_ptr s)"
    and "shaped a8_shape a8_base (a8_cells s) (l0_table s)" "free_clear s" "sym_HEAP_END s \<le> 0x1000000000000"
    using assms by (simp_all add: a8_built_def)
  from ok show "page_aligned (heap_ptr s)" unfolding tables_ok_def by blast
  show "l0_table s \<noteq> 0" using a8.tables_okD(4) [OF ok, of "[]"] by simp
qed

lemma a8_frame_trans:
  assumes "s1 = s0\<lparr>a8_cells := a8_cells s1, heap_ptr := heap_ptr s1\<rparr>"
    and "s2 = s1\<lparr>a8_cells := a8_cells s2, heap_ptr := heap_ptr s2\<rparr>"
  shows "s2 = s0\<lparr>a8_cells := a8_cells s2, heap_ptr := heap_ptr s2\<rparr>"
  using assms by (cases s0; cases s1; cases s2) simp

lemma a8_level:
  assumes b: "a8_built lo s" "heap_ptr s \<le> sym_HEAP_END s"
    and p: "path p" "length p \<le> 2" "node a8_base (a8_cells s) (l0_table s) p = Some t" "i < 512"
    and i: "i = ucast (drop_bit k va) AND 511"
    and r: "bindE (get_descriptor k t va s) (\<lambda>(d, s). Inr (d AND table_mask, s)) = Inr (c, s')"
  shows "descended a8_present a8_base t i (a8_cells s) (heap_ptr s) (a8_cells s') (heap_ptr s') c"
    and "s' = s\<lparr>a8_cells := a8_cells s', heap_ptr := heap_ptr s'\<rparr>"
    and "a8_built lo s'" "heap_ptr s' \<le> sym_HEAP_END s'"
    and "node a8_base (a8_cells s') (l0_table s') (p @ [i]) = Some c"
    and "\<not> a8_present (a8_cells s (cell t i)) \<longrightarrow>
      a8_shape (a8_cells s' (cell t i)) \<and> (\<forall>j<512. a8_shape (a8_cells s' (cell c j)))"
proof -
  note D = a8_builtD [OF b(1)]
  obtain d where r: "get_descriptor k t va s = Inr (d, s')" and c: "c = d AND table_mask" using r by auto
  have t: "page_aligned t" "t < heap_ptr s" "heap_ptr s \<noteq> 0"
    using a8.tables_okD(1,3) [OF D(1) p(1) _ p(3)] p(2) by auto
  have z: "a8_base (a8_cells s (cell t i)) \<noteq> t \<and> a8_base (a8_cells s (cell t i)) < heap_ptr s"
    if "a8_base (a8_cells s (cell t i)) \<noteq> 0"
  proof -
    have n: "node a8_base (a8_cells s) (l0_table s) (p @ [i]) = Some (a8_base (a8_cells s (cell t i)))"
      using p(3) that by (simp add: node_snoc)
    have q: "path (p @ [i])" "length (p @ [i]) \<le> 3" using p by simp_all
    show ?thesis
      using a8.tables_okD(3) [OF D(1) q n] a8.tables_okD(5) [OF D(1) q n, of p] p by auto
  qed
  note E = get_descriptor_descends [OF r i t(1) p(4) t(2) D(5) t(3) D(3,4) b(2) z c]
  show d: "descended a8_present a8_base t i (a8_cells s) (heap_ptr s) (a8_cells s') (heap_ptr s') c"
    using E(1) by blast
  show e: "s' = s\<lparr>a8_cells := a8_cells s', heap_ptr := heap_ptr s'\<rparr>" using E(2) by blast
  show h: "heap_ptr s' \<le> sym_HEAP_END s'" using E(4) by blast
  show sh: "\<not> a8_present (a8_cells s (cell t i)) \<longrightarrow>
      a8_shape (a8_cells s' (cell t i)) \<and> (\<forall>j<512. a8_shape (a8_cells s' (cell c j)))"
    using E(3) by blast
  have f: "l0_table s' = l0_table s" "sym_HEAP_END s' = sym_HEAP_END s" by (subst e, simp)+
  have "free_clear s'"
    using D(3) a8.descend_frame [OF D(1) p d] a8.descend_cur [OF D(1) d] unfolding free_clear_def f
    by (metis order_trans)
  then show "a8_built lo s'"
    using a8.descend_tables_ok [OF D(1) p d] a8.descend_shaped [OF D(1) p d D(2) sh] D(4)
    by (simp add: a8_built_def f)
  show "node a8_base (a8_cells s') (l0_table s') (p @ [i]) = Some c"
    unfolding f by (rule a8.descend_node [OF D(1) p d])
qed

definition a8_path :: "u64 \<Rightarrow> u32 list" where
  [model_eval]: "a8_path va = [ucast (drop_bit 39 va) AND 511, ucast (drop_bit 30 va) AND 511,
     ucast (drop_bit 21 va) AND 511, ucast (drop_bit 12 va) AND 511]"

definition a8_view :: "armv8_state \<Rightarrow> u32 list \<Rightarrow> u64 option" where
  "a8_view s q = (if path q \<and> length q = 4 then look a8_present a8_base (a8_cells s) (l0_table s) q else None)"

lemma path_a8_path [simp]: "path (a8_path va)" and length_a8_path [simp]: "length (a8_path va) = 4"
proof -
  have "(511 :: u32) = mask 9" by (simp add: mask_eq_exp_minus_1)
  then have "w AND 511 = take_bit 9 w" for w :: u32 by (simp only: take_bit_eq_mask)
  then have "unat (w AND 511 :: u32) < 2 ^ 9" for w by (simp only: unsigned_take_bit_eq take_bit_nat_less_exp)
  then have "w AND 511 < (512 :: u32)" for w by (simp add: word_less_nat_alt)
  then show "path (a8_path va)" by (simp add: a8_path_def)
qed (simp add: a8_path_def)

text \<open>The three mapping functions are walk_tables followed by the write of a descriptor.\<close>

lemma walk_and_insert:
  assumes b: "a8_built lo s" "heap_ptr s \<le> sym_HEAP_END s"
    and r: "walk_tables va s = Inr (l3, s3)" and d: "a8_present d"
    and s': "s' = a8_poke (get_l3_descriptor l3 va) d s3"
  shows "a8_built lo s'" "heap_ptr s' \<le> sym_HEAP_END s'"
    and "a8_view s' = (a8_view s)(a8_path va \<mapsto> d)"
    and "s' = s\<lparr>a8_cells := a8_cells s', heap_ptr := heap_ptr s'\<rparr>"
    and "a < lo \<or> heap_ptr s' \<le> a \<Longrightarrow> a8_cells s' a = a8_cells s a"
    and "heap_ptr s \<le> heap_ptr s'"
proof -
  let ?i0 = "ucast (drop_bit 39 va) AND 511 :: u32" and ?i1 = "ucast (drop_bit 30 va) AND 511 :: u32"
    and ?i2 = "ucast (drop_bit 21 va) AND 511 :: u32" and ?i3 = "ucast (drop_bit 12 va) AND 511 :: u32"
  have lt: "path [?i0, ?i1, ?i2, ?i3]" using path_a8_path [of va] by (simp add: a8_path_def)
  then have l: "?i0 < 512" "?i1 < 512" "?i2 < 512" "?i3 < 512" by simp_all
  note D = a8_builtD [OF b(1)]
  obtain t1 s1 t2 s2 where
    r1: "get_l1_table (l0_table s) va s = Inr (t1, s1)" and r2: "get_l2_table t1 va s1 = Inr (t2, s2)" and
    r3: "get_l3_table t2 va s2 = Inr (l3, s3)"
    using r D(6) by (auto simp: walk_tables_def get_txln_table_def)
  have root: "node a8_base (a8_cells s) (l0_table s) [] = Some (l0_table s)" by simp
  note E1 = a8_level [OF b path_simps(1) _ root l(1) refl r1 [unfolded get_l1_table_def], simplified]
  have n1: "node a8_base (a8_cells s1) (l0_table s1) [?i0] = Some t1" using E1(5) by simp
  have p1: "path [?i0]" "path [?i0, ?i1]" using l by simp_all
  note E2 = a8_level [OF E1(3,4) p1(1) _ n1 l(2) refl r2 [unfolded get_l2_table_def], simplified]
  have n2: "node a8_base (a8_cells s2) (l0_table s2) [?i0, ?i1] = Some t2" using E2(5) by simp
  note E3 = a8_level [OF E2(3,4) p1(2) _ n2 l(3) refl r3 [unfolded get_l3_table_def], simplified]
  have f1: "s1 = s\<lparr>a8_cells := a8_cells s1, heap_ptr := heap_ptr s1\<rparr>" using E1(2) .
  have f2: "s2 = s\<lparr>a8_cells := a8_cells s2, heap_ptr := heap_ptr s2\<rparr>" using a8_frame_trans [OF f1 E2(2)] .
  have f3: "s3 = s\<lparr>a8_cells := a8_cells s3, heap_ptr := heap_ptr s3\<rparr>" using a8_frame_trans [OF f2 E3(2)] .
  note I = a8.insert_page(1-4) [OF D(1) root lt E1(1) E2(1) E3(1) d]
    and J = a8.insert_page(5) [OF D(1) root lt E1(1) E2(1) E3(1) d D(2) E1(6) E2(6) E3(6)]
  have c: "a8_cells s' = (a8_cells s3)(cell l3 ?i3 := d)" "heap_ptr s' = heap_ptr s3"
    by (simp_all add: s' a8_poke_def get_l3_descriptor_def)
  show e: "s' = s\<lparr>a8_cells := a8_cells s', heap_ptr := heap_ptr s'\<rparr>"
    unfolding c by (subst s', subst f3) (simp add: a8_poke_def get_l3_descriptor_def)
  have g: "l0_table s' = l0_table s" "sym_HEAP_END s' = sym_HEAP_END s" by (subst e, simp)+
  have g3: "sym_HEAP_END s3 = sym_HEAP_END s" by (subst f3) simp
  show fr: "a8_cells s' a = a8_cells s a" if "a < lo \<or> heap_ptr s' \<le> a" for a
    using I(3) that by (simp add: c)
  show cu: "heap_ptr s \<le> heap_ptr s'" using I(4) by (simp add: c)
  have "free_clear s'" using D(3) fr cu unfolding free_clear_def g by (metis order_trans)
  then show "a8_built lo s'" using I(1) J D(4) by (simp add: a8_built_def c g)
  show "heap_ptr s' \<le> sym_HEAP_END s'" using E3(4) by (simp add: c g g3)
  show "a8_view s' = (a8_view s)(a8_path va \<mapsto> d)"
  proof
    fix q
    show "a8_view s' q = ((a8_view s)(a8_path va \<mapsto> d)) q"
      using I(2) [of q] lt unfolding a8_view_def c(1) g a8_path_def
      by (cases "q = [?i0, ?i1, ?i2, ?i3]") (simp_all del: look.simps)
  qed
qed

subsection \<open>The three mappings implement the page interface\<close>

text \<open>Every visible last-level entry is a page descriptor.\<close>

definition a8_pages_ok :: "armv8_state \<Rightarrow> bool" where
  "a8_pages_ok s \<longleftrightarrow> (\<forall>q e. a8_view s q = Some e \<longrightarrow> e AND 3 = 3)"

definition a8_ready :: "u64 \<Rightarrow> armv8_state \<Rightarrow> bool" where
  "a8_ready lo s \<longleftrightarrow> a8_built lo s \<and> heap_ptr s \<le> sym_HEAP_END s \<and> a8_pages_ok s"

definition data_entry :: "u64 \<Rightarrow> u64" where
  [model_eval]: "data_entry pa = (pa AND NOT 0xfff) OR 0x443"

definition code_entry :: "u64 \<Rightarrow> u64" where
  [model_eval]: "code_entry pa = (pa AND NOT 0xfff) OR 0x4c3"

definition device_entry :: "u64 \<Rightarrow> u64" where
  [model_eval]: "device_entry pa = (pa AND NOT 0xfff) OR 0x447"

lemma entries_present: "data_entry pa AND 3 = 3" "code_entry pa AND 3 = 3" "device_entry pa AND 3 = 3"
  by (simp_all add: data_entry_def code_entry_def device_entry_def bit.conj_disj_distrib2 and.assoc)

lemma insert_eqs:
  "insert_mapping l3 va pa PRIVS_DATA s = a8_poke (get_l3_descriptor l3 va) (data_entry pa) s"
  "insert_mapping l3 va pa PRIVS_CODE s = a8_poke (get_l3_descriptor l3 va) (code_entry pa) s"
  "insert_mapping_device l3 va pa s = a8_poke (get_l3_descriptor l3 va) (device_entry pa) s"
  by (simp_all add: insert_mapping_def insert_mapping_device_def PRIVS_DATA_def PRIVS_CODE_def
      data_entry_def code_entry_def device_entry_def or.assoc)

definition a8_mapper :: "(u64 \<Rightarrow> u64 \<Rightarrow> armv8_state \<Rightarrow> armv8_fault + armv8_state) \<Rightarrow> (u64 \<Rightarrow> u64) \<Rightarrow> bool" where
  "a8_mapper f entry \<longleftrightarrow> (\<forall>pa va s. f pa va s =
     bindE (walk_tables va s) (\<lambda>(l3, s). Inr (a8_poke (get_l3_descriptor l3 va) (entry pa) s))) \<and>
     (\<forall>pa. entry pa AND 3 = 3)"

lemma a8_mappers:
  "a8_mapper a8_create_page_mapping_data data_entry" "a8_mapper a8_create_page_mapping_code code_entry"
  "a8_mapper a8_create_page_mapping_device device_entry"
  by (simp_all add: a8_mapper_def a8_create_page_mapping_data_def a8_create_page_mapping_code_def
      a8_create_page_mapping_device_def insert_eqs entries_present)

lemma a8_mapping_ok:
  assumes f: "a8_mapper f entry" and b: "a8_ready lo s" and r: "f pa va s = Inr s'"
  shows "a8_ready lo s'" and "a8_view s' = (a8_view s)(a8_path va \<mapsto> entry pa)"
    and "s' = s\<lparr>a8_cells := a8_cells s', heap_ptr := heap_ptr s'\<rparr>"
    and "a < lo \<or> heap_ptr s' \<le> a \<Longrightarrow> a8_cells s' a = a8_cells s a"
proof -
  have b': "a8_built lo s" "heap_ptr s \<le> sym_HEAP_END s" using b by (simp_all add: a8_ready_def)
  have fe: "f pa va s = bindE (walk_tables va s) (\<lambda>(l3, s). Inr (a8_poke (get_l3_descriptor l3 va) (entry pa) s))"
    and pe: "entry pa AND 3 = 3" using f by (simp_all add: a8_mapper_def)
  have pr: "a8_present (entry pa)" using pe by (simp add: a8_present_def)
  obtain l3 s3 where w: "walk_tables va s = Inr (l3, s3)" "s' = a8_poke (get_l3_descriptor l3 va) (entry pa) s3"
    using r unfolding fe by auto
  note W = walk_and_insert [OF b' w(1) pr w(2)]
  show "a8_ready lo s'" using W(1,2,3) b pe by (auto simp: a8_ready_def a8_pages_ok_def)
  show "a8_view s' = (a8_view s)(a8_path va \<mapsto> entry pa)" by (rule W(3))
  show "s' = s\<lparr>a8_cells := a8_cells s', heap_ptr := heap_ptr s'\<rparr>" by (rule W(4))
  show "a8_cells s' a = a8_cells s a" if "a < lo \<or> heap_ptr s' \<le> a" by (rule W(5) [OF that])
qed

interpretation a8_data: page_mapper a8_create_page_mapping_data "a8_ready lo" a8_view a8_path data_entry for lo
  by unfold_locales (fact a8_mapping_ok [OF a8_mappers(1)])+

interpretation a8_code: page_mapper a8_create_page_mapping_code "a8_ready lo" a8_view a8_path code_entry for lo
  by unfold_locales (fact a8_mapping_ok [OF a8_mappers(2)])+

interpretation a8_device: page_mapper a8_create_page_mapping_device "a8_ready lo" a8_view a8_path device_entry for lo
  by unfold_locales (fact a8_mapping_ok [OF a8_mappers(3)])+

text \<open>What the hardware sees: a walk that stops at the first entry that is not a table (level 0
  to 2) or a page (level 3); a block entry ends it early and is the value Inl.\<close>

fun a8_walk :: "(u64 \<Rightarrow> u64) \<Rightarrow> u64 \<Rightarrow> u32 list \<Rightarrow> (u64 + u64) option" where
  "a8_walk m t [] = None"
| "a8_walk m t [i] = (let e = m (cell t i) in if e AND 3 = 3 then Some (Inr e) else None)"
| "a8_walk m t (i # j # p) =
     (let e = m (cell t i) in
      if e AND 3 = 3 then a8_walk m (e AND table_mask) (j # p)
      else if e AND 3 = 1 then Some (Inl e) else None)"

lemma a8_walk_look:
  assumes ok: "tables_ok a8_present a8_base m root lo cur" and f: "shaped a8_shape a8_base m root"
  shows "\<lbrakk>path p; path (q # qs); length p + length (q # qs) = 4; node a8_base m root p = Some t;
      \<forall>e. look a8_present a8_base m t (q # qs) = Some e \<longrightarrow> e AND 3 = 3\<rbrakk> \<Longrightarrow>
    a8_walk m t (q # qs) = map_option Inr (look a8_present a8_base m t (q # qs))"
proof (induction qs arbitrary: p q t)
  case Nil
  show ?case
  proof (cases "a8_present (m (cell t q))")
    case True
    then have "m (cell t q) AND 3 = 3" using Nil.prems(5) by simp
    then show ?thesis using True by simp
  next
    case False
    then have "m (cell t q) AND 3 \<noteq> 3" by (simp add: a8_present_def)
    then show ?thesis using False by simp
  qed
next
  case (Cons r qs)
  let ?e = "m (cell t q)"
  have sh: "a8_shape ?e" using a8.shapedD [OF f Cons.prems(1) _ _ Cons.prems(4)] Cons.prems by simp
  show ?case
  proof (cases "a8_present ?e")
    case False
    then show ?thesis by (auto simp: Let_def a8_present_def)
  next
    case True
    have b: "a8_base ?e \<noteq> 0"
      using a8.tables_okD(6) [OF ok Cons.prems(1) _ Cons.prems(4)] Cons.prems True by simp
    have "node a8_base m root (p @ [q]) = Some (a8_base ?e)"
      using Cons.prems(4) b by (simp add: node_append Let_def)
    then have "a8_walk m (a8_base ?e) (r # qs) = map_option Inr (look a8_present a8_base m (a8_base ?e) (r # qs))"
      using Cons.prems True by (intro Cons.IH [of "p @ [q]"]) (auto simp: Let_def)
    moreover have "?e AND 3 = 3" using sh True by (simp add: a8_shape_def a8_present_def)
    ultimately show ?thesis using True by (simp add: Let_def a8_base_def [symmetric])
  qed
qed

definition a8_translate :: "armv8_state \<Rightarrow> u64 \<Rightarrow> (u64 + u64) option" where
  "a8_translate s va = a8_walk (a8_cells s) (l0_table s) (a8_path va)"

lemma a8_translate_view:
  assumes "a8_ready lo s"
  shows "a8_translate s va = map_option Inr (a8_view s (a8_path va))"
proof -
  have b: "a8_built lo s" and pg: "a8_pages_ok s" using assms by (simp_all add: a8_ready_def)
  note D = a8_builtD [OF b]
  obtain q qs where q: "a8_path va = q # qs" using length_a8_path [of va] by (cases "a8_path va") auto
  then have p: "path (q # qs)" "length ([] :: u32 list) + length (q # qs) = 4"
    using path_a8_path [of va] length_a8_path [of va] by simp_all
  have v: "a8_view s (q # qs) = look a8_present a8_base (a8_cells s) (l0_table s) (q # qs)"
    using p by (simp add: a8_view_def)
  then have "\<forall>e. look a8_present a8_base (a8_cells s) (l0_table s) (q # qs) = Some e \<longrightarrow> e AND 3 = 3"
    using pg by (metis a8_pages_ok_def)
  from a8_walk_look [OF D(1,2) path_simps(1) p node.simps(1) this] show ?thesis
    by (simp only: a8_translate_def q v)
qed

subsection \<open>Initialisation\<close>

text \<open>mem_init may run on a fresh heap or, through mem_reset, on the tables of an earlier run.\<close>

definition a8_startable :: "u64 \<Rightarrow> armv8_state \<Rightarrow> bool" where
  "a8_startable lo s \<longleftrightarrow> a8_ready lo s \<or>
     l0_table s = 0 \<and> page_aligned (heap_ptr s) \<and> 0 < lo \<and> lo \<le> heap_ptr s \<and> free_clear s \<and>
     heap_ptr s \<le> sym_HEAP_END s \<and> sym_HEAP_END s \<le> 0x1000000000000"

lemma root_cleared:
  assumes st: "a8_startable lo s" and g: "get_txln_table s = Inr (t, s0)"
  shows "t = l0_table s0" "l0_table s0 \<noteq> 0" "a8_ready lo (clear_table (l0_table s0) s0)"
    "a8_view (clear_table (l0_table s0) s0) = (\<lambda>_. None)"
proof -
  let ?m = "clear_entries (l0_table s0) (a8_cells s0)"
  have all: "t = l0_table s0 \<and> l0_table s0 \<noteq> 0 \<and> a8_ready lo (clear_table (l0_table s0) s0) \<and>
      a8_view (clear_table (l0_table s0) s0) = (\<lambda>_. None)"
  proof (cases "l0_table s = 0")
    case False
    then have s0: "s0 = s" "t = l0_table s" using g by (auto simp: get_txln_table_def)
    have rd: "a8_ready lo s" using st False by (simp add: a8_startable_def)
    then have b: "a8_built lo s" "heap_ptr s \<le> sym_HEAP_END s" by (simp_all add: a8_ready_def)
    note D = a8_builtD [OF b(1)]
    have cl: "\<forall>j<512. \<not> a8_present (?m (cell (l0_table s) j)) \<and>
        a8_base (?m (cell (l0_table s) j)) = a8_base (a8_cells s (cell (l0_table s) j)) \<and> a8_shape (?m (cell (l0_table s) j))"
      and fr: "\<forall>a. (\<forall>j<512. a \<noteq> cell (l0_table s) j) \<longrightarrow> ?m a = a8_cells s a"
      by (auto simp: clear_entries_eq s0)
    note C = a8.cleared_root [OF D(1,2) cl fr]
    have "a8_base (?m a) = a8_base (a8_cells s a)" for a by (simp add: clear_entries_eq s0)
    then show ?thesis
      using C D(3,4,6) b(2) s0 by (auto simp: a8_ready_def a8_pages_ok_def a8_built_def clear_table_def free_clear_def a8_view_def fun_eq_iff)
  next
    case True
    then have h: "page_aligned (heap_ptr s)" "0 < lo" "lo \<le> heap_ptr s" "free_clear s"
      "heap_ptr s \<le> sym_HEAP_END s" "sym_HEAP_END s \<le> 0x1000000000000"
      using st a8_builtD(6) by (auto simp: a8_startable_def a8_ready_def)
    have room: "\<not> sym_HEAP_END s < heap_ptr s + 4096" and s0: "t = heap_ptr s" "s0 = s\<lparr>heap_ptr := heap_ptr s + 4096, l0_table := heap_ptr s\<rparr>"
      using g True by (auto simp: get_txln_table_def heap_get_page_eq split: if_splits)
    note R = heap_room [OF room h(6,5)]
    have al: "page_aligned (heap_ptr s + 4096)" using page_aligned_next [OF h(1)] by simp
    have in_page: "heap_ptr s \<le> cell (heap_ptr s) j \<and> cell (heap_ptr s) j < heap_ptr s + 4096" if "j < 512" for j
      using a8.cell_bounds [OF h(1) al _ R(1) that, of "heap_ptr s"] by simp
    have z: "\<forall>j<512. a8_base (?m (cell (heap_ptr s) j)) = 0 \<and> \<not> a8_present (?m (cell (heap_ptr s) j)) \<and> a8_shape (?m (cell (heap_ptr s) j))"
    proof (intro allI impI)
      fix j :: u32 assume j: "j < 512"
      have "a8_base (a8_cells s (cell (heap_ptr s) j)) = 0"
        using h(4) in_page [OF j] R(3) by (auto simp: free_clear_def intro: less_le_trans)
      then show "a8_base (?m (cell (heap_ptr s) j)) = 0 \<and> \<not> a8_present (?m (cell (heap_ptr s) j)) \<and> a8_shape (?m (cell (heap_ptr s) j))"
        using j by (auto simp: clear_entries_eq s0)
    qed
    note F = a8.fresh_root [OF h(1-3) R(1) al z]
    have "a8_base (?m a) = a8_base (a8_cells s a)" for a by (simp add: clear_entries_eq s0)
    then have "free_clear (clear_table (l0_table s0) s0)"
      using h(4) R(1) unfolding free_clear_def clear_table_def by (auto simp: s0)
    then show ?thesis
      using F s0 R h by (auto simp: a8_ready_def a8_pages_ok_def a8_built_def clear_table_def a8_view_def fun_eq_iff)
  qed
  then show "t = l0_table s0" "l0_table s0 \<noteq> 0" "a8_ready lo (clear_table (l0_table s0) s0)"
    "a8_view (clear_table (l0_table s0) s0) = (\<lambda>_. None)" by blast+
qed

lemma a8_index_bits: "bit (ucast (drop_bit k (w :: u64)) AND 511 :: u32) n \<longleftrightarrow> n < 9 \<and> bit w (k + n)"
proof -
  have "(511 :: u32) = mask 9" by (simp add: mask_eq_exp_minus_1)
  then have "bit (511 :: u32) n \<longleftrightarrow> n < 9" by (simp only: bit_mask_iff) auto
  then show ?thesis by (simp only: bit_simps possible_bit_word o_apply) auto
qed

lemma a8_path_eq_iff:
  "a8_path a = a8_path b \<longleftrightarrow> (\<forall>n. 12 \<le> n \<and> n < 48 \<longrightarrow> bit a n = bit b n)"
  unfolding page_bits_iff a8_path_def list.inject index_eq_iff [OF a8_index_bits a8_index_bits] by simp

definition pages_of :: "u64 \<times> u64 \<Rightarrow> u64 list" where
  "pages_of r = region_pages 0x1000 (snd r) (fst r AND NOT 0xfff)"

definition text_pages :: "a8_image \<Rightarrow> u64 list" where
  "text_pages img = pages_of (a8_TEXT_START img, a8_TEXT_END img)"

definition data_pages :: "a8_image \<Rightarrow> u64 list" where
  "data_pages img = pages_of (a8_DATA_START img, a8_DATA_END img)"

definition device_pages :: "a8_image \<Rightarrow> u64 list" where
  "device_pages img = concat (map pages_of (a8_devices img))"

definition a8_image_ok :: "a8_image \<Rightarrow> bool" where
  [model_eval]: "a8_image_ok img \<longleftrightarrow> a8_TEXT_END img < 2 ^ 48 \<and> a8_DATA_END img < 2 ^ 48 \<and>
     list_all (\<lambda>r. snd r < 2 ^ 48) (a8_devices img)"

lemma region_eq:
  assumes "hi < (2 ^ 48 :: u64)"
  shows "create_region_data lo hi s = Some (map_pages a8_create_page_mapping_data (map (\<lambda>a. (a, a)) (pages_of (lo, hi))) s)"
    and "create_region_code lo hi s = Some (map_pages a8_create_page_mapping_code (map (\<lambda>a. (a, a)) (pages_of (lo, hi))) s)"
    and "create_region_device lo hi s = Some (map_pages a8_create_page_mapping_device (map (\<lambda>a. (a, a)) (pages_of (lo, hi))) s)"
proof -
  have p: "a8_page_size = 0x1000" "a8_page_size - 1 = 0xfff" by (simp_all add: a8_page_size_def push_bit_eq_mult)
  have "(0 :: u64) < 0x1000" "unat hi + unat (0x1000 :: u64) < 2 ^ LENGTH(64)"
    using assms by (simp_all add: word_less_nat_alt)
  note L = identity_loop_eq [OF this]
  show "create_region_data lo hi s = Some (map_pages a8_create_page_mapping_data (map (\<lambda>a. (a, a)) (pages_of (lo, hi))) s)"
    "create_region_code lo hi s = Some (map_pages a8_create_page_mapping_code (map (\<lambda>a. (a, a)) (pages_of (lo, hi))) s)"
    "create_region_device lo hi s = Some (map_pages a8_create_page_mapping_device (map (\<lambda>a. (a, a)) (pages_of (lo, hi))) s)"
    unfolding create_region_data_def create_region_code_def create_region_device_def p L pages_of_def fst_conv snd_conv by simp_all
qed

lemma bindL_simps [simp]:
  "bindL (Some (Inr s)) f = f s" "bindL (Some (Inl e)) f = Some (Inl e)" "bindL None f = None"
  by (simp_all add: bindL_def)

lemma bindL_Some: "bindL (Some m) (\<lambda>s. Some (f s)) = Some (bindE m f)"
  by (cases m) simp_all

lemma map_devices_eq:
  "list_all (\<lambda>r. snd r < 2 ^ 48) devs \<Longrightarrow> map_devices devs s =
    Some (map_pages a8_create_page_mapping_device (map (\<lambda>a. (a, a)) (concat (map pages_of devs))) s)"
proof (induction devs arbitrary: s)
  case (Cons r devs)
  obtain lo hi where r: "r = (lo, hi)" by (cases r)
  have h: "hi < 2 ^ 48" and IH: "\<And>s. map_devices devs s =
      Some (map_pages a8_create_page_mapping_device (map (\<lambda>a. (a, a)) (concat (map pages_of devs))) s)"
    using Cons r by simp_all
  show ?case
    using region_eq(3) [OF h, of lo s]
    by (simp add: r IH map_pages_append bindL_def bindE_def split: sum.splits)
qed simp

lemma pages_below:
  assumes "hi < 2 ^ 48" and "a \<in> set (pages_of (lo, hi))"
  shows "a < 2 ^ 48"
proof -
  have w: "(0 :: u64) < 0x1000" "unat hi + unat (0x1000 :: u64) < 2 ^ LENGTH(64)"
    using assms(1) by (simp_all add: word_less_nat_alt)
  have "a \<in> set (region_pages 0x1000 hi i) \<Longrightarrow> a \<le> hi" for i
  proof (induction "Suc (unat hi) - unat i" arbitrary: i rule: less_induct)
    case less
    then have le: "i \<le> hi" by (auto simp: region_pages_def split: if_splits)
    note R = region_pages_step [OF w le]
    have "Suc (unat hi) - unat (i + 0x1000) < Suc (unat hi) - unat i"
      using le R(2) by (simp add: word_le_nat_alt)
    then show ?case using less R(1) le by auto
  qed
  then show ?thesis using assms by (auto simp: pages_of_def intro: le_less_trans)
qed

lemma syscall_mem_init_eq:
  assumes "a8_image_ok img"
  shows "syscall_mem_init img s =
    Some (bindE (get_txln_table (s\<lparr>SCTLR_EL1 := SCTLR_EL1 s AND NOT (push_bit 19 1)\<rparr>)) (\<lambda>(table, s).
      bindE (clear_txln_table (s\<lparr>TTBR0_EL1 := table, TCR_EL1 := 0x100010\<rparr>)) (\<lambda>s.
      bindE (map_pages a8_create_page_mapping_code (map (\<lambda>a. (a, a)) (text_pages img)) s) (\<lambda>s.
      bindE (map_pages a8_create_page_mapping_data (map (\<lambda>a. (a, a)) (data_pages img)) s) (\<lambda>s.
      map_pages a8_create_page_mapping_device (map (\<lambda>a. (a, a)) (device_pages img)) s)))))"
proof -
  have e: "a8_TEXT_END img < 2 ^ 48" "a8_DATA_END img < 2 ^ 48" "list_all (\<lambda>r. snd r < 2 ^ 48) (a8_devices img)"
    using assms by (simp_all only: a8_image_ok_def)
  have tcr: "(0 OR push_bit 0 (64 - 48) OR push_bit 16 16 :: u64) = 0x100010"
    by (simp add: push_bit_eq_mult)
  show ?thesis
    unfolding syscall_mem_init_def Let_def tcr region_eq [OF e(1)] region_eq [OF e(2)] map_devices_eq [OF e(3)]
      text_pages_def data_pages_def device_pages_def
    by (simp add: bindL_Some case_prod_unfold bindL_def bindE_def split: sum.splits)
qed

lemma a8_page_error:
  "get_txln_table s = Inl e \<Longrightarrow> e = Out_of_heap" "walk_tables va s = Inl e \<Longrightarrow> e = Out_of_heap"
proof -
  show t: "get_txln_table s = Inl e \<Longrightarrow> e = Out_of_heap" for s e
    by (auto simp: get_txln_table_def heap_get_page_eq split: if_splits)
  have d: "get_descriptor k t va s = Inl e \<Longrightarrow> e = Out_of_heap" for k t s e
    by (auto simp: get_descriptor_def Let_def heap_get_page_eq bindE_def split: if_splits sum.splits)
  show "walk_tables va s = Inl e \<Longrightarrow> e = Out_of_heap"
    by (auto simp: walk_tables_def get_l1_table_def get_l2_table_def get_l3_table_def bindE_def
        dest: t d split: sum.splits prod.splits)
qed

lemma a8_mapper_error:
  assumes "a8_mapper f entry" "f pa va s = Inl e"
  shows "e = Out_of_heap"
proof -
  have "bindE (walk_tables va s) (\<lambda>(l3, s). Inr (a8_poke (get_l3_descriptor l3 va) (entry pa) s)) = Inl e"
    using assms by (simp add: a8_mapper_def)
  then show ?thesis by (cases "walk_tables va s") (auto dest: a8_page_error(2))
qed

lemma a8_map_pages_error:
  "\<lbrakk>a8_mapper f entry; map_pages f ps s = Inl e\<rbrakk> \<Longrightarrow> e = Out_of_heap"
proof (induction ps arbitrary: s)
  case (Cons p ps)
  then show ?case by (cases p) (auto simp: bindE_def dest: a8_mapper_error split: sum.splits)
qed simp

lemma syscall_mem_init_error:
  assumes "a8_image_ok img" "syscall_mem_init img s = Some (Inl e)"
  shows "e = Out_of_heap"
  using assms(2) unfolding syscall_mem_init_eq [OF assms(1)]
  by (auto simp: bindE_def clear_txln_table_def dest: a8_page_error(1) a8_map_pages_error [OF a8_mappers(1)]
      a8_map_pages_error [OF a8_mappers(2)] a8_map_pages_error [OF a8_mappers(3)] split: sum.splits prod.splits)

lemma a8_view_cong:
  assumes "a8_cells s' = a8_cells s" "l0_table s' = l0_table s" "heap_ptr s' = heap_ptr s" "sym_HEAP_END s' = sym_HEAP_END s"
  shows "a8_ready lo s' = a8_ready lo s" "a8_view s' = a8_view s" "a8_startable lo s' = a8_startable lo s"
  unfolding a8_startable_def a8_ready_def a8_pages_ok_def a8_built_def free_clear_def assms a8_view_def by simp_all

lemma entries_by_page:
  assumes "\<And>pa. entry pa = (pa AND NOT 0xfff) OR x" and "\<forall>a\<in>set ps. a < 2 ^ 48"
  shows "\<forall>a\<in>set ps. \<forall>b\<in>set ps. a8_path a = a8_path b \<longrightarrow> entry a = entry (b :: u64)"
proof (intro ballI impI)
  fix a b assume "a \<in> set ps" "b \<in> set ps" "a8_path a = a8_path b"
  then have "a AND NOT 0xfff = b AND NOT 0xfff"
    using assms(2) by (intro same_page) (simp_all add: a8_path_eq_iff)
  then show "entry a = entry b" unfolding assms(1) by simp
qed

lemma syscall_mem_init_view:
  assumes st: "a8_startable lo s" and im: "a8_image_ok img"
    and r: "syscall_mem_init img s = Some (Inr s')"
  shows "a8_ready lo s'" "TTBR0_EL1 s' = l0_table s'"
    and "a \<in> set (device_pages img) \<Longrightarrow> a8_view s' (a8_path a) = Some (device_entry a)"
    and "\<lbrakk>a \<in> set (data_pages img); a8_path a \<notin> a8_path ` set (device_pages img)\<rbrakk>
      \<Longrightarrow> a8_view s' (a8_path a) = Some (data_entry a)"
    and "\<lbrakk>a \<in> set (text_pages img); a8_path a \<notin> a8_path ` (set (data_pages img) \<union> set (device_pages img))\<rbrakk>
      \<Longrightarrow> a8_view s' (a8_path a) = Some (code_entry a)"
    and "q \<notin> a8_path ` (set (text_pages img) \<union> set (data_pages img) \<union> set (device_pages img)) \<Longrightarrow> a8_view s' q = None"
proof -
  have e: "a8_TEXT_END img < 2 ^ 48" "a8_DATA_END img < 2 ^ 48" "list_all (\<lambda>r. snd r < 2 ^ 48) (a8_devices img)"
    using im by (simp_all only: a8_image_ok_def)
  let ?sc = "s\<lparr>SCTLR_EL1 := SCTLR_EL1 s AND NOT (push_bit 19 1)\<rparr>"
  obtain t s0 s1 s2 s3 where g: "get_txln_table ?sc = Inr (t, s0)"
    and c: "clear_txln_table (s0\<lparr>TTBR0_EL1 := t, TCR_EL1 := 0x100010\<rparr>) = Inr s1"
    and m2: "map_pages a8_create_page_mapping_code (map (\<lambda>a. (a, a)) (text_pages img)) s1 = Inr s2"
    and m3: "map_pages a8_create_page_mapping_data (map (\<lambda>a. (a, a)) (data_pages img)) s2 = Inr s3"
    and m4: "map_pages a8_create_page_mapping_device (map (\<lambda>a. (a, a)) (device_pages img)) s3 = Inr s'"
    using r unfolding syscall_mem_init_eq [OF im] by auto
  have "a8_startable lo ?sc" using st by (subst a8_view_cong(3)) simp_all
  note R = root_cleared [OF this g]
  have s1: "s1 = clear_table (l0_table s0) (s0\<lparr>TTBR0_EL1 := t, TCR_EL1 := 0x100010\<rparr>)"
    using c R(2) by (auto simp: clear_txln_table_def get_txln_table_def)
  have cong: "a8_ready lo s1 = a8_ready lo (clear_table (l0_table s0) s0)" "a8_view s1 = a8_view (clear_table (l0_table s0) s0)"
    by (intro a8_view_cong; simp add: s1 clear_table_def)+
  have b1: "a8_ready lo s1" and v1: "a8_view s1 = (\<lambda>_. None)" using R(3,4) by (simp_all add: cong)
  have b2: "a8_ready lo s2" by (rule a8_code.map_pages_inv [OF b1 m2])
  have b3: "a8_ready lo s3" by (rule a8_data.map_pages_inv [OF b2 m3])
  show b4: "a8_ready lo s'" by (rule a8_device.map_pages_inv [OF b3 m4])
  have lt: "\<forall>a\<in>set (text_pages img). a < 2 ^ 48" "\<forall>a\<in>set (data_pages img). a < 2 ^ 48"
    "\<forall>a\<in>set (device_pages img). a < 2 ^ 48"
    using e pages_below by (auto simp: text_pages_def data_pages_def device_pages_def list_all_iff)
  note I2 = a8_code.identity_region [OF b1 m2 entries_by_page [OF code_entry_def lt(1)]]
  note I3 = a8_data.identity_region [OF b2 m3 entries_by_page [OF data_entry_def lt(2)]]
  note I4 = a8_device.identity_region [OF b3 m4 entries_by_page [OF device_entry_def lt(3)]]
  show "a8_view s' (a8_path a) = Some (device_entry a)" if "a \<in> set (device_pages img)" using I4(1) that by simp
  show "a8_view s' (a8_path a) = Some (data_entry a)"
    if "a \<in> set (data_pages img)" "a8_path a \<notin> a8_path ` set (device_pages img)" using I4(2) I3(1) that by simp
  show "a8_view s' (a8_path a) = Some (code_entry a)"
    if "a \<in> set (text_pages img)" "a8_path a \<notin> a8_path ` (set (data_pages img) \<union> set (device_pages img))"
    using I4(2) I3(2) I2(1) that by (simp add: image_Un)
  show "a8_view s' q = None" if "q \<notin> a8_path ` (set (text_pages img) \<union> set (data_pages img) \<union> set (device_pages img))"
    using I4(2) I3(2) I2(2) v1 that by (simp add: image_Un)
  have fr: "TTBR0_EL1 y = TTBR0_EL1 x \<and> l0_table y = l0_table x"
    if "a8_mapper f entry" "a8_ready lo x" "map_pages f ps x = Inr y" for f entry ps x y
    using that(2,3)
  proof (induction ps arbitrary: x)
    case (Cons p ps)
    then obtain pa va x1 where x1: "f pa va x = Inr x1" "map_pages f ps x1 = Inr y" by (cases p) auto
    note M = a8_mapping_ok [OF that(1) Cons.prems(1) x1(1)]
    have "TTBR0_EL1 x1 = TTBR0_EL1 x" "l0_table x1 = l0_table x" by (subst M(3), simp)+
    then show ?case using Cons.IH [OF M(1) x1(2)] by simp
  qed simp
  have "TTBR0_EL1 s1 = l0_table s1" using R(1) by (simp add: s1 clear_table_def)
  then show "TTBR0_EL1 s' = l0_table s'"
    using fr [OF a8_mappers(2) b1 m2] fr [OF a8_mappers(1) b2 m3] fr [OF a8_mappers(3) b3 m4] by simp
qed

subsection \<open>Room for the tables\<close>

definition a8_room :: "nat \<Rightarrow> armv8_state \<Rightarrow> bool" where
  "a8_room k s \<longleftrightarrow> unat (heap_ptr s) + 0x1000 * k \<le> unat (sym_HEAP_END s)"

lemma a8_get_page_room:
  assumes "a8_room (Suc k) s"
  obtains p s' where "armv8_heap_get_page s = Inr (p, s')" and "s' = s\<lparr>heap_ptr := heap_ptr s + 4096\<rparr>" and "a8_room k s'"
proof -
  have b: "unat (heap_ptr s) + 4096 + 4096 * k \<le> unat (sym_HEAP_END s)" using assms by (simp add: a8_room_def)
  have "unat (sym_HEAP_END s) < 2 ^ 64" using unsigned_less [of "sym_HEAP_END s", where 'a = nat] by simp
  then have "unat (heap_ptr s) + 4096 < 2 ^ 64" using b by simp
  then have n: "unat (heap_ptr s + 4096) = unat (heap_ptr s) + 4096"
    by (subst unat_add_lem [THEN iffD1]) simp_all
  then show ?thesis
    using b that by (simp add: heap_get_page_eq word_less_nat_alt a8_room_def)
qed

lemma a8_room_weaken: "a8_room (Suc k) s \<Longrightarrow> a8_room k s"
  by (simp add: a8_room_def)

lemma a8_room_frame:
  "a8_room k (clear_table t s) = a8_room k s" "a8_room k (a8_poke a v s) = a8_room k s"
  "a8_room k (s\<lparr>l0_table := t\<rparr>) = a8_room k s"
  "a8_room k (s\<lparr>TTBR0_EL1 := t\<rparr>) = a8_room k s" "a8_room k (s\<lparr>TCR_EL1 := t\<rparr>) = a8_room k s"
  "a8_room k (s\<lparr>SCTLR_EL1 := c\<rparr>) = a8_room k s"
  by (simp_all add: a8_room_def clear_table_def a8_poke_def)

lemma get_descriptor_succeeds:
  assumes "a8_room (Suc k) s"
  shows "\<exists>d s'. get_descriptor sh t va s = Inr (d, s') \<and> a8_room k s' \<and> l0_table s' = l0_table s"
proof -
  obtain p s' where p: "armv8_heap_get_page s = Inr (p, s')" "s' = s\<lparr>heap_ptr := heap_ptr s + 4096\<rparr>" "a8_room k s'"
    using a8_get_page_room [OF assms] .
  then have "l0_table s' = l0_table s" by simp
  then show ?thesis
    using p(1,3) a8_room_weaken [OF assms]
    by (auto simp: get_descriptor_def Let_def a8_room_frame) (simp_all add: clear_table_def a8_poke_def)
qed

lemma get_txln_table_succeeds:
  assumes "a8_room (Suc k) s"
  shows "\<exists>t s'. get_txln_table s = Inr (t, s') \<and> a8_room k s' \<and> (l0_table s \<noteq> 0 \<longrightarrow> s' = s)"
proof -
  obtain p s' where "armv8_heap_get_page s = Inr (p, s')" "a8_room k s'"
    using a8_get_page_room [OF assms] .
  then show ?thesis using a8_room_weaken [OF assms] by (auto simp: get_txln_table_def a8_room_frame)
qed

lemma walk_tables_succeeds:
  assumes "a8_room (k + 3) s" "l0_table s \<noteq> 0"
  shows "\<exists>l3 s'. walk_tables va s = Inr (l3, s') \<and> a8_room k s' \<and> l0_table s' = l0_table s"
proof -
  have r: "a8_room (Suc (Suc (Suc k))) s" using assms(1) by (simp add: numeral_3_eq_3)
  obtain d1 s1 where 1: "get_descriptor 39 (l0_table s) va s = Inr (d1, s1)" "a8_room (Suc (Suc k)) s1" "l0_table s1 = l0_table s"
    using get_descriptor_succeeds [OF r] by blast
  obtain d2 s2 where 2: "get_descriptor 30 (d1 AND table_mask) va s1 = Inr (d2, s2)" "a8_room (Suc k) s2" "l0_table s2 = l0_table s1"
    using get_descriptor_succeeds [OF 1(2)] by blast
  obtain d3 s3 where 3: "get_descriptor 21 (d2 AND table_mask) va s2 = Inr (d3, s3)" "a8_room k s3" "l0_table s3 = l0_table s2"
    using get_descriptor_succeeds [OF 2(2)] by blast
  show ?thesis
    using assms(2) 1 2 3
    by (simp add: walk_tables_def get_txln_table_def get_l1_table_def get_l2_table_def get_l3_table_def)
qed

lemma a8_mapping_succeeds:
  assumes "a8_mapper f entry" "a8_room (k + 3) s" "l0_table s \<noteq> 0"
  shows "\<exists>s'. f pa va s = Inr s' \<and> a8_room k s' \<and> l0_table s' = l0_table s"
proof -
  obtain l3 s' where w: "walk_tables va s = Inr (l3, s')" "a8_room k s'" "l0_table s' = l0_table s"
    using walk_tables_succeeds [OF assms(2,3)] by blast
  then show ?thesis using assms(1) by (auto simp: a8_mapper_def a8_room_frame) (simp_all add: a8_poke_def)
qed

lemma a8_map_pages_succeeds:
  assumes "a8_mapper f entry" "a8_room (k + 3 * length ps) s" "l0_table s \<noteq> 0"
  shows "\<exists>s'. map_pages f ps s = Inr s' \<and> a8_room k s' \<and> l0_table s' = l0_table s"
  using assms(2,3)
proof (induction ps arbitrary: s)
  case (Cons p ps)
  have "a8_room ((k + 3 * length ps) + 3) s" using Cons.prems(1) by (simp add: algebra_simps)
  from a8_mapping_succeeds [OF assms(1) this Cons.prems(2), of "fst p" "snd p"]
  obtain s1 where 1: "f (fst p) (snd p) s = Inr s1" "a8_room (k + 3 * length ps) s1" "l0_table s1 = l0_table s" by blast
  then show ?case using Cons.IH [OF 1(2)] Cons.prems(2) by (cases p) auto
qed simp

lemma syscall_mem_init_succeeds:
  assumes "a8_image_ok img" "l0_table s = 0 \<longrightarrow> heap_ptr s \<noteq> 0"
    and "a8_room (1 + 3 * (length (text_pages img) + length (data_pages img) + length (device_pages img))) s"
  shows "\<exists>s'. syscall_mem_init img s = Some (Inr s')"
proof -
  let ?c = "length (text_pages img)" and ?d = "length (data_pages img)" and ?v = "length (device_pages img)"
  let ?id = "map (\<lambda>a :: u64. (a, a))"
  let ?s = "s\<lparr>SCTLR_EL1 := SCTLR_EL1 s AND NOT (push_bit 19 1)\<rparr>"
  have "a8_room (Suc (3 * (?c + ?d + ?v))) ?s" using assms(3) by (simp add: a8_room_frame)
  from get_txln_table_succeeds [OF this]
  obtain t s1 where 1: "get_txln_table ?s = Inr (t, s1)" "a8_room (3 * (?c + ?d + ?v)) s1" by blast
  have t: "t \<noteq> 0 \<and> l0_table s1 = t"
    using 1(1) assms(2) by (auto simp: get_txln_table_def heap_get_page_eq split: if_splits)
  let ?s1 = "s1\<lparr>TTBR0_EL1 := t, TCR_EL1 := 0x100010\<rparr>"
  have c: "clear_txln_table ?s1 = Inr (clear_table t ?s1)"
    using t by (simp add: clear_txln_table_def get_txln_table_def)
  have "a8_room ((3 * ?v + 3 * ?d) + 3 * length (?id (text_pages img))) (clear_table t ?s1)"
    using 1(2) by (simp add: a8_room_frame algebra_simps)
  from a8_map_pages_succeeds [OF a8_mappers(2) this] t
  obtain s2 where 2: "map_pages a8_create_page_mapping_code (?id (text_pages img)) (clear_table t ?s1) = Inr s2"
    "a8_room (3 * ?v + 3 * ?d) s2" "l0_table s2 = t" by (auto simp: clear_table_def)
  have "a8_room (3 * ?v + 3 * length (?id (data_pages img))) s2" using 2(2) by simp
  from a8_map_pages_succeeds [OF a8_mappers(1) this] 2(3) t
  obtain s3 where 3: "map_pages a8_create_page_mapping_data (?id (data_pages img)) s2 = Inr s3"
    "a8_room (3 * ?v) s3" "l0_table s3 = t" by auto
  have "a8_room (0 + 3 * length (?id (device_pages img))) s3" using 3(2) by simp
  from a8_map_pages_succeeds [OF a8_mappers(3) this] 3(3) t
  obtain s4 where "map_pages a8_create_page_mapping_device (?id (device_pages img)) s3 = Inr s4" by auto
  then show ?thesis
    unfolding syscall_mem_init_eq [OF assms(1)] using 1(1) c 2(1) 3(1) by simp
qed

section \<open>Properties\<close>

text \<open>
  C17: each of the three armv8 mapping functions, on a well-built set of tables, makes the
  hardware translate exactly the addresses of the virtual page to the page descriptor of the
  physical page (user data, executable code or device memory), keeps every other translation
  and everything outside the table pages, and keeps the tables well built, also when it has to
  reuse a table that an earlier mem_init left linked but absent.
\<close>

theorem a8_mapping_correct:
  assumes "a8_ready lo s"
    and "(f, entry) = (a8_create_page_mapping_data, data_entry) \<or> (f, entry) = (a8_create_page_mapping_code, code_entry)
      \<or> (f, entry) = (a8_create_page_mapping_device, device_entry)"
    and "f pa va s = Inr s'"
  shows "a8_ready lo s' \<and>
    (\<forall>va'. a8_translate s' va' = (if \<forall>n. 12 \<le> n \<and> n < 48 \<longrightarrow> bit va' n = bit va n
       then Some (Inr (entry pa)) else a8_translate s va')) \<and>
    (\<forall>a. a < lo \<or> heap_ptr s' \<le> a \<longrightarrow> a8_cells s' a = a8_cells s a)"
proof -
  have m: "a8_mapper f entry" using assms(2) a8_mappers by auto
  note M = a8_mapping_ok [OF m assms(1,3)]
  show ?thesis
    using M(1,4) unfolding a8_translate_view [OF M(1)] a8_translate_view [OF assms(1)] M(2) a8_path_eq_iff [symmetric]
    by auto
qed

text \<open>
  C10: mem_init, from a fresh heap or on the tables of an earlier run, either runs out of heap or
  ends with TTBR0 naming tables that identity-map exactly the device ranges (as devices), the
  data section (user read/write) and the text section (read-only, executable), a page in
  several of them as the last one mapped; every mapping that was there before is gone.
\<close>

theorem a8_mem_init_identity:
  assumes "a8_startable lo s" and "a8_image_ok img"
  shows "case syscall_mem_init img s of
      None \<Rightarrow> False
    | Some (Inl e) \<Rightarrow> e = Out_of_heap
    | Some (Inr s') \<Rightarrow> a8_ready lo s' \<and> TTBR0_EL1 s' = l0_table s' \<and>
        (\<forall>a\<in>set (device_pages img). a8_translate s' a = Some (Inr (device_entry a))) \<and>
        (\<forall>a\<in>set (data_pages img). a8_path a \<notin> a8_path ` set (device_pages img) \<longrightarrow>
           a8_translate s' a = Some (Inr (data_entry a))) \<and>
        (\<forall>a\<in>set (text_pages img). a8_path a \<notin> a8_path ` (set (data_pages img) \<union> set (device_pages img)) \<longrightarrow>
           a8_translate s' a = Some (Inr (code_entry a))) \<and>
        (\<forall>va. a8_path va \<notin> a8_path ` (set (text_pages img) \<union> set (data_pages img) \<union> set (device_pages img)) \<longrightarrow>
           a8_translate s' va = None)"
proof (cases "syscall_mem_init img s")
  case None
  then show ?thesis unfolding syscall_mem_init_eq [OF assms(2)] by simp
next
  case (Some r)
  show ?thesis
  proof (cases r)
    case (Inr s')
    note V = syscall_mem_init_view [OF assms Some [unfolded Inr]]
    show ?thesis using Some Inr V by (simp add: a8_translate_view [OF V(1)])
  next
    case (Inl e)
    then have "syscall_mem_init img s = Some (Inl e)" using Some by simp
    then have "e = Out_of_heap" by (rule syscall_mem_init_error [OF assms(2)])
    then show ?thesis using Some Inl by simp
  qed
qed

text \<open>
  C26: with enough heap for the tables (three pages of tables for each page mapped and one root)
  mem_init succeeds: no loop runs forever and no allocation fails.
\<close>

theorem a8_mem_init_total:
  assumes "a8_image_ok img" and "l0_table s = 0 \<longrightarrow> heap_ptr s \<noteq> 0"
    and "unat (heap_ptr s) + 0x1000 * (1 + 3 * (length (text_pages img) + length (data_pages img) + length (device_pages img)))
      \<le> unat (sym_HEAP_END s)"
  shows "\<exists>s'. syscall_mem_init img s = Some (Inr s')"
  using syscall_mem_init_succeeds [OF assms(1,2)] assms(3) by (simp only: a8_room_def)

subsection \<open>Concrete instances\<close>

definition blank_a8 :: armv8_state where
  "blank_a8 = \<lparr>a8_cells = (\<lambda>_. 0), heap_ptr = 0x1000, sym_HEAP_END = 0x100000, l0_table = 0, SCTLR_EL1 = 0,
     TTBR0_EL1 = 0, TCR_EL1 = 0, CPACR_EL1 = 0, CNTKCTL_EL1 = 0, SPSR_EL1 = 0, ELR_EL1 = 0x80000, ESR_EL1 = 0,
     CurrentEL = 0, global_syscall_no = 0, el0_sync_table = (\<lambda>_. None), el0_irq_handler = None, backup_lr = 0\<rparr>"

definition demo_a8 :: a8_image where
  "demo_a8 = \<lparr>a8_TEXT_START = 0x200000, a8_TEXT_END = 0x200800, a8_DATA_START = 0x201000, a8_DATA_END = 0x202800,
     a8_devices = [(0x9000000, 0x9000ff8)]\<rparr>"

lemma demo_a8_pages: "text_pages demo_a8 = [0x200000]" "data_pages demo_a8 = [0x201000, 0x202000]"
    "device_pages demo_a8 = [0x9000000]" "a8_image_ok demo_a8"
  by (simp_all add: text_pages_def data_pages_def device_pages_def pages_of_def region_pages_def demo_a8_def
      a8_image_ok_def upt_rec)

lemma blank_a8_startable: "a8_startable 0x1000 blank_a8"
  by (simp add: a8_startable_def blank_a8_def page_aligned_def free_clear_def a8_base_def)

lemma blank_a8_ready: "a8_ready 0x1000 (blank_a8\<lparr>l0_table := 0x1000, heap_ptr := 0x2000\<rparr>)"
proof -
  have z: "\<forall>j<512. a8_base 0 = 0 \<and> \<not> a8_present 0 \<and> a8_shape 0"
    by (simp add: a8_base_def a8_present_def a8_shape_def)
  have "page_aligned (0x1000 :: u64)" "(0 :: u64) < 0x1000" "(0x1000 :: u64) \<le> 0x1000" "(0x1000 :: u64) < 0x2000"
    "page_aligned (0x2000 :: u64)" by (simp_all add: page_aligned_def)
  note F = a8.fresh_root [OF this, of "\<lambda>_. 0" a8_shape, OF z]
  show ?thesis
    using F by (auto simp: a8_ready_def a8_built_def blank_a8_def free_clear_def a8_base_def a8_pages_ok_def a8_view_def
        split: if_splits)
qed

lemma a8_mapping_correct_witness:
  "\<exists>s'. a8_translate s' 0xffff12345678 = Some (Inr (code_entry 0xb8000))"
proof -
  let ?s = "blank_a8\<lparr>l0_table := 0x1000, heap_ptr := 0x2000\<rparr>"
  have "a8_room (0 + 3) ?s" "l0_table ?s \<noteq> 0" by (simp_all add: a8_room_def blank_a8_def)
  from a8_mapping_succeeds [OF a8_mappers(2) this] obtain s'
    where s': "a8_create_page_mapping_code 0xb8000 0xffff12345000 ?s = Inr s'" by blast
  have "(a8_create_page_mapping_code, code_entry) = (a8_create_page_mapping_code, code_entry)" by simp
  from a8_mapping_correct [OF blank_a8_ready disjI2 [OF disjI1 [OF this]] s']
  have "a8_translate s' 0xffff12345678 =
    (if \<forall>n. 12 \<le> n \<and> n < 48 \<longrightarrow> bit (0xffff12345678 :: u64) n = bit (0xffff12345000 :: u64) n
     then Some (Inr (code_entry 0xb8000)) else a8_translate ?s 0xffff12345678)" by blast
  moreover have "a8_path 0xffff12345678 = a8_path 0xffff12345000" by (simp add: a8_path_def)
  ultimately show ?thesis by (auto simp: a8_path_eq_iff)
qed

lemma a8_mem_init_total_witness: "\<exists>s'. syscall_mem_init demo_a8 blank_a8 = Some (Inr s')"
  by (rule a8_mem_init_total [OF demo_a8_pages(4)]) (simp_all add: demo_a8_pages(1-3) blank_a8_def)

lemma a8_mem_init_identity_witness:
  "\<exists>s'. syscall_mem_init demo_a8 blank_a8 = Some (Inr s') \<and>
     a8_translate s' 0x202000 = Some (Inr (data_entry 0x202000)) \<and> a8_translate s' 0x400000 = None"
proof -
  have "a8_room (1 + 3 * (length (text_pages demo_a8) + length (data_pages demo_a8) + length (device_pages demo_a8))) blank_a8"
    by (simp add: a8_room_def demo_a8_pages(1-3) blank_a8_def)
  from syscall_mem_init_succeeds [OF demo_a8_pages(4) _ this]
  obtain s' where s': "syscall_mem_init demo_a8 blank_a8 = Some (Inr s')" by (auto simp: blank_a8_def)
  have "a8_path 0x202000 \<notin> a8_path ` set (device_pages demo_a8)"
    "a8_path 0x400000 \<notin> a8_path ` (set (text_pages demo_a8) \<union> set (data_pages demo_a8) \<union> set (device_pages demo_a8))"
    by (simp_all add: demo_a8_pages(1-3) a8_path_def)
  moreover have "0x202000 \<in> set (data_pages demo_a8)" by (simp add: demo_a8_pages(2))
  ultimately show ?thesis
    using a8_mem_init_identity [OF blank_a8_startable demo_a8_pages(4)] s' by simp
qed

end
