(* ===== verification/Armv8_Trap.thy ===== *)
theory Armv8_Trap
  imports Armv8_Memory
begin

section \<open>The armv8 port: system calls, exceptions, start-up\<close>

text \<open>
  syscall.c, exception.c, armv8.c and arch.c of src/arch/armv8, with the vector code of vectors.S
  as far as it decides whether a trap returns, over the state of Armv8_Memory. The privileged
  operations of the architecture interface (mem_init, the MMU and the interrupt switches, the
  privilege switches, the cache flush) are system calls, so each of them is a trap here.
\<close>

subsection \<open>syscall.c\<close>

definition ARMV8_SCTLR_I_FLAG :: u32 where [model_eval]: "ARMV8_SCTLR_I_FLAG = push_bit 12 1"

definition syscall_irq_disable :: "armv8_state \<Rightarrow> armv8_state" where
  "syscall_irq_disable s = s\<lparr>SCTLR_EL1 := SCTLR_EL1 s OR ARMV8_SCTLR_I_FLAG\<rparr>"

definition syscall_irq_enable :: "armv8_state \<Rightarrow> armv8_state" where
  "syscall_irq_enable s = s\<lparr>SCTLR_EL1 := SCTLR_EL1 s AND NOT ARMV8_SCTLR_I_FLAG\<rparr>"

definition syscall_priv_enter :: "armv8_state \<Rightarrow> armv8_state" where
  "syscall_priv_enter s = s\<lparr>SPSR_EL1 := (SPSR_EL1 s AND NOT (push_bit 2 3)) OR push_bit 2 1\<rparr>"

definition syscall_priv_leave :: "armv8_state \<Rightarrow> armv8_state" where
  "syscall_priv_leave s = s\<lparr>SPSR_EL1 := (SPSR_EL1 s AND NOT (push_bit 2 3)) OR push_bit 2 0\<rparr>"

definition SYSCALL_IRQ_ENABLE :: int where [model_eval]: "SYSCALL_IRQ_ENABLE = 1"
definition SYSCALL_IRQ_DISABLE :: int where [model_eval]: "SYSCALL_IRQ_DISABLE = 2"
definition SYSCALL_MEM_INIT :: int where [model_eval]: "SYSCALL_MEM_INIT = 3"
definition SYSCALL_MMU_ENABLE :: int where [model_eval]: "SYSCALL_MMU_ENABLE = 4"
definition SYSCALL_MMU_DISABLE :: int where [model_eval]: "SYSCALL_MMU_DISABLE = 5"
definition SYSCALL_FLUSH_DCACHE :: int where [model_eval]: "SYSCALL_FLUSH_DCACHE = 6"
definition SYSCALL_FLUSH_ICACHE :: int where [model_eval]: "SYSCALL_FLUSH_ICACHE = 7"
definition SYSCALL_PRIV_ENTER :: int where [model_eval]: "SYSCALL_PRIV_ENTER = 8"
definition SYSCALL_PRIV_LEAVE :: int where [model_eval]: "SYSCALL_PRIV_LEAVE = 9"

text \<open>The handlers return the int 0 for success; 1 makes the vector code of vectors.S abort.\<close>

definition zero :: "armv8_state \<Rightarrow> (armv8_fault + int \<times> armv8_state) option" where
  [model_eval]: "zero s = Some (Inr (0, s))"

definition armv8_handle_syscall :: "a8_image \<Rightarrow> armv8_state \<Rightarrow> (armv8_fault + int \<times> armv8_state) option" where
  "armv8_handle_syscall img s =
     (let n = global_syscall_no s in
      if n = SYSCALL_IRQ_DISABLE then zero (syscall_irq_disable s)
      else if n = SYSCALL_IRQ_ENABLE then zero (syscall_irq_enable s)
      else if n = SYSCALL_MEM_INIT then bindL (syscall_mem_init img s) zero
      else if n = SYSCALL_MMU_ENABLE then zero (syscall_mem_mmu_enable s)
      else if n = SYSCALL_MMU_DISABLE then zero (syscall_mem_mmu_disable s)
      else if n = SYSCALL_PRIV_ENTER then zero (syscall_priv_enter s)
      else if n = SYSCALL_PRIV_LEAVE then zero (syscall_priv_leave s)
      else Some (Inr (1, s)))"

subsection \<open>exception.c, armv8.c and the vector code\<close>

definition ARMV8_EC_UNKNOWN :: nat where [model_eval]: "ARMV8_EC_UNKNOWN = 0x0"
definition ARMV8_EC_SYSCALL :: nat where [model_eval]: "ARMV8_EC_SYSCALL = 0x15"

definition run_handle_syscall :: "a8_image \<Rightarrow> armv8_state \<Rightarrow> (armv8_fault + int \<times> armv8_state) option" where
  "run_handle_syscall img s =
     (let syndrome = ESR_EL1 s AND 0x1ffffff in
      if syndrome = 0 then zero s
      else if syndrome = 1 then armv8_handle_syscall img s
      else Some (Inl No_return_value))"

text \<open>elr is a uint32_t: the exception link register loses its upper half.\<close>

definition run_exception_skip :: "armv8_state \<Rightarrow> armv8_state" where
  "run_exception_skip s = s\<lparr>ELR_EL1 := ucast ((ucast (ELR_EL1 s) :: u32) + 4)\<rparr>"

text \<open>armv8_pabt_return of reset.S.\<close>

definition run_pabt_return :: "armv8_state \<Rightarrow> armv8_state" where
  "run_pabt_return s = s\<lparr>ELR_EL1 := backup_lr s\<rparr>"

definition armv8_install_sync_handler :: "nat \<Rightarrow> sync_handler \<Rightarrow> armv8_state \<Rightarrow> armv8_state" where
  "armv8_install_sync_handler ec h s = s\<lparr>el0_sync_table := (el0_sync_table s)(ec := Some h)\<rparr>"

definition armv8_install_syscall_handler :: "armv8_state \<Rightarrow> armv8_state" where
  "armv8_install_syscall_handler s = s\<lparr>el0_sync_table := (el0_sync_table s)(ARMV8_EC_SYSCALL := Some handle_syscall)\<rparr>"

definition a8_ifault_install_return :: "armv8_state \<Rightarrow> armv8_state" where
  "a8_ifault_install_return s = armv8_install_sync_handler 0x20 armv8_pabt_return s"

definition a8_ifault_install_break :: "armv8_state \<Rightarrow> armv8_fault + armv8_state" where
  "a8_ifault_install_break s = Inl Armv8_abort"

definition a8_dfault_install_skip :: "armv8_state \<Rightarrow> armv8_state" where
  "a8_dfault_install_skip s = armv8_install_sync_handler 0x24 exception_skip s"

definition a8_syscall_install_skip :: "armv8_state \<Rightarrow> armv8_state" where
  "a8_syscall_install_skip s = s"

definition a8_undef_install_skip :: "armv8_state \<Rightarrow> armv8_state" where
  "a8_undef_install_skip s = armv8_install_sync_handler ARMV8_EC_UNKNOWN exception_skip s"

definition a8_irq_install_handler :: "nat option \<Rightarrow> armv8_state \<Rightarrow> armv8_state" where
  "a8_irq_install_handler h s = s\<lparr>el0_irq_handler := h\<rparr>"

text \<open>The int result and the benchmark handler that was called.\<close>

definition el1_lower_irq_handler :: "armv8_state \<Rightarrow> int \<times> nat option" where
  "el1_lower_irq_handler s = (case el0_irq_handler s of None \<Rightarrow> (1, None) | Some h \<Rightarrow> (0, Some h))"

definition el1_lower_sync_handler :: "a8_image \<Rightarrow> armv8_state \<Rightarrow> (armv8_fault + int \<times> armv8_state) option" where
  "el1_lower_sync_handler img s =
     (let ec = unat (drop_bit 26 (ESR_EL1 s)) in
      case el0_sync_table s ec of
        None \<Rightarrow> Some (Inr (1, s))
      | Some handle_syscall \<Rightarrow> run_handle_syscall img s
      | Some exception_skip \<Rightarrow> zero (run_exception_skip s)
      | Some armv8_pabt_return \<Rightarrow> zero (run_pabt_return s))"

text \<open>
  The synchronous vectors of vectors.S: a handler result other than 0 branches to arch_abort.
  A trap delivers its class, the instruction-length bit and its syndrome in ESR_EL1.
\<close>

definition sync_trap :: "a8_image \<Rightarrow> u32 \<Rightarrow> u32 \<Rightarrow> armv8_state \<Rightarrow> (armv8_fault + armv8_state) option" where
  "sync_trap img ec iss s =
     bindL (el1_lower_sync_handler img (s\<lparr>ESR_EL1 := push_bit 26 ec OR push_bit 25 1 OR (iss AND 0x1ffffff)\<rparr>)) (\<lambda>(rc, s).
     if rc = 0 then Some (Inr s) else Some (Inl Armv8_abort))"

definition armv8_syscall :: "a8_image \<Rightarrow> int \<Rightarrow> armv8_state \<Rightarrow> (armv8_fault + armv8_state) option" where
  "armv8_syscall img call_no s = sync_trap img 0x15 1 (s\<lparr>global_syscall_no := call_no\<rparr>)"

definition armv8_get_current_el :: "armv8_state \<Rightarrow> u32" where
  "armv8_get_current_el s = CurrentEL s"

definition armv8_in_el1 :: "armv8_state \<Rightarrow> bool" where
  "armv8_in_el1 s \<longleftrightarrow> armv8_get_current_el s = 1"

definition a8_irq_enable :: "a8_image \<Rightarrow> armv8_state \<Rightarrow> (armv8_fault + armv8_state) option" where
  "a8_irq_enable img s =
     (if armv8_in_el1 s then Some (Inl Armv8_abort) else armv8_syscall img SYSCALL_IRQ_ENABLE s)"

definition a8_irq_disable :: "a8_image \<Rightarrow> armv8_state \<Rightarrow> (armv8_fault + armv8_state) option" where
  "a8_irq_disable img s =
     (if armv8_in_el1 s then Some (Inl Armv8_abort) else armv8_syscall img SYSCALL_IRQ_DISABLE s)"

definition a8_mem_init :: "a8_image \<Rightarrow> armv8_state \<Rightarrow> (armv8_fault + armv8_state) option" where
  "a8_mem_init img s = armv8_syscall img SYSCALL_MEM_INIT s"

definition a8_mem_reset :: "a8_image \<Rightarrow> armv8_state \<Rightarrow> (armv8_fault + armv8_state) option" where
  "a8_mem_reset img s = a8_mem_init img s"

definition a8_mmu_enable :: "a8_image \<Rightarrow> armv8_state \<Rightarrow> (armv8_fault + armv8_state) option" where
  "a8_mmu_enable img s = armv8_syscall img SYSCALL_MMU_ENABLE s"

definition a8_mmu_disable :: "a8_image \<Rightarrow> armv8_state \<Rightarrow> (armv8_fault + armv8_state) option" where
  "a8_mmu_disable img s = armv8_syscall img SYSCALL_MMU_DISABLE s"

definition a8_cache_flush :: "a8_image \<Rightarrow> armv8_state \<Rightarrow> (armv8_fault + armv8_state) option" where
  "a8_cache_flush img s =
     bindL (armv8_syscall img SYSCALL_FLUSH_ICACHE s) (armv8_syscall img SYSCALL_FLUSH_DCACHE)"

definition a8_tlb_flush :: "armv8_state \<Rightarrow> armv8_state" where "a8_tlb_flush s = s"
definition a8_tlb_evict :: "u64 \<Rightarrow> armv8_state \<Rightarrow> armv8_state" where "a8_tlb_evict ptr s = s"

definition a8_priv_enter :: "a8_image \<Rightarrow> armv8_state \<Rightarrow> (armv8_fault + armv8_state) option" where
  "a8_priv_enter img s = armv8_syscall img SYSCALL_PRIV_ENTER s"

definition a8_priv_leave :: "a8_image \<Rightarrow> armv8_state \<Rightarrow> (armv8_fault + armv8_state) option" where
  "a8_priv_leave img s = armv8_syscall img SYSCALL_PRIV_LEAVE s"

definition a8_arch_init :: "u64 \<Rightarrow> armv8_state \<Rightarrow> armv8_state" where
  "a8_arch_init heap_start s =
     (let fpen = push_bit 20 1 OR push_bit 21 1;
          s = s\<lparr>CPACR_EL1 := fpen\<rparr>;
          sctlr = SCTLR_EL1 s;
          sctlr = sctlr AND NOT (push_bit 4 1 OR push_bit 3 1);
          sctlr = sctlr OR push_bit 26 1;
          sctlr = sctlr OR push_bit 12 1;
          sctlr = sctlr OR push_bit 2 1;
          s = s\<lparr>SCTLR_EL1 := sctlr\<rparr>;
          s = armv8_install_syscall_handler s;
          s = s\<lparr>CNTKCTL_EL1 := CNTKCTL_EL1 s OR push_bit 0 1\<rparr>
      in armv8_heap_init heap_start s)"

section \<open>Traps\<close>

lemma esr_syndrome:
  "(push_bit 26 ec OR push_bit 25 1 OR (iss AND 0x1ffffff)) AND 0x1ffffff = (iss AND 0x1ffffff :: u32)"
  and esr_class: "ec < 64 \<Longrightarrow> drop_bit 26 (push_bit 26 ec OR push_bit 25 1 OR (iss AND 0x1ffffff)) = (ec :: u32)"
proof -
  have "(0x1ffffff :: u32) = mask 25" by (simp add: mask_eq_exp_minus_1)
  then have m: "bit (0x1ffffff :: u32) n \<longleftrightarrow> n < 25" for n by (simp only: bit_mask_iff) auto
  show "(push_bit 26 ec OR push_bit 25 1 OR (iss AND 0x1ffffff)) AND 0x1ffffff = (iss AND 0x1ffffff :: u32)"
    by (intro bit_eqI) (simp only: bit_or_iff bit_and_iff bit_push_bit_iff m, auto)
  assume "ec < 64"
  then have "unat ec < 2 ^ 6" by (simp add: word_less_nat_alt)
  then have "take_bit 6 ec = ec" by (simp add: word_unat_eq_iff unsigned_take_bit_eq take_bit_nat_eq_self)
  then have hi: "\<not> bit ec n" if "6 \<le> n" for n using that by (metis bit_take_bit_iff not_less)
  have "bit (drop_bit 26 (push_bit 26 ec OR push_bit 25 1 OR (iss AND 0x1ffffff))) n = bit ec n" for n
    unfolding bit_drop_bit_eq o_apply bit_or_iff bit_and_iff bit_push_bit_iff m
    using hi [of n] by (cases "n < 6") (auto simp: bit_1_iff)
  then show "drop_bit 26 (push_bit 26 ec OR push_bit 25 1 OR (iss AND 0x1ffffff)) = ec" by (simp add: bit_eq_iff)
qed

lemma sync_trap_eq:
  assumes "ec < 64"
  shows "sync_trap img ec iss s =
    (let s = s\<lparr>ESR_EL1 := push_bit 26 ec OR push_bit 25 1 OR (iss AND 0x1ffffff)\<rparr> in
     case el0_sync_table s (unat ec) of
       None \<Rightarrow> Some (Inl Armv8_abort)
     | Some handle_syscall \<Rightarrow>
         if iss AND 0x1ffffff = 0 then Some (Inr s)
         else if iss AND 0x1ffffff = 1 then
           bindL (armv8_handle_syscall img s) (\<lambda>(rc, s). if rc = 0 then Some (Inr s) else Some (Inl Armv8_abort))
         else Some (Inl No_return_value)
     | Some exception_skip \<Rightarrow> Some (Inr (run_exception_skip s))
     | Some armv8_pabt_return \<Rightarrow> Some (Inr (run_pabt_return s)))"
proof -
  let ?e = "push_bit 26 ec OR push_bit 25 1 OR (iss AND 0x1ffffff)"
  have c: "drop_bit 26 ?e = ec" "?e AND 0x1ffffff = iss AND 0x1ffffff"
    by (rule esr_class [OF assms], rule esr_syndrome)
  define e where "e = ?e"
  show ?thesis
    unfolding sync_trap_def el1_lower_sync_handler_def run_handle_syscall_def Let_def e_def [symmetric]
    using c unfolding e_def [symmetric]
    by (cases "el0_sync_table s (unat ec)") (auto simp: zero_def split: sync_handler.split)
qed

definition syscalls_on :: "armv8_state \<Rightarrow> bool" where
  [model_eval]: "syscalls_on s \<longleftrightarrow> el0_sync_table s ARMV8_EC_SYSCALL = Some handle_syscall"

lemma armv8_syscall_eq:
  assumes "syscalls_on s"
  shows "armv8_syscall img n s =
    bindL (armv8_handle_syscall img (s\<lparr>global_syscall_no := n, ESR_EL1 := 0x56000001\<rparr>))
      (\<lambda>(rc, s). if rc = 0 then Some (Inr s) else Some (Inl Armv8_abort))"
proof -
  have "(0x15 :: u32) < 64" by simp
  note T = sync_trap_eq [OF this]
  show ?thesis
    using assms by (simp add: armv8_syscall_def T syscalls_on_def ARMV8_EC_SYSCALL_def Let_def)
qed

section \<open>Properties\<close>

text \<open>
  Once the system-call handler is installed, entering and leaving the privileged mode through
  the system calls always returns, sets the exception level the return from the trap goes to
  (EL1 or EL0) and changes no other bit of the saved program status.
\<close>

theorem a8_privilege_switch:
  assumes "syscalls_on s"
  shows "(\<exists>s'. a8_priv_enter img s = Some (Inr s') \<and> SPSR_EL1 s' AND 0xc = 0x4 \<and>
      SPSR_EL1 s' AND NOT 0xc = SPSR_EL1 s AND NOT 0xc \<and> syscalls_on s') \<and>
    (\<exists>s'. a8_priv_leave img s = Some (Inr s') \<and> SPSR_EL1 s' AND 0xc = 0 \<and>
      SPSR_EL1 s' AND NOT 0xc = SPSR_EL1 s AND NOT 0xc \<and> syscalls_on s')"
  using assms
  by (simp add: a8_priv_enter_def a8_priv_leave_def armv8_syscall_eq armv8_handle_syscall_def SYSCALL_PRIV_ENTER_def
      SYSCALL_PRIV_LEAVE_def SYSCALL_IRQ_ENABLE_def SYSCALL_IRQ_DISABLE_def SYSCALL_MEM_INIT_def SYSCALL_MMU_ENABLE_def
      SYSCALL_MMU_DISABLE_def zero_def syscall_priv_enter_def syscall_priv_leave_def syscalls_on_def
      bit.conj_disj_distrib2 and.assoc push_bit_eq_mult)

text \<open>
  C25: the interrupt switches do not mask interrupts. Once the system-call handler is installed and the
  processor does not report level 1, they always return, but all they change of the control and
  status registers is bit 12 of SCTLR_EL1, the enable bit of the instruction cache: disabling interrupts
  switches the cache on, enabling them switches it off, and the mask bits of the saved program status that the
  return restores stay what they were.
\<close>

theorem a8_irq_switch_is_cache:
  assumes "syscalls_on s" and "\<not> armv8_in_el1 s"
  shows "(\<exists>s'. a8_irq_disable img s = Some (Inr s') \<and> bit (SCTLR_EL1 s') 12 \<and>
      (\<forall>n. n \<noteq> 12 \<longrightarrow> bit (SCTLR_EL1 s') n = bit (SCTLR_EL1 s) n) \<and> SPSR_EL1 s' = SPSR_EL1 s) \<and>
    (\<exists>s'. a8_irq_enable img s = Some (Inr s') \<and> \<not> bit (SCTLR_EL1 s') 12 \<and>
      (\<forall>n. n \<noteq> 12 \<longrightarrow> bit (SCTLR_EL1 s') n = bit (SCTLR_EL1 s) n) \<and> SPSR_EL1 s' = SPSR_EL1 s)"
proof -
  have b: "bit (SCTLR_EL1 s OR ARMV8_SCTLR_I_FLAG) n \<longleftrightarrow> bit (SCTLR_EL1 s) n \<or> n = 12"
    "bit (SCTLR_EL1 s AND NOT ARMV8_SCTLR_I_FLAG) n \<longleftrightarrow> bit (SCTLR_EL1 s) n \<and> n \<noteq> 12" for n
  proof -
    have f: "bit ARMV8_SCTLR_I_FLAG n \<longleftrightarrow> n = 12" unfolding ARMV8_SCTLR_I_FLAG_def bit_push_bit_iff bit_1_iff by auto
    show "bit (SCTLR_EL1 s OR ARMV8_SCTLR_I_FLAG) n \<longleftrightarrow> bit (SCTLR_EL1 s) n \<or> n = 12" by (simp add: bit_or_iff f)
    show "bit (SCTLR_EL1 s AND NOT ARMV8_SCTLR_I_FLAG) n \<longleftrightarrow> bit (SCTLR_EL1 s) n \<and> n \<noteq> 12"
      using bit_imp_le_length [of "SCTLR_EL1 s" n] by (auto simp: bit_and_iff bit_not_iff f)
  qed
  show ?thesis
    using assms
    by (simp add: a8_irq_enable_def a8_irq_disable_def armv8_syscall_eq armv8_handle_syscall_def SYSCALL_IRQ_ENABLE_def
        SYSCALL_IRQ_DISABLE_def zero_def syscall_irq_enable_def syscall_irq_disable_def b)
qed

text \<open>
  C27: with the system-call handler installed, mem_cache_flush always stops the machine: the
  handler knows neither of the two numbers it issues.
\<close>

theorem a8_cache_flush_aborts:
  assumes "syscalls_on s"
  shows "a8_cache_flush img s = Some (Inl Armv8_abort)"
  using assms
  by (simp add: a8_cache_flush_def armv8_syscall_eq armv8_handle_syscall_def SYSCALL_FLUSH_ICACHE_def SYSCALL_PRIV_ENTER_def
      SYSCALL_PRIV_LEAVE_def SYSCALL_IRQ_ENABLE_def SYSCALL_IRQ_DISABLE_def SYSCALL_MEM_INIT_def SYSCALL_MMU_ENABLE_def
      SYSCALL_MMU_DISABLE_def)

text \<open>exception_skip computes the next address in 32 bits, which is right below 4 GiB.\<close>

lemma next_instruction:
  assumes "unat (elr :: u64) + 4 < 2 ^ 32"
  shows "ucast ((ucast elr :: u32) + 4) = elr + 4"
proof -
  have u: "unat (ucast elr :: u32) = unat elr" using assms by (simp add: unsigned_ucast_eq take_bit_nat_eq_self)
  have u4: "unat ((ucast elr :: u32) + 4) = unat elr + 4" using assms u by (subst unat_add_lem [THEN iffD1]) simp_all
  have w4: "unat (elr + 4) = unat elr + 4" using assms by (subst unat_add_lem [THEN iffD1]) simp_all
  have "unat (ucast ((ucast elr :: u32) + 4) :: u64) = unat (elr + 4)"
    using assms u4 w4 by (simp add: unsigned_ucast_eq take_bit_nat_eq_self)
  then show ?thesis by (simp add: word_unat_eq_iff)
qed

text \<open>
  With the data-abort or the undefined-instruction skip installed, such a trap returns to
  the next instruction, provided the interrupted code lies in the low 4 GiB, and changes no
  other part of the machine than the exception registers.
\<close>

theorem a8_skip_trap:
  assumes "unat (ELR_EL1 s) + 4 < 2 ^ 32"
  shows "(\<exists>esr. sync_trap img 0x24 iss (a8_dfault_install_skip s) =
      Some (Inr ((a8_dfault_install_skip s)\<lparr>ESR_EL1 := esr, ELR_EL1 := ELR_EL1 s + 4\<rparr>))) \<and>
    (\<exists>esr. sync_trap img 0 iss (a8_undef_install_skip s) =
      Some (Inr ((a8_undef_install_skip s)\<lparr>ESR_EL1 := esr, ELR_EL1 := ELR_EL1 s + 4\<rparr>)))"
proof -
  note e = next_instruction [OF assms]
  have lt: "(0x24 :: u32) < 64" "(0 :: u32) < 64" by simp_all
  show ?thesis
    by (simp add: sync_trap_eq [OF lt(1)] sync_trap_eq [OF lt(2)] a8_dfault_install_skip_def a8_undef_install_skip_def
        armv8_install_sync_handler_def Let_def run_exception_skip_def e ARMV8_EC_UNKNOWN_def) blast
qed

subsection \<open>Concrete instances\<close>

lemma a8_privilege_switch_witness:
  "\<exists>s'. a8_priv_enter demo_a8 (armv8_install_syscall_handler blank_a8) = Some (Inr s') \<and> SPSR_EL1 s' AND 0xc = 0x4"
proof -
  have "syscalls_on (armv8_install_syscall_handler blank_a8)"
    by (simp add: syscalls_on_def armv8_install_syscall_handler_def)
  from a8_privilege_switch [OF this, of demo_a8] show ?thesis by blast
qed

lemma a8_irq_switch_is_cache_witness:
  "\<exists>s'. a8_irq_disable demo_a8 (armv8_install_syscall_handler blank_a8) = Some (Inr s') \<and> bit (SCTLR_EL1 s') 12"
proof -
  have "syscalls_on (armv8_install_syscall_handler blank_a8)" "\<not> armv8_in_el1 (armv8_install_syscall_handler blank_a8)"
    by (simp_all add: syscalls_on_def armv8_install_syscall_handler_def armv8_in_el1_def armv8_get_current_el_def blank_a8_def)
  from a8_irq_switch_is_cache [OF this, of demo_a8] show ?thesis by blast
qed

lemma a8_cache_flush_aborts_witness:
  "a8_cache_flush demo_a8 (armv8_install_syscall_handler blank_a8) = Some (Inl Armv8_abort)"
  by (rule a8_cache_flush_aborts) (simp add: syscalls_on_def armv8_install_syscall_handler_def)

lemma a8_skip_trap_witness:
  "\<exists>esr. sync_trap demo_a8 0x24 7 (a8_dfault_install_skip blank_a8) =
     Some (Inr ((a8_dfault_install_skip blank_a8)\<lparr>ESR_EL1 := esr, ELR_EL1 := 0x80004\<rparr>))"
proof -
  have e: "ELR_EL1 blank_a8 = 0x80000" by (simp add: blank_a8_def)
  then have "unat (ELR_EL1 blank_a8) + 4 < 2 ^ 32" by simp
  from a8_skip_trap [OF this, of demo_a8 7, THEN conjunct1] show ?thesis by (simp only: e) simp
qed

end
