(* ===== verification/Harness.thy ===== *)
theory Harness
  imports Printf
begin

section \<open>The harness (harness.c) and the progress spinner (debug.c)\<close>

text \<open>
  The harness runs every benchmark of the linker section .benchmarks, here a list, and reports
  through the file OUTPUT. The benchmark's functions and the privilege switches of the
  architecture are function pointers and external functions: they take the machine's state 's to
  a new state, or end in an abort, a value of 'e. The structure harness_env holds what the linker
  binds: the architecture's switches, the registered output file, the build (arm), and the former
  contents of the stack array of fprintf.
\<close>

type_synonym ('e, 's) routine = "'s \<Rightarrow> 'e + 's"

record ('e, 's) benchmark_t =
  bm_name :: string
  category :: string
  kernel_init :: "('e, 's) routine option"
  kernel :: "('e, 's) routine"
  kernel_cleanup :: "('e, 's) routine option"
  kernel_control :: "('e, 's) routine option"
  iteration_count :: u64
  kernel_priv :: u8

record ('e, 's) harness_env =
  he_arm :: bool
  he_junk :: "char list"
  OUTPUT :: "'s FILE_t option"
  priv_enter :: "('e, 's) routine"
  priv_leave :: "('e, 's) routine"

datatype 'e harness_fault = Print_fault printf_fault | Abort_in 'e

definition call :: "('e, 's) routine \<Rightarrow> 's \<Rightarrow> 'e harness_fault + 's" where
  "call f s = (case f s of Inl e \<Rightarrow> Inl (Abort_in e) | Inr s \<Rightarrow> Inr s)"

fun call_if_set :: "('e, 's) routine option \<Rightarrow> 's \<Rightarrow> 'e harness_fault + 's" where
  "call_if_set None s = Inr s"
| "call_if_set (Some f) s = call f s"

definition out :: "('e, 's) harness_env \<Rightarrow> string \<Rightarrow> vararg list \<Rightarrow> 's \<Rightarrow> 'e harness_fault + 's" where
  "out env fmt args s =
     (case fprintf (he_arm env) (he_junk env) (OUTPUT env) fmt args s of
        Inl e \<Rightarrow> Inl (Print_fault e) | Inr (rc, s) \<Rightarrow> Inr s)"

definition crlf :: string where "crlf = [CHR 0x0D, CHR 0x0A]"

text \<open>The guarded switches around kernel_control and around kernel.\<close>

definition priv_if ::
  "('e, 's) benchmark_t \<Rightarrow> ('e, 's) routine \<Rightarrow> 's \<Rightarrow> 'e harness_fault + 's" where
  "priv_if bm switch s = (if kernel_priv bm \<noteq> 0 then call switch s else Inr s)"

definition run_kernel ::
  "('e, 's) harness_env \<Rightarrow> ('e, 's) benchmark_t \<Rightarrow> ('e, 's) routine \<Rightarrow> 's \<Rightarrow> 'e harness_fault + 's" where
  "run_kernel env bm k s =
     bindE (priv_if bm (priv_enter env) s) (\<lambda>s.
     bindE (call k s) (\<lambda>s.
     priv_if bm (priv_leave env) s))"

definition run_control ::
  "('e, 's) harness_env \<Rightarrow> ('e, 's) benchmark_t \<Rightarrow> 's \<Rightarrow> 'e harness_fault + 's" where
  "run_control env bm s =
     (case kernel_control bm of
        None \<Rightarrow> Inr s
      | Some k \<Rightarrow>
          bindE (out env '' {'' [] s) (\<lambda>s.
          bindE (run_kernel env bm k s) (\<lambda>s.
          out env ''}'' [] s)))"

definition harness_execute ::
  "('e, 's) harness_env \<Rightarrow> ('e, 's) benchmark_t \<Rightarrow> 's \<Rightarrow> 'e harness_fault + 's" where
  "harness_execute env bm s =
     bindE (out env ''%s - %s'' [Str (category bm), Str (bm_name bm)] s) (\<lambda>s.
     bindE (call_if_set (kernel_init bm) s) (\<lambda>s.
     bindE (out env '' %x'' [Num (iteration_count bm)] s) (\<lambda>s.
     bindE (run_control env bm s) (\<lambda>s.
     bindE (out env '' ['' [] s) (\<lambda>s.
     bindE (run_kernel env bm (kernel bm) s) (\<lambda>s.
     bindE (out env ('']'' @ crlf) [] s) (\<lambda>s.
     bindE (call_if_set (kernel_cleanup bm) s) (\<lambda>s.
     priv_if bm (priv_leave env) s))))))))"

fun execute_all ::
  "('e, 's) harness_env \<Rightarrow> ('e, 's) benchmark_t list \<Rightarrow> 's \<Rightarrow> 'e harness_fault + 's" where
  "execute_all env [] s = Inr s"
| "execute_all env (bm # bms) s = bindE (harness_execute env bm s) (execute_all env bms)"

definition backslash :: char where "backslash = CHR 0x5C"

definition marker :: "string \<Rightarrow> string" where
  "marker t = backslash # backslash # ''BENCHMARKS '' @ t @ crlf"

definition harness_main ::
  "('e, 's) harness_env \<Rightarrow> ('e, 's) benchmark_t list \<Rightarrow> 's \<Rightarrow> 'e harness_fault + 's" where
  "harness_main env bms s =
     bindE (out env (crlf @ crlf) [] s) (\<lambda>s.
     bindE (out env (marker ''BEGIN'') [] s) (\<lambda>s.
     bindE (execute_all env bms s) (\<lambda>s.
     out env (marker ''END'') [] s)))"

subsection \<open>The progress spinner (debug.c)\<close>

record spinner =
  counter_rollover :: u32
  counter :: u32
  counter_index :: u32

definition spinner_chars :: "char list" where
  "spinner_chars = [CHR ''|'', CHR ''/'', CHR ''-'', backslash]"

definition debug_spinner_start ::
  "bool \<Rightarrow> char list \<Rightarrow> 's FILE_t option \<Rightarrow> u64 \<Rightarrow> spinner \<times> 's \<Rightarrow> printf_fault + spinner \<times> 's" where
  "debug_spinner_start arm junk DEBUG rollover = (\<lambda>(sp, s).
     bindE (fprintf arm junk DEBUG '' '' [] s) (\<lambda>(rc, s).
     Inr (sp\<lparr>counter := 0, counter_rollover := ucast rollover, counter_index := 0\<rparr>, s)))"

definition debug_spinner ::
  "bool \<Rightarrow> char list \<Rightarrow> 's FILE_t option \<Rightarrow> spinner \<times> 's \<Rightarrow> printf_fault + spinner \<times> 's" where
  "debug_spinner arm junk DEBUG = (\<lambda>(sp, s).
     let sp = sp\<lparr>counter := counter sp + 1\<rparr> in
     if counter_rollover sp \<le> counter sp then
       let sp = sp\<lparr>counter := 0, counter_index := counter_index sp + 1\<rparr> in
       bindE (fprintf arm junk DEBUG (CHR 0x08 # ''%c'') [Num (of_char (spinner_chars ! unat (counter_index sp AND 0x3)))] s)
         (\<lambda>(rc, s). Inr (sp, s))
     else Inr (sp, s))"

section \<open>What the console shows\<close>

text \<open>
  A character sink appends to what its device shows, in every state the device is good for (a
  console whose registers a page table can hide is not good in every state). Any such sink can
  carry the harness; the ports' output devices are shown to be sinks of this kind where they are
  modelled. A console is a sink without such a condition.
\<close>

locale guarded_console =
  fixes putch :: "'s \<Rightarrow> char \<Rightarrow> 's" and shown :: "'s \<Rightarrow> string" and good :: "'s \<Rightarrow> bool"
  assumes good_putch: "good s \<Longrightarrow> good (putch s c)"
    and guarded_putch: "good s \<Longrightarrow> shown (putch s c) = shown s @ [c]"
begin

lemma guarded_text: "good s \<Longrightarrow> good (foldl putch s t) \<and> shown (foldl putch s t) = shown s @ t"
  by (induction t arbitrary: s) (simp_all add: good_putch guarded_putch)

end

locale console =
  fixes putch :: "'s \<Rightarrow> char \<Rightarrow> 's" and shown :: "'s \<Rightarrow> string"
  assumes shown_putch: "shown (putch s c) = shown s @ [c]"

sublocale console \<subseteq> guarded_console putch shown "\<lambda>_. True"
  by unfold_locales (simp_all add: shown_putch)

context console
begin

lemma shown_text: "shown (foldl putch s t) = shown s @ t"
  by (simp add: guarded_text)

end

text \<open>
  An environment whose output file is the sink, with an array for fprintf to work in.
\<close>

definition wired :: "('s \<Rightarrow> char \<Rightarrow> 's) \<Rightarrow> ('e, 's) harness_env \<Rightarrow> bool" where
  "wired putch env \<longleftrightarrow> OUTPUT env = Some \<lparr>putch_fn = Some putch\<rparr> \<and> 0x1000 \<le> length (he_junk env)"

definition spinner_output :: "char set" where
  "spinner_output = {CHR '' '', CHR 0x08} \<union> set spinner_chars"

text \<open>A routine that always returns, having shown at most characters of the given set.\<close>

definition shows_only :: "('s \<Rightarrow> string) \<Rightarrow> char set \<Rightarrow> ('e, 's) routine \<Rightarrow> bool" where
  "shows_only shown C f \<longleftrightarrow> (\<forall>s. \<exists>s' t. f s = Inr s' \<and> shown s' = shown s @ t \<and> set t \<subseteq> C)"

text \<open>
  A routine that takes every state with P to one with Q, having shown at most characters of C. The
  condition benchmark_moves says of a benchmark what the harness needs: from a state as the machine
  has before it, its set-up leads to states with some property ready, in which the output device is good, and
  which the harness's own output keeps; the kernels keep the states inside, which are the ready ones
  or, with kernel_priv, those behind priv_enter; the clean-up leads to a state as the machine has after it.
  A benchmark runs if it leads from idle states, as the machine is between benchmarks, to idle states.
\<close>

definition keeps ::
  "('s \<Rightarrow> string) \<Rightarrow> ('s \<Rightarrow> bool) \<Rightarrow> ('s \<Rightarrow> bool) \<Rightarrow> char set \<Rightarrow> ('e, 's) routine \<Rightarrow> bool" where
  "keeps shown P Q C f \<longleftrightarrow> (\<forall>s. P s \<longrightarrow> (\<exists>s' t. f s = Inr s' \<and> Q s' \<and> shown s' = shown s @ t \<and> set t \<subseteq> C))"

definition routine_of :: "('e, 's) routine option \<Rightarrow> ('e, 's) routine" where
  "routine_of h = (case h of None \<Rightarrow> Inr | Some f \<Rightarrow> f)"

text \<open>
  A word the host can read back: nonempty, shorter than the host's buffer, without white space
  and NUL.
\<close>

definition white :: "char set" where
  "white = {CHR '' '', CHR 0x09, CHR 0x0A, CHR 0x0B, CHR 0x0C, CHR 0x0D}"

definition word_ok :: "string \<Rightarrow> bool" where
  "word_ok w \<longleftrightarrow> w \<noteq> [] \<and> length w < 128 \<and> set w \<inter> white = {} \<and> nul \<notin> set w"

definition benchmark_ok :: "('s \<Rightarrow> string) \<Rightarrow> ('e, 's) benchmark_t \<Rightarrow> bool" where
  "benchmark_ok shown bm \<longleftrightarrow> word_ok (category bm) \<and> word_ok (bm_name bm) \<and>
     (\<forall>f. kernel_init bm = Some f \<or> kernel_cleanup bm = Some f \<longrightarrow> shows_only shown {} f) \<and>
     (\<forall>f. kernel_control bm = Some f \<longrightarrow> shows_only shown spinner_output f) \<and>
     shows_only shown spinner_output (kernel bm)"

text \<open>The level switches around a kernel of the benchmark bm.\<close>

definition level_ok :: "('s \<Rightarrow> string) \<Rightarrow> ('e, 's) harness_env \<Rightarrow> ('e, 's) benchmark_t \<Rightarrow> ('s \<Rightarrow> bool) \<Rightarrow> ('s \<Rightarrow> bool) \<Rightarrow> bool" where
  "level_ok shown env bm ready inside \<longleftrightarrow>
     (if kernel_priv bm = 0 then inside = ready
      else keeps shown ready inside {} (priv_enter env) \<and> keeps shown inside ready {} (priv_leave env))"

definition benchmark_moves ::
  "('s \<Rightarrow> char \<Rightarrow> 's) \<Rightarrow> ('s \<Rightarrow> string) \<Rightarrow> ('s \<Rightarrow> bool) \<Rightarrow> ('s \<Rightarrow> bool) \<Rightarrow> ('s \<Rightarrow> bool) \<Rightarrow> ('e, 's) harness_env \<Rightarrow> ('e, 's) benchmark_t \<Rightarrow> bool" where
  "benchmark_moves putch shown good before after env bm \<longleftrightarrow> word_ok (category bm) \<and> word_ok (bm_name bm) \<and>
     (\<exists>ready inside. (\<forall>s. ready s \<longrightarrow> good s) \<and> (\<forall>s c. ready s \<longrightarrow> ready (putch s c)) \<and>
        keeps shown before ready {} (routine_of (kernel_init bm)) \<and>
        keeps shown inside inside spinner_output (routine_of (kernel_control bm)) \<and>
        keeps shown inside inside spinner_output (kernel bm) \<and>
        keeps shown ready after {} (routine_of (kernel_cleanup bm)) \<and>
        level_ok shown env bm ready inside \<and> (kernel_priv bm \<noteq> 0 \<longrightarrow> keeps shown after after {} (priv_leave env)))"

definition benchmark_runs ::
  "('s \<Rightarrow> char \<Rightarrow> 's) \<Rightarrow> ('s \<Rightarrow> string) \<Rightarrow> ('s \<Rightarrow> bool) \<Rightarrow> ('s \<Rightarrow> bool) \<Rightarrow> ('e, 's) harness_env \<Rightarrow> ('e, 's) benchmark_t \<Rightarrow> bool" where
  "benchmark_runs putch shown good idle env bm \<longleftrightarrow> benchmark_moves putch shown good idle idle env bm"

definition env_ok :: "('s \<Rightarrow> string) \<Rightarrow> ('e, 's) harness_env \<Rightarrow> bool" where
  "env_ok shown env \<longleftrightarrow> shows_only shown {} (priv_enter env) \<and> shows_only shown {} (priv_leave env)"

text \<open>The line of a benchmark, with what its control and its kernel printed.\<close>

definition transcript :: "('e, 's) benchmark_t \<Rightarrow> string \<Rightarrow> string \<Rightarrow> string" where
  "transcript bm sc sk = category bm @ '' - '' @ bm_name bm @ '' '' @
     number_text Hex (unat (ucast (iteration_count bm) :: u32)) @
     (if kernel_control bm = None then [] else '' {'' @ sc @ ''}'') @ '' ['' @ sk @ '']'' @ crlf"

subsection \<open>Hexadecimal numbers as text\<close>

definition hex_chars :: string where "hex_chars = ''0123456789abcdef''"

lemma digit_table: "map digit_of_nat [0..<16] = hex_chars"
  unfolding digit_of_nat_def hex_chars_def by code_simp

lemma digit_hex: "n < 16 \<Longrightarrow> digit_of_nat n \<in> set hex_chars"
  unfolding digit_table [symmetric] by simp

lemma digits_hex: "set (digits Hex n) \<subseteq> set hex_chars"
proof (induction n rule: less_induct)
  case (less n)
  then show ?case
    using less [of "n div 16"] digit_hex [of "n mod 16"] by (subst digits.simps) auto
qed

lemma digits_length: "n < 16 ^ k \<Longrightarrow> length (digits Hex n) \<le> k"
proof (induction k arbitrary: n)
  case (Suc k)
  have "n div 16 < 16 ^ k" using Suc.prems by (simp add: less_mult_imp_div_less mult.commute)
  then show ?case using Suc.IH by (subst digits.simps) simp
qed simp

lemma number_text_hex: "set (number_text Hex n) \<subseteq> set hex_chars"
  using digits_hex [of n] by (simp add: number_text_def hex_chars_def)

lemma number_text_length: "n < 16 ^ Suc k \<Longrightarrow> length (number_text Hex n) \<le> Suc k"
  using digits_length [of n "Suc k"] by (simp add: number_text_def)

lemma u32_text_length: "length (number_text Hex (unat (v :: u32))) \<le> 8"
  using number_text_length [of "unat v" 7] unsigned_less [of v, where 'a = nat] by simp

lemma hex_chars_plain: "set hex_chars \<inter> white = {}" "nul \<notin> set hex_chars"
  by (simp_all add: hex_chars_def white_def nul_def)

subsection \<open>The harness\<close>

lemma render_plain:
  assumes "CHR ''%'' \<notin> set t" "nul \<notin> set t"
  shows "render arm t [] = Some t"
  using assms by (induction t) (auto simp: nul_def)

lemma render_text: "nul \<notin> set a \<Longrightarrow> nul \<notin> set b \<Longrightarrow> render arm ''%s - %s'' [Str a, Str b] = Some (a @ '' - '' @ b)"
proof -
  assume "nul \<notin> set a" "nul \<notin> set b"
  then have tw: "takeWhile (\<lambda>c. c \<noteq> CHR 0x00) a = a" "takeWhile (\<lambda>c. c \<noteq> CHR 0x00) b = b" by (auto simp: nul_def)
  show ?thesis by (simp add: initial_spec_def nul_def pad_right_def tw)
qed

lemma render_number: "render arm '' %x'' [Num v] = Some ('' '' @ number_text Hex (unat (ucast v :: u32)))"
proof -
  have "unat (ucast (ucast v :: u32) :: u64) = unat (ucast v :: u32)"
    by (simp add: unsigned_ucast_eq unsigned_take_bit_eq take_bit_nat_eq_self)
  moreover have "unat (ucast v :: u32) < 2 ^ 32" using unsigned_less [of "ucast v :: u32", where 'a = nat] by simp
  ultimately show ?thesis
    by (simp add: initial_spec_def nul_def render_num_def writable_def pad_left_def arg_uint_def)
qed

lemma render_constants:
  "render arm '' {'' [] = Some '' {''" "render arm ''}'' [] = Some ''}''" "render arm '' ['' [] = Some '' [''"
  "render arm ('']'' @ crlf) [] = Some ('']'' @ crlf)" "render arm (crlf @ crlf) [] = Some (crlf @ crlf)"
  "render arm (marker ''BEGIN'') [] = Some (marker ''BEGIN'')" "render arm (marker ''END'') [] = Some (marker ''END'')"
  by (rule render_plain; simp add: nul_def crlf_def marker_def backslash_def)+

lemma out_text:
  assumes "wired putch env" "render (he_arm env) fmt args = Some t" "nul \<notin> set t" "length t < 0xfff"
  shows "out env fmt args s = Inr (foldl putch s t)"
  using fprintf_render_eq [OF assms(2-4), of "he_junk env" putch s] assms(1) by (simp add: out_def wired_def)


lemma idle_text: "(\<And>s c. idle s \<Longrightarrow> idle (putch s c)) \<Longrightarrow> idle s \<Longrightarrow> idle (foldl putch s t)"
  by (induction t arbitrary: s) simp_all

lemma keeps_always: "shows_only shown C f \<longleftrightarrow> keeps shown (\<lambda>_. True) (\<lambda>_. True) C f"
  by (simp add: shows_only_def keeps_def)

lemma benchmark_runs_always:
  assumes "benchmark_ok shown bm" "env_ok shown env"
  shows "benchmark_runs putch shown (\<lambda>_. True) (\<lambda>_. True) env bm"
  unfolding benchmark_runs_def benchmark_moves_def level_ok_def
  using assms
  by (intro conjI exI [of _ "\<lambda>_. True"])
    (auto simp: benchmark_ok_def env_ok_def keeps_always [symmetric] shows_only_def routine_of_def split: option.split)

lemma call_keeps:
  assumes "keeps shown P Q C f" "P s"
  shows "\<exists>s' t. call f s = Inr s' \<and> Q s' \<and> shown s' = shown s @ t \<and> set t \<subseteq> C"
proof -
  obtain s' t where "f s = Inr s'" "Q s'" "shown s' = shown s @ t" "set t \<subseteq> C"
    using assms unfolding keeps_def by blast
  then show ?thesis by (auto simp: call_def)
qed

lemma call_if_set_routine: "call_if_set h s = call (routine_of h) s"
  by (cases h) (simp_all add: routine_of_def call_def)

lemma silent:
  "keeps shown P Q {} f \<Longrightarrow> P s \<Longrightarrow> \<exists>s'. call f s = Inr s' \<and> Q s' \<and> shown s' = shown s"
  using call_keeps [of shown P Q "{}" f s] by auto

lemma priv_if_keeps:
  assumes "kernel_priv bm \<noteq> 0 \<Longrightarrow> keeps shown P Q {} f" "kernel_priv bm = 0 \<Longrightarrow> Q = P" "P s"
  shows "\<exists>s'. priv_if bm f s = Inr s' \<and> Q s' \<and> shown s' = shown s"
  using silent [of shown P Q f s] assms by (auto simp: priv_if_def)

lemma run_kernel_keeps:
  assumes "level_ok shown env bm ready inside" "keeps shown inside inside C k" "ready s"
  shows "\<exists>s' t. run_kernel env bm k s = Inr s' \<and> ready s' \<and> shown s' = shown s @ t \<and> set t \<subseteq> C"
proof -
  obtain s1 where 1: "priv_if bm (priv_enter env) s = Inr s1" "inside s1" "shown s1 = shown s"
    using priv_if_keeps [of bm shown ready inside "priv_enter env" s] assms(1,3) by (auto simp: level_ok_def split: if_splits)
  obtain s2 t where 2: "call k s1 = Inr s2" "inside s2" "shown s2 = shown s1 @ t" "set t \<subseteq> C"
    using call_keeps [OF assms(2) 1(2)] by blast
  obtain s3 where 3: "priv_if bm (priv_leave env) s2 = Inr s3" "ready s3" "shown s3 = shown s2"
    using priv_if_keeps [of bm shown inside ready "priv_leave env" s2] assms(1) 2(2) by (auto simp: level_ok_def split: if_splits)
  show ?thesis using 1 2 3 by (auto simp: run_kernel_def)
qed

text \<open>What a run of the list printed: each benchmark with its spinner output, and the whole text.\<close>

definition recorded :: "('e, 's) benchmark_t list \<Rightarrow> (('e, 's) benchmark_t \<times> string \<times> string) list \<Rightarrow> bool" where
  "recorded bms runs \<longleftrightarrow> map fst runs = bms \<and>
     (\<forall>(bm, sc, sk)\<in>set runs. set sc \<subseteq> spinner_output \<and> set sk \<subseteq> spinner_output)"

definition report :: "(('e, 's) benchmark_t \<times> string \<times> string) list \<Rightarrow> string" where
  "report runs = concat (map (\<lambda>(bm, sc, sk). transcript bm sc sk) runs)"

context guarded_console
begin

lemma run_control_shows:
  assumes w: "wired putch env" and ready: "\<And>s. ready s \<Longrightarrow> good s" "\<And>s c. ready s \<Longrightarrow> ready (putch s c)"
    and k: "keeps shown inside inside spinner_output (routine_of (kernel_control bm))"
    and p: "level_ok shown env bm ready inside"
    and s: "ready s"
  shows "\<exists>s' t. run_control env bm s = Inr s' \<and> ready s' \<and> set t \<subseteq> spinner_output \<and>
    shown s' = shown s @ (if kernel_control bm = None then [] else '' {'' @ t @ ''}'')"
proof (cases "kernel_control bm")
  case (Some f)
  have puts: "ready (foldl putch s t)" if "ready s" for s t using that by (induction t arbitrary: s) (simp_all add: ready)
  have f: "keeps shown inside inside spinner_output f" using k Some by (simp add: routine_of_def)
  obtain s1 t where 1: "run_kernel env bm f (foldl putch s '' {'') = Inr s1" "ready s1"
    "shown s1 = shown (foldl putch s '' {'') @ t" "set t \<subseteq> spinner_output"
    using run_kernel_keeps [OF p f puts [OF s]] by blast
  have "run_control env bm s = Inr (foldl putch s1 ''}'')"
    using 1(1) by (simp add: run_control_def Some nul_def out_text [OF w render_constants(1)] out_text [OF w render_constants(2)])
  moreover have "shown (foldl putch s1 ''}'') = shown s @ '' {'' @ t @ ''}''"
    using guarded_text [OF ready(1) [OF 1(2)], of "''}''"] guarded_text [OF ready(1) [OF s], of "'' {''"] 1(3) by simp
  ultimately show ?thesis using Some 1(4) puts [OF 1(2), of "''}''"] by auto
qed (simp add: run_control_def exI [of _ "[]"] s)

lemma execute_shows:
  assumes w: "wired putch env" and "benchmark_moves putch shown good before after env bm"
    and idle: "\<And>s. before s \<Longrightarrow> good s" "\<And>s c. before s \<Longrightarrow> before (putch s c)" and g: "before s"
  shows "\<exists>s' sc sk. harness_execute env bm s = Inr s' \<and> after s' \<and> set sc \<subseteq> spinner_output \<and> set sk \<subseteq> spinner_output \<and>
    shown s' = shown s @ transcript bm sc sk"
proof -
  have words: "word_ok (category bm)" "word_ok (bm_name bm)" using assms(2) by (simp_all add: benchmark_moves_def)
  obtain ready inside where ready: "\<And>s. ready s \<Longrightarrow> good s" "\<And>s c. ready s \<Longrightarrow> ready (putch s c)"
    and init: "keeps shown before ready {} (routine_of (kernel_init bm))"
    and control: "keeps shown inside inside spinner_output (routine_of (kernel_control bm))"
    and kernel: "keeps shown inside inside spinner_output (kernel bm)"
    and cleanup: "keeps shown ready after {} (routine_of (kernel_cleanup bm))"
    and priv: "level_ok shown env bm ready inside"
    and priv': "kernel_priv bm \<noteq> 0 \<Longrightarrow> keeps shown after after {} (priv_leave env)"
    using assms(2) unfolding benchmark_moves_def by blast
  have puts: "ready (foldl putch s t) \<and> shown (foldl putch s t) = shown s @ t" if "ready s" for s t
    using that guarded_text [OF ready(1) [OF that], of t] by (induction t arbitrary: s) (simp_all add: ready guarded_text)
  let ?hd = "category bm @ '' - '' @ bm_name bm"
  let ?nr = "'' '' @ number_text Hex (unat (ucast (iteration_count bm) :: u32))"
  have n: "nul \<notin> set (category bm)" "nul \<notin> set (bm_name bm)" using words by (simp_all add: word_ok_def)
  have o1: "out env ''%s - %s'' [Str (category bm), Str (bm_name bm)] s = Inr (foldl putch s ?hd)"
    by (rule out_text [OF w render_text [OF n]]) (use words n in \<open>auto simp: word_ok_def nul_def\<close>)
  have hd: "before (foldl putch s ?hd) \<and> shown (foldl putch s ?hd) = shown s @ ?hd"
    using guarded_text [OF idle(1) [OF g]] idle_text [of before putch s ?hd, OF idle(2) g] by blast
  obtain s1 where 1: "call_if_set (kernel_init bm) (foldl putch s ?hd) = Inr s1" "ready s1" "shown s1 = shown s @ ?hd"
    using silent [OF init, of "foldl putch s ?hd"] hd by (auto simp: call_if_set_routine)
  have "nul \<notin> set ?nr" using number_text_hex [of "unat (ucast (iteration_count bm) :: u32)"] hex_chars_plain(2)
    by (auto simp: nul_def)
  then have o2: "out env '' %x'' [Num (iteration_count bm)] s1 = Inr (foldl putch s1 ?nr)"
    by (rule out_text [OF w render_number]) (use u32_text_length [of "ucast (iteration_count bm)"] in simp)
  note nr = puts [OF 1(2), of ?nr]
  obtain s2 sc where 2: "run_control env bm (foldl putch s1 ?nr) = Inr s2" "ready s2" "set sc \<subseteq> spinner_output"
    "shown s2 = shown (foldl putch s1 ?nr) @ (if kernel_control bm = None then [] else '' {'' @ sc @ ''}'')"
    using run_control_shows [OF w ready control priv] nr by blast
  have o3: "out env '' ['' [] s2 = Inr (foldl putch s2 '' ['')"
    by (rule out_text [OF w render_constants(3)]) (simp_all add: nul_def)
  note op = puts [OF 2(2), of "'' [''"]
  obtain s3 sk where 3: "run_kernel env bm (kernel bm) (foldl putch s2 '' ['') = Inr s3" "ready s3" "set sk \<subseteq> spinner_output"
    "shown s3 = shown (foldl putch s2 '' ['') @ sk"
    using run_kernel_keeps [OF priv kernel] op by blast
  have o4: "out env ('']'' @ crlf) [] s3 = Inr (foldl putch s3 ('']'' @ crlf))"
    by (rule out_text [OF w render_constants(4)]) (simp_all add: nul_def crlf_def)
  note cl = puts [OF 3(2), of "'']'' @ crlf"]
  obtain s4 where 4: "call_if_set (kernel_cleanup bm) (foldl putch s3 ('']'' @ crlf)) = Inr s4" "after s4"
    "shown s4 = shown (foldl putch s3 ('']'' @ crlf))" using silent [OF cleanup] cl by (metis call_if_set_routine)
  obtain s5 where 5: "priv_if bm (priv_leave env) s4 = Inr s5" "after s5" "shown s5 = shown s4"
    using priv_if_keeps [of bm shown after after "priv_leave env" s4] priv' 4(2) by blast
  have "harness_execute env bm s = Inr s5"
    unfolding harness_execute_def by (simp only: bindE_simps o1 1(1) o2 2(1) o3 3(1) o4 4(1) 5(1))
  moreover have "shown s5 = shown s @ transcript bm sc sk"
    unfolding 5(3) 4(3) using hd nr op cl 3(4) 2(4) 1(3) by (simp add: transcript_def)
  ultimately show ?thesis using 2(3) 3(3) 5(2) by blast
qed

lemma execute_all_shows:
  assumes "wired putch env" "\<forall>bm\<in>set bms. benchmark_runs putch shown good idle env bm"
    and idle: "\<And>s. idle s \<Longrightarrow> good s" "\<And>s c. idle s \<Longrightarrow> idle (putch s c)" and "idle s"
  shows "\<exists>s' runs. execute_all env bms s = Inr s' \<and> idle s' \<and> recorded bms runs \<and> shown s' = shown s @ report runs"
  using assms(2,5)
proof (induction bms arbitrary: s)
  case Nil
  then show ?case by (auto simp: recorded_def report_def)
next
  case (Cons bm bms)
  obtain s1 sc sk where 1: "harness_execute env bm s = Inr s1" "idle s1" "set sc \<subseteq> spinner_output" "set sk \<subseteq> spinner_output"
    "shown s1 = shown s @ transcript bm sc sk"
    using execute_shows [where before = idle and after = idle, OF assms(1) _ idle] Cons.prems unfolding benchmark_runs_def
    by (meson list.set_intros(1))
  obtain s2 runs where 2: "execute_all env bms s1 = Inr s2" "idle s2" "recorded bms runs" "shown s2 = shown s1 @ report runs"
    using Cons.IH [of s1] Cons.prems 1(2) by auto
  have "recorded (bm # bms) ((bm, sc, sk) # runs)" "report ((bm, sc, sk) # runs) = transcript bm sc sk @ report runs"
    using 1(3,4) 2(3) by (auto simp: recorded_def report_def)
  then show ?case using 1 2 by (intro exI [of _ s2] exI [of _ "(bm, sc, sk) # runs"]) simp
qed

text \<open>The first benchmark may leave the machine in other idle states than it found it in.\<close>

lemma execute_all_moves:
  assumes w: "wired putch env" and "benchmark_moves putch shown good before idle env bm"
    and "\<forall>bm\<in>set bms. benchmark_runs putch shown good idle env bm"
    and before: "\<And>s. before s \<Longrightarrow> good s" "\<And>s c. before s \<Longrightarrow> before (putch s c)"
    and idle: "\<And>s. idle s \<Longrightarrow> good s" "\<And>s c. idle s \<Longrightarrow> idle (putch s c)" and "before s"
  shows "\<exists>s' runs. execute_all env (bm # bms) s = Inr s' \<and> idle s' \<and> recorded (bm # bms) runs \<and> shown s' = shown s @ report runs"
proof -
  obtain s1 sc sk where 1: "harness_execute env bm s = Inr s1" "idle s1" "set sc \<subseteq> spinner_output" "set sk \<subseteq> spinner_output"
    "shown s1 = shown s @ transcript bm sc sk" using execute_shows [OF w assms(2) before assms(8)] by blast
  obtain s2 runs where 2: "execute_all env bms s1 = Inr s2" "idle s2" "recorded bms runs" "shown s2 = shown s1 @ report runs"
    using execute_all_shows [where idle = idle, OF w assms(3) idle 1(2)] by blast
  have "recorded (bm # bms) ((bm, sc, sk) # runs)" "report ((bm, sc, sk) # runs) = transcript bm sc sk @ report runs"
    using 1(3,4) 2(3) by (auto simp: recorded_def report_def)
  then show ?thesis using 1 2 by (intro exI [of _ s2] exI [of _ "(bm, sc, sk) # runs"]) simp
qed

lemma harness_main_framed:
  assumes w: "wired putch env"
    and all: "\<And>s. before s \<Longrightarrow> \<exists>s' runs. execute_all env bms s = Inr s' \<and> idle s' \<and> recorded bms runs \<and> shown s' = shown s @ report runs"
    and before: "\<And>s. before s \<Longrightarrow> good s" "\<And>s c. before s \<Longrightarrow> before (putch s c)"
    and idle: "\<And>s. idle s \<Longrightarrow> good s" "\<And>s c. idle s \<Longrightarrow> idle (putch s c)" and g: "before s"
  shows "\<exists>s' runs. harness_main env bms s = Inr s' \<and> idle s' \<and> recorded bms runs \<and>
    shown s' = shown s @ crlf @ crlf @ marker ''BEGIN'' @ report runs @ marker ''END''"
proof -
  have n: "nul \<notin> set (crlf @ crlf)" "nul \<notin> set (marker ''BEGIN'')" "nul \<notin> set (marker ''END'')"
    and l: "length (crlf @ crlf) < 0xfff" "length (marker ''BEGIN'') < 0xfff" "length (marker ''END'') < 0xfff"
    by (simp_all add: nul_def crlf_def marker_def backslash_def)
  note o = out_text [OF w render_constants(5) n(1) l(1)] out_text [OF w render_constants(6) n(2) l(2)]
    out_text [OF w render_constants(7) n(3) l(3)]
  have puts: "before (foldl putch s t) \<and> shown (foldl putch s t) = shown s @ t" if "before s" for s t
    using guarded_text [OF before(1) [OF that]] idle_text [of before putch s t, OF before(2) that] by blast
  have puts': "idle (foldl putch s t) \<and> shown (foldl putch s t) = shown s @ t" if "idle s" for s t
    using guarded_text [OF idle(1) [OF that]] idle_text [of idle putch s t, OF idle(2) that] by blast
  note g1 = puts [OF g, of "crlf @ crlf"]
  note g2 = puts [OF conjunct1 [OF g1], of "marker ''BEGIN''"]
  obtain s1 runs where 1: "execute_all env bms (foldl putch (foldl putch s (crlf @ crlf)) (marker ''BEGIN'')) = Inr s1" "idle s1"
    "recorded bms runs" "shown s1 = shown (foldl putch (foldl putch s (crlf @ crlf)) (marker ''BEGIN'')) @ report runs"
    using all [OF conjunct1 [OF g2]] by blast
  have "harness_main env bms s = Inr (foldl putch s1 (marker ''END''))"
    unfolding harness_main_def by (simp only: bindE_simps o 1(1))
  then show ?thesis using puts' [OF 1(2), of "marker ''END''"] 1(3,4) g1 g2 by auto
qed

text \<open>A set-up routine that aborts ends the run behind the name of its benchmark.\<close>

lemma harness_main_stops:
  assumes w: "wired putch env" and words: "word_ok (category bm)" "word_ok (bm_name bm)"
    and init: "kernel_init bm = Some f" "\<And>s. before s \<Longrightarrow> f s = Inl e"
    and before: "\<And>s. before s \<Longrightarrow> good s" "\<And>s c. before s \<Longrightarrow> before (putch s c)" and g: "before s"
  shows "harness_main env (bm # bms) s = Inl (Abort_in e)"
proof -
  have n: "nul \<notin> set (crlf @ crlf)" "nul \<notin> set (marker ''BEGIN'')" and l: "length (crlf @ crlf) < 0xfff" "length (marker ''BEGIN'') < 0xfff"
    by (simp_all add: nul_def crlf_def marker_def backslash_def)
  note o = out_text [OF w render_constants(5) n(1) l(1)] out_text [OF w render_constants(6) n(2) l(2)]
  let ?hd = "category bm @ '' - '' @ bm_name bm"
  have z: "nul \<notin> set (category bm)" "nul \<notin> set (bm_name bm)" using words by (simp_all add: word_ok_def)
  have o1: "out env ''%s - %s'' [Str (category bm), Str (bm_name bm)] s = Inr (foldl putch s ?hd)" for s
    by (rule out_text [OF w render_text [OF z]]) (use words z in \<open>auto simp: word_ok_def nul_def\<close>)
  have b: "before (foldl putch s t)" if "before s" for s t using idle_text [of before putch s t, OF before(2) that] by blast
  have "harness_execute env bm s = Inl (Abort_in e)" if "before s" for s
  proof -
    have "call_if_set (kernel_init bm) (foldl putch s ?hd) = Inl (Abort_in e)"
      unfolding init(1) call_if_set.simps call_def init(2) [OF b [OF that]] by simp
    then show ?thesis by (simp only: harness_execute_def o1 bindE_simps)
  qed
  then show ?thesis using b [OF b [OF g]] by (simp only: harness_main_def o bindE_simps execute_all.simps)
qed

lemma harness_main_runs:
  assumes w: "wired putch env" and "\<forall>bm\<in>set bms. benchmark_runs putch shown good idle env bm"
    and idle: "\<And>s. idle s \<Longrightarrow> good s" "\<And>s c. idle s \<Longrightarrow> idle (putch s c)" and g: "idle s"
  shows "\<exists>s' runs. harness_main env bms s = Inr s' \<and> idle s' \<and> recorded bms runs \<and>
    shown s' = shown s @ crlf @ crlf @ marker ''BEGIN'' @ report runs @ marker ''END''"
  by (rule harness_main_framed [where before = idle and idle = idle, OF w execute_all_shows [where idle = idle, OF w assms(2) idle] idle idle g])

end

context console
begin

lemma harness_main_shows:
  assumes "wired putch env" "env_ok shown env" "\<forall>bm\<in>set bms. benchmark_ok shown bm"
  shows "\<exists>s' runs. harness_main env bms s = Inr s' \<and> recorded bms runs \<and>
    shown s' = shown s @ crlf @ crlf @ marker ''BEGIN'' @ report runs @ marker ''END''"
  using harness_main_runs [OF assms(1), of bms "\<lambda>_. True" s] benchmark_runs_always [OF _ assms(2)] assms(3) by blast

end

section \<open>The spinner counts its calls\<close>

fun spin ::
  "bool \<Rightarrow> char list \<Rightarrow> 's FILE_t option \<Rightarrow> nat \<Rightarrow> spinner \<times> 's \<Rightarrow> printf_fault + spinner \<times> 's" where
  "spin arm junk DEBUG 0 st = Inr st"
| "spin arm junk DEBUG (Suc n) st = bindE (spin arm junk DEBUG n st) (debug_spinner arm junk DEBUG)"

definition spinner_text :: "nat \<Rightarrow> string" where
  "spinner_text n = concat (map (\<lambda>k. [CHR 0x08, spinner_chars ! (Suc k mod 4)]) [0..<n])"

lemma spinner_text_simps [simp]:
  "spinner_text 0 = []" "spinner_text (Suc n) = spinner_text n @ [CHR 0x08, spinner_chars ! (Suc n mod 4)]"
  by (simp_all add: spinner_text_def)

lemma and_3_mod: "unat (word_of_nat k AND 3 :: u32) = k mod 4"
proof -
  have "word_of_nat k AND (3 :: u32) = take_bit 2 (word_of_nat k)" by (simp add: take_bit_eq_mask mask_eq_exp_minus_1)
  then have "unat (word_of_nat k AND 3 :: u32) = take_bit 2 (take_bit 32 k)"
    by (simp add: unsigned_take_bit_eq unsigned_of_nat)
  then show ?thesis by (simp add: take_bit_take_bit) (simp add: take_bit_eq_mod)
qed

lemma char_of_word: "char_of (unat (of_char c :: u64)) = c"
proof -
  have "of_char c < (256 :: nat)" using range_nat_of_char by auto
  then have "of_char c < (2 ^ 64 :: nat)" by (rule less_le_trans) simp
  then have "take_bit 64 (of_char c) = (of_char c :: nat)" by (rule take_bit_nat_eq_self)
  then have "unat (word_of_nat (of_char c) :: u64) = of_char c" by (simp add: unsigned_of_nat)
  then show ?thesis by (simp add: of_nat_of_char)
qed

lemma spinner_char: "render arm (CHR 0x08 # ''%c'') [Num (of_char c)] = Some [CHR 0x08, c]"
  by (simp add: initial_spec_def nul_def char_of_word)

lemma spinner_nth: "spinner_chars ! (k mod 4) \<in> set spinner_chars"
  by (rule nth_mem) (simp add: spinner_chars_def)

lemma spinner_step:
  assumes "0x1000 \<le> length junk" "0 < R" "R < 2 ^ 32"
  shows "debug_spinner arm junk (Some \<lparr>putch_fn = Some putch\<rparr>)
      (\<lparr>counter_rollover = word_of_nat R, counter = word_of_nat (n mod R), counter_index = word_of_nat (n div R)\<rparr>, s) =
    Inr (\<lparr>counter_rollover = word_of_nat R, counter = word_of_nat (Suc n mod R), counter_index = word_of_nat (Suc n div R)\<rparr>,
      foldl putch s (if Suc (n mod R) = R then [CHR 0x08, spinner_chars ! (Suc (n div R) mod 4)] else []))"
proof -
  have l: "n mod R < R" using assms(2) by simp
  have u: "unat (word_of_nat R :: u32) = R" "unat (word_of_nat (Suc (n mod R)) :: u32) = Suc (n mod R)"
    using l assms(3) by (simp_all add: unsigned_of_nat take_bit_nat_eq_self del: of_nat_Suc)
  have c: "word_of_nat (n mod R) + 1 = (word_of_nat (Suc (n mod R)) :: u32)"
    "word_of_nat (n div R) + 1 = (word_of_nat (Suc (n div R)) :: u32)" by (simp_all add: add.commute)
  have le: "(word_of_nat R :: u32) \<le> word_of_nat (Suc (n mod R)) \<longleftrightarrow> Suc (n mod R) = R"
    unfolding word_le_nat_alt u using l by auto
  have f: "fprintf arm junk (Some \<lparr>putch_fn = Some putch\<rparr>) (CHR 0x08 # ''%c'')
      [Num (of_char (spinner_chars ! (Suc (n div R) mod 4)))] s =
    Inr (2, foldl putch s [CHR 0x08, spinner_chars ! (Suc (n div R) mod 4)])"
  proof -
    have "nul \<notin> set [CHR 0x08, spinner_chars ! (Suc (n div R) mod 4)]"
      using spinner_nth [of "Suc (n div R)"] by (auto simp: spinner_chars_def backslash_def nul_def)
    from fprintf_render_eq [OF spinner_char this _ assms(1), of arm putch s] show ?thesis by simp
  qed
  show ?thesis
    using assms(2) f
    by (simp add: debug_spinner_def Let_def c le and_3_mod mod_Suc div_Suc del: of_nat_Suc)
qed


context console
begin

lemma spin_shows:
  assumes "0x1000 \<le> length junk" "0 < R" "R < 2 ^ 32"
  shows "\<exists>s'. spin arm junk (Some \<lparr>putch_fn = Some putch\<rparr>) n
      (\<lparr>counter_rollover = word_of_nat R, counter = 0, counter_index = 0\<rparr>, s) =
    Inr (\<lparr>counter_rollover = word_of_nat R, counter = word_of_nat (n mod R), counter_index = word_of_nat (n div R)\<rparr>, s') \<and>
    shown s' = shown s @ spinner_text (n div R)"
proof (induction n)
  case (Suc n)
  then obtain s1 where 1: "spin arm junk (Some \<lparr>putch_fn = Some putch\<rparr>) n
      (\<lparr>counter_rollover = word_of_nat R, counter = 0, counter_index = 0\<rparr>, s) =
    Inr (\<lparr>counter_rollover = word_of_nat R, counter = word_of_nat (n mod R), counter_index = word_of_nat (n div R)\<rparr>, s1)"
    "shown s1 = shown s @ spinner_text (n div R)" by blast
  show ?case
    using assms(2) by (simp only: spin.simps 1(1) bindE_simps spinner_step [OF assms])
      (simp add: shown_text 1(2) shown_putch div_Suc mod_Suc del: of_nat_Suc)
qed simp

lemma spinner_shows:
  assumes "0x1000 \<le> length junk" "(ucast rollover :: u32) \<noteq> 0"
  shows "\<exists>sp' s'. bindE (debug_spinner_start arm junk (Some \<lparr>putch_fn = Some putch\<rparr>) rollover (sp, s))
      (spin arm junk (Some \<lparr>putch_fn = Some putch\<rparr>) n) = Inr (sp', s') \<and>
    shown s' = shown s @ '' '' @ spinner_text (n div unat (ucast rollover :: u32))"
proof -
  let ?R = "unat (ucast rollover :: u32)"
  have R: "0 < ?R" "?R < 2 ^ 32" using assms(2) unsigned_less [of "ucast rollover :: u32", where 'a = nat]
    by (simp_all add: unat_gt_0)
  have r: "render arm '' '' [] = Some '' ''" "nul \<notin> set '' ''" by (simp_all add: nul_def)
  have b: "debug_spinner_start arm junk (Some \<lparr>putch_fn = Some putch\<rparr>) rollover (sp, s) =
    Inr (\<lparr>counter_rollover = word_of_nat ?R, counter = 0, counter_index = 0\<rparr>, putch s (CHR '' ''))"
    using fprintf_render_eq [OF r _ assms(1), of putch s] by (cases sp) (simp add: debug_spinner_start_def)
  show ?thesis
    using spin_shows [OF assms(1) R, of arm n "putch s (CHR '' '')"] by (auto simp only: b bindE_simps) (auto simp: shown_putch)
qed

end

section \<open>Faults\<close>

definition no_print_fault :: "'e harness_fault + 's \<Rightarrow> bool" where
  "no_print_fault m \<longleftrightarrow> (\<forall>x. m \<noteq> Inl (Print_fault x))"

lemma no_print_bind [intro]:
  "no_print_fault m \<Longrightarrow> (\<And>x. no_print_fault (f x)) \<Longrightarrow> no_print_fault (bindE m f)"
  by (cases m) (auto simp: no_print_fault_def)

lemma no_print_calls [simp, intro]:
  "no_print_fault (Inr s)" "no_print_fault (call f s)" "no_print_fault (call_if_set h s)" "no_print_fault (priv_if bm f s)"
  by (cases h; simp add: no_print_fault_def call_def priv_if_def split: sum.split)+

lemma no_print_run_kernel [intro]: "no_print_fault (run_kernel env bm k s)"
  unfolding run_kernel_def by (intro no_print_bind no_print_calls)

definition words_ok :: "('e, 's) benchmark_t \<Rightarrow> bool" where
  "words_ok bm \<longleftrightarrow> nul \<notin> set (category bm) \<and> nul \<notin> set (bm_name bm) \<and> length (category bm) + length (bm_name bm) < 0xffc"

lemma no_print_out:
  assumes "wired putch env"
  shows "nul \<notin> set a \<Longrightarrow> nul \<notin> set b \<Longrightarrow> length a + length b < 0xffc \<Longrightarrow> no_print_fault (out env ''%s - %s'' [Str a, Str b] s)"
    and "no_print_fault (out env '' %x'' [Num v] s)"
    and "no_print_fault (out env '' {'' [] s)" "no_print_fault (out env ''}'' [] s)" "no_print_fault (out env '' ['' [] s)"
    "no_print_fault (out env ('']'' @ crlf) [] s)" "no_print_fault (out env (crlf @ crlf) [] s)"
    "no_print_fault (out env (marker ''BEGIN'') [] s)" "no_print_fault (out env (marker ''END'') [] s)"
proof -
  have o: "no_print_fault (out env fmt args s)"
    if "render (he_arm env) fmt args = Some t" "nul \<notin> set t" "length t < 0xfff" for fmt args t s
    by (simp add: out_text [OF assms that])
  have "nul \<notin> set ('' '' @ number_text Hex (unat (ucast v :: u32)))"
    using number_text_hex [of "unat (ucast v :: u32)"] hex_chars_plain(2) by (auto simp: nul_def)
  then show "no_print_fault (out env '' %x'' [Num v] s)"
    by (rule o [OF render_number]) (use u32_text_length [of "ucast v"] in simp)
  show "no_print_fault (out env ''%s - %s'' [Str a, Str b] s)"
    if "nul \<notin> set a" "nul \<notin> set b" "length a + length b < 0xffc"
    by (rule o [OF render_text [OF that(1,2)]]) (use that in \<open>auto simp: nul_def\<close>)
  show "no_print_fault (out env '' {'' [] s)" by (rule o [OF render_constants(1)]) (simp_all add: nul_def)
  show "no_print_fault (out env ''}'' [] s)" by (rule o [OF render_constants(2)]) (simp_all add: nul_def)
  show "no_print_fault (out env '' ['' [] s)" by (rule o [OF render_constants(3)]) (simp_all add: nul_def)
  show "no_print_fault (out env ('']'' @ crlf) [] s)" by (rule o [OF render_constants(4)]) (simp_all add: nul_def crlf_def)
  show "no_print_fault (out env (crlf @ crlf) [] s)" by (rule o [OF render_constants(5)]) (simp_all add: nul_def crlf_def)
  show "no_print_fault (out env (marker ''BEGIN'') [] s)" "no_print_fault (out env (marker ''END'') [] s)"
    by (rule o [OF render_constants(6)], simp_all add: nul_def crlf_def marker_def backslash_def)
      (rule o [OF render_constants(7), unfolded marker_def backslash_def crlf_def, simplified], simp_all add: nul_def)
qed

lemma no_print_execute:
  assumes "wired putch env" "words_ok bm"
  shows "no_print_fault (harness_execute env bm s)"
proof -
  note o = no_print_out [OF assms(1)]
  have c: "no_print_fault (run_control env bm s)" for s
    unfolding run_control_def using o(3,4) by (cases "kernel_control bm") auto
  show ?thesis
    unfolding harness_execute_def
    using o(1) [of "category bm" "bm_name bm"] o(2,5,6) c assms(2)
    by (intro no_print_bind no_print_calls no_print_run_kernel) (auto simp: words_ok_def)
qed

lemma no_print_execute_all:
  "wired putch env \<Longrightarrow> \<forall>bm\<in>set bms. words_ok bm \<Longrightarrow> no_print_fault (execute_all env bms s)"
  by (induction bms arbitrary: s) (auto intro: no_print_execute)

lemma no_print_main:
  assumes "wired putch env" "\<forall>bm\<in>set bms. words_ok bm"
  shows "no_print_fault (harness_main env bms s)"
  unfolding harness_main_def
  using no_print_out(7-9) [OF assms(1)] no_print_execute_all [OF assms] by (intro no_print_bind) auto

section \<open>Properties\<close>

text \<open>
  C28: on any console, when the routines of the benchmarks return and print nothing but spinner
  characters inside the timed brackets, harness_main returns and the console shows exactly the
  begin marker, one line per benchmark in the order of the list, and the end marker.
\<close>

theorem harness_output:
  assumes "console putch shown" and "wired putch env" and "env_ok shown env" and "\<forall>bm\<in>set bms. benchmark_ok shown bm"
  shows "\<exists>s' runs. harness_main env bms s = Inr s' \<and> recorded bms runs \<and>
    shown s' = shown s @ crlf @ crlf @ marker ''BEGIN'' @ report runs @ marker ''END''"
  using assms by (rule console.harness_main_shows)

text \<open>
  C29: whatever the benchmarks do, the harness's own output never fails: harness_main only ends
  early in the abort of one of the routines it calls.
\<close>

theorem harness_faults:
  assumes "wired putch env" and "\<forall>bm\<in>set bms. words_ok bm" and "harness_main env bms s = Inl fault"
  shows "\<exists>e. fault = Abort_in e"
  using no_print_main [OF assms(1,2), of s] assms(3) by (cases fault) (auto simp: no_print_fault_def)

text \<open>
  N calls of debug_spinner after debug_spinner_start show one step of the spinner for every
  rollover calls, in the order of the four characters, whatever the state before.
\<close>

theorem spinner_progress:
  assumes "console putch shown" and "0x1000 \<le> length junk" and "(ucast rollover :: u32) \<noteq> 0"
  shows "\<exists>sp' s'. bindE (debug_spinner_start arm junk (Some \<lparr>putch_fn = Some putch\<rparr>) rollover (sp, s))
      (spin arm junk (Some \<lparr>putch_fn = Some putch\<rparr>) n) = Inr (sp', s') \<and>
    shown s' = shown s @ '' '' @ spinner_text (n div unat (ucast rollover :: u32))"
  using assms by (rule console.spinner_shows)

subsection \<open>Concrete instances\<close>

lemma list_console: "console (\<lambda>s c. s @ [c]) (\<lambda>s :: string. s)"
  by unfold_locales simp

definition demo_benchmark :: "(unit, string) benchmark_t" where
  "demo_benchmark = \<lparr>bm_name = ''IF'', category = ''Exception'', kernel_init = None, kernel = (\<lambda>s. Inr (s @ ''/'')),
     kernel_cleanup = None, kernel_control = Some (\<lambda>s. Inr (s @ ''|'')), iteration_count = 0x10, kernel_priv = 1\<rparr>"

definition demo_env :: "(unit, string) harness_env" where
  "demo_env = \<lparr>he_arm = False, he_junk = replicate 0x1000 (CHR ''*''),
     OUTPUT = Some \<lparr>putch_fn = Some (\<lambda>s c. s @ [c])\<rparr>, priv_enter = Inr, priv_leave = Inr\<rparr>"

lemma demo_ok:
  "wired (\<lambda>s c. s @ [c]) demo_env" "env_ok (\<lambda>s :: string. s) demo_env" "benchmark_ok (\<lambda>s. s) demo_benchmark"
  "words_ok demo_benchmark"
  by (simp_all add: wired_def demo_env_def env_ok_def shows_only_def benchmark_ok_def demo_benchmark_def word_ok_def words_ok_def
      white_def nul_def spinner_output_def spinner_chars_def)

lemma harness_output_witness:
  "\<exists>s' runs. harness_main demo_env [demo_benchmark] '''' = Inr s' \<and> recorded [demo_benchmark] runs \<and>
    s' = crlf @ crlf @ marker ''BEGIN'' @ report runs @ marker ''END''"
  using harness_output [OF list_console demo_ok(1,2), of "[demo_benchmark]" "''''"] demo_ok(3) by simp

lemma harness_faults_witness:
  "\<exists>e. harness_main demo_env [demo_benchmark\<lparr>kernel_init := Some (\<lambda>s. Inl ())\<rparr>] '''' = Inl (Abort_in e)"
proof -
  let ?bm = "demo_benchmark\<lparr>kernel_init := Some (\<lambda>s. Inl ())\<rparr>"
  have w: "\<forall>bm\<in>set [?bm]. words_ok bm" using demo_ok(4) by (simp add: words_ok_def)
  have "\<exists>f. harness_main demo_env [?bm] '''' = Inl f"
    by (cases "harness_main demo_env [?bm] ''''")
      (auto simp: harness_main_def harness_execute_def call_def)
  then show ?thesis using harness_faults [OF demo_ok(1) w] by blast
qed

lemma spinner_progress_witness:
  "\<exists>sp' s'. bindE (debug_spinner_start False (replicate 0x1000 (CHR ''*'')) (Some \<lparr>putch_fn = Some (\<lambda>s c. s @ [c])\<rparr>) 2
        (\<lparr>counter_rollover = 7, counter = 1, counter_index = 3\<rparr>, ''''))
      (spin False (replicate 0x1000 (CHR ''*'')) (Some \<lparr>putch_fn = Some (\<lambda>s c. s @ [c])\<rparr>) 5) = Inr (sp', s') \<and>
    s' = [CHR '' '', CHR 0x08, CHR ''/'', CHR 0x08, CHR ''-'']"
proof -
  have t: "spinner_text 2 = [CHR 0x08, CHR ''/'', CHR 0x08, CHR ''-'']"
    by (simp add: spinner_text_def spinner_chars_def upt_rec)
  show ?thesis
    using spinner_progress [OF list_console, of "replicate 0x1000 (CHR ''*'')" 2 False
        "\<lparr>counter_rollover = 7, counter = 1, counter_index = 3\<rparr>" "''''" 5] by (simp add: t)
qed

end
