(* ===== verification/Host.thy ===== *)
theory Host
  imports Harness
begin

section \<open>The host program (src/host/main.c)\<close>

text \<open>
  The host reads the console of the simulated machine from its standard input, a string here, and
  takes a time stamp at each bracket of the harness's report; the stamps clock_gettime returns
  are the list clock. fgetc, getline and fscanf are modelled as the C standard defines them.
  The text that printf makes of a double under %lf is the function lf of the number of ticks.
\<close>

datatype host_fault = Buffer_overflow | No_time_stamp | Number_overflow

record timespec =
  tv_sec :: u64
  tv_nsec :: u64

record benchmark_times_t =
  control_ticks :: u64
  benchmark_ticks :: u64

record host_state =
  inp :: string
  clock :: "timespec list"
  host_out :: string

definition print_host :: "string \<Rightarrow> host_state \<Rightarrow> host_state" where
  "print_host t st = st\<lparr>host_out := host_out st @ t\<rparr>"

subsection \<open>Waiting for the marker\<close>

definition line_feed :: char where "line_feed = CHR 0x0A"

definition getline :: "string \<Rightarrow> (string \<times> string) option" where
  "getline s =
     (case dropWhile (\<lambda>c. c \<noteq> line_feed) s of
        [] \<Rightarrow> if s = [] then None else Some (s, [])
      | c # rest \<Rightarrow> Some (takeWhile (\<lambda>c. c \<noteq> line_feed) s @ [c], rest))"

definition STR_BENCHMARK_BEGIN :: string where
  "STR_BENCHMARK_BEGIN = [CHR 0x5C, CHR 0x5C] @ ''BENCHMARKS BEGIN'' @ [CHR 0x0D, CHR 0x0A]"

text \<open>strcmp compares up to the first NUL.\<close>

definition same_string :: "string \<Rightarrow> string \<Rightarrow> bool" where
  "same_string a b \<longleftrightarrow> takeWhile (\<lambda>c. c \<noteq> nul) a = takeWhile (\<lambda>c. c \<noteq> nul) b"

lemma getline_shorter: "getline s = Some (line, rest) \<Longrightarrow> length rest < length s"
proof -
  have "length (dropWhile P s) \<le> length s" for P by (rule length_dropWhile_le)
  from this [of "\<lambda>c. c \<noteq> line_feed"] show "getline s = Some (line, rest) \<Longrightarrow> length rest < length s"
    by (auto simp: getline_def split: list.splits if_splits)
qed

text \<open>The input behind the marker line; None when the input ends before one.\<close>

function read_start :: "string \<Rightarrow> string option" where
  "read_start s =
     (case getline s of
        None \<Rightarrow> None
      | Some (line, rest) \<Rightarrow> if same_string STR_BENCHMARK_BEGIN line then Some rest else read_start rest)"
  by pat_completeness auto
termination by (relation "measure length") (auto dest: getline_shorter)

declare read_start.simps [simp del]

subsection \<open>The formatted read\<close>

definition skip_white :: "string \<Rightarrow> string" where
  "skip_white s = dropWhile (\<lambda>c. c \<in> white) s"

text \<open>%s: a word into an array of 128 characters, its NUL included.\<close>

definition scan_word :: "string \<Rightarrow> host_fault + (string \<times> string) option" where
  "scan_word s =
     (let s = skip_white s; w = takeWhile (\<lambda>c. c \<notin> white) s in
      if w = [] then Inr None
      else if 128 \<le> length w then Inl Buffer_overflow
      else Inr (Some (w, dropWhile (\<lambda>c. c \<notin> white) s)))"

fun scan_char :: "char \<Rightarrow> string \<Rightarrow> string option" where
  "scan_char c [] = None"
| "scan_char c (d # s) = (if c = d then Some s else None)"

definition hex_digit :: "char \<Rightarrow> nat option" where
  "hex_digit c =
     (let n = of_char c in
      if 48 \<le> n \<and> n \<le> 57 then Some (n - 48)
      else if 97 \<le> n \<and> n \<le> 102 then Some (n - 87)
      else if 65 \<le> n \<and> n \<le> 70 then Some (n - 55) else None)"

definition hex_value :: "string \<Rightarrow> nat" where
  "hex_value ds = foldl (\<lambda>v c. 16 * v + the (hex_digit c)) 0 ds"

fun scan_sign :: "string \<Rightarrow> bool \<times> string" where
  "scan_sign [] = (False, [])"
| "scan_sign (c # s) = (if c = CHR ''-'' then (True, s) else if c = CHR ''+'' then (False, s) else (False, c # s))"

text \<open>%lx: an optional sign, an optional 0x, digits.\<close>

definition scan_hex :: "string \<Rightarrow> host_fault + (u64 \<times> string) option" where
  "scan_hex s =
     (let (neg, s) = scan_sign (skip_white s);
          s = (if take 2 s = ''0x'' \<or> take 2 s = ''0X'' then drop 2 s else s);
          ds = takeWhile (\<lambda>c. hex_digit c \<noteq> None) s;
          n = hex_value ds in
      if ds = [] then Inr None
      else if 2 ^ 64 \<le> n then Inl Number_overflow
      else Inr (Some (if neg then - word_of_nat n else word_of_nat n, dropWhile (\<lambda>c. hex_digit c \<noteq> None) s)))"

text \<open>fscanf(stdin, "%s - %s %lx ", ...): None when it does not assign three items.\<close>

definition bindO :: "host_fault + 'a option \<Rightarrow> ('a \<Rightarrow> host_fault + 'b option) \<Rightarrow> host_fault + 'b option" where
  "bindO m f = (case m of Inl e \<Rightarrow> Inl e | Inr None \<Rightarrow> Inr None | Inr (Some x) \<Rightarrow> f x)"

definition scan_header :: "string \<Rightarrow> host_fault + (string \<times> string \<times> u64 \<times> string) option" where
  "scan_header s =
     bindO (scan_word s) (\<lambda>(cat, s).
     bindO (Inr (scan_char (CHR ''-'') (skip_white s))) (\<lambda>s.
     bindO (scan_word s) (\<lambda>(benchmark, s).
     bindO (scan_hex s) (\<lambda>(iterations, s).
     Inr (Some (cat, benchmark, iterations, skip_white s))))))"

subsection \<open>The brackets and the time stamps\<close>

definition filler :: "char set" where
  "filler = {CHR ''|'', CHR ''/'', CHR ''-'', CHR 0x5C, CHR '' '', CHR 0x08}"

text \<open>At the end of the input fgetc gives EOF, which is no filler: 0 is returned.\<close>

fun read_timing_start_char :: "string \<Rightarrow> char \<times> string" where
  "read_timing_start_char [] = (nul, [])"
| "read_timing_start_char (c # s) =
     (if c = CHR ''{'' \<or> c = CHR ''['' then (c, s)
      else if c \<in> filler then read_timing_start_char s else (nul, s))"

fun read_timing_end_char :: "char \<Rightarrow> string \<Rightarrow> char \<times> string" where
  "read_timing_end_char target [] = (if target = CHR 0xFF then target else nul, [])"
| "read_timing_end_char target (c # s) =
     (if c = target then (target, s)
      else if c \<in> filler then read_timing_end_char target s else (nul, s))"

definition get_ticks_difference :: "timespec \<Rightarrow> timespec \<Rightarrow> u64" where
  "get_ticks_difference start end_time =
     (let start_ticks = tv_sec start * 1000000000 + tv_nsec start;
          end_ticks = tv_sec end_time * 1000000000 + tv_nsec end_time
      in end_ticks - start_ticks)"

fun clock_gettime :: "host_state \<Rightarrow> host_fault + timespec \<times> host_state" where
  "clock_gettime st =
     (case clock st of [] \<Rightarrow> Inl No_time_stamp | t # ts \<Rightarrow> Inr (t, st\<lparr>clock := ts\<rparr>))"

text \<open>One timed section: its result does not depend on what read_timing_end_char returns.\<close>

definition time_section :: "char \<Rightarrow> host_state \<Rightarrow> host_fault + u64 \<times> host_state" where
  "time_section target st =
     bindE (clock_gettime st) (\<lambda>(start_time, st).
     let (c, rest) = read_timing_end_char target (inp st); st = st\<lparr>inp := rest\<rparr> in
     bindE (clock_gettime st) (\<lambda>(end_time, st).
     Inr (get_ticks_difference start_time end_time, st)))"

text \<open>junk is what the uninitialised benchmark_ticks holds when no [ is read.\<close>

definition time_benchmarks :: "u64 \<Rightarrow> host_state \<Rightarrow> host_fault + benchmark_times_t \<times> host_state" where
  "time_benchmarks junk st =
     (let (time_start_char, rest) = read_timing_start_char (inp st); st = st\<lparr>inp := rest\<rparr> in
      bindE (if time_start_char = CHR ''{'' then
               bindE (time_section (CHR ''}'') st) (\<lambda>(control, st).
               let (time_start_char, rest) = read_timing_start_char (inp st); st = st\<lparr>inp := rest\<rparr>
               in Inr (control, time_start_char, st))
             else Inr (0, time_start_char, st)) (\<lambda>(control, time_start_char, st).
      bindE (if time_start_char = CHR ''['' then time_section (CHR '']'') st else Inr (junk, st)) (\<lambda>(ticks, st).
      Inr (\<lparr>control_ticks = control, benchmark_ticks = ticks\<rparr>, st))))"

text \<open>
  The int result 0 is True here. control_seconds is nonzero exactly when control_ticks is.
\<close>

definition read_benchmark :: "(u64 \<Rightarrow> string) \<Rightarrow> u64 \<Rightarrow> host_state \<Rightarrow> host_fault + bool \<times> host_state" where
  "read_benchmark lf junk st =
     bindE (scan_header (inp st)) (\<lambda>r.
     case r of
       None \<Rightarrow> Inr (False, st)
     | Some (cat, benchmark, iterations, rest) \<Rightarrow>
         let st = st\<lparr>inp := rest\<rparr>;
             st = print_host (cat @ '' - '' @ benchmark @ '' '' @ number_text Hex (unat iterations) @ '' '') st in
         bindE (time_benchmarks junk st) (\<lambda>(times, st).
         let st = (if control_ticks times \<noteq> 0 then print_host ('' '' @ lf (control_ticks times)) st else st)
         in Inr (True, print_host ('' '' @ lf (benchmark_ticks times) @ crlf) st)))"

lemma dropWhile_shorter [simp]: "length (dropWhile P s) \<le> length s"
  by (rule length_dropWhile_le)

lemma scan_word_shorter: "scan_word s = Inr (Some (w, rest)) \<Longrightarrow> length rest < length s"
proof -
  assume r: "scan_word s = Inr (Some (w, rest))"
  let ?s = "skip_white s"
  have w: "takeWhile (\<lambda>c. c \<notin> white) ?s \<noteq> []" "rest = dropWhile (\<lambda>c. c \<notin> white) ?s"
    using r by (auto simp: scan_word_def Let_def split: if_splits)
  have "length ?s = length (takeWhile (\<lambda>c. c \<notin> white) ?s) + length rest"
    unfolding w(2) by (metis length_append takeWhile_dropWhile_id)
  moreover have "length ?s \<le> length s" by (simp add: skip_white_def)
  moreover have "0 < length (takeWhile (\<lambda>c. c \<notin> white) ?s)" using w(1) by simp
  ultimately show ?thesis by linarith
qed

lemma scan_sign_shorter: "length (snd (scan_sign s)) \<le> length s"
  by (cases s) auto

lemma scan_hex_shorter: "scan_hex s = Inr (Some (n, rest)) \<Longrightarrow> length rest \<le> length s"
proof -
  obtain neg s1 where 1: "scan_sign (skip_white s) = (neg, s1)" by fastforce
  let ?s2 = "if take 2 s1 = ''0x'' \<or> take 2 s1 = ''0X'' then drop 2 s1 else s1"
  assume "scan_hex s = Inr (Some (n, rest))"
  then have "rest = dropWhile (\<lambda>c. hex_digit c \<noteq> None) ?s2"
    by (auto simp: scan_hex_def Let_def 1 split: if_splits)
  then have "length rest \<le> length ?s2" by simp
  also have "\<dots> \<le> length s1" by simp
  also have "\<dots> \<le> length (skip_white s)" using scan_sign_shorter [of "skip_white s"] 1 by simp
  also have "\<dots> \<le> length s" by (simp add: skip_white_def)
  finally show ?thesis .
qed

lemma scan_char_shorter: "scan_char c s = Some rest \<Longrightarrow> length rest < length s"
  by (cases s) (auto split: if_splits)

lemma scan_header_shorter:
  assumes "scan_header s = Inr (Some (c, b, n, rest))"
  shows "length rest < length s"
proof -
  obtain s1 s2 s3 s4 where "scan_word s = Inr (Some (c, s1))" "scan_char (CHR ''-'') (skip_white s1) = Some s2"
    "scan_word s2 = Inr (Some (b, s3))" "scan_hex s3 = Inr (Some (n, s4))" "rest = skip_white s4"
    using assms by (auto simp: scan_header_def bindO_def split: sum.splits option.splits)
  then have "length s1 < length s" "length s2 < length (skip_white s1)" "length s3 < length s2" "length s4 \<le> length s3"
    "length rest \<le> length s4"
    by (auto dest: scan_word_shorter scan_char_shorter scan_hex_shorter simp: skip_white_def)
  moreover have "length (skip_white s1) \<le> length s1" by (simp add: skip_white_def)
  ultimately show ?thesis by linarith
qed

lemma read_timing_shorter:
  "length (snd (read_timing_start_char s)) \<le> length s" "length (snd (read_timing_end_char t s)) \<le> length s"
  by (induction s) auto

lemma time_section_shorter: "time_section t st = Inr (v, st') \<Longrightarrow> length (inp st') \<le> length (inp st)"
  using read_timing_shorter(2) [of t "inp st"]
  by (auto simp: time_section_def Let_def split: prod.splits list.splits)

lemma time_benchmarks_shorter:
  assumes "time_benchmarks junk st = Inr (ts, st')"
  shows "length (inp st') \<le> length (inp st)"
proof -
  obtain c r where 1: "read_timing_start_char (inp st) = (c, r)" by fastforce
  note s1 = read_timing_shorter(1) [of "inp st", unfolded 1, simplified]
  show ?thesis
  proof (cases "c = CHR ''{''")
    case True
    with assms 1 obtain v st1 c2 r2 t st2 where
      "time_section (CHR ''}'') (st\<lparr>inp := r\<rparr>) = Inr (v, st1)" "read_timing_start_char (inp st1) = (c2, r2)"
      "(if c2 = CHR ''['' then time_section (CHR '']'') (st1\<lparr>inp := r2\<rparr>) else Inr (junk, st1\<lparr>inp := r2\<rparr>)) = Inr (t, st')"
      by (auto simp: time_benchmarks_def Let_def split: prod.splits)
    then show ?thesis
      using s1 read_timing_shorter(1) [of "inp st1"] by (fastforce dest: time_section_shorter split: if_splits)
  next
    case False
    with assms 1 s1 show ?thesis
      by (fastforce simp: time_benchmarks_def Let_def dest: time_section_shorter split: prod.splits if_splits)
  qed
qed

lemma read_benchmark_shorter:
  assumes "read_benchmark lf junk st = Inr (True, st')"
  shows "length (inp st') < length (inp st)"
  using assms
  by (fastforce simp: read_benchmark_def Let_def print_host_def dest!: scan_header_shorter time_benchmarks_shorter
      split: option.splits prod.splits if_splits)

text \<open>while(!read_benchmark()): every successful round consumes input, so the loop ends.\<close>

function read_all :: "(u64 \<Rightarrow> string) \<Rightarrow> u64 \<Rightarrow> host_state \<Rightarrow> host_fault + host_state" where
  "read_all lf junk st =
     (case read_benchmark lf junk st of
        Inl e \<Rightarrow> Inl e
      | Inr (again, st') \<Rightarrow> if again then read_all lf junk st' else Inr st')"
  by pat_completeness auto
termination by (relation "measure (\<lambda>(lf, junk, st). length (inp st))") (auto dest: read_benchmark_shorter)

declare read_all.simps [simp del]

definition host_main :: "(u64 \<Rightarrow> string) \<Rightarrow> u64 \<Rightarrow> host_state \<Rightarrow> host_fault + host_state" where
  "host_main lf junk st =
     bindE (case read_start (inp st) of
              None \<Rightarrow> Inr (st\<lparr>inp := []\<rparr>)
            | Some rest \<Rightarrow> read_all lf junk (print_host STR_BENCHMARK_BEGIN (st\<lparr>inp := rest\<rparr>))) (\<lambda>st.
     Inr (print_host (''Done.'' @ [line_feed]) st))"

section \<open>Reading the harness's report back\<close>

subsection \<open>The marker\<close>

lemma getline_line:
  assumes "line_feed \<notin> set t"
  shows "getline (t @ line_feed # q) = Some (t @ [line_feed], q)"
proof -
  have "dropWhile (\<lambda>c. c \<noteq> line_feed) (t @ line_feed # q) = line_feed # q"
    "takeWhile (\<lambda>c. c \<noteq> line_feed) (t @ line_feed # q) = t"
    using assms by (subst dropWhile_append2 takeWhile_append2; auto)+
  then show ?thesis by (simp add: getline_def)
qed

lemma getline_append:
  assumes "getline p = Some (line, rest)" "last p = line_feed"
  shows "getline (p @ q) = Some (line, rest @ q)" "rest \<noteq> [] \<longrightarrow> last rest = line_feed"
proof -
  have ne: "p \<noteq> []" using assms(1) by (auto simp: getline_def)
  then have "line_feed \<in> set p" using assms(2) last_in_set by metis
  then obtain a b where p: "p = a @ line_feed # b" "line_feed \<notin> set a" by (metis split_list_first)
  have l: "line = a @ [line_feed]" "rest = b" using getline_line [OF p(2), of b] assms(1) p(1) by auto
  then show "getline (p @ q) = Some (line, rest @ q)" using getline_line [OF p(2), of "b @ q"] p(1) by simp
  show "rest \<noteq> [] \<longrightarrow> last rest = line_feed" using assms(2) p(1) l by (auto split: if_splits)
qed

lemma read_start_append:
  assumes "read_start p = None" "p \<noteq> [] \<longrightarrow> last p = line_feed"
  shows "read_start (p @ q) = read_start q"
  using assms
proof (induction p rule: read_start.induct)
  case (1 p)
  show ?case
  proof (cases "getline p")
    case None
    then have "p = []" by (auto simp: getline_def split: list.splits if_splits)
    then show ?thesis by simp
  next
    case (Some lr)
    obtain line rest where lr: "getline p = Some (line, rest)" using Some by (cases lr) auto
    then have p: "p \<noteq> []" by (auto simp: getline_def)
    have l: "last p = line_feed" using 1(3) p by simp
    note A = getline_append [OF lr l]
    have ns: "\<not> same_string STR_BENCHMARK_BEGIN line" "read_start rest = None"
      using 1(2) lr by (subst (asm) read_start.simps; simp split: if_splits)+
    have "read_start (p @ q) = read_start (rest @ q)"
      using A(1) ns(1) by (subst read_start.simps) simp
    also have "\<dots> = read_start q" by (rule "1.IH" [OF lr refl]) (use ns A(2) in auto)
    finally show ?thesis .
  qed
qed


lemma read_start_line:
  assumes "line_feed \<notin> set t"
  shows "read_start (t @ line_feed # q) = (if same_string STR_BENCHMARK_BEGIN (t @ [line_feed]) then Some q else read_start q)"
  by (subst read_start.simps) (simp add: getline_line [OF assms])

lemma marker_begin: "marker ''BEGIN'' = STR_BENCHMARK_BEGIN"
  by (simp add: marker_def STR_BENCHMARK_BEGIN_def backslash_def crlf_def)

lemma read_start_marker: "read_start (crlf @ marker ''BEGIN'' @ q) = Some q"
proof -
  let ?m = "[CHR 0x5C, CHR 0x5C] @ ''BENCHMARKS BEGIN'' @ [CHR 0x0D]"
  have m: "crlf @ marker ''BEGIN'' @ q = [CHR 0x0D] @ line_feed # (?m @ line_feed # q)"
    by (simp add: marker_begin STR_BENCHMARK_BEGIN_def crlf_def line_feed_def)
  have l: "line_feed \<notin> set [CHR 0x0D]" "line_feed \<notin> set ?m" by (simp_all add: line_feed_def)
  have "read_start (crlf @ marker ''BEGIN'' @ q) =
    (if same_string STR_BENCHMARK_BEGIN ([CHR 0x0D] @ [line_feed]) then Some (?m @ line_feed # q)
     else if same_string STR_BENCHMARK_BEGIN (?m @ [line_feed]) then Some q else read_start q)"
    unfolding m read_start_line [OF l(1)] read_start_line [OF l(2)] by (rule refl)
  then show ?thesis by (simp add: same_string_def STR_BENCHMARK_BEGIN_def line_feed_def nul_def)
qed

subsection \<open>The header of a line\<close>

lemma skip_white_append: "set w \<subseteq> white \<Longrightarrow> skip_white (w @ s) = skip_white s"
  by (auto simp: skip_white_def subset_iff dropWhile_append2)

lemma skip_white_word: "t \<noteq> [] \<Longrightarrow> set t \<inter> white = {} \<Longrightarrow> skip_white (t @ s) = t @ s"
  by (cases t) (auto simp: skip_white_def)

lemma scan_word_ok:
  assumes "word_ok t" "set w \<subseteq> white" "c \<in> white"
  shows "scan_word (w @ t @ c # s) = Inr (Some (t, c # s))"
proof -
  have t: "t \<noteq> []" "set t \<inter> white = {}" "length t < 128" using assms(1) by (auto simp: word_ok_def)
  have "skip_white (w @ t @ c # s) = t @ c # s"
    using skip_white_append [OF assms(2)] skip_white_word [OF t(1,2)] by metis
  moreover have "takeWhile (\<lambda>c. c \<notin> white) (t @ c # s) = t" "dropWhile (\<lambda>c. c \<notin> white) (t @ c # s) = c # s"
    using t(2) assms(3) by (auto simp: takeWhile_append2 dropWhile_append2 disjoint_iff)
  ultimately show ?thesis using t by (simp add: scan_word_def)
qed

lemma hex_digit_nat: "k < 16 \<Longrightarrow> hex_digit (digit_of_nat k) = Some k"
  by (simp add: hex_digit_def digit_of_nat_def Let_def)

lemma hex_value_digits: "hex_value (digits Hex n) = n"
proof (induction n rule: less_induct)
  case (less n)
  show ?case
  proof (cases "n = 0")
    case False
    have "hex_value (digits Hex (n div 16)) = n div 16" using less [of "n div 16"] False by simp
    then show ?thesis
      using False hex_digit_nat [of "n mod 16"] by (subst digits.simps) (simp add: hex_value_def)
  qed (simp add: hex_value_def)
qed

lemma hex_value_number: "hex_value (number_text Hex n) = n"
proof (cases "n = 0")
  case True
  then show ?thesis by (simp add: number_text_def hex_value_def) (simp add: hex_digit_def)
qed (simp add: number_text_def hex_value_digits)

lemma hex_chars_digits: "c \<in> set hex_chars \<Longrightarrow> hex_digit c \<noteq> None"
  unfolding digit_table [symmetric] by (auto simp: hex_digit_nat)

lemma scan_hex_number:
  assumes "set w \<subseteq> white"
  shows "scan_hex (w @ number_text Hex (unat (v :: u64)) @ CHR '' '' # s) = Inr (Some (v, CHR '' '' # s))"
proof -
  let ?t = "number_text Hex (unat v)" and ?s = "number_text Hex (unat v) @ CHR '' '' # s"
  have ch: "c \<in> set hex_chars" if "c \<in> set ?t" for c using number_text_hex that by blast
  have ne: "?t \<noteq> []" by (simp add: number_text_def digits.simps [of Hex "unat v"])
  have "set ?t \<inter> white = {}" using ch hex_chars_plain(1) by blast
  then have 1: "skip_white (w @ ?s) = ?s" using skip_white_append [OF assms] skip_white_word [OF ne] by metis
  have sg: "c \<noteq> CHR ''-'' \<and> c \<noteq> CHR ''+'' \<and> c \<noteq> CHR ''x'' \<and> c \<noteq> CHR ''X''" if "c \<in> set ?t" for c
    using ch [OF that] by (auto simp: hex_chars_def)
  obtain a t where t: "?t = a # t" using ne by (cases ?t) auto
  have 2: "scan_sign ?s = (False, ?s)" using sg [of a] t by simp
  have 3: "\<not> (take 2 ?s = ''0x'' \<or> take 2 ?s = ''0X'')"
    using sg t by (cases t) auto
  have sp: "hex_digit (CHR '' '') = None" by (simp add: hex_digit_def)
  have 4: "takeWhile (\<lambda>c. hex_digit c \<noteq> None) ?s = ?t" "dropWhile (\<lambda>c. hex_digit c \<noteq> None) ?s = CHR '' '' # s"
    using hex_chars_digits ch sp by (subst takeWhile_append2 dropWhile_append2; auto)+
  have "unat v < 2 ^ 64" using unsigned_less [of v, where 'a = nat] by simp
  then have 5: "\<not> 2 ^ 64 \<le> hex_value ?t" by (simp only: hex_value_number not_le)
  show ?thesis
    unfolding scan_hex_def 1 2 Let_def case_prod_conv if_not_P [OF 3] 4 if_not_P [OF 5] using ne by (simp add: hex_value_number)
qed

lemma scan_header_ok:
  assumes "word_ok cat" "word_ok name" "set w \<subseteq> white" "s = c # s'" "c \<notin> white"
  shows "scan_header (w @ cat @ '' - '' @ name @ '' '' @ number_text Hex (unat (v :: u64)) @ '' '' @ s) = Inr (Some (cat, name, v, s))"
proof -
  have sp: "CHR '' '' \<in> white" "set '' '' \<subseteq> white" "CHR ''-'' \<notin> white" by (simp_all add: white_def)
  have n: "name @ '' '' @ x = [] @ name @ CHR '' '' # x" for x by simp
  have 1: "scan_word (w @ cat @ CHR '' '' # x) = Inr (Some (cat, CHR '' '' # x))" for x
    by (rule scan_word_ok [OF assms(1,3) sp(1)])
  have 2: "scan_word (CHR '' '' # name @ CHR '' '' # x) = Inr (Some (name, CHR '' '' # x))" for x
    using scan_word_ok [OF assms(2) sp(2,1), of x] by simp
  have 3: "scan_hex (CHR '' '' # number_text Hex (unat v) @ CHR '' '' # x) = Inr (Some (v, CHR '' '' # x))" for x
    using scan_hex_number [OF sp(2), of v x] by simp
  have 4: "skip_white (CHR '' '' # CHR ''-'' # x) = CHR ''-'' # x" "skip_white (CHR '' '' # s) = s" for x
    using sp assms(4,5) by (simp_all add: skip_white_def)
  show ?thesis by (simp add: scan_header_def bindO_def 1 2 3 4)
qed


subsection \<open>The timed sections\<close>

lemma spinner_filler: "spinner_output \<subseteq> filler"
  by (auto simp: spinner_output_def spinner_chars_def backslash_def filler_def)

lemma read_timing_end_ok:
  assumes "set sc \<subseteq> spinner_output" "t = CHR ''}'' \<or> t = CHR '']''"
  shows "read_timing_end_char t (sc @ t # s) = (t, s)"
  using assms(1)
proof (induction sc)
  case (Cons c sc)
  have "c \<in> filler" "c \<noteq> t" using Cons.prems assms(2) spinner_filler
    by (auto simp: spinner_output_def spinner_chars_def backslash_def)
  then show ?case using Cons by simp
qed simp

lemma time_section_ok:
  assumes "set sc \<subseteq> spinner_output" "t = CHR ''}'' \<or> t = CHR '']''" "inp st = sc @ t # s" "clock st = a # b # ts"
  shows "time_section t st = Inr (get_ticks_difference a b, st\<lparr>inp := s, clock := ts\<rparr>)"
  using assms(3,4) by (simp add: time_section_def read_timing_end_ok [OF assms(1,2)])

text \<open>What the host prints for a benchmark, from the time stamps of its sections.\<close>

definition stamps :: "('e, 's) benchmark_t \<Rightarrow> nat" where
  "stamps bm = (if kernel_control bm = None then 2 else 4)"

definition host_line :: "(u64 \<Rightarrow> string) \<Rightarrow> ('e, 's) benchmark_t \<Rightarrow> timespec list \<Rightarrow> string" where
  "host_line lf bm ts =
     (let control = get_ticks_difference (ts ! 0) (ts ! 1);
          k = stamps bm
      in category bm @ '' - '' @ bm_name bm @ '' '' @
         number_text Hex (unat (ucast (iteration_count bm) :: u32)) @ '' '' @
         (if kernel_control bm = None \<or> control = 0 then [] else '' '' @ lf control) @
         '' '' @ lf (get_ticks_difference (ts ! (k - 2)) (ts ! (k - 1))) @ crlf)"

fun host_lines :: "(u64 \<Rightarrow> string) \<Rightarrow> ('e, 's) benchmark_t list \<Rightarrow> timespec list \<Rightarrow> string" where
  "host_lines lf [] ts = []"
| "host_lines lf (bm # bms) ts = host_line lf bm ts @ host_lines lf bms (drop (stamps bm) ts)"

lemma number_u64: "number_text Hex (unat (ucast n :: u32)) = number_text Hex (unat (ucast (ucast n :: u32) :: u64))"
  for n :: u64
  by (simp add: unsigned_ucast_eq unsigned_take_bit_eq take_bit_nat_eq_self)

lemma read_benchmark_ok:
  fixes bm :: "('e, 's) benchmark_t"
  assumes "word_ok (category bm)" "word_ok (bm_name bm)" "set w \<subseteq> white" "set sc \<subseteq> spinner_output" "set sk \<subseteq> spinner_output"
    and "inp st = w @ transcript bm sc sk @ s" "stamps bm \<le> length (clock st)"
  shows "read_benchmark lf junk st = Inr (True, st\<lparr>inp := crlf @ s, clock := drop (stamps bm) (clock st),
    host_out := host_out st @ host_line lf bm (clock st)\<rparr>)"
proof -
  let ?v = "ucast (ucast (iteration_count bm) :: u32) :: u64"
  let ?k = "'']'' @ crlf @ s"
  have ec: "CHR ''}'' = CHR ''}'' \<or> CHR ''}'' = CHR '']''" "CHR '']'' = CHR ''}'' \<or> CHR '']'' = CHR '']''" by simp_all
  have nw: "CHR ''{'' \<notin> white" "CHR ''['' \<notin> white" by (simp_all add: white_def)
  show ?thesis
  proof (cases "kernel_control bm")
    case None
    have "inp st = w @ category bm @ '' - '' @ bm_name bm @ '' '' @ number_text Hex (unat ?v) @ '' '' @ (CHR ''['' # sk @ ?k)"
      using assms(6) None by (simp add: transcript_def number_u64)
    note h = scan_header_ok [OF assms(1,2,3) refl nw(2), of ?v "sk @ ?k", folded this]
    obtain a b ts where c: "clock st = a # b # ts" using assms(7) None
      by (auto simp: stamps_def Suc_le_length_iff numeral_eq_Suc)
    show ?thesis
      using None h c by (simp add: read_benchmark_def time_benchmarks_def print_host_def filler_def
          time_section_ok [OF assms(5) ec(2)] host_line_def stamps_def number_u64)
  next
    case (Some k)
    have "inp st = w @ category bm @ '' - '' @ bm_name bm @ '' '' @ number_text Hex (unat ?v) @ '' '' @
        (CHR ''{'' # sc @ ''} ['' @ sk @ ?k)"
      using assms(6) Some by (simp add: transcript_def number_u64)
    note h = scan_header_ok [OF assms(1,2,3) refl nw(1), of ?v "sc @ ''} ['' @ sk @ ?k", folded this]
    obtain a b a' b' ts where c: "clock st = a # b # a' # b' # ts" using assms(7) Some
      by (auto simp: stamps_def Suc_le_length_iff numeral_eq_Suc)
    show ?thesis
      using Some h c by (simp add: read_benchmark_def time_benchmarks_def print_host_def filler_def
          time_section_ok [OF assms(4) ec(1)] time_section_ok [OF assms(5) ec(2)] host_line_def stamps_def number_u64)
  qed
qed

lemma read_end:
  assumes "set w \<subseteq> white" "inp st = w @ marker ''END'' @ s"
  shows "read_benchmark lf junk st = Inr (False, st)"
proof -
  have "word_ok ([CHR 0x5C, CHR 0x5C] @ ''BENCHMARKS'')" by (simp add: word_ok_def white_def nul_def)
  from scan_word_ok [OF this assms(1), of "CHR '' ''" "''END'' @ crlf @ s"]
  have "scan_word (inp st) = Inr (Some ([CHR 0x5C, CHR 0x5C] @ ''BENCHMARKS'', CHR '' '' # ''END'' @ crlf @ s))"
    using assms(2) by (simp add: marker_def backslash_def white_def)
  moreover have "skip_white (CHR '' '' # ''END'' @ crlf @ s) = ''END'' @ crlf @ s"
    by (simp add: skip_white_def white_def)
  ultimately show ?thesis by (simp add: read_benchmark_def scan_header_def bindO_def)
qed

lemma read_all_ok:
  assumes "recorded bms runs" "\<forall>bm\<in>set bms. word_ok (category bm) \<and> word_ok (bm_name bm)" "set w \<subseteq> white"
    and "inp st = w @ report runs @ marker ''END'' @ s" "sum_list (map stamps bms) \<le> length (clock st)"
  shows "\<exists>st'. read_all lf junk st = Inr st' \<and> host_out st' = host_out st @ host_lines lf bms (clock st)"
  using assms
proof (induction bms arbitrary: runs w st)
  case Nil
  then have "inp st = w @ marker ''END'' @ s" by (simp add: recorded_def report_def)
  from read_end [OF Nil.prems(3) this] show ?case by (subst read_all.simps) simp
next
  case (Cons bm bms)
  obtain sc sk runs' where r: "runs = (bm, sc, sk) # runs'" "recorded bms runs'" "set sc \<subseteq> spinner_output" "set sk \<subseteq> spinner_output"
    using Cons.prems(1) by (cases runs) (auto simp: recorded_def)
  have i: "inp st = w @ transcript bm sc sk @ (report runs' @ marker ''END'' @ s)"
    using Cons.prems(4) r(1) by (simp add: report_def)
  have ok: "word_ok (category bm)" "word_ok (bm_name bm)" "stamps bm \<le> length (clock st)" using Cons.prems by auto
  let ?st = "st\<lparr>inp := crlf @ report runs' @ marker ''END'' @ s, clock := drop (stamps bm) (clock st),
    host_out := host_out st @ host_line lf bm (clock st)\<rparr>"
  have "\<exists>st'. read_all lf junk ?st = Inr st' \<and> host_out st' = host_out ?st @ host_lines lf bms (clock ?st)"
    by (rule Cons.IH [OF r(2), of crlf]) (use Cons.prems in \<open>auto simp: crlf_def white_def\<close>)
  then show ?case
    using read_benchmark_ok [OF ok(1,2) Cons.prems(3) r(3,4) i ok(3)] by (subst read_all.simps) simp
qed

lemma host_main_ok:
  assumes "recorded bms runs" "\<forall>bm\<in>set bms. word_ok (category bm) \<and> word_ok (bm_name bm)"
    and "inp st = pre @ crlf @ crlf @ marker ''BEGIN'' @ report runs @ marker ''END'' @ s"
    and "read_start (pre @ crlf) = None" "sum_list (map stamps bms) \<le> length (clock st)"
  shows "\<exists>st'. host_main lf junk st = Inr st' \<and>
    host_out st' = host_out st @ marker ''BEGIN'' @ host_lines lf bms (clock st) @ ''Done.'' @ [line_feed]"
proof -
  have "pre @ crlf \<noteq> [] \<longrightarrow> last (pre @ crlf) = line_feed" by (simp add: crlf_def line_feed_def)
  from read_start_append [OF assms(4) this, of "crlf @ marker ''BEGIN'' @ report runs @ marker ''END'' @ s"]
  have rs: "read_start (inp st) = Some (report runs @ marker ''END'' @ s)"
    unfolding assms(3) by (simp add: read_start_marker)
  let ?st = "print_host STR_BENCHMARK_BEGIN (st\<lparr>inp := report runs @ marker ''END'' @ s\<rparr>)"
  have "\<exists>st'. read_all lf junk ?st = Inr st' \<and> host_out st' = host_out ?st @ host_lines lf bms (clock ?st)"
    by (rule read_all_ok [OF assms(1,2), of "[]"]) (use assms(5) in \<open>simp_all add: print_host_def\<close>)
  then show ?thesis by (auto simp: host_main_def rs print_host_def marker_begin)
qed

subsection \<open>A run that stops in a kernel\<close>

lemma read_timing_end_cut:
  assumes "set sk \<subseteq> spinner_output" "t = CHR ''}'' \<or> t = CHR '']''"
  shows "read_timing_end_char t sk = (nul, [])"
  using assms(1)
proof (induction sk)
  case Nil
  then show ?case using assms(2) by auto
next
  case (Cons c sk)
  have "c \<in> filler" "c \<noteq> t" using Cons.prems assms(2) spinner_filler
    by (auto simp: spinner_output_def spinner_chars_def backslash_def)
  then show ?case using Cons by simp
qed

lemma time_section_cut:
  assumes "set sk \<subseteq> spinner_output" "t = CHR ''}'' \<or> t = CHR '']''" "inp st = sk" "clock st = a # b # ts"
  shows "time_section t st = Inr (get_ticks_difference a b, st\<lparr>inp := [], clock := ts\<rparr>)"
  using assms(3,4) by (simp add: time_section_def read_timing_end_cut [OF assms(1,2)])

text \<open>The line of a benchmark that never leaves its kernel.\<close>

definition cut_transcript :: "('e, 's) benchmark_t \<Rightarrow> string \<Rightarrow> string \<Rightarrow> string" where
  "cut_transcript bm sc sk = category bm @ '' - '' @ bm_name bm @ '' '' @
     number_text Hex (unat (ucast (iteration_count bm) :: u32)) @
     (if kernel_control bm = None then [] else '' {'' @ sc @ ''}'') @ '' ['' @ sk"

lemma read_benchmark_cut:
  fixes bm :: "('e, 's) benchmark_t"
  assumes "word_ok (category bm)" "word_ok (bm_name bm)" "set w \<subseteq> white" "set sc \<subseteq> spinner_output" "set sk \<subseteq> spinner_output"
    and "inp st = w @ cut_transcript bm sc sk" "stamps bm \<le> length (clock st)"
  shows "read_benchmark lf junk st = Inr (True, st\<lparr>inp := [], clock := drop (stamps bm) (clock st),
    host_out := host_out st @ host_line lf bm (clock st)\<rparr>)"
proof -
  let ?v = "ucast (ucast (iteration_count bm) :: u32) :: u64"
  have ec: "CHR ''}'' = CHR ''}'' \<or> CHR ''}'' = CHR '']''" "CHR '']'' = CHR ''}'' \<or> CHR '']'' = CHR '']''" by simp_all
  have nw: "CHR ''{'' \<notin> white" "CHR ''['' \<notin> white" by (simp_all add: white_def)
  note cut = time_section_cut [OF assms(5) ec(2)]
  show ?thesis
  proof (cases "kernel_control bm")
    case None
    have "inp st = w @ category bm @ '' - '' @ bm_name bm @ '' '' @ number_text Hex (unat ?v) @ '' '' @ (CHR ''['' # sk)"
      using assms(6) None by (simp add: cut_transcript_def number_u64)
    note h = scan_header_ok [OF assms(1,2,3) refl nw(2), of ?v sk, folded this]
    obtain a b ts where c: "clock st = a # b # ts" using assms(7) None
      by (auto simp: stamps_def Suc_le_length_iff numeral_eq_Suc)
    show ?thesis
      using None h c by (simp add: read_benchmark_def time_benchmarks_def print_host_def filler_def
          cut host_line_def stamps_def number_u64)
  next
    case (Some k)
    have "inp st = w @ category bm @ '' - '' @ bm_name bm @ '' '' @ number_text Hex (unat ?v) @ '' '' @
        (CHR ''{'' # sc @ ''} ['' @ sk)"
      using assms(6) Some by (simp add: cut_transcript_def number_u64)
    note h = scan_header_ok [OF assms(1,2,3) refl nw(1), of ?v "sc @ ''} ['' @ sk", folded this]
    obtain a b a' b' ts where c: "clock st = a # b # a' # b' # ts" using assms(7) Some
      by (auto simp: stamps_def Suc_le_length_iff numeral_eq_Suc)
    show ?thesis
      using Some h c by (simp add: read_benchmark_def time_benchmarks_def print_host_def filler_def
          time_section_ok [OF assms(4) ec(1)] cut host_line_def stamps_def number_u64)
  qed
qed

lemma read_nothing: "inp st = [] \<Longrightarrow> read_benchmark lf junk st = Inr (False, st)"
  by (simp add: read_benchmark_def scan_header_def bindO_def scan_word_def skip_white_def)

lemma read_all_cut:
  assumes "recorded bms runs" "\<forall>b\<in>set (bms @ [bm]). word_ok (category b) \<and> word_ok (bm_name b)" "set w \<subseteq> white"
    and "inp st = w @ report runs @ cut_transcript bm sc sk" "sum_list (map stamps (bms @ [bm])) \<le> length (clock st)"
    and "set sc \<subseteq> spinner_output" "set sk \<subseteq> spinner_output"
  shows "\<exists>st'. read_all lf junk st = Inr st' \<and> host_out st' = host_out st @ host_lines lf (bms @ [bm]) (clock st)"
  using assms
proof (induction bms arbitrary: runs w st)
  case Nil
  then have "inp st = w @ cut_transcript bm sc sk" by (simp add: recorded_def report_def)
  from read_benchmark_cut [OF _ _ Nil.prems(3,6,7) this, of lf junk] Nil.prems
  show ?case by (subst read_all.simps, simp) (subst read_all.simps, simp add: read_nothing)
next
  case (Cons b bms)
  obtain sc' sk' runs' where r: "runs = (b, sc', sk') # runs'" "recorded bms runs'" "set sc' \<subseteq> spinner_output" "set sk' \<subseteq> spinner_output"
    using Cons.prems(1) by (cases runs) (auto simp: recorded_def)
  have i: "inp st = w @ transcript b sc' sk' @ (report runs' @ cut_transcript bm sc sk)"
    using Cons.prems(4) r(1) by (simp add: report_def)
  have ok: "word_ok (category b)" "word_ok (bm_name b)" "stamps b \<le> length (clock st)" using Cons.prems by auto
  let ?st = "st\<lparr>inp := crlf @ report runs' @ cut_transcript bm sc sk, clock := drop (stamps b) (clock st),
    host_out := host_out st @ host_line lf b (clock st)\<rparr>"
  have "\<exists>st'. read_all lf junk ?st = Inr st' \<and> host_out st' = host_out ?st @ host_lines lf (bms @ [bm]) (clock ?st)"
    by (rule Cons.IH [OF r(2), of crlf]) (use Cons.prems in \<open>auto simp: crlf_def white_def\<close>)
  then show ?case
    using read_benchmark_ok [OF ok(1,2) Cons.prems(3) r(3,4) i ok(3)] by (subst read_all.simps) simp
qed

text \<open>The time a reading denotes: the members of struct timespec are signed.\<close>

definition nanoseconds :: "timespec \<Rightarrow> int" where
  "nanoseconds t = sint (tv_sec t) * 1000000000 + sint (tv_nsec t)"

lemma ticks_wrap: "get_ticks_difference a b = word_of_int (nanoseconds b - nanoseconds a)"
  by (simp add: get_ticks_difference_def nanoseconds_def)

section \<open>Properties\<close>

text \<open>
  C30: the difference the host computes is the time between the two readings modulo 2 to the 64, for all readings and although
  the products and sums wrap on the way. So it is the exact number of nanoseconds whenever the second
  reading is not before the first and less than 2 to the 64 nanoseconds after it, however large the seconds themselves are; when the
  second reading is before the first by d nanoseconds, which are at most 2 to the 64, it is 2 to the 64 minus d.
\<close>

theorem host_ticks_exact:
  "let ticks = uint (get_ticks_difference a b); elapsed = nanoseconds b - nanoseconds a in
    ticks = elapsed mod 2 ^ 64 \<and>
    (0 \<le> elapsed \<and> elapsed < 2 ^ 64 \<longrightarrow> ticks = elapsed) \<and>
    (- (2 ^ 64) \<le> elapsed \<and> elapsed < 0 \<longrightarrow> ticks = 2 ^ 64 + elapsed)"
proof -
  define d where "d = nanoseconds b - nanoseconds a"
  have t: "uint (get_ticks_difference a b) = d mod 2 ^ 64"
    unfolding ticks_wrap d_def [symmetric] by (simp add: unsigned_of_int take_bit_eq_mod)
  have "d mod 2 ^ 64 = 2 ^ 64 + d" if "- (2 ^ 64) \<le> d" "d < 0"
  proof -
    have "d mod 2 ^ 64 = (2 ^ 64 + d) mod 2 ^ 64" by simp
    also have "\<dots> = 2 ^ 64 + d" using that by (intro mod_pos_pos_trivial) simp_all
    finally show ?thesis .
  qed
  then show ?thesis unfolding Let_def d_def [symmetric] t by (auto intro: mod_pos_pos_trivial)
qed

text \<open>Both readings are past the point where the product with 10 to the 9 wraps.\<close>

lemma host_ticks_exact_witness:
  "uint (get_ticks_difference \<lparr>tv_sec = 0x20000000000, tv_nsec = 999999999\<rparr> \<lparr>tv_sec = 0x20000000002, tv_nsec = 1\<rparr>) = 1000000002 \<and>
   uint (get_ticks_difference \<lparr>tv_sec = 5, tv_nsec = 1\<rparr> \<lparr>tv_sec = 5, tv_nsec = 0\<rparr>) = 2 ^ 64 - 1"
  using host_ticks_exact [of "\<lparr>tv_sec = 0x20000000000, tv_nsec = 999999999\<rparr>" "\<lparr>tv_sec = 0x20000000002, tv_nsec = 1\<rparr>"]
    host_ticks_exact [of "\<lparr>tv_sec = 5, tv_nsec = 1\<rparr>" "\<lparr>tv_sec = 5, tv_nsec = 0\<rparr>"]
  by (simp add: nanoseconds_def Let_def)

text \<open>
  C31: when the machine stops inside the kernel of a benchmark, so that the console ends after the
  opening bracket and some spinner output, the host reports a time for this benchmark and
  finishes exactly as if it had completed: nobody looks at what read_timing_end_char returned.
\<close>

theorem host_times_aborted_run:
  assumes "recorded bms runs" and "\<forall>b\<in>set (bms @ [bm]). word_ok (category b) \<and> word_ok (bm_name b)"
    and "set sc \<subseteq> spinner_output" and "set sk \<subseteq> spinner_output"
    and "sum_list (map stamps (bms @ [bm])) \<le> length (clock st)"
    and "inp st = crlf @ marker ''BEGIN'' @ report runs @ cut_transcript bm sc sk"
  shows "\<exists>st'. host_main lf junk st = Inr st' \<and>
    host_out st' = host_out st @ marker ''BEGIN'' @ host_lines lf (bms @ [bm]) (clock st) @ ''Done.'' @ [line_feed]"
proof -
  have rs: "read_start (inp st) = Some (report runs @ cut_transcript bm sc sk)"
    unfolding assms(6) by (rule read_start_marker)
  let ?st = "print_host STR_BENCHMARK_BEGIN (st\<lparr>inp := report runs @ cut_transcript bm sc sk\<rparr>)"
  have "\<exists>st'. read_all lf junk ?st = Inr st' \<and> host_out st' = host_out ?st @ host_lines lf (bms @ [bm]) (clock ?st)"
    by (rule read_all_cut [where w = "[]" and sc = sc and sk = sk, OF assms(1,2)]) (use assms(3-5) in \<open>simp_all add: print_host_def\<close>)
  then show ?thesis by (auto simp: host_main_def rs print_host_def marker_begin)
qed

lemma demo_words: "word_ok (category demo_benchmark)" "word_ok (bm_name demo_benchmark)" "stamps demo_benchmark = 4"
  by (simp_all add: demo_benchmark_def word_ok_def white_def nul_def stamps_def)

lemma number_16: "number_text Hex 16 = ''10''"
proof -
  have "map digit_of_nat [0..<2] = ''01''" unfolding digit_of_nat_def by code_simp
  then have "digit_of_nat 0 = CHR ''0''" "digit_of_nat 1 = CHR ''1''" by (simp_all add: upt_rec)
  then show ?thesis by (simp add: number_text_def digits.simps [of Hex 16] digits.simps [of Hex "Suc 0"])
qed

lemma demo_line: "host_line (\<lambda>v. ''t'') demo_benchmark (replicate 4 \<lparr>tv_sec = 0, tv_nsec = 0\<rparr>) = ''Exception - IF 10  t'' @ crlf"
  by (simp add: host_line_def demo_words demo_benchmark_def get_ticks_difference_def number_16)

lemma host_times_aborted_run_witness:
  "\<exists>st'. host_main (\<lambda>v. ''t'') 0 \<lparr>inp = crlf @ marker ''BEGIN'' @ cut_transcript demo_benchmark ''|'' ''/'',
      clock = replicate 4 \<lparr>tv_sec = 0, tv_nsec = 0\<rparr>, host_out = []\<rparr> = Inr st' \<and>
    host_out st' = marker ''BEGIN'' @ ''Exception - IF 10  t'' @ crlf @ ''Done.'' @ [line_feed]"
proof -
  have "recorded [] []" "set ''|'' \<subseteq> spinner_output" "set ''/'' \<subseteq> spinner_output"
    by (simp_all add: recorded_def spinner_output_def spinner_chars_def)
  from host_times_aborted_run [OF this(1) _ this(2,3), of demo_benchmark
      "\<lparr>inp = crlf @ marker ''BEGIN'' @ cut_transcript demo_benchmark ''|'' ''/'',
        clock = replicate 4 \<lparr>tv_sec = 0, tv_nsec = 0\<rparr>, host_out = []\<rparr>" "\<lambda>v. ''t''" 0]
  show ?thesis by (simp add: demo_words demo_line report_def)
qed

end
