(* ===== verification/Arm_Memory.thy ===== *)
theory Arm_Memory
  imports Page_Tables
begin

section \<open>The arm port: section tables (arch/arm/mem.c)\<close>

text \<open>
  The 32-bit port maps 1 MB sections through one table of 4096 descriptors. The state holds that
  table, the static flags, the coprocessor registers mem.c reads and writes, and the list of the
  cache, TLB and barrier operations issued. The build flag ARCH_ARMV7 and the addresses the linker
  provides are in the record arm_image. A C int result of a mapping function is the first component.
\<close>

datatype arm_fault = Arm_abort

datatype cp15_op =
    Mcr (crn: nat) (crm: nat) (opc2: nat) (value_written: u32)
  | Arm_flush_dcache
  | Armv5_cache_mmu_off
  | Armv7_cache_mmu_off

record arm_state =
  section_table :: "u32 list"
  section_table_addr :: u32
  arm_mem_inited :: u8
  mem_tlb_unified :: u8
  mem_cache_unified :: u8
  mem_cache_implemented :: u8
  MIDR :: u32
  CTR :: u32
  TLBTR :: u32
  CONTROL :: u32
  TTBR :: u32
  DACR :: u32
  CPSR :: u32
  cp15_ops :: "cp15_op list"
  arm_words :: "u32 \<Rightarrow> u32"
  arm_irq_handler :: "nat option"

record arm_image =
  ARCH_ARMV7 :: bool
  sym_vectors_start :: u32
  sym_vectors_end :: u32
  arm_TEXT_START :: u32
  arm_TEXT_END :: u32
  arm_DATA_START :: u32
  arm_DATA_END :: u32
  sym_VECTORS_RELOCATE :: u32
  arm_devices :: "(u32 \<times> u32) list"

definition cp15 :: "cp15_op \<Rightarrow> arm_state \<Rightarrow> arm_state" where
  [model_eval]: "cp15 op s = s\<lparr>cp15_ops := cp15_ops s @ [op]\<rparr>"

definition write_ttbr :: "u32 \<Rightarrow> arm_state \<Rightarrow> arm_state" where
  [model_eval]: "write_ttbr v s = s\<lparr>TTBR := v\<rparr>"

definition write_dacr :: "u32 \<Rightarrow> arm_state \<Rightarrow> arm_state" where
  [model_eval]: "write_dacr v s = s\<lparr>DACR := v\<rparr>"

definition arm_page_size :: u32 where
  [model_eval]: "arm_page_size = push_bit 20 1"

subsection \<open>Mapping a section\<close>

text \<open>The descriptor both mapping functions assemble, with the cacheable and bufferable bits.\<close>

definition section_descriptor :: "u32 \<Rightarrow> u32 \<Rightarrow> u32 \<Rightarrow> u32" where
  [model_eval]: "section_descriptor phys_addr C B =
     (let base = phys_addr AND 0xfff00000; domain = 0; AP = 0x3; TEX = 0
      in base OR push_bit 12 TEX OR push_bit 10 AP OR push_bit 5 domain OR push_bit 3 C OR push_bit 2 B OR 0x2)"

definition enter_section :: "u32 \<Rightarrow> u32 \<Rightarrow> arm_state \<Rightarrow> arm_fault + int \<times> arm_state" where
  "enter_section descriptor virt_addr s =
     (let idx = unat (drop_bit 20 virt_addr); entry = section_table s ! idx in
      if entry \<noteq> 0 \<and> entry \<noteq> descriptor then Inl Arm_abort
      else Inr (0, s\<lparr>section_table := (section_table s)[idx := descriptor]\<rparr>))"

definition arm_create_page_mapping_data :: "u32 \<Rightarrow> u32 \<Rightarrow> arm_state \<Rightarrow> arm_fault + int \<times> arm_state" where
  "arm_create_page_mapping_data phys_addr virt_addr s =
     (if phys_addr AND (arm_page_size - 1) \<noteq> 0 \<or> virt_addr AND (arm_page_size - 1) \<noteq> 0 then Inr (1, s)
      else enter_section (section_descriptor phys_addr 1 1) virt_addr s)"


definition arm_create_page_mapping_device :: "u32 \<Rightarrow> u32 \<Rightarrow> arm_state \<Rightarrow> arm_fault + int \<times> arm_state" where
  "arm_create_page_mapping_device phys_addr virt_addr s =
     (if phys_addr AND (arm_page_size - 1) \<noteq> 0 \<or> virt_addr AND (arm_page_size - 1) \<noteq> 0 then Inr (1, s)
      else enter_section (section_descriptor phys_addr 0 0) virt_addr s)"

subsection \<open>Regions\<close>

text \<open>
  A round of a region loop ends the loop with an abort, ends it with the result 1, or goes on.
  The loop itself is the one of Page_Tables; None is a counter that wraps.
\<close>

datatype region_exit = Region_abort arm_fault | Return_1 arm_state

definition region_step ::
  "(u32 \<Rightarrow> u32 \<Rightarrow> arm_state \<Rightarrow> arm_fault + int \<times> arm_state) \<Rightarrow> u32 \<Rightarrow> u32 \<Rightarrow> arm_state \<Rightarrow> region_exit + arm_state" where
  "region_step f pa va s =
     (case f pa va s of
        Inl e \<Rightarrow> Inl (Region_abort e)
      | Inr (rc, s) \<Rightarrow> if rc \<noteq> 0 then Inl (Return_1 s) else Inr s)"

definition region_result :: "(region_exit + arm_state) option \<Rightarrow> (arm_fault + int \<times> arm_state) option" where
  "region_result r =
     (case r of
        None \<Rightarrow> None
      | Some (Inl (Region_abort e)) \<Rightarrow> Some (Inl e)
      | Some (Inl (Return_1 s)) \<Rightarrow> Some (Inr (1, s))
      | Some (Inr s) \<Rightarrow> Some (Inr (0, s)))"

definition arm_create_region :: "u32 \<Rightarrow> u32 \<Rightarrow> arm_state \<Rightarrow> (arm_fault + int \<times> arm_state) option" where
  "arm_create_region region_start region_end s =
     region_result (identity_loop (region_step arm_create_page_mapping_data) arm_page_size region_end
       (region_start AND NOT (arm_page_size - 1)) s)"

definition arm_create_region_device :: "u32 \<Rightarrow> u32 \<Rightarrow> arm_state \<Rightarrow> (arm_fault + int \<times> arm_state) option" where
  "arm_create_region_device region_start region_end s =
     region_result (identity_loop (region_step arm_create_page_mapping_device) arm_page_size region_end
       (region_start AND NOT (arm_page_size - 1)) s)"

subsection \<open>What the processor is\<close>

definition mem_get_arm_arch_version :: "arm_state \<Rightarrow> u8" where
  [model_eval]: "mem_get_arm_arch_version s =
     (let ctrl = MIDR s in
      if ctrl AND push_bit 19 1 = 0 then (if ctrl AND push_bit 23 1 = 0 then 3 else 4)
      else
        let ctrl = drop_bit 16 ctrl AND 0xf in
        if ctrl = 1 \<or> ctrl = 2 then 4
        else if ctrl = 3 \<or> ctrl = 4 \<or> ctrl = 5 \<or> ctrl = 6 then 5
        else if ctrl = 7 then 6
        else if ctrl = 0xF then 7
        else 0)"

definition mem_check_is_tlb_unified :: "arm_state \<Rightarrow> arm_state" where
  [model_eval]: "mem_check_is_tlb_unified s =
     (if mem_get_arm_arch_version s < 5 then s\<lparr>mem_tlb_unified := 0\<rparr>
      else if TLBTR s AND 1 \<noteq> 0 then s\<lparr>mem_tlb_unified := 0\<rparr> else s\<lparr>mem_tlb_unified := 1\<rparr>)"

definition mem_check_is_cache_unified :: "arm_state \<Rightarrow> arm_state" where
  [model_eval]: "mem_check_is_cache_unified s =
     (let v = mem_get_arm_arch_version s in
      if v \<le> 4 then s\<lparr>mem_cache_unified := 0\<rparr>
      else if v \<le> 6 then
        let ctrl = CTR s;
            cache_size = ctrl AND 0xfff;
            s = (if drop_bit 2 cache_size AND 0xf = 0x1 then s\<lparr>mem_cache_implemented := 0\<rparr>
                 else s\<lparr>mem_cache_implemented := 1\<rparr>)
        in if drop_bit 24 ctrl AND 1 \<noteq> 0 then s\<lparr>mem_cache_unified := 0\<rparr> else s\<lparr>mem_cache_unified := 1\<rparr>
      else if v = 7 then s\<lparr>mem_cache_implemented := 1\<rparr>
      else s)"

subsection \<open>mem_init\<close>

definition bindR :: "('e + 'r \<times> 's) option \<Rightarrow> ('s \<Rightarrow> ('e + 't) option) \<Rightarrow> ('e + 't) option" where
  "bindR m f = (case m of None \<Rightarrow> None | Some (Inl e) \<Rightarrow> Some (Inl e) | Some (Inr (rc, s)) \<Rightarrow> f s)"

fun arm_map_devices :: "(u32 \<times> u32) list \<Rightarrow> arm_state \<Rightarrow> (arm_fault + int \<times> arm_state) option" where
  "arm_map_devices [] s = Some (Inr (0, s))"
| "arm_map_devices ((lo, hi) # devs) s = bindR (arm_create_region_device lo hi s) (arm_map_devices devs)"

definition vector_base :: "arm_state \<Rightarrow> u32" where
  [model_eval]: "vector_base s = (if CONTROL s AND push_bit 13 1 \<noteq> 0 then 0xffff0000 else 0)"

definition map_vectors :: "arm_image \<Rightarrow> arm_state \<Rightarrow> (arm_fault + int \<times> arm_state) option" where
  "map_vectors img s =
     (let vector_paddr = sym_VECTORS_RELOCATE img;
          vector_ppage = vector_paddr AND NOT (arm_page_size - 1);
          vector_vaddr = vector_base s;
          vector_vpage = (if CONTROL s AND push_bit 13 1 \<noteq> 0 then vector_vaddr AND NOT (arm_page_size - 1) else 0)
      in if vector_vaddr AND (arm_page_size - 1) \<noteq> vector_paddr AND (arm_page_size - 1) then Some (Inl Arm_abort)
         else
           bindR (Some (arm_create_page_mapping_data vector_ppage vector_vpage s)) (\<lambda>s.
           let vectorstart = sym_VECTORS_RELOCATE img AND NOT (arm_page_size - 1)
           in arm_create_region vectorstart (vectorstart + arm_page_size) s))"

definition arm_mem_init :: "arm_image \<Rightarrow> arm_state \<Rightarrow> (arm_fault + arm_state) option" where
  "arm_mem_init img s =
     (let s = mem_check_is_tlb_unified s;
          s = mem_check_is_cache_unified s;
          s = write_ttbr (section_table_addr s) s;
          s = s\<lparr>section_table := replicate 4096 0\<rparr> in
      bindR (arm_create_region (sym_vectors_start img) (sym_vectors_end img) s) (\<lambda>s.
      bindR (arm_create_region (arm_TEXT_START img) (arm_TEXT_END img) s) (\<lambda>s.
      bindR (arm_create_region (arm_DATA_START img) (arm_DATA_END img) s) (\<lambda>s.
      bindR (arm_map_devices (arm_devices img) s) (\<lambda>s.
      bindR (map_vectors img s) (\<lambda>s.
      Some (Inr ((write_dacr 0xffffffff s)\<lparr>arm_mem_inited := 1\<rparr>))))))))"

definition arm_mem_reset :: "arm_image \<Rightarrow> arm_state \<Rightarrow> (arm_fault + arm_state) option" where
  "arm_mem_reset img s = arm_mem_init img (s\<lparr>arm_mem_inited := 0\<rparr>)"

subsection \<open>Caches, TLB, MMU\<close>

definition arm_cache_flush :: "arm_image \<Rightarrow> arm_state \<Rightarrow> arm_fault + arm_state" where
  [model_eval]: "arm_cache_flush img s =
     (if mem_cache_implemented s = 0 then Inr s
      else
        bindE (if mem_get_arm_arch_version s \<le> 5 then
                 (if mem_cache_unified s \<noteq> 0 then Inr (cp15 (Mcr 7 15 0 0) s) else Inr (cp15 (Mcr 7 14 0 0) s))
               else if ARCH_ARMV7 img then Inr (cp15 Arm_flush_dcache s)
               else Inl Arm_abort) (\<lambda>s.
        Inr (cp15 (Mcr 7 5 4 0) (cp15 (Mcr 7 10 4 0) s))))"

text \<open>
  The assembly statement that writes the control register names the output register in the MCR
  and the input register in the MRC. What the output register holds before the statement is up to
  the compiler: output_reg gives it from the input value.
\<close>

definition arm_mmu_enable :: "(u32 \<Rightarrow> u32) \<Rightarrow> arm_image \<Rightarrow> arm_state \<Rightarrow> arm_fault + arm_state" where
  [model_eval]: "arm_mmu_enable output_reg img s =
     bindE (arm_cache_flush img s) (\<lambda>s.
     let c = CONTROL s;
         c = c OR 0x1;
         c = c OR (push_bit 2 1 OR push_bit 3 1 OR push_bit 26 1 OR push_bit 14 1);
         s = s\<lparr>CONTROL := output_reg c\<rparr>
     in arm_cache_flush img (cp15 (Mcr 7 5 6 0) (cp15 (Mcr 7 5 4 0) s)))"

text \<open>Both assembly routines clear the bits 0, 2 and 3 of the control register.\<close>

definition cache_mmu_off :: "cp15_op \<Rightarrow> arm_state \<Rightarrow> arm_state" where
  [model_eval]: "cache_mmu_off op s = cp15 op (s\<lparr>CONTROL := CONTROL s AND NOT 0xd\<rparr>)"

definition arm_mmu_disable :: "arm_image \<Rightarrow> arm_state \<Rightarrow> arm_fault + arm_state" where
  [model_eval]: "arm_mmu_disable img s =
     (if mem_get_arm_arch_version s = 7
      then (if ARCH_ARMV7 img then Inr (cache_mmu_off Armv7_cache_mmu_off s) else Inl Arm_abort)
      else (if ARCH_ARMV7 img then Inl Arm_abort else Inr (cache_mmu_off Armv5_cache_mmu_off s)))"

definition arm_tlb_flush :: "arm_state \<Rightarrow> arm_state" where
  "arm_tlb_flush s = cp15 (Mcr 7 5 4 0) (cp15 (Mcr 8 7 0 0) s)"

definition arm_tlb_evict :: "u32 \<Rightarrow> arm_state \<Rightarrow> arm_state" where
  "arm_tlb_evict ptr s =
     (if mem_tlb_unified s \<noteq> 0 then cp15 (Mcr 8 7 1 ptr) s
      else cp15 (Mcr 8 6 1 ptr) (cp15 (Mcr 8 5 1 ptr) s))"

section \<open>The section table as a map\<close>

text \<open>The hardware's translation: a section descriptor has 2 in its two lowest bits.\<close>

definition arm_translate :: "arm_state \<Rightarrow> u32 \<Rightarrow> (u32 \<times> u32) option" where
  "arm_translate s va =
     (let d = section_table s ! unat (drop_bit 20 va) in
      if d AND 3 = 2 then Some ((d AND 0xfff00000) OR (va AND 0xfffff), d AND 0xfffff) else None)"

definition table_ok :: "arm_state \<Rightarrow> bool" where
  "table_ok s \<longleftrightarrow> length (section_table s) = 4096 \<and> (\<forall>d\<in>set (section_table s). d = 0 \<or> d AND 3 = 2)"

definition section_view :: "arm_state \<Rightarrow> u32 \<Rightarrow> u32 option" where
  "section_view s i =
     (if i < 4096 \<and> section_table s ! unat i \<noteq> 0 then Some (section_table s ! unat i) else None)"

definition section_of :: "u32 \<Rightarrow> u32" where
  [model_eval]: "section_of va = drop_bit 20 va"

lemma section_of_less [simp]: "section_of va < 4096"
proof -
  have "unat (drop_bit 20 va) = unat va div 2 ^ 20" by (simp add: unsigned_drop_bit_eq drop_bit_eq_div unat_div)
  moreover have "unat va < 2 ^ 32" using unsigned_less [of va, where 'a = nat] by simp
  ultimately show ?thesis by (simp add: section_of_def word_less_nat_alt)
qed

definition sec_data :: "u32 \<Rightarrow> u32" where [model_eval]: "sec_data pa = (pa AND 0xfff00000) OR 0xc0e"
definition sec_device :: "u32 \<Rightarrow> u32" where [model_eval]: "sec_device pa = (pa AND 0xfff00000) OR 0xc02"

lemma section_descriptor_eq: "section_descriptor pa 1 1 = sec_data pa" "section_descriptor pa 0 0 = sec_device pa"
  by (simp_all add: section_descriptor_def sec_data_def sec_device_def or.assoc push_bit_eq_mult)

lemma sec_bits: "sec_data pa AND 3 = 2" "sec_device pa AND 3 = 2" "sec_data pa \<noteq> 0" "sec_device pa \<noteq> 0"
    "sec_data pa \<noteq> sec_device pa'"
proof -
  have b: "sec_data pa AND 0xf = 0xe" "sec_device pa AND 0xf = 0x2" for pa
    by (simp_all add: sec_data_def sec_device_def bit.conj_disj_distrib2 and.assoc)
  show "sec_data pa \<noteq> sec_device pa'" using b(1) [of pa] b(2) [of pa'] by auto
  show "sec_data pa \<noteq> 0" "sec_device pa \<noteq> 0" using b(1) [of pa] b(2) [of pa] by auto
  show "sec_data pa AND 3 = 2" "sec_device pa AND 3 = 2"
    by (simp_all add: sec_data_def sec_device_def bit.conj_disj_distrib2 and.assoc)
qed

lemma enter_section_ok:
  assumes "table_ok s" "d AND 3 = 2" "enter_section d va s = Inr (rc, s')"
  shows "rc = 0" "table_ok s'" "section_view s' = (section_view s)(section_of va \<mapsto> d)"
    "s' = s\<lparr>section_table := section_table s'\<rparr>"
    "section_view s (section_of va) = None \<or> section_view s (section_of va) = Some d"
proof -
  let ?i = "unat (section_of va)"
  have i: "?i < 4096" using section_of_less [of va] by (simp add: word_less_nat_alt)
  have s': "rc = 0" "s' = s\<lparr>section_table := (section_table s)[?i := d]\<rparr>" "section_table s ! ?i = 0 \<or> section_table s ! ?i = d"
    using assms(3) by (auto simp: enter_section_def Let_def section_of_def split: if_splits)
  have dz: "d \<noteq> 0" using assms(2) by auto
  show "rc = 0" by (rule s'(1))
  show "s' = s\<lparr>section_table := section_table s'\<rparr>" using s'(2) by simp
  show "table_ok s'" using assms(1,2) s'(2) by (auto simp: table_ok_def dest!: set_update_subset_insert [THEN subsetD])
  show "section_view s' = (section_view s)(section_of va \<mapsto> d)"
  proof
    fix j
    have l: "length (section_table s) = 4096" using assms(1) by (simp add: table_ok_def)
    show "section_view s' j = ((section_view s)(section_of va \<mapsto> d)) j"
    proof (cases "j = section_of va")
      case True
      then show ?thesis using i l dz s'(2) by (simp add: section_view_def)
    next
      case False
      then have "unat j \<noteq> ?i" by (simp add: word_unat_eq_iff)
      then show ?thesis using False s'(2) by (simp add: section_view_def)
    qed
  qed
  show "section_view s (section_of va) = None \<or> section_view s (section_of va) = Some d"
    using s'(3) by (auto simp: section_view_def)
qed

text \<open>The mapping functions as the region loops use them.\<close>

definition arm_map_data :: "u32 \<Rightarrow> u32 \<Rightarrow> arm_state \<Rightarrow> region_exit + arm_state" where
  "arm_map_data = region_step arm_create_page_mapping_data"

definition arm_map_device :: "u32 \<Rightarrow> u32 \<Rightarrow> arm_state \<Rightarrow> region_exit + arm_state" where
  "arm_map_device = region_step arm_create_page_mapping_device"

lemma arm_map_ok:
  assumes "table_ok s" "f = arm_map_data \<and> d = sec_data \<or> f = arm_map_device \<and> d = sec_device" "f pa va s = Inr s'"
  shows "table_ok s'" "section_view s' = (section_view s)(section_of va \<mapsto> d pa)"
    "s' = s\<lparr>section_table := section_table s'\<rparr>"
    "section_view s (section_of va) = None \<or> section_view s (section_of va) = Some (d pa)"
proof -
  have e: "enter_section (d pa) va s = Inr (0, s')"
    using assms(2,3)
    by (auto simp: arm_map_data_def arm_map_device_def region_step_def arm_create_page_mapping_data_def
        arm_create_page_mapping_device_def section_descriptor_eq enter_section_def Let_def split: if_splits)
  have d: "d pa AND 3 = 2" using assms(2) sec_bits by auto
  show "table_ok s'" "section_view s' = (section_view s)(section_of va \<mapsto> d pa)" "s' = s\<lparr>section_table := section_table s'\<rparr>"
    "section_view s (section_of va) = None \<or> section_view s (section_of va) = Some (d pa)"
    by (fact enter_section_ok [OF assms(1) d e])+
qed

lemma arm_mapper:
  assumes "f = arm_map_data \<and> d = sec_data \<or> f = arm_map_device \<and> d = sec_device"
  shows "page_mapper f table_ok section_view section_of d"
  by unfold_locales (fact arm_map_ok(1) [OF _ assms], fact arm_map_ok(2) [OF _ assms])

interpretation arm_data: page_mapper arm_map_data table_ok section_view section_of sec_data
  by (rule arm_mapper) simp

interpretation arm_device: page_mapper arm_map_device table_ok section_view section_of sec_device
  by (rule arm_mapper) simp

subsection \<open>Entering a list of sections\<close>

fun enter_list :: "(u32 \<times> u32) list \<Rightarrow> arm_state \<Rightarrow> arm_fault + arm_state" where
  "enter_list [] s = Inr s"
| "enter_list ((va, d) # rs) s = bindE (enter_section d va s) (\<lambda>(rc, s). enter_list rs s)"

lemma enter_list_append: "enter_list (ps @ qs) s = bindE (enter_list ps s) (enter_list qs)"
  by (induction ps s rule: enter_list.induct) (auto simp: bindE_def split: sum.splits)

definition conflict :: "(u32 \<times> u32) list \<Rightarrow> bool" where
  "conflict rs \<longleftrightarrow> (\<exists>(a, d)\<in>set rs. \<exists>(b, e)\<in>set rs. section_of a = section_of b \<and> d \<noteq> e)"

definition entered :: "(u32 \<times> u32) list \<Rightarrow> u32 \<Rightarrow> u32 option" where
  "entered rs = map_of (map (\<lambda>(a, d). (section_of a, d)) rs)"

lemma conflict_Cons:
  "conflict ((a, d) # rs) \<longleftrightarrow> conflict rs \<or> (\<exists>(b, e)\<in>set rs. section_of b = section_of a \<and> e \<noteq> d)"
proof -
  define P where "P x y \<longleftrightarrow> section_of (fst x) = section_of (fst y) \<and> snd x \<noteq> snd y" for x y :: "u32 \<times> u32"
  have sym: "P x y \<Longrightarrow> P y x" and irr: "\<not> P x x" for x y by (auto simp: P_def)
  have c: "conflict rs \<longleftrightarrow> (\<exists>x\<in>set rs. \<exists>y\<in>set rs. P x y)" for rs
    by (simp add: conflict_def P_def split_beta)
  have e: "(\<exists>(b, e)\<in>set rs. section_of b = section_of a \<and> e \<noteq> d) \<longleftrightarrow> (\<exists>x\<in>set rs. P x (a, d))"
    by (simp add: P_def split_beta)
  show ?thesis unfolding c e set_simps bex_simps using sym irr by blast
qed

lemma enter_section_cases:
  assumes "table_ok s" "d AND 3 = 2"
  shows "enter_section d va s =
    (if section_view s (section_of va) \<in> {None, Some d}
     then Inr (0, s\<lparr>section_table := (section_table s)[unat (section_of va) := d]\<rparr>) else Inl Arm_abort)"
  by (auto simp: enter_section_def Let_def section_view_def section_of_def [symmetric])

lemma entered_in: "(a, d) \<in> set rs \<Longrightarrow> \<not> conflict rs \<Longrightarrow> entered rs (section_of a) = Some d"
proof (induction rs)
  case (Cons r rs)
  obtain b e where r: "r = (b, e)" by (cases r)
  show ?case
  proof (cases "section_of b = section_of a")
    case True
    then have "e = d" using Cons.prems r by (auto simp: conflict_def)
    then show ?thesis using True r by (simp add: entered_def)
  next
    case False
    then have "(a, d) \<in> set rs" using Cons.prems(1) r by auto
    moreover have "\<not> conflict rs" using Cons.prems(2) by (auto simp: conflict_def)
    ultimately show ?thesis using Cons.IH False r by (simp add: entered_def)
  qed
qed simp

lemma entered_none: "i \<notin> section_of ` fst ` set rs \<Longrightarrow> entered rs i = None"
  by (auto simp: entered_def map_of_eq_None_iff image_image case_prod_unfold)

lemma enter_list_exact:
  assumes "table_ok s" "\<forall>(a, d)\<in>set rs. d AND 3 = 2"
  shows "if (\<forall>(a, d)\<in>set rs. section_view s (section_of a) \<in> {None, Some d}) \<and> \<not> conflict rs
    then \<exists>t. enter_list rs s = Inr (s\<lparr>section_table := t\<rparr>) \<and> table_ok (s\<lparr>section_table := t\<rparr>) \<and>
      section_view (s\<lparr>section_table := t\<rparr>) = section_view s ++ entered rs
    else enter_list rs s = Inl Arm_abort"
  using assms
proof (induction rs arbitrary: s)
  case Nil
  have "\<exists>t. Inr s = (Inr (s\<lparr>section_table := t\<rparr>) :: arm_fault + arm_state) \<and> table_ok (s\<lparr>section_table := t\<rparr>) \<and>
      section_view (s\<lparr>section_table := t\<rparr>) = section_view s ++ entered []"
    by (rule exI [of _ "section_table s"]) (use Nil in \<open>simp add: entered_def\<close>)
  then show ?case by (simp add: conflict_def)
next
  case (Cons r rs)
  obtain a d where r: "r = (a, d)" by (cases r)
  have d: "d AND 3 = 2" and ds: "\<forall>(a, d)\<in>set rs. d AND 3 = 2" using Cons.prems(2) r by auto
  let ?s1 = "s\<lparr>section_table := (section_table s)[unat (section_of a) := d]\<rparr>"
  note C = enter_section_cases [OF Cons.prems(1) d, of a]
  show ?case
  proof (cases "section_view s (section_of a) \<in> {None, Some d}")
    case False
    then show ?thesis using C r by auto
  next
    case True
    then have e: "enter_section d a s = Inr (0, ?s1)" using C by simp
    note E = enter_section_ok [OF Cons.prems(1) d e]
    note I = Cons.IH [OF E(2) ds]
    let ?ok = "(\<forall>(a, d)\<in>set rs. section_view ?s1 (section_of a) \<in> {None, Some d}) \<and> \<not> conflict rs"
    have iff: "?ok \<longleftrightarrow> (\<forall>(a, d)\<in>set (r # rs). section_view s (section_of a) \<in> {None, Some d}) \<and> \<not> conflict (r # rs)"
      using True unfolding E(3) r conflict_Cons by (auto split: if_splits)
    have el: "enter_list (r # rs) s = enter_list rs ?s1" using e r by simp
    show ?thesis
    proof (cases ?ok)
      case ok: True
      then obtain t where t: "enter_list rs ?s1 = Inr (?s1\<lparr>section_table := t\<rparr>)" "table_ok (?s1\<lparr>section_table := t\<rparr>)"
        "section_view (?s1\<lparr>section_table := t\<rparr>) = section_view ?s1 ++ entered rs" using I [unfolded if_P [OF ok]] by blast
      have u: "?s1\<lparr>section_table := t\<rparr> = s\<lparr>section_table := t\<rparr>" by simp
      have nc: "\<not> conflict (r # rs)" using ok iff by blast
      have "section_view ?s1 ++ entered rs = section_view s ++ entered (r # rs)"
      proof
        fix i
        show "(section_view ?s1 ++ entered rs) i = (section_view s ++ entered (r # rs)) i"
        proof (cases "i = section_of a")
          case True
          have "entered (r # rs) i = Some d" using True r by (simp add: entered_def)
          moreover have "entered rs i \<in> {None, Some d}"
          proof (cases "i \<in> section_of ` fst ` set rs")
            case True
            then obtain b e where be: "(b, e) \<in> set rs" "i = section_of b" by auto
            then have "e = d" using nc r \<open>i = section_of a\<close> by (auto simp: conflict_def)
            then show ?thesis using entered_in [OF be(1)] ok be(2) by simp
          qed (simp add: entered_none)
          ultimately show ?thesis unfolding E(3) using True by (auto simp: map_add_def)
        next
          case False
          then show ?thesis unfolding E(3) by (simp add: map_add_def entered_def r split: option.split)
        qed
      qed
      then show ?thesis unfolding iff [symmetric] el using ok t unfolding u by auto
    next
      case False
      then show ?thesis unfolding iff [symmetric] el using I by auto
    qed
  qed
qed

subsection \<open>Regions and mem_init as lists of sections\<close>

definition sections :: "u32 \<Rightarrow> u32 \<Rightarrow> u32 list" where
  [model_eval]: "sections lo hi = region_pages 0x100000 hi (lo AND NOT 0xfffff)"

definition aligned :: "u32 \<Rightarrow> bool" where [model_eval]: "aligned a \<longleftrightarrow> a AND 0xfffff = 0"

lemma page_size_facts: "arm_page_size = 0x100000" "arm_page_size - 1 = 0xfffff"
  by (simp_all add: arm_page_size_def push_bit_eq_mult)

lemma aligned_take_bit: "aligned a \<longleftrightarrow> take_bit 20 a = 0"
  by (simp add: aligned_def take_bit_eq_mask mask_eq_exp_minus_1)

lemma aligned_nat: "aligned a \<longleftrightarrow> 0x100000 dvd unat a"
proof -
  have "take_bit 20 a = 0 \<longleftrightarrow> unat (take_bit 20 a) = 0" by (simp only: word_unat_eq_iff unsigned_0)
  also have "unat (take_bit 20 a) = unat a mod 2 ^ 20" by (subst unsigned_take_bit_eq) (simp add: take_bit_eq_mod)
  finally show ?thesis unfolding aligned_take_bit by (simp add: dvd_eq_mod_eq_0)
qed

lemma aligned_step:
  assumes "aligned a"
  shows "aligned (a + 0x100000 * k)"
proof -
  have "0x100000 dvd unat a + 0x100000 * unat k mod 2 ^ 32"
    using assms by (intro dvd_add dvd_mod) (simp_all add: aligned_nat)
  then have "0x100000 dvd (unat a + 0x100000 * unat k mod 2 ^ 32) mod 2 ^ 32" by (rule dvd_mod) simp
  then show ?thesis by (simp add: aligned_nat unat_word_ariths)
qed

lemma section_aligned_base: "aligned (a AND NOT 0xfffff)"
  by (simp add: aligned_def and.assoc)

lemma sections_aligned: "a \<in> set (sections lo hi) \<Longrightarrow> aligned a"
  using aligned_step [OF section_aligned_base] by (auto simp: sections_def region_pages_def split: if_splits)

text \<open>The mapping functions on aligned addresses.\<close>

lemma arm_map_enter:
  assumes "aligned pa" "aligned va"
  shows "arm_create_page_mapping_data pa va s = enter_section (sec_data pa) va s"
    "arm_create_page_mapping_device pa va s = enter_section (sec_device pa) va s"
  using assms
  by (simp_all add: arm_create_page_mapping_data_def arm_create_page_mapping_device_def page_size_facts aligned_def
      section_descriptor_eq)

lemma enter_section_rc: "enter_section d va s = Inr (rc, s') \<Longrightarrow> rc = 0"
  by (auto simp: enter_section_def Let_def split: if_splits)

definition lift_result :: "arm_fault + arm_state \<Rightarrow> arm_fault + int \<times> arm_state" where
  "lift_result r = (case r of Inl e \<Rightarrow> Inl e | Inr s \<Rightarrow> Inr (0, s))"

lemma map_pages_enter:
  assumes "\<forall>a\<in>set as. aligned a"
    and "\<And>pa va s. aligned pa \<Longrightarrow> aligned va \<Longrightarrow> f pa va s = enter_section (d pa) va s"
  shows "region_result (Some (map_pages (region_step f) (map (\<lambda>a. (a, a)) as) s)) =
    Some (lift_result (enter_list (map (\<lambda>a. (a, d a)) as) s))"
  using assms(1)
proof (induction as arbitrary: s)
  case (Cons a as)
  have f: "f a a s = enter_section (d a) a s" using Cons.prems assms(2) by simp
  show ?case
  proof (cases "enter_section (d a) a s")
    case (Inl e)
    then show ?thesis by (simp add: region_step_def f region_result_def lift_result_def)
  next
    case (Inr r)
    obtain s1 where r: "r = (0, s1)" using enter_section_rc Inr by (cases r) auto
    then show ?thesis using Cons by (simp add: region_step_def f Inr)
  qed
qed (simp add: region_result_def lift_result_def)

lemma arm_region_eq:
  assumes "hi < 0xfff00000"
  shows "arm_create_region lo hi s = Some (lift_result (enter_list (map (\<lambda>a. (a, sec_data a)) (sections lo hi)) s))"
    "arm_create_region_device lo hi s = Some (lift_result (enter_list (map (\<lambda>a. (a, sec_device a)) (sections lo hi)) s))"
proof -
  have h: "(0 :: u32) < 0x100000" "unat hi + unat (0x100000 :: u32) < 2 ^ LENGTH(32)"
    using assms by (simp_all add: word_less_nat_alt)
  show "arm_create_region lo hi s = Some (lift_result (enter_list (map (\<lambda>a. (a, sec_data a)) (sections lo hi)) s))"
    unfolding arm_create_region_def page_size_facts(2) unfolding page_size_facts(1) identity_loop_eq [OF h] sections_def [symmetric]
    by (rule map_pages_enter) (simp_all add: sections_aligned arm_map_enter)
  show "arm_create_region_device lo hi s = Some (lift_result (enter_list (map (\<lambda>a. (a, sec_device a)) (sections lo hi)) s))"
    unfolding arm_create_region_device_def page_size_facts(2) unfolding page_size_facts(1) identity_loop_eq [OF h] sections_def [symmetric]
    by (rule map_pages_enter) (simp_all add: sections_aligned arm_map_enter)
qed

definition device_requests :: "arm_image \<Rightarrow> (u32 \<times> u32) list" where
  [model_eval]: "device_requests img = concat (map (\<lambda>(lo, hi). map (\<lambda>a. (a, sec_device a)) (sections lo hi)) (arm_devices img))"

lemma bindR_lift [simp]: "bindR (Some (lift_result r)) f = (case r of Inl e \<Rightarrow> Some (Inl e) | Inr s \<Rightarrow> f s)"
  by (cases r) (simp_all add: bindR_def lift_result_def)

lemma arm_devices_eq:
  assumes "\<forall>(lo, hi)\<in>set devs. hi < 0xfff00000"
  shows "arm_map_devices devs s = Some (lift_result (enter_list
    (concat (map (\<lambda>(lo, hi). map (\<lambda>a. (a, sec_device a)) (sections lo hi)) devs)) s))"
  using assms
proof (induction devs arbitrary: s)
  case (Cons d devs)
  obtain lo hi where d: "d = (lo, hi)" by (cases d)
  then have h: "hi < 0xfff00000" using Cons.prems by auto
  show ?case
    using Cons by (simp add: d arm_region_eq(2) [OF h] enter_list_append bindE_def lift_result_def bindR_def split: sum.split)
qed (simp add: lift_result_def)

text \<open>
  What mem_init maps, in order: the image, the devices, and the page of the relocated vectors at the
  vector base and, with the page after it, at its own address.
\<close>

definition vector_page :: "arm_image \<Rightarrow> u32" where
  [model_eval]: "vector_page img = sym_VECTORS_RELOCATE img AND NOT 0xfffff"

definition image_requests :: "arm_image \<Rightarrow> u32 \<Rightarrow> (u32 \<times> u32) list" where
  [model_eval]: "image_requests img base =
     map (\<lambda>a. (a, sec_data a)) (sections (sym_vectors_start img) (sym_vectors_end img) @
       sections (arm_TEXT_START img) (arm_TEXT_END img) @ sections (arm_DATA_START img) (arm_DATA_END img)) @
     device_requests img @ [(base, sec_data (vector_page img))] @
     map (\<lambda>a. (a, sec_data a)) (sections (vector_page img) (vector_page img + 0x100000))"

definition arm_image_ok :: "arm_image \<Rightarrow> bool" where
  [model_eval]: "arm_image_ok img \<longleftrightarrow> sym_vectors_end img < 0xfff00000 \<and> arm_TEXT_END img < 0xfff00000 \<and>
     arm_DATA_END img < 0xfff00000 \<and> vector_page img + 0x100000 < 0xfff00000 \<and>
     list_all (\<lambda>r. snd r < 0xfff00000) (arm_devices img)"

definition vector_section :: "arm_state \<Rightarrow> u32" where
  [model_eval]: "vector_section s = (if CONTROL s AND push_bit 13 1 \<noteq> 0 then 0xfff00000 else 0)"

lemma map_vectors_eq:
  assumes "vector_page img + 0x100000 < 0xfff00000"
  shows "map_vectors img s =
    (if vector_base s AND 0xfffff \<noteq> sym_VECTORS_RELOCATE img AND 0xfffff then Some (Inl Arm_abort)
     else Some (lift_result (enter_list ([(vector_section s, sec_data (vector_page img))] @
       map (\<lambda>a. (a, sec_data a)) (sections (vector_page img) (vector_page img + 0x100000))) s)))"
proof -
  have a: "aligned (vector_page img)" "aligned (vector_section s)"
    by (unfold vector_page_def, rule section_aligned_base) (simp add: vector_section_def aligned_def)
  have v: "(if CONTROL s AND push_bit 13 1 \<noteq> 0 then vector_base s AND NOT 0xfffff else 0) = vector_section s"
    by (simp add: vector_base_def vector_section_def)
  show ?thesis
    unfolding map_vectors_def Let_def page_size_facts(2) unfolding page_size_facts(1) v vector_page_def [symmetric] arm_map_enter(1) [OF a]
      arm_region_eq(1) [OF assms]
    by (cases "enter_section (sec_data (vector_page img)) (vector_section s) s") (auto simp: bindR_def lift_result_def)
qed

lemma enter_list_frame: "enter_list rs s = Inr s' \<Longrightarrow> s' = s\<lparr>section_table := section_table s'\<rparr>"
proof (induction rs arbitrary: s)
  case (Cons r rs)
  obtain a d where r: "r = (a, d)" by (cases r)
  obtain rc s1 where 1: "enter_section d a s = Inr (rc, s1)" "enter_list rs s1 = Inr s'" using Cons.prems r by auto
  then have "s1 = s\<lparr>section_table := section_table s1\<rparr>" by (auto simp: enter_section_def Let_def split: if_splits)
  then show ?case using Cons.IH [OF 1(2)] by (metis arm_state.surjective arm_state.update_convs(1))
qed simp

definition reset_table :: "arm_state \<Rightarrow> arm_state" where
  "reset_table s = (write_ttbr (section_table_addr s) (mem_check_is_cache_unified (mem_check_is_tlb_unified s)))
     \<lparr>section_table := replicate 4096 0\<rparr>"

lemma check_frame:
  "CONTROL (mem_check_is_tlb_unified s) = CONTROL s" "section_table_addr (mem_check_is_tlb_unified s) = section_table_addr s"
  "CONTROL (mem_check_is_cache_unified s) = CONTROL s" "section_table_addr (mem_check_is_cache_unified s) = section_table_addr s"
  by (simp_all add: mem_check_is_tlb_unified_def mem_check_is_cache_unified_def Let_def)

lemma reset_table_facts:
  "table_ok (reset_table s)" "section_view (reset_table s) = (\<lambda>_. None)"
  "CONTROL (reset_table s) = CONTROL s" "TTBR (reset_table s) = section_table_addr s"
proof -
  show "table_ok (reset_table s)" by (auto simp: table_ok_def reset_table_def)
  have "unat i < 4096" if "i < 4096" for i :: u32 using that by (simp add: word_less_nat_alt)
  then show "section_view (reset_table s) = (\<lambda>_. None)" by (auto simp: section_view_def reset_table_def fun_eq_iff)
  show "CONTROL (reset_table s) = CONTROL s" "TTBR (reset_table s) = section_table_addr s"
    by (simp_all add: reset_table_def write_ttbr_def check_frame)
qed

definition offsets_differ :: "arm_image \<Rightarrow> arm_state \<Rightarrow> bool" where
  [model_eval]: "offsets_differ img s \<longleftrightarrow> vector_base s AND 0xfffff \<noteq> sym_VECTORS_RELOCATE img AND 0xfffff"

lemma enter_list_abort:
  assumes "table_ok s" "\<forall>(a, d)\<in>set rs. d AND 3 = 2" "enter_list rs s = Inl e"
  shows "e = Arm_abort"
  using enter_list_exact [OF assms(1,2)] assms(3) by (auto split: if_splits)

lemma arm_mem_init_eq:
  assumes "arm_image_ok img"
  shows "arm_mem_init img s =
    (if offsets_differ img s
     then Some (Inl Arm_abort)
     else case enter_list (image_requests img (vector_section s)) (reset_table s) of
       Inl e \<Rightarrow> Some (Inl e)
     | Inr s' \<Rightarrow> Some (Inr ((write_dacr 0xffffffff s')\<lparr>arm_mem_inited := 1\<rparr>)))"
proof -
  have h: "sym_vectors_end img < 0xfff00000" "arm_TEXT_END img < 0xfff00000" "arm_DATA_END img < 0xfff00000"
    "vector_page img + 0x100000 < 0xfff00000" "\<forall>(lo, hi)\<in>set (arm_devices img). hi < 0xfff00000"
    using assms by (auto simp only: arm_image_ok_def list_all_iff snd_conv)
  define R where "R lo hi = map (\<lambda>a. (a, sec_data a)) (sections lo hi)" for lo hi
  define img_rs where "img_rs = R (sym_vectors_start img) (sym_vectors_end img) @ R (arm_TEXT_START img) (arm_TEXT_END img) @
    R (arm_DATA_START img) (arm_DATA_END img) @ device_requests img"
  have req: "image_requests img b = img_rs @ ([(b, sec_data (vector_page img))] @ R (vector_page img) (vector_page img + 0x100000))" for b
    by (simp add: image_requests_def img_rs_def R_def)
  have ms: "\<forall>(a, d)\<in>set img_rs. d AND 3 = 2"
    by (auto simp: img_rs_def R_def device_requests_def sec_bits)
  have "arm_mem_init img s =
    (case enter_list img_rs (reset_table s) of Inl e \<Rightarrow> Some (Inl e)
     | Inr s1 \<Rightarrow> bindR (map_vectors img s1) (\<lambda>s. Some (Inr ((write_dacr 0xffffffff s)\<lparr>arm_mem_inited := 1\<rparr>))))"
    unfolding arm_mem_init_def Let_def arm_region_eq(1) [OF h(1)] arm_region_eq(1) [OF h(2)] arm_region_eq(1) [OF h(3)]
      arm_devices_eq [OF h(5)] R_def [symmetric] device_requests_def [symmetric] img_rs_def
    by (simp add: reset_table_def check_frame enter_list_append bindE_def split: sum.split)
  also have "\<dots> = (if offsets_differ img s then Some (Inl Arm_abort)
     else case enter_list (image_requests img (vector_section s)) (reset_table s) of
       Inl e \<Rightarrow> Some (Inl e)
     | Inr s' \<Rightarrow> Some (Inr ((write_dacr 0xffffffff s')\<lparr>arm_mem_inited := 1\<rparr>)))"
  proof (cases "enter_list img_rs (reset_table s)")
    case (Inl e)
    then show ?thesis using enter_list_abort [OF reset_table_facts(1) ms Inl] unfolding req by (simp add: enter_list_append)
  next
    case (Inr s1)
    have "CONTROL s1 = CONTROL (reset_table s)" using enter_list_frame [OF Inr] by (metis arm_state.simps(8) arm_state.select_convs arm_state.update_convs(1) arm_state.surjective)
    then have c: "vector_base s1 = vector_base s" "vector_section s1 = vector_section s"
      by (simp_all add: vector_base_def vector_section_def reset_table_facts(3))
    have v: "map_vectors img s1 = (if offsets_differ img s then Some (Inl Arm_abort)
       else Some (lift_result (enter_list ([(vector_section s, sec_data (vector_page img))] @
         R (vector_page img) (vector_page img + 0x100000)) s1)))"
      unfolding map_vectors_eq [OF h(4)] by (simp only: offsets_differ_def c R_def)
    have e: "enter_list (image_requests img (vector_section s)) (reset_table s) =
      enter_list ([(vector_section s, sec_data (vector_page img))] @ R (vector_page img) (vector_page img + 0x100000)) s1"
      unfolding req by (subst enter_list_append) (simp only: Inr bindE_simps)
    show ?thesis unfolding e Inr by (simp add: v del: append_Cons) (simp add: bindR_def)
  qed
  finally show ?thesis .
qed

lemma same_table:
  assumes "section_table s' = section_table s"
  shows "table_ok s' = table_ok s" "section_view s' = section_view s"
  by (simp_all add: table_ok_def section_view_def fun_eq_iff assms)

definition section_target :: "u32 \<Rightarrow> u32 \<Rightarrow> u32 \<times> u32" where
  [model_eval]: "section_target d va = ((d AND 0xfff00000) OR (va AND 0xfffff), d AND 0xfffff)"

lemma arm_translate_view:
  assumes "table_ok s"
  shows "arm_translate s va = map_option (\<lambda>d. section_target d va) (section_view s (section_of va))"
proof -
  have "unat (section_of va) < length (section_table s)"
    using section_of_less [of va] assms by (simp add: table_ok_def word_less_nat_alt)
  then have "section_table s ! unat (section_of va) \<in> set (section_table s)" by (rule nth_mem)
  then show ?thesis
    using assms by (auto simp: arm_translate_def section_view_def table_ok_def section_of_def [symmetric] section_target_def Let_def)
qed


section \<open>Properties\<close>

lemma arm_mem_init_maps:
  assumes "arm_image_ok img"
  shows "if offsets_differ img s \<or> conflict (image_requests img (vector_section s))
    then arm_mem_init img s = Some (Inl Arm_abort)
    else \<exists>s'. arm_mem_init img s = Some (Inr s') \<and> TTBR s' = section_table_addr s \<and> DACR s' = 0xffffffff \<and>
      (\<forall>va. (\<forall>(a, d)\<in>set (image_requests img (vector_section s)). section_of a = section_of va \<longrightarrow>
              arm_translate s' va = Some (section_target d va)) \<and>
            (section_of va \<notin> section_of ` fst ` set (image_requests img (vector_section s)) \<longrightarrow> arm_translate s' va = None))"
proof -
  let ?rs = "image_requests img (vector_section s)"
  have ms: "\<forall>(a, d)\<in>set ?rs. d AND 3 = 2"
    by (auto simp: image_requests_def device_requests_def sec_bits)
  note E = enter_list_exact [OF reset_table_facts(1) ms, of s, unfolded reset_table_facts(2)]
  note I = arm_mem_init_eq [OF assms, of s]
  show ?thesis
  proof (cases "offsets_differ img s \<or> conflict ?rs")
    case True
    then have "arm_mem_init img s = Some (Inl Arm_abort)" using E I by auto
    then show ?thesis using True by simp
  next
    case False
    then obtain t where t: "enter_list ?rs (reset_table s) = Inr ((reset_table s)\<lparr>section_table := t\<rparr>)"
      "table_ok ((reset_table s)\<lparr>section_table := t\<rparr>)"
      "section_view ((reset_table s)\<lparr>section_table := t\<rparr>) = Map.empty ++ entered ?rs" using E by auto
    let ?s = "(write_dacr 0xffffffff ((reset_table s)\<lparr>section_table := t\<rparr>))\<lparr>arm_mem_inited := 1\<rparr>"
    have m: "arm_mem_init img s = Some (Inr ?s)" using I False t(1) by simp
    have "section_table ?s = section_table ((reset_table s)\<lparr>section_table := t\<rparr>)" by (simp add: write_dacr_def)
    from same_table [OF this] have "table_ok ?s" "section_view ?s = entered ?rs" using t(2,3) by simp_all
    then have "arm_translate ?s va = map_option (\<lambda>d. section_target d va) (entered ?rs (section_of va))" for va
      using arm_translate_view by simp
    then have "(\<forall>(a, d)\<in>set ?rs. section_of a = section_of va \<longrightarrow> arm_translate ?s va = Some (section_target d va)) \<and>
            (section_of va \<notin> section_of ` fst ` set ?rs \<longrightarrow> arm_translate ?s va = None)" for va
      using entered_in [of _ _ ?rs] False entered_none [of "section_of va" ?rs] by fastforce
    moreover have "TTBR ?s = section_table_addr s" "DACR ?s = 0xffffffff"
      using reset_table_facts(4) [of s] by (simp_all add: write_dacr_def)
    ultimately show ?thesis using m False by auto
  qed
qed

text \<open>
  C8: mem_init of the arm port stops the machine exactly when the vectors cannot be mapped (their
  offset in the section differs from the vector base's) or when the image, the devices and the
  vectors ask for different descriptors of one section; otherwise it returns, the translation base
  is the new table, every section asked for is translated by its descriptor (the image, the vectors
  and the devices to themselves, the vector base to the relocated vectors) and no other address is
  translated.
\<close>

theorem arm_mem_init_exact:
  assumes "arm_image_ok img"
  shows "if offsets_differ img s \<or> conflict (image_requests img (vector_section s))
    then arm_mem_init img s = Some (Inl Arm_abort)
    else \<exists>s'. arm_mem_init img s = Some (Inr s') \<and> TTBR s' = section_table_addr s \<and> DACR s' = 0xffffffff \<and>
      (\<forall>va. (\<forall>(a, d)\<in>set (image_requests img (vector_section s)). section_of a = section_of va \<longrightarrow>
              arm_translate s' va = Some (section_target d va)) \<and>
            (section_of va \<notin> section_of ` fst ` set (image_requests img (vector_section s)) \<longrightarrow> arm_translate s' va = None))"
  using assms by (rule arm_mem_init_maps)


lemma enable_facts:
  "mem_get_arm_arch_version (s\<lparr>CONTROL := c, cp15_ops := x\<rparr>) = mem_get_arm_arch_version s"
  "mem_get_arm_arch_version (s\<lparr>cp15_ops := x\<rparr>) = mem_get_arm_arch_version s" "v \<le> 5 \<longleftrightarrow> \<not> 5 < (v :: u8)"
  "(w OR 1) OR (push_bit 2 1 OR push_bit 3 1 OR push_bit 26 1 OR push_bit 14 1) = (w :: u32) OR 0x0400400d"
  by (auto simp: mem_get_arm_arch_version_def or.assoc push_bit_eq_mult)

lemma arm_cache_flush_ops:
  assumes "mem_cache_implemented s = 0 \<or> mem_get_arm_arch_version s \<le> 5 \<or> ARCH_ARMV7 img"
  shows "\<exists>ops. arm_cache_flush img s = Inr (s\<lparr>cp15_ops := ops\<rparr>)"
proof (cases "mem_cache_implemented s = 0")
  case True
  then have "arm_cache_flush img s = Inr (s\<lparr>cp15_ops := cp15_ops s\<rparr>)" by (simp add: arm_cache_flush_def)
  then show ?thesis ..
qed (use assms in \<open>auto simp: arm_cache_flush_def cp15_def\<close>)

lemma arm_mmu_enable_control:
  assumes "mem_cache_implemented s = 0 \<or> mem_get_arm_arch_version s \<le> 5 \<or> ARCH_ARMV7 img"
  obtains ops where "arm_mmu_enable (\<lambda>c. c) img s = Inr (s\<lparr>CONTROL := CONTROL s OR 0x0400400d, cp15_ops := ops\<rparr>)"
proof -
  obtain ops where 1: "arm_cache_flush img s = Inr (s\<lparr>cp15_ops := ops\<rparr>)" using arm_cache_flush_ops [OF assms] by blast
  let ?s = "s\<lparr>CONTROL := CONTROL s OR 0x0400400d, cp15_ops := ops @ [Mcr 7 5 4 0, Mcr 7 5 6 0]\<rparr>"
  obtain ops' where "arm_cache_flush img ?s = Inr (?s\<lparr>cp15_ops := ops'\<rparr>)"
    using arm_cache_flush_ops [of ?s img] assms by (auto simp: enable_facts(1))
  then show thesis
    using 1 by (intro that [of ops']) (simp add: arm_mmu_enable_def cp15_def Let_def enable_facts(4) del: push_bit_of_1)
qed

lemma section_base: "a AND 0xfff00000 = push_bit 20 (section_of a)"
proof -
  have "(0xfff00000 :: u32) = NOT (mask 20)" by (simp add: mask_eq_exp_minus_1)
  then show ?thesis
    by (simp only: section_of_def bit_eq_iff bit_and_iff bit_not_iff bit_mask_iff bit_push_bit_iff bit_drop_bit_eq o_apply possible_bit_word) auto
qed

text \<open>
  C34: a region that ends below the last section is mapped without wrapping the loop's counter:
  when the loop comes back every section the region touches is mapped to itself and every other
  section is mapped as before.
\<close>

theorem arm_region_mapping:
  assumes "table_ok s" and "hi < 0xfff00000" and "arm_create_region lo hi s = Some (Inr (rc, s'))"
  shows "rc = 0 \<and> table_ok s' \<and>
    (\<forall>a\<in>set (sections lo hi). section_view s' (section_of a) = Some (sec_data a)) \<and>
    (\<forall>k. k \<notin> section_of ` set (sections lo hi) \<longrightarrow> section_view s' k = section_view s k)"
proof -
  have h: "(0 :: u32) < 0x100000" "unat hi + unat (0x100000 :: u32) < 2 ^ LENGTH(32)"
    using assms(2) by (simp_all add: word_less_nat_alt)
  have "region_result (Some (map_pages arm_map_data (map (\<lambda>a. (a, a)) (sections lo hi)) s)) = Some (Inr (rc, s'))"
    using assms(3) unfolding arm_create_region_def page_size_facts(2) unfolding page_size_facts(1) identity_loop_eq [OF h]
      sections_def arm_map_data_def .
  moreover have "region_result (Some (map_pages arm_map_data (map (\<lambda>a. (a, a)) (sections lo hi)) s)) =
      Some (lift_result (enter_list (map (\<lambda>a. (a, sec_data a)) (sections lo hi)) s))"
    unfolding arm_map_data_def by (rule map_pages_enter) (simp_all add: sections_aligned arm_map_enter)
  ultimately have rc: "rc = 0" and m: "map_pages arm_map_data (map (\<lambda>a. (a, a)) (sections lo hi)) s = Inr s'"
    by (auto simp: region_result_def lift_result_def split: sum.splits region_exit.splits)
  have agree: "\<forall>a\<in>set (sections lo hi). \<forall>b\<in>set (sections lo hi). section_of a = section_of b \<longrightarrow> sec_data a = sec_data b"
    by (auto simp: sec_data_def section_base)
  show ?thesis
    using rc arm_data.map_pages_inv [OF assms(1) m] arm_data.identity_region [OF assms(1) m agree] by blast
qed

subsection \<open>Concrete instances\<close>

definition blank_arm :: arm_state where
  "blank_arm = \<lparr>section_table = replicate 4096 0, section_table_addr = 0x4000, arm_mem_inited = 0, mem_tlb_unified = 0,
     mem_cache_unified = 0, mem_cache_implemented = 0, MIDR = 0x410fc080, CTR = 0, TLBTR = 0, CONTROL = 0x2000, TTBR = 0, DACR = 0,
     CPSR = 0xd3, cp15_ops = [], arm_words = (\<lambda>_. 0), arm_irq_handler = None\<rparr>"

definition demo_arm :: arm_image where
  "demo_arm = \<lparr>ARCH_ARMV7 = True, sym_vectors_start = 0x8000, sym_vectors_end = 0x9400, arm_TEXT_START = 0xa000,
     arm_TEXT_END = 0x20000, arm_DATA_START = 0x20000, arm_DATA_END = 0x180000, sym_VECTORS_RELOCATE = 0x5f0000,
     arm_devices = [(0x10000000, 0x10001000)]\<rparr>"

lemma blank_arm_ok: "table_ok blank_arm"
  by (simp add: table_ok_def blank_arm_def)


lemma demo_arm_requests: "image_requests demo_arm (vector_section blank_arm) =
  [(0, 0xc0e), (0, 0xc0e), (0, 0xc0e), (0x100000, 0x100c0e), (0x10000000, 0x10000c02), (0xfff00000, 0x500c0e),
   (0x500000, 0x500c0e), (0x600000, 0x600c0e)]"
  by (simp add: image_requests_def device_requests_def sections_def region_pages_def demo_arm_def vector_section_def blank_arm_def
      sec_data_def sec_device_def vector_page_def upt_rec)

lemma arm_mem_init_exact_witness:
  "\<exists>s'. arm_mem_init demo_arm blank_arm = Some (Inr s') \<and> arm_translate s' 0xffff0018 = Some (0x5f0018, 0xc0e) \<and>
     arm_translate s' 0x30000000 = None"
proof -
  have ok: "arm_image_ok demo_arm" by (simp add: arm_image_ok_def demo_arm_def vector_page_def)
  have nc: "\<not> conflict (image_requests demo_arm (vector_section blank_arm))"
    by (simp add: conflict_def demo_arm_requests section_of_def)
  have no: "\<not> offsets_differ demo_arm blank_arm"
    by (simp add: offsets_differ_def vector_base_def demo_arm_def blank_arm_def)
  obtain s' where s': "arm_mem_init demo_arm blank_arm = Some (Inr s')"
    "\<forall>va. (\<forall>(a, d)\<in>set (image_requests demo_arm (vector_section blank_arm)). section_of a = section_of va \<longrightarrow>
              arm_translate s' va = Some (section_target d va)) \<and>
            (section_of va \<notin> section_of ` fst ` set (image_requests demo_arm (vector_section blank_arm)) \<longrightarrow> arm_translate s' va = None)"
    using arm_mem_init_exact [OF ok, of blank_arm] nc no by auto
  have "arm_translate s' 0xffff0018 = Some (section_target 0x500c0e 0xffff0018)"
    using spec [OF s'(2), of "0xffff0018"] by (simp add: demo_arm_requests section_of_def)
  moreover have "arm_translate s' 0x30000000 = None"
    using spec [OF s'(2), of "0x30000000"] by (simp add: demo_arm_requests section_of_def)
  ultimately show ?thesis using s'(1) by (simp add: section_target_def)
qed

lemma arm_region_mapping_witness:
  "\<exists>s'. arm_create_region 0xa000 0x180000 blank_arm = Some (Inr (0, s')) \<and>
     section_view s' 1 = Some 0x100c0e"
proof -
  have hi: "(0x180000 :: u32) < 0xfff00000" by simp
  have sec: "sections 0xa000 0x180000 = [0, 0x100000]" by (simp add: sections_def region_pages_def upt_rec)
  have "\<exists>rc s'. arm_create_region 0xa000 0x180000 blank_arm = Some (Inr (rc, s'))"
    unfolding arm_region_eq(1) [OF hi] sec by (simp add: enter_section_def blank_arm_def Let_def sec_data_def lift_result_def)
  then obtain rc s' where r: "arm_create_region 0xa000 0x180000 blank_arm = Some (Inr (rc, s'))" by blast
  show ?thesis using arm_region_mapping [OF blank_arm_ok hi r] r by (simp add: sec section_of_def sec_data_def)
qed

end
