(* ===== verification/Arm_Trap.thy ===== *)
theory Arm_Trap
  imports Arm_Memory
begin

section \<open>The arm port: exception vectors and the architecture interface\<close>

text \<open>
  exception.c, vector-handlers.c and arch.c of src/arch/arm. vectors.S is copied to the address
  _VECTORS_RELOCATE at reset; each trampoline of the copy jumps to the address in the word of the copy
  that belongs to its handler symbol, and exception.c changes these words. The addresses of the
  symbols of vectors.S and exception-handlers.S are a record.
\<close>

record vector_syms =
  vectors_base :: u32
  undef_slot :: u32
  swi_slot :: u32
  pabt_slot :: u32
  dabt_slot :: u32
  irq_slot :: u32
  fiq_slot :: u32
  reset_slot :: u32
  fn_default_handler :: u32
  fn_pabt_return :: u32
  fn_dabt_skip :: u32
  fn_swi_skip :: u32
  fn_undef_skip :: u32
  vectors_copy :: u32

definition store_word :: "u32 \<Rightarrow> u32 \<Rightarrow> arm_state \<Rightarrow> arm_state" where
  [model_eval]: "store_word a v s = s\<lparr>arm_words := (arm_words s)(a := v)\<rparr>"

definition install_pabt :: "vector_syms \<Rightarrow> u32 \<Rightarrow> arm_state \<Rightarrow> arm_state" where
  "install_pabt v pabt_location s = store_word ((pabt_slot v - vectors_base v) + vectors_copy v) pabt_location s"

definition install_dabt :: "vector_syms \<Rightarrow> u32 \<Rightarrow> arm_state \<Rightarrow> arm_state" where
  "install_dabt v dabt_location s = store_word ((dabt_slot v - vectors_base v) + vectors_copy v) dabt_location s"

definition install_swi :: "vector_syms \<Rightarrow> u32 \<Rightarrow> arm_state \<Rightarrow> arm_state" where
  "install_swi v swi_location s = store_word ((swi_slot v - vectors_base v) + vectors_copy v) swi_location s"

definition install_undef :: "vector_syms \<Rightarrow> u32 \<Rightarrow> arm_state \<Rightarrow> arm_state" where
  "install_undef v undef_location s = store_word ((undef_slot v - vectors_base v) + vectors_copy v) undef_location s"

definition arm_ifault_install_return :: "vector_syms \<Rightarrow> arm_state \<Rightarrow> arm_state" where
  "arm_ifault_install_return v s = install_pabt v (fn_pabt_return v) s"

definition arm_ifault_install_break :: "vector_syms \<Rightarrow> arm_state \<Rightarrow> arm_state" where
  "arm_ifault_install_break v s = install_pabt v (fn_default_handler v) s"

definition arm_dfault_install_skip :: "vector_syms \<Rightarrow> arm_state \<Rightarrow> arm_state" where
  "arm_dfault_install_skip v s = install_dabt v (fn_dabt_skip v) s"

definition arm_syscall_install_skip :: "vector_syms \<Rightarrow> arm_state \<Rightarrow> arm_state" where
  "arm_syscall_install_skip v s = install_swi v (fn_swi_skip v) s"

definition arm_undef_install_skip :: "vector_syms \<Rightarrow> arm_state \<Rightarrow> arm_state" where
  "arm_undef_install_skip v s = install_undef v (fn_undef_skip v) s"

definition MODE_IRQ_DISABLE :: u32 where [model_eval]: "MODE_IRQ_DISABLE = push_bit 7 1"

text \<open>cpsie and cpsid change the mask bit; msr CPSR_c writes the low byte.\<close>

definition msr_cpsr_c :: "u32 \<Rightarrow> arm_state \<Rightarrow> arm_state" where
  [model_eval]: "msr_cpsr_c m s = s\<lparr>CPSR := (CPSR s AND NOT 0xff) OR (m AND 0xff)\<rparr>"

definition arm_irq_enable :: "bool \<Rightarrow> arm_state \<Rightarrow> arm_state" where
  "arm_irq_enable armv7 s =
     (if armv7 then s\<lparr>CPSR := CPSR s AND NOT 0x80\<rparr>
      else let mode = CPSR s; mode = mode AND NOT MODE_IRQ_DISABLE in msr_cpsr_c mode s)"

definition arm_irq_disable :: "bool \<Rightarrow> arm_state \<Rightarrow> arm_state" where
  "arm_irq_disable armv7 s =
     (if armv7 then s\<lparr>CPSR := CPSR s OR 0x80\<rparr>
      else let mode = CPSR s; mode = mode OR MODE_IRQ_DISABLE in msr_cpsr_c mode s)"

definition arm_irq_install_handler :: "nat option \<Rightarrow> arm_state \<Rightarrow> arm_state" where
  "arm_irq_install_handler handler s = s\<lparr>arm_irq_handler := handler\<rparr>"

subsection \<open>vector-handlers.c\<close>

text \<open>These write the words of the original vectors, not those of the copy.\<close>

definition arm_install_reset_handler :: "vector_syms \<Rightarrow> u32 \<Rightarrow> arm_state \<Rightarrow> arm_state" where
  "arm_install_reset_handler v vector s = store_word (reset_slot v) vector s"
definition arm_install_undef_handler :: "vector_syms \<Rightarrow> u32 \<Rightarrow> arm_state \<Rightarrow> arm_state" where
  "arm_install_undef_handler v vector s = store_word (undef_slot v) vector s"
definition arm_install_swi_handler :: "vector_syms \<Rightarrow> u32 \<Rightarrow> arm_state \<Rightarrow> arm_state" where
  "arm_install_swi_handler v vector s = store_word (swi_slot v) vector s"
definition arm_install_pabt_handler :: "vector_syms \<Rightarrow> u32 \<Rightarrow> arm_state \<Rightarrow> arm_state" where
  "arm_install_pabt_handler v vector s = store_word (pabt_slot v) vector s"
definition arm_install_dabt_handler :: "vector_syms \<Rightarrow> u32 \<Rightarrow> arm_state \<Rightarrow> arm_state" where
  "arm_install_dabt_handler v vector s = store_word (dabt_slot v) vector s"
definition arm_install_irq_handler :: "vector_syms \<Rightarrow> u32 \<Rightarrow> arm_state \<Rightarrow> arm_state" where
  "arm_install_irq_handler v vector s = store_word (irq_slot v) vector s"
definition arm_install_fiq_handler :: "vector_syms \<Rightarrow> u32 \<Rightarrow> arm_state \<Rightarrow> arm_state" where
  "arm_install_fiq_handler v vector s = store_word (fiq_slot v) vector s"

subsection \<open>arch.c\<close>

definition arm_arch_init :: "arm_state \<Rightarrow> arm_state" where "arm_arch_init s = s"
definition arm_priv_enter :: "arm_state \<Rightarrow> arm_state" where "arm_priv_enter s = s"
definition arm_priv_leave :: "arm_state \<Rightarrow> arm_state" where "arm_priv_leave s = s"

definition arm_code_flush :: "u32 \<Rightarrow> arm_state \<Rightarrow> arm_state" where
  "arm_code_flush address s =
     foldl (\<lambda>s op. cp15 op s) s [Mcr 7 6 1 address, Mcr 7 10 4 0, Mcr 7 5 1 address, Mcr 7 10 4 0, Mcr 7 5 4 0]"

section \<open>Taking an exception\<close>

datatype exception = Undefined | Software | Prefetch_abort | Data_abort

fun handler_slot :: "vector_syms \<Rightarrow> exception \<Rightarrow> u32" where
  "handler_slot v Undefined = undef_slot v"
| "handler_slot v Software = swi_slot v"
| "handler_slot v Prefetch_abort = pabt_slot v"
| "handler_slot v Data_abort = dabt_slot v"

text \<open>The link register the processor provides for an exception at pc.\<close>

fun exception_lr :: "exception \<Rightarrow> u32 \<Rightarrow> u32" where
  "exception_lr Data_abort pc = pc + 8"
| "exception_lr _ pc = pc + 4"

text \<open>
  Where the routines of exception-handlers.S resume, user_lr being the link register of the
  interrupted mode; the default handlers never resume.
\<close>

definition resume :: "vector_syms \<Rightarrow> u32 \<Rightarrow> u32 \<Rightarrow> u32 \<Rightarrow> u32 option" where
  [model_eval]: "resume v routine lr user_lr =
     (if routine = fn_pabt_return v then Some user_lr
      else if routine = fn_dabt_skip v then Some (lr - 4)
      else if routine = fn_swi_skip v then Some lr
      else if routine = fn_undef_skip v then Some lr
      else None)"

definition handler_word :: "vector_syms \<Rightarrow> exception \<Rightarrow> u32" where
  [model_eval]: "handler_word v k = (handler_slot v k - vectors_base v) + vectors_copy v"

definition take_exception :: "vector_syms \<Rightarrow> exception \<Rightarrow> u32 \<Rightarrow> u32 \<Rightarrow> arm_state \<Rightarrow> u32 option" where
  [model_eval]: "take_exception v k pc user_lr s = resume v (arm_words s (handler_word v k)) (exception_lr k pc) user_lr"

text \<open>The symbols of distinct routines and of distinct words have distinct addresses.\<close>

definition syms_ok :: "vector_syms \<Rightarrow> bool" where
  [model_eval]: "syms_ok v \<longleftrightarrow> distinct [fn_default_handler v, fn_pabt_return v, fn_dabt_skip v, fn_swi_skip v, fn_undef_skip v] \<and>
     distinct [undef_slot v, swi_slot v, pabt_slot v, dabt_slot v]"

lemma handler_word_inj: "syms_ok v \<Longrightarrow> handler_word v k = handler_word v k' \<longleftrightarrow> k = k'"
  by (cases k; cases k') (auto simp: handler_word_def syms_ok_def)

lemma install_eqs:
  "arm_ifault_install_return v s = store_word (handler_word v Prefetch_abort) (fn_pabt_return v) s"
  "arm_ifault_install_break v s = store_word (handler_word v Prefetch_abort) (fn_default_handler v) s"
  "arm_dfault_install_skip v s = store_word (handler_word v Data_abort) (fn_dabt_skip v) s"
  "arm_syscall_install_skip v s = store_word (handler_word v Software) (fn_swi_skip v) s"
  "arm_undef_install_skip v s = store_word (handler_word v Undefined) (fn_undef_skip v) s"
  by (simp_all add: arm_ifault_install_return_def arm_ifault_install_break_def arm_dfault_install_skip_def
      arm_syscall_install_skip_def arm_undef_install_skip_def install_pabt_def install_dabt_def install_swi_def
      install_undef_def handler_word_def)

lemma take_stored:
  assumes "syms_ok v"
  shows "take_exception v k pc u (store_word (handler_word v k') r s) =
    (if k = k' then resume v r (exception_lr k pc) u else take_exception v k pc u s)"
  using handler_word_inj [OF assms] by (simp add: take_exception_def store_word_def)

section \<open>Properties\<close>

text \<open>
  C35: after each install function of exception.c the exceptions of its kind resume where the
  benchmarks need it (a data abort, an undefined instruction and a system call after the instruction
  that raised it, a prefetch abort at the caller's link register, or never for the break handler),
  and the exceptions of the other three kinds resume where they did before.
\<close>

theorem arm_handlers_resume:
  assumes "syms_ok v"
  shows "take_exception v k pc u (arm_ifault_install_return v s) = (if k = Prefetch_abort then Some u else take_exception v k pc u s) \<and>
    take_exception v k pc u (arm_ifault_install_break v s) = (if k = Prefetch_abort then None else take_exception v k pc u s) \<and>
    take_exception v k pc u (arm_dfault_install_skip v s) = (if k = Data_abort then Some (pc + 4) else take_exception v k pc u s) \<and>
    take_exception v k pc u (arm_syscall_install_skip v s) = (if k = Software then Some (pc + 4) else take_exception v k pc u s) \<and>
    take_exception v k pc u (arm_undef_install_skip v s) = (if k = Undefined then Some (pc + 4) else take_exception v k pc u s)"
  using assms by (auto simp: install_eqs take_stored resume_def syms_ok_def)

text \<open>
  Both builds mask and unmask interrupts alike: the mask bit of the status register is set or
  cleared and every other bit keeps its value.
\<close>

theorem arm_irq_builds_agree:
  "arm_irq_enable armv7 s = s\<lparr>CPSR := CPSR s AND NOT 0x80\<rparr> \<and> arm_irq_disable armv7 s = s\<lparr>CPSR := CPSR s OR 0x80\<rparr>"
proof -
  have e: "(c AND NOT 0xff) OR ((c AND NOT 0x80) AND 0xff) = c AND NOT 0x80" for c :: u32
  proof -
    have "(NOT 0xff OR (NOT 0x80 AND 0xff) :: u32) = NOT 0x80" by simp
    then have "c AND (NOT 0xff OR (NOT 0x80 AND 0xff)) = c AND NOT 0x80" by (rule arg_cong)
    then show ?thesis unfolding bit.conj_disj_distrib and.assoc .
  qed
  have d: "(c AND NOT 0xff) OR ((c OR 0x80) AND 0xff) = c OR 0x80" for c :: u32
  proof -
    have "(NOT 0xff OR 0xff :: u32) = - 1" by simp
    then have "c AND (NOT 0xff OR 0xff) = c" by (simp only: and.right_neutral)
    then have c: "(c AND NOT 0xff) OR (c AND 0xff) = c" unfolding bit.conj_disj_distrib .
    have "(c AND NOT 0xff) OR ((c OR 0x80) AND 0xff) = ((c AND NOT 0xff) OR (c AND 0xff)) OR 0x80"
      by (simp add: bit.conj_disj_distrib2 or.assoc)
    then show ?thesis unfolding c .
  qed
  have m: "MODE_IRQ_DISABLE = 0x80" by (simp add: MODE_IRQ_DISABLE_def push_bit_eq_mult)
  show ?thesis
    unfolding arm_irq_enable_def arm_irq_disable_def msr_cpsr_c_def Let_def m e d by simp
qed

subsection \<open>Concrete instances\<close>

definition demo_syms :: vector_syms where
  "demo_syms = \<lparr>vectors_base = 0x8000, undef_slot = 0x9000, swi_slot = 0x9004, pabt_slot = 0x9008, dabt_slot = 0x900c,
     irq_slot = 0x9010, fiq_slot = 0x9014, reset_slot = 0xa000, fn_default_handler = 0x9018, fn_pabt_return = 0xb000,
     fn_dabt_skip = 0xb030, fn_swi_skip = 0xb034, fn_undef_skip = 0xb038, vectors_copy = 0x5f0000\<rparr>"

lemma arm_handlers_resume_witness:
  "take_exception demo_syms Data_abort 0xa100 0 (arm_dfault_install_skip demo_syms blank_arm) = Some 0xa104"
proof -
  have "syms_ok demo_syms" by (simp add: syms_ok_def demo_syms_def)
  from arm_handlers_resume [OF this, of Data_abort "0xa100" 0 blank_arm] show ?thesis by simp
qed

end
