(* ===== verification/Board_Uart.thy ===== *)
theory Board_Uart
  imports Harness
begin

section \<open>The serial ports of the arm and armv8 boards (platform/arm/*/uart.c, platform/armv8/virt/uart.c)\<close>

text \<open>
  A board's devices are registers in the address space. What the code does to them is the list of
  its loads and stores, oldest first; the values its loads return are the list of answers. The
  functions carry the name of their board as a prefix.
\<close>

datatype mmio_op = Load u32 | Store u32 u32

record mmio =
  mmio_log :: "mmio_op list"
  answers :: "u32 list"

definition store_reg :: "u32 \<Rightarrow> u32 \<Rightarrow> mmio \<Rightarrow> mmio" where
  "store_reg a v m = m\<lparr>mmio_log := mmio_log m @ [Store a v]\<rparr>"

definition load_reg :: "u32 \<Rightarrow> mmio \<Rightarrow> (u32 \<times> mmio) option" where
  "load_reg a m =
     (case answers m of
        [] \<Rightarrow> None
      | v # vs \<Rightarrow> Some (v, m\<lparr>mmio_log := mmio_log m @ [Load a], answers := vs\<rparr>))"

definition or_reg :: "u32 \<Rightarrow> u32 \<Rightarrow> mmio \<Rightarrow> mmio option" where
  "or_reg a v m = map_option (\<lambda>(w, m). store_reg a (w OR v) m) (load_reg a m)"

subsection \<open>Ports with a data register\<close>

text \<open>
  The registers of struct uart_regs_t of the PL011 boards the code uses, by their offset, and the
  bases of constants.h. A char of these ports is unsigned, so that the stored word is its code.
\<close>

definition reg_dr :: u32 where [model_eval]: "reg_dr = 0x00"
definition reg_ibrd :: u32 where [model_eval]: "reg_ibrd = 0x24"
definition reg_lcr_h :: u32 where [model_eval]: "reg_lcr_h = 0x2c"
definition reg_cr :: u32 where [model_eval]: "reg_cr = 0x30"

definition versatile_UART0_BASE :: u32 where [model_eval]: "versatile_UART0_BASE = 0x101f1000"
definition realview_UART0_BASE :: u32 where [model_eval]: "realview_UART0_BASE = 0x10009000"
definition sa1100_UART3_BASE :: u32 where [model_eval]: "sa1100_UART3_BASE = 0x80050000"
definition a9_TTY_UART_BASE :: u32 where [model_eval]: "a9_TTY_UART_BASE = 0x10009000"
definition a15_TTY_UART_BASE :: u32 where [model_eval]: "a15_TTY_UART_BASE = 0x1c090000"
definition virt_UART0_BASE :: u32 where [model_eval]: "virt_UART0_BASE = 0x09000000"

definition versatile_uart_init :: "mmio \<Rightarrow> mmio" where "versatile_uart_init m = m"
definition realview_uart_init :: "mmio \<Rightarrow> mmio" where "realview_uart_init m = m"
definition sa1100_uart_init :: "mmio \<Rightarrow> mmio" where "sa1100_uart_init m = m"
definition a9_uart_init :: "mmio \<Rightarrow> mmio" where "a9_uart_init m = m"
definition virt_uart_init :: "mmio \<Rightarrow> mmio" where "virt_uart_init m = m"

definition a15_uart_init :: "mmio \<Rightarrow> mmio option" where
  "a15_uart_init m =
     (let m = store_reg (a15_TTY_UART_BASE + reg_ibrd) 0x4 m;
          m = store_reg (a15_TTY_UART_BASE + reg_lcr_h) (push_bit 5 0x3) m
      in Option.bind (or_reg (a15_TTY_UART_BASE + reg_cr) (push_bit 8 1 OR push_bit 7 1) m)
           (or_reg (a15_TTY_UART_BASE + reg_cr) 0x1))"

definition versatile_uart_putc :: "mmio \<Rightarrow> char \<Rightarrow> mmio" where
  "versatile_uart_putc m c = store_reg (versatile_UART0_BASE + reg_dr) (of_char c) m"

definition realview_uart_putc :: "mmio \<Rightarrow> char \<Rightarrow> mmio" where
  "realview_uart_putc m c = store_reg (realview_UART0_BASE + reg_dr) (of_char c) m"

definition sa1100_uart_putc :: "mmio \<Rightarrow> char \<Rightarrow> mmio" where
  "sa1100_uart_putc m c = store_reg (sa1100_UART3_BASE + 0x14) (of_char c) m"

definition a9_uart_putc :: "mmio \<Rightarrow> char \<Rightarrow> mmio" where
  "a9_uart_putc m c = store_reg (a9_TTY_UART_BASE + reg_dr) (of_char c) m"

definition a15_uart_putc :: "mmio \<Rightarrow> char \<Rightarrow> mmio" where
  "a15_uart_putc m c = store_reg (a15_TTY_UART_BASE + reg_dr) (of_char c) m"

definition virt_uart_putc :: "mmio \<Rightarrow> char \<Rightarrow> mmio" where
  "virt_uart_putc m c = store_reg (virt_UART0_BASE + reg_dr) (of_char c) m"

subsection \<open>The Exynos port of the Arndale board\<close>

definition TTY_UART_BASE :: u32 where [model_eval]: "TTY_UART_BASE = 0x12C20000"
definition reg_uerstat :: u32 where [model_eval]: "reg_uerstat = 0x14"
definition reg_ufstat :: u32 where [model_eval]: "reg_ufstat = 0x18"
definition reg_utxh :: u32 where [model_eval]: "reg_utxh = 0x20"
definition TX_ERROR_MASK :: u32 where [model_eval]: "TX_ERROR_MASK = 0x8"
definition TX_FIFO_FULL_MASK :: u32 where [model_eval]: "TX_FIFO_FULL_MASK = push_bit 24 1"

definition arndale_uart_init :: "mmio \<Rightarrow> mmio" where "arndale_uart_init m = m"

text \<open>
  The polling loop. It takes one answer for UFSTAT and, while the queue is full, one for UERSTAT;
  it returns as soon as an error shows, without the character. None is a loop still running when
  the answers are used up.
\<close>

function arndale_uart_putc :: "mmio \<Rightarrow> char \<Rightarrow> mmio option" where
  "arndale_uart_putc m c =
     (case load_reg (TTY_UART_BASE + reg_ufstat) m of
        None \<Rightarrow> None
      | Some (ufstat, m) \<Rightarrow>
          if ufstat AND TX_FIFO_FULL_MASK \<noteq> 0 then
            (case load_reg (TTY_UART_BASE + reg_uerstat) m of
               None \<Rightarrow> None
             | Some (uerstat, m) \<Rightarrow>
                 if uerstat AND TX_ERROR_MASK \<noteq> 0 then Some m else arndale_uart_putc m c)
          else Some (store_reg (TTY_UART_BASE + reg_utxh) (of_char c) m))"
  by pat_completeness auto
termination
  by (relation "measure (\<lambda>(m, c). length (answers m))") (auto simp: load_reg_def split: list.splits)

declare arndale_uart_putc.simps [simp del]

text \<open>As a sink of printf: a character after a loop that never ended changes nothing.\<close>

definition arndale_sink :: "mmio option \<Rightarrow> char \<Rightarrow> mmio option" where
  "arndale_sink s c = Option.bind s (\<lambda>m. arndale_uart_putc m c)"

section \<open>What a serial port receives\<close>

text \<open>The characters stored to a data register, oldest first.\<close>

fun sent_to :: "u32 \<Rightarrow> mmio_op \<Rightarrow> string" where
  "sent_to dr (Load a) = []"
| "sent_to dr (Store a v) = (if a = dr then [char_of (unat v)] else [])"

definition received :: "u32 \<Rightarrow> mmio \<Rightarrow> string" where
  "received dr m = concat (map (sent_to dr) (mmio_log m))"

lemma char_word: "char_of (unat (of_char c :: u32)) = c"
proof -
  have "(of_char c :: nat) mod 4294967296 = of_char c"
    using nat_of_char_less_256 [of c] by (intro mod_less) linarith
  then have "unat (of_nat (of_char c) :: u32) = of_char c" by (simp add: unat_of_nat)
  then show ?thesis by (simp add: of_nat_of_char)
qed

lemma received_store: "received dr (store_reg a v m) = received dr m @ (if a = dr then [char_of (unat v)] else [])"
  by (simp add: received_def store_reg_def)

interpretation versatile: console versatile_uart_putc "received versatile_UART0_BASE"
  by unfold_locales (simp add: versatile_uart_putc_def received_store char_word reg_dr_def)

interpretation realview: console realview_uart_putc "received realview_UART0_BASE"
  by unfold_locales (simp add: realview_uart_putc_def received_store char_word reg_dr_def)

interpretation sa1100: console sa1100_uart_putc "received (sa1100_UART3_BASE + 0x14)"
  by unfold_locales (simp add: sa1100_uart_putc_def received_store char_word)

interpretation a9: console a9_uart_putc "received a9_TTY_UART_BASE"
  by unfold_locales (simp add: a9_uart_putc_def received_store char_word reg_dr_def)

interpretation a15: console a15_uart_putc "received a15_TTY_UART_BASE"
  by unfold_locales (simp add: a15_uart_putc_def received_store char_word reg_dr_def)

interpretation virt: console virt_uart_putc "received virt_UART0_BASE"
  by unfold_locales (simp add: virt_uart_putc_def received_store char_word reg_dr_def)

section \<open>The Arndale port loses characters on an error\<close>

definition tx_full :: "u32 \<Rightarrow> bool" where "tx_full v \<longleftrightarrow> v AND TX_FIFO_FULL_MASK \<noteq> 0"
definition tx_error :: "u32 \<Rightarrow> bool" where "tx_error v \<longleftrightarrow> v AND TX_ERROR_MASK \<noteq> 0"

text \<open>The answers to rounds of polling in which the queue was full and no error showed.\<close>

definition polls :: "(u32 \<times> u32) list \<Rightarrow> u32 list" where
  "polls rounds = concat (map (\<lambda>(f, e). [f, e]) rounds)"

lemma received_log:
  "received dr (m\<lparr>mmio_log := mmio_log m @ [Load a], answers := vs\<rparr>) = received dr m"
  "received dr (m\<lparr>mmio_log := mmio_log m @ [Load a, Load b], answers := vs\<rparr>) = received dr m"
  by (simp_all add: received_def)

lemma arndale_wait:
  assumes "\<forall>(f, e)\<in>set rounds. tx_full f \<and> \<not> tx_error e" and "answers m = polls rounds @ rest"
  shows "\<exists>m'. arndale_uart_putc m c = arndale_uart_putc m' c \<and> answers m' = rest \<and> received dr m' = received dr m"
  using assms
proof (induction rounds arbitrary: m)
  case Nil
  then show ?case by (auto simp: polls_def)
next
  case (Cons p rounds)
  obtain f e where p: "p = (f, e)" "tx_full f" "\<not> tx_error e" using Cons.prems(1) by (cases p) auto
  let ?m = "m\<lparr>mmio_log := mmio_log m @ [Load (TTY_UART_BASE + reg_ufstat), Load (TTY_UART_BASE + reg_uerstat)],
      answers := polls rounds @ rest\<rparr>"
  have "arndale_uart_putc m c = arndale_uart_putc ?m c"
    using Cons.prems(2) p
    by (subst arndale_uart_putc.simps) (simp add: load_reg_def polls_def tx_full_def tx_error_def)
  moreover have "received dr ?m = received dr m" by (simp add: received_def)
  ultimately show ?case using Cons.IH [of ?m] Cons.prems(1) by auto
qed

text \<open>
  C39: the port of the Arndale board: after any number of rounds in which the queue is full
  and no error shows, the character is sent as soon as there is room, is dropped silently
  when the error bit shows first, and the call never returns if neither ever happens.
\<close>

theorem arndale_putc_outcome:
  assumes "\<forall>(f, e)\<in>set rounds. tx_full f \<and> \<not> tx_error e"
  shows "(answers m = polls rounds @ f # e # vs \<and> (tx_full f \<longrightarrow> tx_error e) \<longrightarrow>
      map_option (received (TTY_UART_BASE + reg_utxh)) (arndale_uart_putc m c) =
        Some (received (TTY_UART_BASE + reg_utxh) m @ (if tx_full f then [] else [c]))) \<and>
    (answers m = polls rounds \<longrightarrow> arndale_uart_putc m c = None)"
proof -
  let ?r = "received (TTY_UART_BASE + reg_utxh)"
  have sent: "map_option ?r (arndale_uart_putc n c) = Some (?r n @ (if tx_full f then [] else [c]))"
    if "answers n = f # e # vs" "tx_full f \<longrightarrow> tx_error e" for n
    using that by (subst arndale_uart_putc.simps)
      (simp add: load_reg_def tx_full_def tx_error_def received_log received_store char_word)
  have stuck: "arndale_uart_putc n c = None" if "answers n = []" for n
    using that by (subst arndale_uart_putc.simps) (simp add: load_reg_def)
  have wait: "\<exists>n. arndale_uart_putc m c = arndale_uart_putc n c \<and> answers n = rest \<and> ?r n = ?r m"
    if "answers m = polls rounds @ rest" for rest using arndale_wait [OF assms that] .
  show ?thesis
    using wait [of "f # e # vs"] wait [of "[]"] sent stuck by (metis append_Nil2)
qed

lemma arndale_putc_outcome_witness:
  "map_option (received (TTY_UART_BASE + reg_utxh))
     (arndale_uart_putc \<lparr>mmio_log = [], answers = [0x1000000, 0, 0x1000000, 0x8]\<rparr> CHR ''a'') = Some []"
  using arndale_putc_outcome [of "[(0x1000000, 0)]" "\<lparr>mmio_log = [], answers = [0x1000000, 0, 0x1000000, 0x8]\<rparr>"
      "0x1000000" "0x8" "[]" "CHR ''a''"]
  by (simp add: polls_def tx_full_def tx_error_def received_def model_eval)

end
