(* ===== verification/Board_Swi.thy ===== *)
theory Board_Swi
  imports Board_Uart
begin

section \<open>The platform interface of the arm and armv8 boards (platform/arm/*/platform.c, platform/armv8/virt/platform.c)\<close>

text \<open>
  Set-up, the null device of the device-access benchmark, and the software interrupt: how a
  board raises one and how its handler takes it back. A function that aborts leaves what it did
  to the devices in the fault; Unanswered is a load with no answer left.
\<close>

datatype board_fault = Unanswered | Board_abort mmio | Format_fault printf_fault

definition answered :: "'a option \<Rightarrow> board_fault + 'a" where
  "answered x = (case x of None \<Rightarrow> Inl Unanswered | Some y \<Rightarrow> Inr y)"

definition print_error :: "char list \<Rightarrow> mmio printf_files \<Rightarrow> string \<Rightarrow> vararg list \<Rightarrow> mmio \<Rightarrow> board_fault + mmio" where
  "print_error junk fs fmt args m =
     (case fprintf True junk (Some (error_file fs)) fmt args m of
        Inl e \<Rightarrow> Inl (Format_fault e) | Inr (rc, m) \<Rightarrow> Inr m)"

subsection \<open>Set-up: the sinks of printf\<close>

definition versatile_platform_init :: "mmio printf_files \<times> mmio \<Rightarrow> mmio printf_files \<times> mmio" where
  "versatile_platform_init = (\<lambda>(fs, m).
     let m = versatile_uart_init m;
         fs = printf_register_output (Some versatile_uart_putc) fs;
         fs = printf_register_debug (Some versatile_uart_putc) fs
     in (fs, m))"

definition realview_platform_init :: "mmio printf_files \<times> mmio \<Rightarrow> mmio printf_files \<times> mmio" where
  "realview_platform_init = (\<lambda>(fs, m).
     let m = realview_uart_init m;
         fs = printf_register_output (Some realview_uart_putc) fs;
         fs = printf_register_debug (Some realview_uart_putc) fs;
         fs = printf_register_error (Some realview_uart_putc) fs
     in (fs, m))"

definition sa1100_platform_init :: "mmio printf_files \<times> mmio \<Rightarrow> mmio printf_files \<times> mmio" where
  "sa1100_platform_init = (\<lambda>(fs, m).
     let m = sa1100_uart_init m;
         fs = printf_register_output (Some sa1100_uart_putc) fs;
         fs = printf_register_debug (Some sa1100_uart_putc) fs
     in (fs, m))"

definition a9_platform_init :: "mmio printf_files \<times> mmio \<Rightarrow> mmio printf_files \<times> mmio" where
  "a9_platform_init = (\<lambda>(fs, m).
     let m = a9_uart_init m;
         fs = printf_register_output (Some a9_uart_putc) fs;
         fs = printf_register_debug (Some a9_uart_putc) fs;
         fs = printf_register_error (Some a9_uart_putc) fs
     in (fs, m))"

definition a15_platform_init :: "mmio printf_files \<times> mmio \<Rightarrow> board_fault + mmio printf_files \<times> mmio" where
  "a15_platform_init = (\<lambda>(fs, m).
     bindE (answered (a15_uart_init m)) (\<lambda>m.
     let fs = printf_register_output (Some a15_uart_putc) fs;
         fs = printf_register_debug (Some a15_uart_putc) fs;
         fs = printf_register_error (Some a15_uart_putc) fs
     in Inr (fs, m)))"

definition virt_platform_init :: "mmio printf_files \<times> mmio \<Rightarrow> mmio printf_files \<times> mmio" where
  "virt_platform_init = (\<lambda>(fs, m).
     let m = virt_uart_init m;
         fs = printf_register_output (Some virt_uart_putc) fs;
         fs = printf_register_debug (Some virt_uart_putc) fs
     in (fs, m))"

subsection \<open>The null device: a register that may be written freely, and the value to write\<close>

definition versatile_null_devptr :: u32 where [model_eval]: "versatile_null_devptr = 0x10000008"
definition versatile_null_devval :: u32 where [model_eval]: "versatile_null_devval = 0xff"
definition realview_null_devptr :: u32 where [model_eval]: "realview_null_devptr = 0x10000008"
definition realview_null_devval :: u32 where [model_eval]: "realview_null_devval = 0xff"
definition sa1100_null_devptr :: u32 where [model_eval]: "sa1100_null_devptr = 0x90010004"
definition sa1100_null_devval :: u32 where [model_eval]: "sa1100_null_devval = 0x0"
definition a9_null_devptr :: u32 where [model_eval]: "a9_null_devptr = 0x10000000"
definition a9_null_devval :: u32 where [model_eval]: "a9_null_devval = 0"
definition a15_null_devptr :: u32 where [model_eval]: "a15_null_devptr = 0x10000000"
definition a15_null_devval :: u32 where [model_eval]: "a15_null_devval = 0"
definition virt_null_devptr :: u32 where [model_eval]: "virt_null_devptr = virt_UART0_BASE + 0x44"
definition virt_null_devval :: u32 where [model_eval]: "virt_null_devval = 0"
definition GPY6DAT_ADDR :: u32 where [model_eval]: "GPY6DAT_ADDR = 0x11400000 + 0x0264"
definition arndale_null_devptr :: u32 where [model_eval]: "arndale_null_devptr = GPY6DAT_ADDR"

text \<open>The Arndale board's value flips a static variable.\<close>

definition arndale_null_devval :: "bool \<Rightarrow> u32 \<times> bool" where
  "arndale_null_devval toggle = (let toggle = (\<not> toggle) in (if toggle then 0xff else 0x00, toggle))"

subsection \<open>Software interrupts without a GIC\<close>

definition versatile_PL190_BASE :: u32 where [model_eval]: "versatile_PL190_BASE = 0x10140000"

definition versatile_trigger_swi :: "mmio \<Rightarrow> mmio" where
  "versatile_trigger_swi m =
     store_reg (versatile_PL190_BASE + 0x18) 0x1 (store_reg (versatile_PL190_BASE + 0x10) 0x1 m)"

definition versatile_clear_swi :: "mmio \<Rightarrow> mmio" where
  "versatile_clear_swi m = store_reg (versatile_PL190_BASE + 0x1C) 0x1 m"

definition IC_START :: u32 where [model_eval]: "IC_START = 0x90050000"
definition OSTIMER_START :: u32 where [model_eval]: "OSTIMER_START = 0x90000000"

definition sa1100_trigger_swi :: "mmio \<Rightarrow> mmio" where
  "sa1100_trigger_swi m =
     (let m = store_reg (IC_START + 0x4) (push_bit 26 1) m;
          m = store_reg (OSTIMER_START + 0x1C) 0x1 m;
          m = store_reg (OSTIMER_START + 0x0) 0x1 m
      in store_reg (OSTIMER_START + 0x10) 0x0 m)"

definition sa1100_clear_swi :: "mmio \<Rightarrow> mmio" where
  "sa1100_clear_swi m = store_reg (OSTIMER_START + 0x1C) 0x0 (store_reg (OSTIMER_START + 0x14) 0x1 m)"

subsection \<open>Software interrupts through the GIC\<close>

text \<open>
  The registers by their offsets from the distributor and from the CPU interface. The loads of
  the identification registers, the read-modify-write of the two control registers and the value
  for GICD_SGIR are the same on every board; so is platform_clear_swi up to the addresses.
\<close>

definition GICD_CTLR :: u32 where [model_eval]: "GICD_CTLR = 0x000"
definition GICD_IGROUPR0 :: u32 where [model_eval]: "GICD_IGROUPR0 = 0x080"
definition GICD_ISENABLER0 :: u32 where [model_eval]: "GICD_ISENABLER0 = 0x100"
definition GICD_ISENABLER1 :: u32 where [model_eval]: "GICD_ISENABLER1 = 0x104"
definition GICD_IPRIORITYR0 :: u32 where [model_eval]: "GICD_IPRIORITYR0 = 0x400"
definition GICD_IPRIORITYR1 :: u32 where [model_eval]: "GICD_IPRIORITYR1 = 0x404"
definition GICD_SGIR :: u32 where [model_eval]: "GICD_SGIR = 0xf00"
definition GICD_CPENDSGIR0 :: u32 where [model_eval]: "GICD_CPENDSGIR0 = 0xf10"
definition GICD_PIDR0 :: u32 where [model_eval]: "GICD_PIDR0 = 0xfe0"
definition GICC_CTLR :: u32 where [model_eval]: "GICC_CTLR = 0x000"
definition GICC_PMR :: u32 where [model_eval]: "GICC_PMR = 0x004"
definition GICC_IAR :: u32 where [model_eval]: "GICC_IAR = 0x00C"
definition GICC_EOIR :: u32 where [model_eval]: "GICC_EOIR = 0x010"
definition GICC_IIDR :: u32 where [model_eval]: "GICC_IIDR = 0x0FC"

definition realview_GICD_BASE :: u32 where [model_eval]: "realview_GICD_BASE = 0x1e001000"
definition realview_GICC_BASE :: u32 where [model_eval]: "realview_GICC_BASE = 0x1e000000"
definition a9_GICD_BASE :: u32 where [model_eval]: "a9_GICD_BASE = 0x1e000000 + 0x1000"
definition a9_GICC_BASE :: u32 where [model_eval]: "a9_GICC_BASE = 0x1e000000 + 0x100"
definition a15_GICD_BASE :: u32 where [model_eval]: "a15_GICD_BASE = 0x2c000000 + 0x1000"
definition a15_GICC_BASE :: u32 where [model_eval]: "a15_GICC_BASE = 0x2c000000 + 0x2000"
definition virt_GICD_BASE :: u32 where [model_eval]: "virt_GICD_BASE = 0x08000000"
definition virt_GICC_BASE :: u32 where [model_eval]: "virt_GICC_BASE = 0x08010000"
definition arndale_GICD_BASE :: u32 where [model_eval]: "arndale_GICD_BASE = 0x10481000"
definition arndale_GICC_BASE :: u32 where [model_eval]: "arndale_GICC_BASE = 0x10482000"
definition INTCOMB_IES5 :: u32 where [model_eval]: "INTCOMB_IES5 = 0x10440000 + 0x050"

definition read_reg :: "u32 \<Rightarrow> mmio \<Rightarrow> board_fault + u32 \<times> mmio" where
  "read_reg a m = answered (load_reg a m)"

definition read_gicd_ids :: "u32 \<Rightarrow> mmio \<Rightarrow> board_fault + (u32 \<times> u32 \<times> u32 \<times> u32) \<times> mmio" where
  "read_gicd_ids gicd m =
     bindE (read_reg (gicd + GICD_PIDR0) m) (\<lambda>(id0, m).
     bindE (read_reg (gicd + GICD_PIDR0 + 4) m) (\<lambda>(id1, m).
     bindE (read_reg (gicd + GICD_PIDR0 + 8) m) (\<lambda>(id2, m).
     bindE (read_reg (gicd + GICD_PIDR0 + 12) m) (\<lambda>(id3, m).
     Inr ((id0, id1, id2, id3), m)))))"

definition gic_forward :: "u32 \<Rightarrow> u32 \<Rightarrow> mmio \<Rightarrow> board_fault + mmio" where
  "gic_forward gicd gicc m =
     bindE (answered (or_reg (gicd + GICD_CTLR) 0x3 m)) (\<lambda>m.
     answered (or_reg (gicc + GICC_CTLR) 0x3 m))"

definition sgi_value :: "u32 \<Rightarrow> u32 \<Rightarrow> u32 \<Rightarrow> u32 \<Rightarrow> u32" where
  [model_eval]: "sgi_value sgiintid nsatt cputargetlist targetlistfilter =
     sgiintid OR push_bit 15 nsatt OR push_bit 16 cputargetlist OR push_bit 24 targetlistfilter"

definition bad_gicd :: "char list \<Rightarrow> mmio printf_files \<Rightarrow> string \<Rightarrow> u32 \<times> u32 \<times> u32 \<times> u32 \<Rightarrow> mmio \<Rightarrow> board_fault + mmio" where
  "bad_gicd junk fs expected = (\<lambda>(id0, id1, id2, id3) m.
     bindE (print_error junk fs (''Could not identify GIC distributor interface!'' @ crlf) [] m) (\<lambda>m.
     bindE (print_error junk fs (''Expected '' @ expected @ '', got %x %x %x %x'' @ crlf)
              [Num (ucast id0), Num (ucast id1), Num (ucast id2), Num (ucast id3)] m) (\<lambda>m.
     Inl (Board_abort m))))"

definition realview_trigger_swi :: "char list \<Rightarrow> mmio printf_files \<Rightarrow> mmio \<Rightarrow> board_fault + mmio" where
  "realview_trigger_swi junk fs m =
     bindE (read_gicd_ids realview_GICD_BASE m) (\<lambda>(ids, m).
     bindE (if ids \<noteq> (0x90, 0x13, 0x4, 0x0) then bad_gicd junk fs ''90 13 4 0'' ids m else Inr m) (\<lambda>m.
     let m = store_reg (realview_GICD_BASE + GICD_ISENABLER0) 0xffffffff m;
         m = store_reg (realview_GICD_BASE + GICD_ISENABLER1) 0xffffffff m;
         m = store_reg (realview_GICD_BASE + GICD_IPRIORITYR0) 0xa0a0a0a0 m;
         m = store_reg (realview_GICD_BASE + GICD_IPRIORITYR1) 0xa0a0a0a0 m;
         m = store_reg (realview_GICC_BASE + GICC_PMR) 0xf0 m
     in bindE (gic_forward realview_GICD_BASE realview_GICC_BASE m) (\<lambda>m.
     Inr (store_reg (realview_GICD_BASE + GICD_SGIR) (sgi_value 32 0 1 0x0) m))))"

definition a9_trigger_swi :: "char list \<Rightarrow> mmio printf_files \<Rightarrow> mmio \<Rightarrow> board_fault + mmio" where
  "a9_trigger_swi junk fs m =
     bindE (read_gicd_ids a9_GICD_BASE m) (\<lambda>(ids, m).
     bindE (if ids \<noteq> (0x90, 0x13, 0x4, 0x0) then bad_gicd junk fs ''90 13 4 0'' ids m else Inr m) (\<lambda>m.
     let m = store_reg (a9_GICD_BASE + GICD_ISENABLER0) 0xffff m;
         m = store_reg (a9_GICD_BASE + GICD_IPRIORITYR0) 0xa0a0a0a0 m;
         m = store_reg (a9_GICC_BASE + GICC_PMR) 0xf0 m
     in bindE (gic_forward a9_GICD_BASE a9_GICC_BASE m) (\<lambda>m.
     Inr (store_reg (a9_GICD_BASE + GICD_SGIR) (sgi_value 0 0 1 0x0) m))))"

definition a15_trigger_swi :: "mmio \<Rightarrow> board_fault + mmio" where
  "a15_trigger_swi m =
     bindE (read_gicd_ids a15_GICD_BASE m) (\<lambda>(ids, m).
     let m = store_reg (a15_GICD_BASE + GICD_ISENABLER0) 0xffff m;
         m = store_reg (a15_GICD_BASE + GICD_IPRIORITYR0) 0xa0a0a0a0 m;
         m = store_reg (a15_GICC_BASE + GICC_PMR) 0xf0 m
     in bindE (gic_forward a15_GICD_BASE a15_GICC_BASE m) (\<lambda>m.
     Inr (store_reg (a15_GICD_BASE + GICD_SGIR) (sgi_value 0 0 0 0x2) m)))"

definition virt_trigger_swi :: "mmio \<Rightarrow> board_fault + mmio" where
  "virt_trigger_swi m =
     bindE (read_gicd_ids virt_GICD_BASE m) (\<lambda>(ids, m).
     let m = store_reg (virt_GICD_BASE + GICD_ISENABLER0) 0xffff m;
         m = store_reg (virt_GICD_BASE + GICD_IPRIORITYR0) 0xa0a0a0a0 m;
         m = store_reg (virt_GICC_BASE + GICC_PMR) 0xf0 m
     in bindE (gic_forward virt_GICD_BASE virt_GICC_BASE m) (\<lambda>m.
     Inr (store_reg (virt_GICD_BASE + GICD_SGIR) (sgi_value 0 0 0 0x2) m)))"

text \<open>platform_clear_swi: acknowledge, clear the pending bits, end of interrupt.\<close>

definition gic_clear_swi :: "u32 \<Rightarrow> u32 \<Rightarrow> mmio \<Rightarrow> board_fault + mmio" where
  "gic_clear_swi gicd gicc m =
     bindE (read_reg (gicc + GICC_IAR) m) (\<lambda>(intid, m).
     Inr (store_reg (gicc + GICC_EOIR) intid (store_reg (gicd + GICD_CPENDSGIR0) 0xff m)))"

definition realview_clear_swi :: "mmio \<Rightarrow> board_fault + mmio" where
  "realview_clear_swi = gic_clear_swi realview_GICD_BASE realview_GICC_BASE"

definition a9_clear_swi :: "mmio \<Rightarrow> board_fault + mmio" where
  "a9_clear_swi = gic_clear_swi a9_GICD_BASE a9_GICC_BASE"

definition a15_clear_swi :: "mmio \<Rightarrow> board_fault + mmio" where
  "a15_clear_swi = gic_clear_swi a15_GICD_BASE a15_GICC_BASE"

definition virt_clear_swi :: "mmio \<Rightarrow> board_fault + mmio" where
  "virt_clear_swi = gic_clear_swi virt_GICD_BASE virt_GICC_BASE"

definition arndale_clear_swi :: "mmio \<Rightarrow> board_fault + mmio" where
  "arndale_clear_swi = gic_clear_swi arndale_GICD_BASE arndale_GICC_BASE"

subsection \<open>The Arndale board\<close>

text \<open>Its sink waits for the port, so printing works on a state that may have stopped answering.\<close>

definition arndale_print :: "char list \<Rightarrow> mmio option FILE_t \<Rightarrow> string \<Rightarrow> vararg list \<Rightarrow> mmio \<Rightarrow> board_fault + mmio" where
  "arndale_print junk f fmt args m =
     (case fprintf True junk (Some f) fmt args (Some m) of
        Inl e \<Rightarrow> Inl (Format_fault e) | Inr (rc, s) \<Rightarrow> answered s)"

definition arndale_configure_swi :: "char list \<Rightarrow> mmio option printf_files \<Rightarrow> mmio \<Rightarrow> board_fault + mmio" where
  "arndale_configure_swi junk fs m =
     bindE (read_gicd_ids arndale_GICD_BASE m) (\<lambda>((id0, id1, id2, id3), m).
     if id0 \<noteq> 0x90 \<or> id1 \<noteq> 0xb4 \<or> id2 \<noteq> 0x2b \<or> id3 \<noteq> 0x0 then
       bindE (arndale_print junk (error_file fs) (''Could not identify GIC distributor interface!'' @ crlf) [] m) (\<lambda>m.
       bindE (arndale_print junk (error_file fs) (''Expected 90 b4 2b 0, got %x %x %x %x'' @ crlf)
                [Num (ucast id0), Num (ucast id1), Num (ucast id2), Num (ucast id3)] m) (\<lambda>m.
       Inl (Board_abort m)))
     else
       bindE (read_reg (arndale_GICC_BASE + GICC_IIDR) m) (\<lambda>(cpuid0, m).
       if cpuid0 \<noteq> 0x0202043B then
         bindE (arndale_print junk (error_file fs) (''Could not identify GIC CPU interface!'' @ crlf) [] m) (\<lambda>m.
         bindE (arndale_print junk (error_file fs) (''Expected 0202043B, got %x!'' @ crlf) [Num (ucast cpuid0)] m) (\<lambda>m.
         Inl (Board_abort m)))
       else
         let m = store_reg INTCOMB_IES5 0x00000101 m;
             m = store_reg (arndale_GICD_BASE + GICD_ISENABLER0) 0xffff m;
             m = store_reg (arndale_GICD_BASE + GICD_IPRIORITYR0) 0xa0a0a0a0 m;
             m = store_reg (arndale_GICD_BASE + GICD_IGROUPR0) 0 m;
             m = store_reg (arndale_GICC_BASE + GICC_PMR) 0xf0 m
         in gic_forward arndale_GICD_BASE arndale_GICC_BASE m))"

definition arndale_WTCON :: u32 where [model_eval]: "arndale_WTCON = 0x101D000"
definition GPY6CON_ADDR :: u32 where [model_eval]: "GPY6CON_ADDR = 0x11400000 + 0x0260"
definition GPY6PUD_ADDR :: u32 where [model_eval]: "GPY6PUD_ADDR = 0x11400000 + 0x0268"

definition arndale_platform_init ::
  "char list \<Rightarrow> u32 \<Rightarrow> mmio option printf_files \<times> mmio \<Rightarrow> board_fault + mmio option printf_files \<times> mmio" where
  "arndale_platform_init junk midr = (\<lambda>(fs, m).
     let m = arndale_uart_init m;
         fs = printf_register_output (Some arndale_sink) fs;
         fs = printf_register_debug (Some arndale_sink) fs;
         fs = printf_register_error (Some arndale_sink) fs
     in bindE (arndale_print junk (debug_file fs) (''Running on %x'' @ crlf) [Num (ucast midr)] m) (\<lambda>m.
        let m = store_reg arndale_WTCON 0 m;
            m = store_reg GPY6CON_ADDR 0x11111111 m;
            m = store_reg GPY6PUD_ADDR 0xffff m
        in bindE (arndale_configure_swi junk fs m) (\<lambda>m. Inr (fs, m))))"

definition arndale_trigger_swi :: "mmio \<Rightarrow> mmio" where
  "arndale_trigger_swi m = store_reg (arndale_GICD_BASE + GICD_SGIR) (sgi_value 0 0 1 0x0) m"

section \<open>What a board's interrupt controller sees\<close>

text \<open>The value last stored to a register.\<close>

fun effect :: "u32 \<Rightarrow> u32 option \<Rightarrow> mmio_op \<Rightarrow> u32 option" where
  "effect a r (Load b) = r"
| "effect a r (Store b v) = (if b = a then Some v else r)"

definition stored :: "u32 \<Rightarrow> mmio \<Rightarrow> u32 option" where
  "stored a m = foldl (effect a) None (mmio_log m)"

definition has_bit :: "u32 option \<Rightarrow> u32 \<Rightarrow> bool" where
  "has_bit r b \<longleftrightarrow> (case r of None \<Rightarrow> False | Some v \<Rightarrow> v AND b \<noteq> 0)"

text \<open>
  The last operation requests an SGI for processor 0, by the target list or from processor 0 to
  itself, with a number below 16; the group is forwarded by the distributor and taken by the
  processor's interface, the interrupt is enabled and its priority is above the mask.
\<close>

definition targets_cpu0 :: "u32 \<Rightarrow> bool" where
  "targets_cpu0 v \<longleftrightarrow> (let filt = drop_bit 24 v AND 3 in filt = 0 \<and> v AND 0x10000 \<noteq> 0 \<or> filt = 2)"

definition sgi_raised :: "u32 \<Rightarrow> u32 \<Rightarrow> mmio \<Rightarrow> bool" where
  "sgi_raised gicd gicc m \<longleftrightarrow>
     (\<exists>v. mmio_log m \<noteq> [] \<and> last (mmio_log m) = Store (gicd + GICD_SGIR) v \<and> targets_cpu0 v \<and> v AND 0xf = 0) \<and>
     has_bit (stored (gicd + GICD_CTLR) m) 1 \<and> has_bit (stored (gicc + GICC_CTLR) m) 1 \<and>
     has_bit (stored (gicd + GICD_ISENABLER0) m) 1 \<and>
     (\<exists>pri pmr. stored (gicd + GICD_IPRIORITYR0) m = Some pri \<and> stored (gicc + GICC_PMR) m = Some pmr \<and>
        pri AND 0xff < pmr)"

definition acknowledged :: "u32 \<Rightarrow> u32 \<Rightarrow> u32 \<Rightarrow> mmio \<Rightarrow> mmio \<Rightarrow> bool" where
  "acknowledged gicd gicc intid m m' \<longleftrightarrow>
     mmio_log m' = mmio_log m @ [Load (gicc + 0xc), Store (gicd + 0xf10) 0xff, Store (gicc + 0x10) intid]"

lemma stored_store [simp]: "stored a (store_reg b v m) = (if b = a then Some v else stored a m)"
  by (simp add: stored_def store_reg_def)

lemma last_store [simp]: "mmio_log (store_reg a v m) \<noteq> []" "last (mmio_log (store_reg a v m)) = Store a v"
  by (simp_all add: store_reg_def)

text \<open>A load with an answer.\<close>

definition loaded :: "u32 \<Rightarrow> mmio \<Rightarrow> mmio" where
  "loaded a m = m\<lparr>mmio_log := mmio_log m @ [Load a], answers := tl (answers m)\<rparr>"

lemma load_answer: "answers m = v # vs \<Longrightarrow> load_reg a m = Some (v, loaded a m)"
  by (simp add: load_reg_def loaded_def)

lemma loaded_simps [simp]:
  "stored a (loaded b m) = stored a m" "answers (loaded b m) = tl (answers m)"
  "answers (store_reg b v m) = answers m" "received dr (loaded b m) = received dr m"
  by (simp_all add: stored_def loaded_def store_reg_def received_def)

lemma read_gicd_ids_answer:
  assumes "answers m = id0 # id1 # id2 # id3 # vs"
  shows "read_gicd_ids gicd m = Inr ((id0, id1, id2, id3),
    loaded (gicd + GICD_PIDR0 + 12) (loaded (gicd + GICD_PIDR0 + 8) (loaded (gicd + GICD_PIDR0 + 4) (loaded (gicd + GICD_PIDR0) m))))"
  using assms by (simp add: read_gicd_ids_def read_reg_def answered_def load_answer)

lemma gic_forward_answer:
  assumes "answers m = d # c # vs"
  shows "gic_forward gicd gicc m = Inr (store_reg (gicc + GICC_CTLR) (c OR 0x3) (loaded (gicc + GICC_CTLR)
    (store_reg (gicd + GICD_CTLR) (d OR 0x3) (loaded (gicd + GICD_CTLR) m))))"
  using assms by (simp add: gic_forward_def or_reg_def answered_def load_answer)

lemma or_3_bit [simp]: "(v OR 3) AND 1 = (1 :: u32)"
  by (simp add: bit.conj_disj_distrib2)

subsection \<open>The four boards that set the controller up with each interrupt\<close>

datatype gic_board = Realview | Vexpress_a9 | Vexpress_a15 | Armv8_virt

fun trigger_swi :: "gic_board \<Rightarrow> char list \<Rightarrow> mmio printf_files \<Rightarrow> mmio \<Rightarrow> board_fault + mmio" where
  "trigger_swi Realview junk fs = realview_trigger_swi junk fs"
| "trigger_swi Vexpress_a9 junk fs = a9_trigger_swi junk fs"
| "trigger_swi Vexpress_a15 junk fs = a15_trigger_swi"
| "trigger_swi Armv8_virt junk fs = virt_trigger_swi"

fun clear_swi :: "gic_board \<Rightarrow> mmio \<Rightarrow> board_fault + mmio" where
  "clear_swi Realview = realview_clear_swi"
| "clear_swi Vexpress_a9 = a9_clear_swi"
| "clear_swi Vexpress_a15 = a15_clear_swi"
| "clear_swi Armv8_virt = virt_clear_swi"

fun gicd_base :: "gic_board \<Rightarrow> u32" where
  "gicd_base Realview = realview_GICD_BASE" | "gicd_base Vexpress_a9 = a9_GICD_BASE"
| "gicd_base Vexpress_a15 = a15_GICD_BASE" | "gicd_base Armv8_virt = virt_GICD_BASE"

fun gicc_base :: "gic_board \<Rightarrow> u32" where
  "gicc_base Realview = realview_GICC_BASE" | "gicc_base Vexpress_a9 = a9_GICC_BASE"
| "gicc_base Vexpress_a15 = a15_GICC_BASE" | "gicc_base Armv8_virt = virt_GICC_BASE"

text \<open>Two of them insist on the identity of the controller.\<close>

fun checks_ids :: "gic_board \<Rightarrow> bool" where
  "checks_ids b \<longleftrightarrow> b = Realview \<or> b = Vexpress_a9"

definition arm_gic_ids :: "u32 list" where "arm_gic_ids = [0x90, 0x13, 0x4, 0x0]"

lemma trigger_raises:
  assumes "length ids = 4" "answers m = ids @ d # c # vs" "checks_ids b \<Longrightarrow> ids = arm_gic_ids"
  shows "\<exists>m'. trigger_swi b junk fs m = Inr m' \<and> sgi_raised (gicd_base b) (gicc_base b) m' \<and> answers m' = vs"
proof -
  obtain id0 id1 id2 id3 where i: "ids = [id0, id1, id2, id3]"
    using assms(1) by (auto simp: numeral_eq_Suc length_Suc_conv)
  note ids = read_gicd_ids_answer [OF assms(2) [unfolded i append_Cons append_Nil]]
  show ?thesis
    using assms(2,3) unfolding i
    by (cases b; simp add: realview_trigger_swi_def a9_trigger_swi_def a15_trigger_swi_def virt_trigger_swi_def
        ids gic_forward_answer sgi_raised_def has_bit_def targets_cpu0_def model_eval arm_gic_ids_def)
qed

lemma clear_acknowledges:
  assumes "answers m = intid # vs"
  shows "\<exists>m'. clear_swi b m = Inr m' \<and> acknowledged (gicd_base b) (gicc_base b) intid m m' \<and> answers m' = vs"
  using assms
  by (cases b) (simp_all add: realview_clear_swi_def a9_clear_swi_def a15_clear_swi_def virt_clear_swi_def
      gic_clear_swi_def read_reg_def answered_def load_answer acknowledged_def loaded_def store_reg_def
      GICC_IAR_def GICC_EOIR_def GICD_CPENDSGIR0_def)

subsection \<open>The message of a board with another controller\<close>

lemma render_hex:
  "render arm (CHR ''%'' # CHR ''x'' # fmt) (Num v # args) =
     map_option (\<lambda>u. number_text Hex (unat (ucast v :: u32)) @ u) (render arm fmt args)"
proof -
  have "unat (ucast (ucast v :: u32) :: u64) = unat (ucast v :: u32)"
    by (simp add: unsigned_ucast_eq unsigned_take_bit_eq take_bit_nat_eq_self)
  moreover have "unat (ucast v :: u32) < 2 ^ 32" using unsigned_less [of "ucast v :: u32", where 'a = nat] by simp
  ultimately show ?thesis
    by (simp add: initial_spec_def nul_def render_num_def writable_def pad_left_def arg_uint_def)
qed

lemma hex_text: "nul \<notin> set (number_text Hex (unat (v :: u32)))" "length (number_text Hex (unat v)) \<le> 8"
  using number_text_hex [of "unat v"] hex_chars_plain(2) u32_text_length [of v] by auto

lemma narrow_widen: "(ucast (ucast (v :: u32) :: u64) :: u32) = v"
  by (simp add: unsigned_ucast_eq take_bit_word_eq_self)

definition unknown_gic :: "string \<Rightarrow> u32 list \<Rightarrow> string" where
  "unknown_gic expected ids =
     ''Could not identify GIC distributor interface!'' @ crlf @
     ''Expected '' @ expected @ '', got'' @ concat (map (\<lambda>v. '' '' @ number_text Hex (unat v)) ids) @ crlf"

text \<open>The error sink of a board whose set-up registers one; both checking boards do.\<close>

fun board_putc :: "gic_board \<Rightarrow> mmio \<Rightarrow> char \<Rightarrow> mmio" where
  "board_putc Realview = realview_uart_putc" | "board_putc Vexpress_a9 = a9_uart_putc"
| "board_putc Vexpress_a15 = a15_uart_putc" | "board_putc Armv8_virt = virt_uart_putc"

fun board_dr :: "gic_board \<Rightarrow> u32" where
  "board_dr Realview = realview_UART0_BASE" | "board_dr Vexpress_a9 = a9_TTY_UART_BASE"
| "board_dr Vexpress_a15 = a15_TTY_UART_BASE" | "board_dr Armv8_virt = virt_UART0_BASE"

fun platform_init :: "gic_board \<Rightarrow> mmio printf_files \<times> mmio \<Rightarrow> board_fault + mmio printf_files \<times> mmio" where
  "platform_init Realview st = Inr (realview_platform_init st)"
| "platform_init Vexpress_a9 st = Inr (a9_platform_init st)"
| "platform_init Vexpress_a15 st = a15_platform_init st"
| "platform_init Armv8_virt st = Inr (virt_platform_init st)"

lemma board_putc_store: "board_putc b m c = store_reg (board_dr b) (of_char c) m"
  by (cases b) (simp_all add: realview_uart_putc_def a9_uart_putc_def a15_uart_putc_def virt_uart_putc_def reg_dr_def)

interpretation board: console "board_putc b" "received (board_dr b)"
  by unfold_locales (simp add: board_putc_store received_store char_word)

lemma stored_text: "a \<noteq> board_dr b \<Longrightarrow> stored a (foldl (board_putc b) m t) = stored a m"
  by (induction t arbitrary: m) (simp_all add: board_putc_store)

lemma print_error_text:
  assumes "error_file fs = \<lparr>putch_fn = Some putch\<rparr>" "0x1000 \<le> length junk"
    and "render True fmt args = Some t" "nul \<notin> set t" "length t < 0xfff"
  shows "print_error junk fs fmt args m = Inr (foldl putch m t)"
  using assms fprintf_render_eq [OF assms(3-5,2), of putch m] by (simp add: print_error_def)

lemma render_first: "render True (''Could not identify GIC distributor interface!'' @ crlf) [] =
    Some (''Could not identify GIC distributor interface!'' @ crlf)"
  by (rule render_plain) (simp_all add: nul_def crlf_def)

lemma render_second:
  "render True (''Expected 90 13 4 0, got %x %x %x %x'' @ crlf) [Num (ucast id0), Num (ucast id1), Num (ucast id2), Num (ucast id3)] =
    Some (''Expected 90 13 4 0, got'' @ concat (map (\<lambda>v. '' '' @ number_text Hex (unat v)) [id0, id1, id2, id3 :: u32]) @ crlf)"
proof -
  have c: "render arm (c # fmt) args = map_option (\<lambda>u. c # u) (render arm fmt args)" if "c \<noteq> nul" "c \<noteq> CHR ''%''" for arm c fmt args
    using that by simp
  show ?thesis
    by (simp add: c render_hex narrow_widen nul_def crlf_def del: render.simps(2))
qed

lemma bad_gicd_text:
  assumes "error_file fs = \<lparr>putch_fn = Some putch\<rparr>" "0x1000 \<le> length junk"
  shows "bad_gicd junk fs ''90 13 4 0'' (id0, id1, id2, id3) m =
    Inl (Board_abort (foldl putch m (unknown_gic ''90 13 4 0'' [id0, id1, id2, id3])))"
proof -
  let ?a = "''Could not identify GIC distributor interface!'' @ crlf"
  let ?b = "''Expected 90 13 4 0, got'' @ concat (map (\<lambda>v. '' '' @ number_text Hex (unat v)) [id0, id1, id2, id3]) @ crlf"
  have n: "nul \<notin> set ?a" "nul \<notin> set ?b" using hex_text(1) by (auto simp: nul_def crlf_def)
  have l: "length ?a < 0xfff" "length ?b < 0xfff"
    using hex_text(2) [of id0] hex_text(2) [of id1] hex_text(2) [of id2] hex_text(2) [of id3] by (simp_all add: crlf_def)
  have f: "print_error junk fs (''Expected '' @ ''90 13 4 0'' @ '', got %x %x %x %x'' @ crlf)
      [Num (ucast id0), Num (ucast id1), Num (ucast id2), Num (ucast id3)] m' = Inr (foldl putch m' ?b)" for m'
    using print_error_text [OF assms render_second n(2) l(2), of m'] by simp
  have "foldl putch (foldl putch m ?a) ?b = foldl putch m (?a @ ?b)" by (rule foldl_append [symmetric])
  also have "?a @ ?b = unknown_gic ''90 13 4 0'' [id0, id1, id2, id3]" by (simp add: unknown_gic_def)
  finally show ?thesis
    by (simp only: bad_gicd_def prod.case print_error_text [OF assms render_first n(1) l(1)] f bindE_simps)
qed

lemma checking_boards_report:
  assumes "checks_ids b" "platform_init b (fs0, m0) = Inr (fs, m1)" "0x1000 \<le> length junk"
    and "length ids = 4" "answers m = ids @ vs" "ids \<noteq> arm_gic_ids"
  shows "\<exists>m'. trigger_swi b junk fs m = Inl (Board_abort m') \<and>
    received (board_dr b) m' = received (board_dr b) m @ unknown_gic ''90 13 4 0'' ids \<and>
    (\<forall>a. a \<noteq> board_dr b \<longrightarrow> stored a m' = stored a m)"
proof -
  obtain id0 id1 id2 id3 where i: "ids = [id0, id1, id2, id3]"
    using assms(4) by (auto simp: numeral_eq_Suc length_Suc_conv)
  have e: "error_file fs = \<lparr>putch_fn = Some (board_putc b)\<rparr>"
    using assms(1,2) by (cases b) (auto simp: realview_platform_init_def a9_platform_init_def printf_register_error_def
        printf_register_debug_def printf_register_output_def Let_def)
  note b = bad_gicd_text [OF e assms(3)]
  let ?g = "gicd_base b + GICD_PIDR0"
  let ?m = "loaded (?g + 12) (loaded (?g + 8) (loaded (?g + 4) (loaded ?g m)))"
  have "trigger_swi b junk fs m = Inl (Board_abort (foldl (board_putc b) ?m (unknown_gic ''90 13 4 0'' ids)))"
    using assms(1,6) unfolding i arm_gic_ids_def
    by (cases b) (simp_all only: trigger_swi.simps realview_trigger_swi_def a9_trigger_swi_def gicd_base.simps
        read_gicd_ids_answer [OF assms(5) [unfolded i append_Cons append_Nil]] bindE_simps prod.case checks_ids.simps b, auto)
  then show ?thesis
    by (intro exI [of _ "foldl (board_putc b) ?m (unknown_gic ''90 13 4 0'' ids)"])
       (simp add: board.shown_text stored_text)
qed

subsection \<open>The Arndale board sets the controller up once\<close>

lemma arndale_configured:
  assumes "answers m = [0x90, 0xb4, 0x2b, 0, 0x0202043B, d, c] @ vs"
  shows "\<exists>m'. arndale_configure_swi junk fs m = Inr m' \<and> answers m' = vs \<and>
    sgi_raised arndale_GICD_BASE arndale_GICC_BASE (arndale_trigger_swi m')"
proof -
  note a = assms [unfolded append_Cons append_Nil]
  show ?thesis
    using assms
    by (simp add: arndale_configure_swi_def read_gicd_ids_answer [OF a] read_reg_def answered_def load_answer gic_forward_answer
        arndale_trigger_swi_def sgi_raised_def has_bit_def targets_cpu0_def model_eval)
qed

section \<open>Every board's console\<close>

text \<open>The boards whose port takes each character at once.\<close>

datatype board = Versatile | Sa1100 | With_gic gic_board

fun board_init :: "board \<Rightarrow> mmio printf_files \<times> mmio \<Rightarrow> board_fault + mmio printf_files \<times> mmio" where
  "board_init Versatile st = Inr (versatile_platform_init st)"
| "board_init Sa1100 st = Inr (sa1100_platform_init st)"
| "board_init (With_gic b) st = platform_init b st"

fun data_register :: "board \<Rightarrow> u32" where
  "data_register Versatile = versatile_UART0_BASE" | "data_register Sa1100 = sa1100_UART3_BASE + 0x14"
| "data_register (With_gic b) = board_dr b"

fun board_sink :: "board \<Rightarrow> mmio \<Rightarrow> char \<Rightarrow> mmio" where
  "board_sink Versatile = versatile_uart_putc" | "board_sink Sa1100 = sa1100_uart_putc"
| "board_sink (With_gic b) = board_putc b"

lemma board_console: "console (board_sink b) (received (data_register b))"
  by (cases b) (simp_all add: versatile.console_axioms sa1100.console_axioms board.console_axioms)

lemma or_reg_received: "a \<noteq> dr \<Longrightarrow> or_reg a v m = Some m' \<Longrightarrow> received dr m' = received dr m"
  by (auto simp: or_reg_def load_reg_def received_def store_reg_def split: list.splits)

lemma board_init_sets:
  assumes "board_init b (fs0, m0) = Inr (fs, m)"
  shows "output_file fs = \<lparr>putch_fn = Some (board_sink b)\<rparr>" and "received (data_register b) m = received (data_register b) m0"
proof -
  have u: "received a15_TTY_UART_BASE m' = received a15_TTY_UART_BASE m0" if "a15_uart_init m0 = Some m'" for m'
  proof -
    have d: "a15_TTY_UART_BASE + reg_cr \<noteq> a15_TTY_UART_BASE" by (simp add: model_eval)
    show ?thesis
      using that unfolding a15_uart_init_def Let_def
      by (auto simp: bind_eq_Some_conv received_store reg_ibrd_def reg_lcr_h_def dest!: or_reg_received [OF d])
  qed
  show "output_file fs = \<lparr>putch_fn = Some (board_sink b)\<rparr>"
    using assms
    by (cases "(b, (fs0, m0))" rule: board_init.cases; cases "(case b of With_gic g \<Rightarrow> g | _ \<Rightarrow> Realview, (fs0, m0))" rule: platform_init.cases)
       (auto simp: versatile_platform_init_def sa1100_platform_init_def realview_platform_init_def a9_platform_init_def
        a15_platform_init_def virt_platform_init_def printf_register_output_def printf_register_debug_def printf_register_error_def
        answered_def bindE_def Let_def split: option.splits)
  show "received (data_register b) m = received (data_register b) m0"
    using assms u
    by (cases "(b, (fs0, m0))" rule: board_init.cases; cases "(case b of With_gic g \<Rightarrow> g | _ \<Rightarrow> Realview, (fs0, m0))" rule: platform_init.cases)
       (auto simp: versatile_platform_init_def sa1100_platform_init_def realview_platform_init_def a9_platform_init_def
        a15_platform_init_def virt_platform_init_def versatile_uart_init_def sa1100_uart_init_def realview_uart_init_def
        a9_uart_init_def virt_uart_init_def answered_def bindE_def Let_def split: option.splits)
qed

section \<open>The properties\<close>

text \<open>
  C36: on every board with a data register at its port, what the port receives from a run of the
  harness after the board's set-up is exactly the report: the begin marker, every benchmark's
  line with nothing but spinner characters in its brackets, and the end marker.
\<close>

theorem board_report:
  assumes "board_init b (fs0, m0) = Inr (fs, m)"
    and "OUTPUT env = Some (output_file fs)" and "0x1000 \<le> length (he_junk env)"
    and "env_ok (received (data_register b)) env" and "\<forall>bm\<in>set bms. benchmark_ok (received (data_register b)) bm"
  shows "\<exists>m' runs. harness_main env bms m = Inr m' \<and> recorded bms runs \<and>
    received (data_register b) m' = received (data_register b) m0 @ crlf @ crlf @ marker ''BEGIN'' @ report runs @ marker ''END''"
proof -
  have "wired (board_sink b) env" using assms(2,3) board_init_sets(1) [OF assms(1)] by (simp add: wired_def)
  from console.harness_main_shows [OF board_console this assms(4,5), of m] show ?thesis
    using board_init_sets(2) [OF assms(1)] by simp
qed

text \<open>
  C37: one cycle of the software interrupt on a board with a GIC. With the identity the board
  expects, triggering sets the controller up so that SGI 0 reaches processor 0 and ends with its
  request; the handler's clearing then does exactly three accesses: it reads the number of the interrupt from the acknowledge
  register, clears the pending bits of SGI 0, whichever processor raised it, and writes the number back as the end of the interrupt.
\<close>

theorem gic_swi_cycle:
  assumes "length ids = 4" and "answers m = ids @ d # c # intid # vs" and "checks_ids b \<Longrightarrow> ids = arm_gic_ids"
  shows "\<exists>m1 m2. trigger_swi b junk fs m = Inr m1 \<and> sgi_raised (gicd_base b) (gicc_base b) m1 \<and>
    clear_swi b m1 = Inr m2 \<and> acknowledged (gicd_base b) (gicc_base b) intid m1 m2 \<and> answers m2 = vs"
  using trigger_raises [OF assms] clear_acknowledges by metis

text \<open>
  C38: a board that checks the identity of its controller and finds another one stops, having
  printed the four values it read on its port, and has stored to no other device.
\<close>

theorem gic_mismatch_reported:
  assumes "checks_ids b" and "platform_init b (fs0, m0) = Inr (fs, m1)" and "0x1000 \<le> length junk"
    and "length ids = 4" and "answers m = ids @ vs" and "ids \<noteq> arm_gic_ids"
  shows "\<exists>m'. trigger_swi b junk fs m = Inl (Board_abort m') \<and>
    received (board_dr b) m' = received (board_dr b) m @ unknown_gic ''90 13 4 0'' ids \<and>
    (\<forall>a. a \<noteq> board_dr b \<longrightarrow> stored a m' = stored a m)"
  using assms by (rule checking_boards_report)

text \<open>
  The Arndale board sets its controller up at start; after that a trigger, which only
  writes the request, reaches processor 0, and the handler's clearing ends that interrupt.
\<close>

theorem arndale_swi_cycle:
  assumes "answers m = [0x90, 0xb4, 0x2b, 0, 0x0202043B, d, c] @ intid # vs"
  shows "\<exists>m1 m2. arndale_configure_swi junk fs m = Inr m1 \<and>
    sgi_raised arndale_GICD_BASE arndale_GICC_BASE (arndale_trigger_swi m1) \<and>
    arndale_clear_swi (arndale_trigger_swi m1) = Inr m2 \<and> acknowledged arndale_GICD_BASE arndale_GICC_BASE intid (arndale_trigger_swi m1) m2"
proof -
  obtain m1 where 1: "arndale_configure_swi junk fs m = Inr m1" "answers m1 = intid # vs"
    "sgi_raised arndale_GICD_BASE arndale_GICC_BASE (arndale_trigger_swi m1)"
    using arndale_configured [OF assms] by blast
  then show ?thesis
    by (simp add: arndale_clear_swi_def gic_clear_swi_def read_reg_def answered_def load_answer arndale_trigger_swi_def acknowledged_def
        loaded_def store_reg_def GICC_IAR_def GICC_EOIR_def GICD_CPENDSGIR0_def)
qed

subsection \<open>Concrete instances\<close>

definition quiet :: mmio where "quiet = \<lparr>mmio_log = [], answers = []\<rparr>"

definition no_files :: "'s printf_files" where
  "no_files = \<lparr>output_file = \<lparr>putch_fn = None\<rparr>, debug_file = \<lparr>putch_fn = None\<rparr>, error_file = \<lparr>putch_fn = None\<rparr>\<rparr>"

definition silent_benchmark :: "(unit, mmio) benchmark_t" where
  "silent_benchmark = \<lparr>bm_name = ''SC'', category = ''Exception'', kernel_init = None, kernel = Inr,
     kernel_cleanup = None, kernel_control = None, iteration_count = 5, kernel_priv = 0\<rparr>"

definition board_env :: "mmio printf_files \<Rightarrow> (unit, mmio) harness_env" where
  "board_env fs = \<lparr>he_arm = True, he_junk = replicate 0x1000 nul, OUTPUT = Some (output_file fs),
     priv_enter = Inr, priv_leave = Inr\<rparr>"

lemma silent_ok: "env_ok sh (board_env fs)" "benchmark_ok sh silent_benchmark"
  by (auto simp: env_ok_def board_env_def benchmark_ok_def silent_benchmark_def shows_only_def word_ok_def white_def nul_def
      crlf_def)

lemma board_report_witness:
  "\<exists>m' runs. harness_main (board_env (fst (versatile_platform_init (no_files, quiet)))) [silent_benchmark] quiet = Inr m' \<and>
    recorded [silent_benchmark] runs \<and>
    received versatile_UART0_BASE m' = crlf @ crlf @ marker ''BEGIN'' @ report runs @ marker ''END''"
proof -
  have i: "board_init Versatile (no_files, quiet) = Inr (fst (versatile_platform_init (no_files, quiet)), quiet)"
    by (simp add: versatile_platform_init_def versatile_uart_init_def)
  show ?thesis
    using board_report [OF i, of "board_env (fst (versatile_platform_init (no_files, quiet)))" "[silent_benchmark]"] silent_ok
    by (simp add: board_env_def received_def quiet_def)
qed

definition gic_answers :: "u32 list \<Rightarrow> mmio" where "gic_answers vs = \<lparr>mmio_log = [], answers = vs\<rparr>"

lemma gic_swi_cycle_witness:
  "\<exists>m1 m2. trigger_swi Realview [] no_files (gic_answers (arm_gic_ids @ [0, 0, 0x20])) = Inr m1 \<and>
    sgi_raised (gicd_base Realview) (gicc_base Realview) m1 \<and>
    clear_swi Realview m1 = Inr m2 \<and> acknowledged (gicd_base Realview) (gicc_base Realview) 0x20 m1 m2"
  using gic_swi_cycle [of arm_gic_ids "gic_answers (arm_gic_ids @ [0, 0, 0x20])" 0 0 "0x20" "[]" Realview "[]" no_files]
  by (auto simp: gic_answers_def arm_gic_ids_def)

lemma gic_mismatch_reported_witness:
  "\<exists>m'. trigger_swi Vexpress_a9 (replicate 0x1000 nul) (fst (a9_platform_init (no_files, quiet))) (gic_answers [0, 0, 0, 0]) = Inl (Board_abort m') \<and>
    received a9_TTY_UART_BASE m' = unknown_gic ''90 13 4 0'' [0, 0, 0, 0] \<and>
    stored (a9_GICD_BASE + GICD_CTLR) m' = None"
proof -
  have "platform_init Vexpress_a9 (no_files, quiet) = Inr (fst (a9_platform_init (no_files, quiet)), quiet)"
    by (simp add: a9_platform_init_def a9_uart_init_def)
  from gic_mismatch_reported [OF _ this, of "replicate 0x1000 nul" "[0, 0, 0, 0]" "gic_answers [0, 0, 0, 0]" "[]"]
  show ?thesis by (auto simp: gic_answers_def arm_gic_ids_def received_def stored_def model_eval)
qed

lemma arndale_swi_cycle_witness:
  "\<exists>m1. arndale_configure_swi [] no_files (gic_answers [0x90, 0xb4, 0x2b, 0, 0x0202043B, 0, 0, 0x3ff]) = Inr m1 \<and>
    sgi_raised arndale_GICD_BASE arndale_GICC_BASE (arndale_trigger_swi m1)"
  using arndale_swi_cycle [of "gic_answers [0x90, 0xb4, 0x2b, 0, 0x0202043B, 0, 0, 0x3ff]" 0 0 "0x3ff" "[]" "[]" no_files]
  by (auto simp: gic_answers_def)

end
