(* ===== verification/Board_Memory.thy ===== *)
theory Board_Memory
  imports Board_Swi Arm_Memory Armv8_Memory
begin

section \<open>The memory and device lists of the boards (platform/*/*/mem.c)\<close>

text \<open>
  A board names its ranges in linked lists. mem_init of the architecture walks the device list;
  the property at the end of this theory is that the list covers the registers the board's own
  code uses, so that a board still reaches its devices after mem_init.
\<close>

datatype 'a phys_mem_info_t = Phys_mem (phys_mem_start: 'a) (phys_mem_end: 'a) (next_mem: "'a phys_mem_info_t option")

text \<open>The walk while (info) ... info = info->next_mem.\<close>

fun mem_ranges :: "'a phys_mem_info_t \<Rightarrow> ('a \<times> 'a) list" where
  "mem_ranges (Phys_mem lo hi None) = [(lo, hi)]"
| "mem_ranges (Phys_mem lo hi (Some info)) = (lo, hi) # mem_ranges info"

definition device_ranges :: "'a phys_mem_info_t option \<Rightarrow> ('a \<times> 'a) list" where
  [model_eval]: "device_ranges info = (case info of None \<Rightarrow> [] | Some i \<Rightarrow> mem_ranges i)"

definition versatile_phys_info :: "u32 phys_mem_info_t" where [model_eval]: "versatile_phys_info = Phys_mem 0x04000000 0x08000000 None"
definition versatile_sp810_info :: "u32 phys_mem_info_t" where [model_eval]: "versatile_sp810_info = Phys_mem 0x10000000 0x10000fff None"
definition versatile_uart_info :: "u32 phys_mem_info_t" where [model_eval]: "versatile_uart_info = Phys_mem 0x101f1000 0x101f1fff (Some versatile_sp810_info)"
definition versatile_mem_get_phys_info :: "u32 phys_mem_info_t" where [model_eval]: "versatile_mem_get_phys_info = versatile_phys_info"
definition versatile_mem_get_device_info :: "u32 phys_mem_info_t option" where
  [model_eval]: "versatile_mem_get_device_info = Some versatile_uart_info"

definition realview_phys_info :: "u32 phys_mem_info_t" where [model_eval]: "realview_phys_info = Phys_mem 0x01000000 0x09000000 None"
definition realview_gic_info :: "u32 phys_mem_info_t" where [model_eval]: "realview_gic_info = Phys_mem 0x1e000000 0x1e002000 None"
definition realview_sp810_info :: "u32 phys_mem_info_t" where [model_eval]: "realview_sp810_info = Phys_mem 0x10000000 0x10000fff (Some realview_gic_info)"
definition realview_uart_info :: "u32 phys_mem_info_t" where [model_eval]: "realview_uart_info = Phys_mem 0x10009000 0x10009fff (Some realview_sp810_info)"
definition realview_mem_get_phys_info :: "u32 phys_mem_info_t" where [model_eval]: "realview_mem_get_phys_info = realview_phys_info"
definition realview_mem_get_device_info :: "u32 phys_mem_info_t option" where
  [model_eval]: "realview_mem_get_device_info = Some realview_uart_info"

definition sa1100_phys_info :: "u32 phys_mem_info_t" where [model_eval]: "sa1100_phys_info = Phys_mem 0xc0000000 0xc1000000 None"
definition sa1100_ic_info :: "u32 phys_mem_info_t" where [model_eval]: "sa1100_ic_info = Phys_mem 0x90050000 0x9005000c None"
definition sa1100_ostimer_info :: "u32 phys_mem_info_t" where [model_eval]: "sa1100_ostimer_info = Phys_mem 0x90000000 0x9000001C (Some sa1100_ic_info)"
definition sa1100_rcnr_info :: "u32 phys_mem_info_t" where [model_eval]: "sa1100_rcnr_info = Phys_mem 0x90010000 0x90010010 (Some sa1100_ostimer_info)"
definition sa1100_uart_info :: "u32 phys_mem_info_t" where [model_eval]: "sa1100_uart_info = Phys_mem 0x80050000 0x80050fff (Some sa1100_rcnr_info)"
definition sa1100_mem_get_phys_info :: "u32 phys_mem_info_t" where [model_eval]: "sa1100_mem_get_phys_info = sa1100_phys_info"
definition sa1100_mem_get_device_info :: "u32 phys_mem_info_t option" where
  [model_eval]: "sa1100_mem_get_device_info = Some sa1100_uart_info"

definition a9_phys_info :: "u32 phys_mem_info_t" where [model_eval]: "a9_phys_info = Phys_mem 0x84000000 0xa0000000 None"
definition a9_gic_info :: "u32 phys_mem_info_t" where [model_eval]: "a9_gic_info = Phys_mem 0x1e000000 0x1e100000 None"
definition a9_uart_info :: "u32 phys_mem_info_t" where [model_eval]: "a9_uart_info = Phys_mem 0x10009000 0x10009fff (Some a9_gic_info)"
definition a9_mem_get_phys_info :: "u32 phys_mem_info_t" where [model_eval]: "a9_mem_get_phys_info = a9_phys_info"
definition a9_mem_get_device_info :: "u32 phys_mem_info_t option" where
  [model_eval]: "a9_mem_get_device_info = Some a9_uart_info"

definition a15_phys_info :: "u32 phys_mem_info_t" where [model_eval]: "a15_phys_info = Phys_mem 0xa0000000 0xc0000000 None"
definition a15_gic_info :: "u32 phys_mem_info_t" where [model_eval]: "a15_gic_info = Phys_mem 0x2c000000 0x2c100000 None"
definition a15_uart_info :: "u32 phys_mem_info_t" where [model_eval]: "a15_uart_info = Phys_mem 0x1c090000 0x1c090fff (Some a15_gic_info)"
definition a15_mem_get_phys_info :: "u32 phys_mem_info_t" where [model_eval]: "a15_mem_get_phys_info = a15_phys_info"
definition a15_mem_get_device_info :: "u32 phys_mem_info_t option" where
  [model_eval]: "a15_mem_get_device_info = Some a15_uart_info"

definition arndale_phys_info :: "u32 phys_mem_info_t" where [model_eval]: "arndale_phys_info = Phys_mem 0x50000000 0x5FFFFFFF None"
definition arndale_gic_info :: "u32 phys_mem_info_t" where [model_eval]: "arndale_gic_info = Phys_mem 0x10481000 0x10489000 None"
definition arndale_uart_info :: "u32 phys_mem_info_t" where [model_eval]: "arndale_uart_info = Phys_mem 0x12C20000 0x12C2FFFF (Some arndale_gic_info)"
definition arndale_mem_get_phys_info :: "u32 phys_mem_info_t" where [model_eval]: "arndale_mem_get_phys_info = arndale_phys_info"
definition arndale_mem_get_device_info :: "u32 phys_mem_info_t option" where
  [model_eval]: "arndale_mem_get_device_info = Some arndale_uart_info"

definition virt_phys_info :: "u64 phys_mem_info_t" where [model_eval]: "virt_phys_info = Phys_mem 0x80000000 0xa0000000 None"
definition virt_gic_info :: "u64 phys_mem_info_t" where [model_eval]: "virt_gic_info = Phys_mem 0x08000000 0x08020000 None"
definition virt_uart_info :: "u64 phys_mem_info_t" where [model_eval]: "virt_uart_info = Phys_mem 0x09000000 0x09000fff (Some virt_gic_info)"
definition virt_mem_get_phys_info :: "u64 phys_mem_info_t" where [model_eval]: "virt_mem_get_phys_info = virt_phys_info"
definition virt_mem_get_device_info :: "u64 phys_mem_info_t option" where
  [model_eval]: "virt_mem_get_device_info = Some virt_uart_info"

section \<open>The registers a board's code uses\<close>

fun register_of :: "mmio_op \<Rightarrow> u32" where
  "register_of (Load a) = a" | "register_of (Store a v) = a"

definition touched :: "mmio \<Rightarrow> u32 list" where
  "touched m = map register_of (mmio_log m)"

lemma touched_store [simp]: "touched (store_reg a v m) = touched m @ [a]"
  by (simp add: touched_def store_reg_def)

lemma touched_load: "load_reg a m = Some (v, m') \<Longrightarrow> touched m' = touched m @ [a]"
  by (auto simp: load_reg_def touched_def split: list.splits)

lemma touched_read: "read_reg a m = Inr (v, m') \<Longrightarrow> touched m' = touched m @ [a]"
  by (auto simp: read_reg_def answered_def touched_load split: option.splits)

lemma touched_or: "answered (or_reg a v m) = Inr m' \<Longrightarrow> touched m' = touched m @ [a, a]"
  by (auto simp: or_reg_def answered_def touched_load split: option.splits)

lemma touched_ids: "read_gicd_ids gicd m = Inr (ids, m') \<Longrightarrow>
    touched m' = touched m @ [gicd + GICD_PIDR0, gicd + GICD_PIDR0 + 4, gicd + GICD_PIDR0 + 8, gicd + GICD_PIDR0 + 12]"
  by (auto simp: read_gicd_ids_def elim!: bindE_Inr_E dest!: touched_read)

lemma touched_forward: "gic_forward gicd gicc m = Inr m' \<Longrightarrow>
    touched m' = touched m @ [gicd + GICD_CTLR, gicd + GICD_CTLR, gicc + GICC_CTLR, gicc + GICC_CTLR]"
  by (auto simp: gic_forward_def elim!: bindE_Inr_E dest!: touched_or)

section \<open>After mem_init a board still reaches its devices (arm)\<close>

definition device_sections :: "u32 phys_mem_info_t option \<Rightarrow> u32 list" where
  "device_sections info = concat (map (\<lambda>(lo, hi). map section_of (sections lo hi)) (device_ranges info))"

definition covered :: "u32 phys_mem_info_t option \<Rightarrow> u32 \<Rightarrow> bool" where
  "covered info a \<longleftrightarrow> section_of a \<in> set (device_sections info)"

lemma section_target_device:
  assumes "section_of b = section_of a"
  shows "section_target (sec_device b) a = (a, 0xc02)"
proof -
  have m: "x AND 0xfff00000 = push_bit 20 (section_of x)" for x :: u32
  proof -
    have "x AND NOT (mask 20) = push_bit 20 (section_of x)"
      unfolding section_of_def by (auto intro!: bit_word_eqI simp: bit_simps)
    moreover have "(0xfff00000 :: u32) = NOT (mask 20)" by (simp add: mask_eq_exp_minus_1)
    ultimately show ?thesis by simp
  qed
  have "((b AND 0xfff00000) OR 0xc02) AND 0xfff00000 = b AND 0xfff00000"
    by (simp add: bit.conj_disj_distrib2 and.assoc)
  also have "\<dots> = a AND 0xfff00000" unfolding m assms ..
  finally have 1: "sec_device b AND 0xfff00000 = a AND 0xfff00000" unfolding sec_device_def .
  have 2: "sec_device b AND 0xfffff = 0xc02" by (simp add: sec_device_def bit.conj_disj_distrib2 and.assoc)
  have "(0xfff00000 OR 0xfffff :: u32) = - 1" by simp
  then have "(a AND 0xfff00000) OR (a AND 0xfffff) = a"
    unfolding bit.conj_disj_distrib [symmetric] by (simp only: and.right_neutral)
  then show ?thesis unfolding section_target_def 1 2 by simp
qed

lemma device_register_mapped:
  assumes "arm_image_ok img" "arm_devices img = device_ranges info" "arm_mem_init img s = Some (Inr s')" "covered info a"
  shows "arm_translate s' a = Some (a, 0xc02)"
proof -
  obtain lo hi b where b: "(lo, hi) \<in> set (arm_devices img)" "b \<in> set (sections lo hi)" "section_of b = section_of a"
    using assms(2,4) by (auto simp: covered_def device_sections_def)
  then have "(b, sec_device b) \<in> set (image_requests img (vector_section s))"
    by (force simp: image_requests_def device_requests_def)
  moreover have "\<forall>(b, d)\<in>set (image_requests img (vector_section s)). section_of b = section_of a \<longrightarrow>
      arm_translate s' a = Some (section_target d a)"
    using arm_mem_init_maps [OF assms(1), of s] assms(3) by (auto split: if_splits)
  ultimately show ?thesis using b(3) section_target_device by fastforce
qed

fun device_info :: "board \<Rightarrow> u32 phys_mem_info_t option" where
  "device_info Versatile = versatile_mem_get_device_info"
| "device_info Sa1100 = sa1100_mem_get_device_info"
| "device_info (With_gic Realview) = realview_mem_get_device_info"
| "device_info (With_gic Vexpress_a9) = a9_mem_get_device_info"
| "device_info (With_gic Vexpress_a15) = a15_mem_get_device_info"
| "device_info (With_gic Armv8_virt) = None"

fun board_uart_init :: "board \<Rightarrow> mmio \<Rightarrow> board_fault + mmio" where
  "board_uart_init Versatile m = Inr (versatile_uart_init m)"
| "board_uart_init Sa1100 m = Inr (sa1100_uart_init m)"
| "board_uart_init (With_gic Realview) m = Inr (realview_uart_init m)"
| "board_uart_init (With_gic Vexpress_a9) m = Inr (a9_uart_init m)"
| "board_uart_init (With_gic Vexpress_a15) m = answered (a15_uart_init m)"
| "board_uart_init (With_gic Armv8_virt) m = Inr (virt_uart_init m)"

fun board_trigger :: "board \<Rightarrow> char list \<Rightarrow> mmio printf_files \<Rightarrow> mmio \<Rightarrow> board_fault + mmio" where
  "board_trigger Versatile junk fs m = Inr (versatile_trigger_swi m)"
| "board_trigger Sa1100 junk fs m = Inr (sa1100_trigger_swi m)"
| "board_trigger (With_gic b) junk fs m = trigger_swi b junk fs m"

fun board_clear :: "board \<Rightarrow> mmio \<Rightarrow> board_fault + mmio" where
  "board_clear Versatile m = Inr (versatile_clear_swi m)"
| "board_clear Sa1100 m = Inr (sa1100_clear_swi m)"
| "board_clear (With_gic b) m = clear_swi b m"

text \<open>
  The six arm boards. The port of the Arndale board waits, so that its operations are apart from those of the type
  board. What a board does to its devices while benchmarks run is a sequence of operations on its serial port and its
  interrupt controller; the controller of the Arndale board is set up before, with the MMU off.
\<close>

datatype arm_board = Listed board | Arndale

datatype device_op = Uart_init | Uart_putc char | Trigger_swi | Clear_swi

fun arm_device_info :: "arm_board \<Rightarrow> u32 phys_mem_info_t option" where
  "arm_device_info (Listed b) = device_info b"
| "arm_device_info Arndale = arndale_mem_get_device_info"

fun device_step :: "arm_board \<Rightarrow> char list \<Rightarrow> mmio printf_files \<Rightarrow> device_op \<Rightarrow> mmio \<Rightarrow> board_fault + mmio" where
  "device_step (Listed b) junk fs Uart_init m = board_uart_init b m"
| "device_step (Listed b) junk fs (Uart_putc c) m = Inr (board_sink b m c)"
| "device_step (Listed b) junk fs Trigger_swi m = board_trigger b junk fs m"
| "device_step (Listed b) junk fs Clear_swi m = board_clear b m"
| "device_step Arndale junk fs Uart_init m = Inr (arndale_uart_init m)"
| "device_step Arndale junk fs (Uart_putc c) m = answered (arndale_uart_putc m c)"
| "device_step Arndale junk fs Trigger_swi m = Inr (arndale_trigger_swi m)"
| "device_step Arndale junk fs Clear_swi m = arndale_clear_swi m"

fun device_steps :: "arm_board \<Rightarrow> char list \<Rightarrow> mmio printf_files \<Rightarrow> device_op list \<Rightarrow> mmio \<Rightarrow> board_fault + mmio" where
  "device_steps b junk fs [] m = Inr m"
| "device_steps b junk fs (op # ops) m = bindE (device_step b junk fs op m) (device_steps b junk fs ops)"

text \<open>The registers these operations use, by board.\<close>

definition gic_registers :: "u32 \<Rightarrow> u32 \<Rightarrow> u32 list" where
  [model_eval]: "gic_registers gicd gicc =
     [gicd + GICD_PIDR0, gicd + GICD_PIDR0 + 4, gicd + GICD_PIDR0 + 8, gicd + GICD_PIDR0 + 12, gicd + GICD_ISENABLER0,
      gicd + GICD_ISENABLER1, gicd + GICD_IPRIORITYR0, gicd + GICD_IPRIORITYR1, gicc + GICC_PMR, gicd + GICD_CTLR,
      gicc + GICC_CTLR, gicd + GICD_SGIR, gicc + GICC_IAR, gicd + GICD_CPENDSGIR0, gicc + GICC_EOIR]"

fun swi_registers :: "board \<Rightarrow> u32 list" where
  "swi_registers Versatile = [versatile_PL190_BASE + 0x10, versatile_PL190_BASE + 0x18, versatile_PL190_BASE + 0x1C]"
| "swi_registers Sa1100 = [IC_START + 0x4, OSTIMER_START + 0x1C, OSTIMER_START + 0x0, OSTIMER_START + 0x10, OSTIMER_START + 0x14]"
| "swi_registers (With_gic b) = gic_registers (gicd_base b) (gicc_base b)"

definition uart_registers :: "board \<Rightarrow> u32 list" where
  "uart_registers b =
     data_register b # (if b = With_gic Vexpress_a15
       then [a15_TTY_UART_BASE + reg_ibrd, a15_TTY_UART_BASE + reg_lcr_h, a15_TTY_UART_BASE + reg_cr] else [])"

fun board_registers :: "arm_board \<Rightarrow> u32 list" where
  "board_registers (Listed b) = uart_registers b @ swi_registers b"
| "board_registers Arndale =
     [TTY_UART_BASE + reg_utxh, TTY_UART_BASE + reg_ufstat, TTY_UART_BASE + reg_uerstat] @ gic_registers arndale_GICD_BASE arndale_GICC_BASE"

lemmas gic_offsets = GICD_PIDR0_def GICD_ISENABLER0_def GICD_ISENABLER1_def GICD_IPRIORITYR0_def GICD_IPRIORITYR1_def
  GICC_PMR_def GICD_CTLR_def GICC_CTLR_def GICD_SGIR_def GICC_IAR_def GICD_CPENDSGIR0_def GICC_EOIR_def

text \<open>An operation adds accesses to the log; these are to registers of the board.\<close>

definition adds :: "u32 list \<Rightarrow> mmio \<Rightarrow> mmio \<Rightarrow> bool" where
  "adds rs m m' \<longleftrightarrow> (\<exists>used. touched m' = touched m @ used \<and> set used \<subseteq> set rs)"

lemma adds_refl: "adds rs m m"
  by (simp add: adds_def)

lemma adds_trans: "adds rs m m1 \<Longrightarrow> adds rs m1 m2 \<Longrightarrow> adds rs m m2"
  by (force simp: adds_def)

lemma adds_mono: "adds rs m m' \<Longrightarrow> set rs \<subseteq> set rs' \<Longrightarrow> adds rs' m m'"
  by (auto simp: adds_def)

lemma adds_store: "a \<in> set rs \<Longrightarrow> adds rs m (store_reg a v m)"
  by (simp add: adds_def)

lemma adds_load: "load_reg a m = Some (v, m') \<Longrightarrow> a \<in> set rs \<Longrightarrow> adds rs m m'"
  by (simp add: adds_def touched_load)

lemma gic_adds:
  assumes "trigger_swi b junk fs m = Inr m'"
  shows "adds (gic_registers (gicd_base b) (gicc_base b)) m m'"
proof -
  have bad: "bad_gicd junk fs e i m1 \<noteq> Inr m2" for e i m1 m2
    by (cases i) (auto simp: bad_gicd_def)
  show ?thesis
    using assms
    by (cases b) (auto simp: realview_trigger_swi_def a9_trigger_swi_def a15_trigger_swi_def virt_trigger_swi_def Let_def bad
        gic_registers_def adds_def dest!: touched_ids touched_forward split: if_splits)
qed

lemma gic_clear_adds: "gic_clear_swi gicd gicc m = Inr m' \<Longrightarrow> adds (gic_registers gicd gicc) m m'"
  by (auto simp: gic_clear_swi_def gic_registers_def adds_def dest!: touched_read)

lemma board_clear_gic: "clear_swi b = gic_clear_swi (gicd_base b) (gicc_base b)"
  by (cases b) (simp_all add: realview_clear_swi_def a9_clear_swi_def a15_clear_swi_def virt_clear_swi_def)

lemma arndale_putc_adds:
  "arndale_uart_putc m c = Some m' \<Longrightarrow> adds (board_registers Arndale) m m'"
proof (induction m c rule: arndale_uart_putc.induct)
  case (1 m c)
  from "1.prems" obtain f m1 where f: "load_reg (TTY_UART_BASE + reg_ufstat) m = Some (f, m1)"
    by (subst (asm) arndale_uart_putc.simps) (auto split: option.splits)
  then have a: "adds (board_registers Arndale) m m1" by (rule adds_load) simp
  show ?case
  proof (cases "f AND TX_FIFO_FULL_MASK = 0")
    case True
    with "1.prems" f have "m' = store_reg (TTY_UART_BASE + reg_utxh) (of_char c) m1"
      by (subst (asm) arndale_uart_putc.simps) simp
    moreover have "adds (board_registers Arndale) m1 (store_reg (TTY_UART_BASE + reg_utxh) (of_char c) m1)"
      by (rule adds_store) simp
    ultimately show ?thesis using a adds_trans by metis
  next
    case False
    with "1.prems" f obtain e m2 where e: "load_reg (TTY_UART_BASE + reg_uerstat) m1 = Some (e, m2)"
      "if e AND TX_ERROR_MASK \<noteq> 0 then m' = m2 else arndale_uart_putc m2 c = Some m'"
      by (subst (asm) arndale_uart_putc.simps) (auto split: option.splits if_splits)
    have "adds (board_registers Arndale) m1 m2" using e(1) by (rule adds_load) simp
    moreover have "adds (board_registers Arndale) m2 m'"
      using e(2) "1.IH" [OF f refl _ e(1) refl] False by (auto simp: adds_refl split: if_splits)
    ultimately show ?thesis using a by (blast intro: adds_trans)
  qed
qed

lemma touched_or_reg: "or_reg a v m = Some m' \<Longrightarrow> touched m' = touched m @ [a, a]"
  using touched_or [of a v m m'] by (simp add: answered_def)

lemma uart_adds:
  assumes "board_uart_init b m = Inr m'"
  shows "adds (uart_registers b) m m'"
proof (cases "b = With_gic Vexpress_a15")
  case True
  then obtain m1 where "or_reg (a15_TTY_UART_BASE + reg_cr) (push_bit 8 1 OR push_bit 7 1)
      (store_reg (a15_TTY_UART_BASE + reg_lcr_h) (push_bit 5 0x3) (store_reg (a15_TTY_UART_BASE + reg_ibrd) 0x4 m)) = Some m1"
    "or_reg (a15_TTY_UART_BASE + reg_cr) 0x1 m1 = Some m'"
    using assms by (auto simp: a15_uart_init_def Let_def answered_def bind_eq_Some_conv split: option.splits)
  from this [THEN touched_or_reg] True show ?thesis by (simp add: uart_registers_def adds_def)
next
  case False
  with assms show ?thesis
    by (cases b rule: device_info.cases)
       (simp_all add: adds_refl versatile_uart_init_def sa1100_uart_init_def realview_uart_init_def a9_uart_init_def virt_uart_init_def)
qed

lemma swi_adds:
  "board_trigger b junk fs m = Inr m' \<Longrightarrow> adds (swi_registers b) m m'"
  "board_clear b m = Inr m' \<Longrightarrow> adds (swi_registers b) m m'"
proof -
  show "board_trigger b junk fs m = Inr m' \<Longrightarrow> adds (swi_registers b) m m'"
  proof (cases b)
    case (With_gic g)
    then show "board_trigger b junk fs m = Inr m' \<Longrightarrow> adds (swi_registers b) m m'" using gic_adds by simp
  qed (auto simp: versatile_trigger_swi_def sa1100_trigger_swi_def Let_def adds_def)
  show "board_clear b m = Inr m' \<Longrightarrow> adds (swi_registers b) m m'"
  proof (cases b)
    case (With_gic g)
    then show "board_clear b m = Inr m' \<Longrightarrow> adds (swi_registers b) m m'" using gic_clear_adds by (simp add: board_clear_gic)
  qed (auto simp: versatile_clear_swi_def sa1100_clear_swi_def Let_def adds_def)
qed

lemma device_step_adds:
  assumes "device_step b junk fs op m = Inr m'"
  shows "adds (board_registers b) m m'"
proof (cases b)
  case (Listed l)
  have r: "set (uart_registers l) \<subseteq> set (board_registers b)" "set (swi_registers l) \<subseteq> set (board_registers b)"
    by (simp_all add: Listed)
  show ?thesis
  proof (cases op)
    case Uart_init
    then show ?thesis using assms Listed adds_mono [OF uart_adds r(1)] by simp
  next
    case (Uart_putc c)
    have "board_sink l m c = store_reg (data_register l) (of_char c) m"
      by (cases l) (simp_all add: versatile_uart_putc_def sa1100_uart_putc_def board_putc_store reg_dr_def)
    then have "m' = store_reg (data_register l) (of_char c) m" using assms Listed Uart_putc by simp
    then show ?thesis using Listed by (simp only:) (rule adds_store, simp add: uart_registers_def)
  next
    case Trigger_swi
    then show ?thesis using assms Listed adds_mono [OF swi_adds(1) r(2)] by simp
  next
    case Clear_swi
    then show ?thesis using assms Listed adds_mono [OF swi_adds(2) r(2)] by simp
  qed
next
  case Arndale
  have r: "set (gic_registers arndale_GICD_BASE arndale_GICC_BASE) \<subseteq> set (board_registers Arndale)"
    "arndale_GICD_BASE + GICD_SGIR \<in> set (board_registers Arndale)" by (auto simp: gic_registers_def)
  show ?thesis
  proof (cases op)
    case Uart_init
    then show ?thesis using assms Arndale by (simp add: arndale_uart_init_def adds_refl)
  next
    case (Uart_putc c)
    then show ?thesis
      using assms Arndale by (auto simp: answered_def simp del: board_registers.simps intro: arndale_putc_adds split: option.splits)
  next
    case Trigger_swi
    then show ?thesis
      using assms Arndale adds_store [OF r(2)] by (auto simp: arndale_trigger_swi_def simp del: board_registers.simps)
  next
    case Clear_swi
    then show ?thesis
      using assms Arndale adds_mono [OF gic_clear_adds r(1)] by (simp add: arndale_clear_swi_def del: board_registers.simps)
  qed
qed

lemma device_steps_adds: "device_steps b junk fs ops m = Inr m' \<Longrightarrow> adds (board_registers b) m m'"
  by (induction ops arbitrary: m) (auto simp: adds_refl intro: adds_trans device_step_adds)

lemmas device_section_eval = device_sections_def sections_def region_pages_def upt_rec section_of_def

lemma arm_device_sections:
  "device_sections versatile_mem_get_device_info = [0x101, 0x100]"
  "device_sections sa1100_mem_get_device_info = [0x800, 0x900, 0x900, 0x900]"
  "device_sections realview_mem_get_device_info = [0x100, 0x100, 0x1e0]"
  "device_sections a9_mem_get_device_info = [0x100, 0x1e0, 0x1e1]"
  "device_sections a15_mem_get_device_info = [0x1c0, 0x2c0, 0x2c1]"
  "device_sections arndale_mem_get_device_info = [0x12c, 0x104]"
  by (simp_all add: device_section_eval model_eval)

lemma registers_covered:
  assumes "b \<noteq> Listed (With_gic Armv8_virt)"
  shows "\<forall>a\<in>set (board_registers b). covered (arm_device_info b) a"
proof (cases b)
  case (Listed l)
  with assms show ?thesis
    by (cases l rule: device_info.cases) (simp_all add: covered_def arm_device_sections section_of_def uart_registers_def
      versatile_UART0_BASE_def sa1100_UART3_BASE_def realview_UART0_BASE_def a9_TTY_UART_BASE_def a15_TTY_UART_BASE_def
      versatile_PL190_BASE_def IC_START_def OSTIMER_START_def gic_registers_def realview_GICD_BASE_def realview_GICC_BASE_def
      a9_GICD_BASE_def a9_GICC_BASE_def a15_GICD_BASE_def a15_GICC_BASE_def gic_offsets reg_ibrd_def reg_lcr_h_def reg_cr_def)
next
  case Arndale
  then show ?thesis
    by (simp add: covered_def arm_device_sections section_of_def gic_registers_def arndale_GICD_BASE_def arndale_GICC_BASE_def
        gic_offsets TTY_UART_BASE_def reg_utxh_def reg_ufstat_def reg_uerstat_def)
qed

text \<open>The null device of the device-access benchmark, by board.\<close>

fun null_devptr :: "board \<Rightarrow> u32" where
  "null_devptr Versatile = versatile_null_devptr" | "null_devptr Sa1100 = sa1100_null_devptr"
| "null_devptr (With_gic Realview) = realview_null_devptr" | "null_devptr (With_gic Vexpress_a9) = a9_null_devptr"
| "null_devptr (With_gic Vexpress_a15) = a15_null_devptr" | "null_devptr (With_gic Armv8_virt) = virt_null_devptr"

lemma null_covered:
  assumes "b \<noteq> With_gic Armv8_virt" "b \<noteq> With_gic Vexpress_a15"
  shows "covered (device_info b) (null_devptr b)"
  using assms
  by (cases b rule: device_info.cases) (simp_all add: covered_def arm_device_sections section_of_def
      versatile_null_devptr_def sa1100_null_devptr_def realview_null_devptr_def a9_null_devptr_def)

section \<open>After mem_init a board still reaches its devices (armv8)\<close>

lemma in_region_pages:
  assumes "a AND NOT 0xfff = lo + 0x1000 * word_of_nat k" "k < (unat hi - unat lo) div 0x1000 + 1" "lo \<le> hi" "lo AND NOT 0xfff = (lo :: u64)"
  shows "a AND NOT 0xfff \<in> set (pages_of (lo, hi))"
proof -
  have "pages_of (lo, hi) = map (\<lambda>k. lo + 0x1000 * word_of_nat k) [0..<(unat hi - unat lo) div 0x1000 + 1]"
    using assms(3) unfolding pages_of_def snd_conv fst_conv assms(4) by (simp add: region_pages_def)
  then show ?thesis
    unfolding assms(1) by (simp only: set_map set_upt) (rule image_eqI [where x = k], use assms(2) in simp_all)
qed

lemma a8_path_page: "a8_path (a AND NOT 0xfff) = a8_path a"
proof -
  have "(0xfff :: u64) = mask 12" by (simp add: mask_eq_exp_minus_1)
  then show ?thesis unfolding a8_path_eq_iff by (simp only: bit_simps) auto
qed

lemma device_entry_page: "device_entry (a AND NOT 0xfff) = device_entry a"
  unfolding device_entry_def by (simp only: and.assoc and.idem)

lemma a8_device_register_mapped:
  assumes "a8_startable lo s" "a8_image_ok img" "syscall_mem_init img s = Some (Inr s')"
    and "r \<in> set (a8_devices img)" "a AND NOT 0xfff \<in> set (pages_of r)"
  shows "a8_translate s' a = Some (Inr (device_entry a))"
proof -
  note V = syscall_mem_init_view [OF assms(1-3)]
  have "a AND NOT 0xfff \<in> set (device_pages img)" using assms(4,5) by (auto simp: device_pages_def)
  from V(3) [OF this] show ?thesis
    unfolding a8_translate_view [OF V(1)] a8_path_page device_entry_page by simp
qed

text \<open>The armv8 board's registers, as addresses of that port.\<close>

definition virt_registers :: "u64 list" where
  "virt_registers = map ucast (virt_UART0_BASE # virt_null_devptr # gic_registers virt_GICD_BASE virt_GICC_BASE)"

lemma virt_pages:
  "\<forall>a\<in>set virt_registers. \<exists>r\<in>set (device_ranges virt_mem_get_device_info). a AND NOT 0xfff \<in> set (pages_of r)"
proof -
  have u: "a AND NOT 0xfff \<in> set (pages_of (0x09000000, 0x09000fff))" if "a AND NOT 0xfff = 0x09000000" for a :: u64
    by (rule in_region_pages [of a "0x09000000" 0]) (use that in simp_all)
  have d: "a AND NOT 0xfff \<in> set (pages_of (0x08000000, 0x08020000))" if "a AND NOT 0xfff = 0x08000000" for a :: u64
    by (rule in_region_pages [of a "0x08000000" 0]) (use that in simp_all)
  have c: "a AND NOT 0xfff \<in> set (pages_of (0x08000000, 0x08020000))" if "a AND NOT 0xfff = 0x08010000" for a :: u64
    by (rule in_region_pages [of a "0x08000000" 16]) (use that in simp_all)
  have "list_all (\<lambda>a. a AND NOT 0xfff = 0x09000000 \<or> a AND NOT 0xfff = 0x08000000 \<or> a AND NOT 0xfff = 0x08010000) virt_registers"
    by (simp add: virt_registers_def gic_registers_def virt_UART0_BASE_def virt_null_devptr_def virt_GICD_BASE_def
        virt_GICC_BASE_def gic_offsets)
  then show ?thesis
    using u d c unfolding list_all_iff device_ranges_def virt_mem_get_device_info_def virt_uart_info_def virt_gic_info_def
    by fastforce
qed

text \<open>
  Writing the null device after mem_init is safe on every arm board but the vexpress-a15:
  there the chip identification register is not in the device list, so that an access faults
  unless the image happens to lie in the same section.
\<close>

lemma null_device_mapping:
  assumes "b \<noteq> With_gic Armv8_virt" and "arm_image_ok img" and "arm_devices img = device_ranges (device_info b)"
    and "arm_mem_init img s = Some (Inr s')"
  shows "if b = With_gic Vexpress_a15
    then section_of (null_devptr b) \<notin> section_of ` fst ` set (image_requests img (vector_section s)) \<longrightarrow>
      arm_translate s' (null_devptr b) = None
    else arm_translate s' (null_devptr b) = Some (null_devptr b, 0xc02)"
  using device_register_mapped [OF assms(2-4) null_covered [OF assms(1)]]
    arm_mem_init_maps [OF assms(2), of s] assms(4) by (auto split: if_splits)

section \<open>The properties\<close>

text \<open>
  C14: on each of the six arm boards whose image has the board's own device list, whatever sequence of operations on its serial port (set-up,
  sending a character) and its interrupt controller (triggering and clearing the software interrupt) runs to its end, every register
  it reads or writes is one that mem_init has mapped to itself with full access and C = 0, B = 0, which is strongly ordered
  memory, although the comment in mem.c says buffered device memory. The start of a board, which runs before the MMU is
  on and on the Arndale board uses registers outside its list, is not among the operations.
\<close>

theorem arm_devices_reachable:
  assumes "b \<noteq> Listed (With_gic Armv8_virt)" and "arm_image_ok img" and "arm_devices img = device_ranges (arm_device_info b)"
    and "arm_mem_init img s = Some (Inr s')" and "device_steps b junk fs ops m = Inr m'"
  shows "\<exists>used. touched m' = touched m @ used \<and> (\<forall>a\<in>set used. arm_translate s' a = Some (a, 0xc02))"
proof -
  obtain used where "touched m' = touched m @ used" "set used \<subseteq> set (board_registers b)"
    using device_steps_adds [OF assms(5)] by (auto simp: adds_def)
  moreover have "arm_translate s' a = Some (a, 0xc02)" if "a \<in> set (board_registers b)" for a
    using registers_covered [OF assms(1)] that device_register_mapped [OF assms(2-4)] by blast
  ultimately show ?thesis by blast
qed

text \<open>
  The same for the armv8 board: mem_init maps the page of every register of its serial
  port, its interrupt controller and its null device to itself as device memory.
\<close>

theorem virt_devices_reachable:
  assumes "a8_startable lo s" and "a8_image_ok img" and "a8_devices img = device_ranges virt_mem_get_device_info"
    and "syscall_mem_init img s = Some (Inr s')"
  shows "\<forall>a\<in>set virt_registers. a8_translate s' a = Some (Inr (device_entry a))"
  using virt_pages a8_device_register_mapped [OF assms(1,2,4)] unfolding assms(3) by blast

subsection \<open>Concrete instances\<close>

definition versatile_image :: arm_image where
  "versatile_image = demo_arm\<lparr>arm_devices := device_ranges versatile_mem_get_device_info\<rparr>"

lemma versatile_image_starts: "arm_image_ok versatile_image" "\<exists>s'. arm_mem_init versatile_image blank_arm = Some (Inr s')"
proof -
  have d: "arm_devices versatile_image = [(0x101f1000, 0x101f1fff), (0x10000000, 0x10000fff)]"
    by (simp add: versatile_image_def model_eval)
  show ok: "arm_image_ok versatile_image" by (simp add: arm_image_ok_def d) (simp add: versatile_image_def demo_arm_def vector_page_def)
  have r: "image_requests versatile_image (vector_section blank_arm) =
    [(0, 0xc0e), (0, 0xc0e), (0, 0xc0e), (0x100000, 0x100c0e), (0x10100000, 0x10100c02), (0x10000000, 0x10000c02), (0xfff00000, 0x500c0e),
     (0x500000, 0x500c0e), (0x600000, 0x600c0e)]"
    unfolding image_requests_def device_requests_def d vector_page_def vector_section_def
    by (simp add: versatile_image_def demo_arm_def blank_arm_def sections_def region_pages_def sec_data_def sec_device_def upt_rec)
  have "\<not> conflict (image_requests versatile_image (vector_section blank_arm))"
    by (simp add: conflict_def r section_of_def)
  moreover have "\<not> offsets_differ versatile_image blank_arm"
    by (simp add: offsets_differ_def vector_base_def versatile_image_def demo_arm_def blank_arm_def)
  ultimately show "\<exists>s'. arm_mem_init versatile_image blank_arm = Some (Inr s')"
    using arm_mem_init_maps [OF ok, of blank_arm] by auto
qed

lemma arm_devices_reachable_witness:
  "\<exists>s'. arm_mem_init versatile_image blank_arm = Some (Inr s') \<and>
    arm_translate s' versatile_UART0_BASE = Some (versatile_UART0_BASE, 0xc02) \<and> arm_translate s' 0x10140018 = Some (0x10140018, 0xc02)"
proof -
  obtain s' where s': "arm_mem_init versatile_image blank_arm = Some (Inr s')" using versatile_image_starts(2) by blast
  have d: "arm_devices versatile_image = device_ranges (arm_device_info (Listed Versatile))" by (simp add: versatile_image_def)
  let ?m = "versatile_clear_swi (versatile_trigger_swi (versatile_uart_putc quiet CHR ''a''))"
  have "device_steps (Listed Versatile) [] no_files [Uart_init, Uart_putc CHR ''a'', Trigger_swi, Clear_swi] quiet = Inr ?m"
    by (simp add: versatile_uart_init_def)
  from arm_devices_reachable [OF _ versatile_image_starts(1) d s' this] obtain used where
    u: "touched ?m = touched quiet @ used" "\<forall>a\<in>set used. arm_translate s' a = Some (a, 0xc02)" by auto
  have "touched quiet = []" by (simp add: touched_def quiet_def)
  moreover have "versatile_UART0_BASE \<in> set (touched ?m)" "0x10140018 \<in> set (touched ?m)"
    by (simp_all add: versatile_clear_swi_def versatile_trigger_swi_def versatile_uart_putc_def versatile_PL190_BASE_def reg_dr_def)
  ultimately show ?thesis using u s' by auto
qed

definition virt_image :: a8_image where
  "virt_image = demo_a8\<lparr>a8_devices := device_ranges virt_mem_get_device_info\<rparr>"

lemma virt_devices_reachable_witness:
  "\<exists>s'. syscall_mem_init virt_image blank_a8 = Some (Inr s') \<and>
    a8_translate s' 0x9000044 = Some (Inr (device_entry 0x9000044))"
proof -
  have d: "a8_devices virt_image = [(0x9000000, 0x9000fff), (0x8000000, 0x8020000)]" by (simp add: virt_image_def model_eval)
  have ok: "a8_image_ok virt_image" by (simp add: a8_image_ok_def d) (simp add: virt_image_def demo_a8_def)
  have t: "text_pages virt_image = text_pages demo_a8" "data_pages virt_image = data_pages demo_a8"
    by (simp_all add: text_pages_def data_pages_def virt_image_def)
  have "length (device_pages virt_image) = 34" by (simp add: device_pages_def d pages_of_def region_pages_def)
  then have "a8_room (1 + 3 * (length (text_pages virt_image) + length (data_pages virt_image) + length (device_pages virt_image))) blank_a8"
    by (simp add: t a8_room_def demo_a8_pages(1,2) blank_a8_def)
  from syscall_mem_init_succeeds [OF ok _ this]
  obtain s' where s': "syscall_mem_init virt_image blank_a8 = Some (Inr s')" by (auto simp: blank_a8_def)
  have "a8_devices virt_image = device_ranges virt_mem_get_device_info" by (simp add: virt_image_def)
  from virt_devices_reachable [OF blank_a8_startable ok this s'] s' show ?thesis
    by (simp add: virt_registers_def virt_null_devptr_def virt_UART0_BASE_def)
qed

end
