(* ===== verification/X86_Console.thy ===== *)
theory X86_Console
  imports Harness
begin

section \<open>The text console of the x86-64 platforms (platform/x86_64/native/console.c, qemu/console.c)\<close>

text \<open>
  The two files are the same. The screen is an array of 2000 cells of 16 bits, 25 rows of 80; the
  cursor is in the two static variables. slot_from_xy returns an index into the array, or None for
  its NULL; the callers use it unchecked, so a NULL is the fault Null_slot.
\<close>

datatype console_fault = Null_slot

record vga_state =
  vga :: "u16 list"
  cur_x :: u32
  cur_y :: u32
  crtc_writes :: "(u16 \<times> u8) list"

definition ROWS :: u32 where [model_eval]: "ROWS = 25"
definition COLUMNS :: u32 where [model_eval]: "COLUMNS = 80"

definition slot_from_xy :: "u32 \<Rightarrow> u32 \<Rightarrow> u32 option" where
  "slot_from_xy x y =
     (if COLUMNS \<le> x then None
      else if ROWS \<le> y then None
      else Some (x + y * COLUMNS))"

definition write_reg :: "u8 \<Rightarrow> u8 \<Rightarrow> vga_state \<Rightarrow> vga_state" where
  "write_reg reg val s = s\<lparr>crtc_writes := crtc_writes s @ [(0x3d4, reg), (0x3d5, val)]\<rparr>"

text \<open>A for loop over the numbers of a list whose body may fault.\<close>

fun for_each :: "('i \<Rightarrow> 's \<Rightarrow> 'e + 's) \<Rightarrow> 'i list \<Rightarrow> 's \<Rightarrow> 'e + 's" where
  "for_each body [] s = Inr s"
| "for_each body (i # is) s = bindE (body i s) (for_each body is)"

definition console_clear :: "vga_state \<Rightarrow> vga_state" where
  "console_clear s =
     s\<lparr>vga := foldl (\<lambda>v i. v[i := 0]) (vga s) [0..<unat (ROWS * COLUMNS)], cur_x := 0, cur_y := 0\<rparr>"

definition console_init :: "vga_state \<Rightarrow> vga_state" where
  "console_init s = console_clear (write_reg 0x0a 0x20 s)"

definition read_slot :: "u32 option \<Rightarrow> u16 list \<Rightarrow> console_fault + u16" where
  "read_slot slot v = (case slot of None \<Rightarrow> Inl Null_slot | Some i \<Rightarrow> Inr (v ! unat i))"

definition write_slot :: "u32 option \<Rightarrow> u16 \<Rightarrow> u16 list \<Rightarrow> console_fault + u16 list" where
  "write_slot slot w v = (case slot of None \<Rightarrow> Inl Null_slot | Some i \<Rightarrow> Inr (v[unat i := w]))"

definition scroll :: "u16 list \<Rightarrow> console_fault + u16 list" where
  "scroll v =
     bindE (for_each (\<lambda>y. for_each (\<lambda>x v.
         bindE (read_slot (slot_from_xy (word_of_nat x) (word_of_nat y + 1)) v) (\<lambda>w.
         write_slot (slot_from_xy (word_of_nat x) (word_of_nat y)) w v))
       [0..<unat COLUMNS]) [0..<unat (ROWS - 1)] v) (\<lambda>v.
     for_each (\<lambda>x. write_slot (slot_from_xy (word_of_nat x) (ROWS - 1)) 0) [0..<unat COLUMNS] v)"

definition new_line :: "vga_state \<Rightarrow> console_fault + vga_state" where
  "new_line s =
     (let s = s\<lparr>cur_x := 0, cur_y := cur_y s + 1\<rparr> in
      if ROWS \<le> cur_y s then
        bindE (scroll (vga s)) (\<lambda>v. Inr (s\<lparr>cur_y := ROWS - 1, vga := v\<rparr>))
      else Inr s)"

text \<open>The character is a signed char that is promoted to int before the OR.\<close>

definition cell_of :: "char \<Rightarrow> u16" where
  [model_eval]: "cell_of ch = 0x0700 OR scast (of_char ch :: u8)"

definition console_putc :: "vga_state \<Rightarrow> char \<Rightarrow> console_fault + vga_state" where
  "console_putc s ch =
     (if ch = CHR 0x0A then new_line s
      else if ch = CHR 0x0D then Inr (s\<lparr>cur_x := 0\<rparr>)
      else
        bindE (write_slot (slot_from_xy (cur_x s) (cur_y s)) (cell_of ch) (vga s)) (\<lambda>v.
        let s = s\<lparr>vga := v, cur_x := cur_x s + 1\<rparr> in
        if COLUMNS \<le> cur_x s then new_line s else Inr s))"

section \<open>The loops\<close>

lemma for_each_foldl:
  assumes "\<And>i s. i \<in> set is \<Longrightarrow> body i s = Inr (f s i)"
  shows "for_each body is s = Inr (foldl f s is)"
  using assms by (induction "is" arbitrary: s) simp_all

lemma foldl_concat: "foldl (\<lambda>s y. foldl f s (g y)) s ys = foldl f s (concat (map g ys))"
  by (induction ys arbitrary: s) simp_all

lemma slot_index:
  assumes "x < 80" "y < 25"
  shows "slot_from_xy (word_of_nat x) (word_of_nat y) = Some (word_of_nat (x + 80 * y))"
    and "unat (word_of_nat (x + 80 * y) :: u32) = x + 80 * y"
proof -
  have "unat (word_of_nat x :: u32) = x" "unat (word_of_nat y :: u32) = y"
    using assms by (simp_all add: unat_of_nat)
  then have "\<not> 80 \<le> (word_of_nat x :: u32)" "\<not> 25 \<le> (word_of_nat y :: u32)"
    using assms by (simp_all add: word_le_nat_alt)
  then show "slot_from_xy (word_of_nat x) (word_of_nat y) = Some (word_of_nat (x + 80 * y))"
    by (simp add: slot_from_xy_def COLUMNS_def ROWS_def mult.commute)
  show "unat (word_of_nat (x + 80 * y) :: u32) = x + 80 * y"
    unfolding unat_of_nat using assms by simp
qed

lemma cells_in_order: "concat (map (\<lambda>y. map (\<lambda>x. x + 80 * y) [0..<80]) [0..<n]) = [0..<80 * n]"
proof (induction n)
  case (Suc n)
  have "[0..<80 * Suc n] = [0..<80 * n] @ [80 * n..<80 + 80 * n]"
    unfolding mult_Suc_right add.commute [of 80] by (rule upt_add_eq_append) simp
  moreover have "map (\<lambda>x. x + 80 * n) [0..<80] = [80 * n..<80 + 80 * n]" by (rule map_add_upt)
  ultimately show ?case using Suc by (simp add: upt_Suc_append del: upt_Suc)
qed simp

lemma copy_down:
  "n + 80 \<le> length v \<Longrightarrow> foldl (\<lambda>v a. v[a := v ! (a + 80)]) v [0..<n] = take n (drop 80 v) @ drop n v"
proof (induction n)
  case (Suc n)
  let ?w = "take n (drop 80 v) @ drop n v"
  have l: "length (take n (drop 80 v)) = n" using Suc.prems by simp
  have "foldl (\<lambda>v a. v[a := v ! (a + 80)]) v [0..<Suc n] = ?w[n := ?w ! (n + 80)]" using Suc by simp
  also have "?w ! (n + 80) = v ! (n + 80)" using Suc.prems l by (simp add: nth_append)
  also have "?w[n := v ! (n + 80)] = take n (drop 80 v) @ (drop n v)[0 := v ! (n + 80)]"
    using l by (simp add: list_update_append)
  also have "drop n v = v ! n # drop (Suc n) v" using Suc.prems by (simp add: Cons_nth_drop_Suc)
  also have "take n (drop 80 v) @ (v ! n # drop (Suc n) v)[0 := v ! (n + 80)] = take (Suc n) (drop 80 v) @ drop (Suc n) v"
    using Suc.prems by (simp add: take_Suc_conv_app_nth add.commute)
  finally show ?case .
qed simp

lemma fill_zero: "k + n \<le> length v \<Longrightarrow> foldl (\<lambda>v a. v[k + a := 0]) v [0..<n] = take k v @ replicate n 0 @ drop (k + n) v"
proof (induction n)
  case (Suc n)
  have l: "length (take k v) = k" using Suc.prems by simp
  have "drop (k + n) v = v ! (k + n) # drop (Suc (k + n)) v" using Suc.prems by (simp add: Cons_nth_drop_Suc)
  then show ?case using Suc l by (simp add: list_update_append replicate_append_same [symmetric])
qed simp

lemma scroll_eq:
  assumes "length v = 2000"
  shows "scroll v = Inr (drop 80 v @ replicate 80 0)"
proof -
  have body: "for_each (\<lambda>x v. bindE (read_slot (slot_from_xy (word_of_nat x) (word_of_nat y + 1)) v) (\<lambda>w.
         write_slot (slot_from_xy (word_of_nat x) (word_of_nat y)) w v)) [0..<80] u
     = Inr (foldl (\<lambda>v a. v[a := v ! (a + 80)]) u (map (\<lambda>x. x + 80 * y) [0..<80]))" if "y < 24" for y u
  proof -
    have i: "slot_from_xy (word_of_nat x) (word_of_nat y + 1) = Some (word_of_nat (x + 80 * Suc y))" "unat (word_of_nat (x + 80 * Suc y) :: u32) = x + 80 * y + 80"
      "slot_from_xy (word_of_nat x) (word_of_nat y) = Some (word_of_nat (x + 80 * y))" "unat (word_of_nat (x + 80 * y) :: u32) = x + 80 * y"
      if "x < 80" for x
      using slot_index [OF that, of "Suc y"] slot_index [OF that, of y] \<open>y < 24\<close> by (simp_all add: add.commute)
    show ?thesis
      unfolding foldl_map
      by (rule for_each_foldl) (simp only: i bindE_simps read_slot_def write_slot_def option.case set_upt atLeastLessThan_iff)
  qed
  have u: "unat COLUMNS = 80" "unat (ROWS - 1) = 24" by (simp_all add: COLUMNS_def ROWS_def)
  have r: "slot_from_xy (word_of_nat x) (ROWS - 1) = Some (word_of_nat (x + 80 * 24))" "unat (word_of_nat (x + 80 * 24) :: u32) = 1920 + x"
    if "x < 80" for x
    using slot_index [OF that, of 24] by (simp_all add: ROWS_def)
  let ?c = "take 1920 (drop 80 v) @ drop 1920 v"
  have "for_each (\<lambda>y. for_each (\<lambda>x v. bindE (read_slot (slot_from_xy (word_of_nat x) (word_of_nat y + 1)) v) (\<lambda>w.
         write_slot (slot_from_xy (word_of_nat x) (word_of_nat y)) w v)) [0..<80]) [0..<24] v
     = Inr (foldl (\<lambda>u y. foldl (\<lambda>v a. v[a := v ! (a + 80)]) u (map (\<lambda>x. x + 80 * y) [0..<80])) v [0..<24])"
    by (rule for_each_foldl) (rule body, simp)
  also have "foldl (\<lambda>u y. foldl (\<lambda>v a. v[a := v ! (a + 80)]) u (map (\<lambda>x. x + 80 * y) [0..<80])) v [0..<24] = ?c"
    unfolding foldl_concat cells_in_order using copy_down [of 1920 v] assms by simp
  finally have 1: "for_each (\<lambda>y. for_each (\<lambda>x v. bindE (read_slot (slot_from_xy (word_of_nat x) (word_of_nat y + 1)) v) (\<lambda>w.
         write_slot (slot_from_xy (word_of_nat x) (word_of_nat y)) w v)) [0..<80]) [0..<24] v = Inr ?c" .
  have "for_each (\<lambda>x. write_slot (slot_from_xy (word_of_nat x) (ROWS - 1)) 0) [0..<80] ?c
    = Inr (foldl (\<lambda>v a. v[1920 + a := 0]) ?c [0..<80])"
    by (rule for_each_foldl) (simp only: r write_slot_def option.case set_upt atLeastLessThan_iff)
  also have "foldl (\<lambda>v a. v[1920 + a := 0]) ?c [0..<80] = take 1920 ?c @ replicate 80 0 @ drop (1920 + 80) ?c"
    by (rule fill_zero) (use assms in simp)
  also have "\<dots> = drop 80 v @ replicate 80 0" using assms by simp
  finally show ?thesis unfolding scroll_def u 1 bindE_simps .
qed

lemma console_clear_eq:
  assumes "length (vga s) = 2000"
  shows "console_clear s = s\<lparr>vga := replicate 2000 0, cur_x := 0, cur_y := 0\<rparr>"
proof -
  have "unat (ROWS * COLUMNS) = 2000" by (simp add: ROWS_def COLUMNS_def)
  moreover have "foldl (\<lambda>v i. v[i := 0]) (vga s) [0..<2000] = replicate 2000 0"
    using fill_zero [of 0 2000 "vga s"] assms by simp
  ultimately show ?thesis by (simp add: console_clear_def)
qed

section \<open>The terminal the console implements\<close>

text \<open>
  An endless roll of rows of 80 cells, the last being written at a column. The screen shows the
  first 25 rows, and once there are more the last 25.
\<close>

record terminal =
  rolled :: "u16 list list"
  row :: "u16 list"
  col :: nat

definition blank_row :: "u16 list" where "blank_row = replicate 80 0"

definition feed :: "terminal \<Rightarrow> terminal" where
  "feed t = t\<lparr>rolled := rolled t @ [row t], row := blank_row, col := 0\<rparr>"

definition term_putc :: "terminal \<Rightarrow> char \<Rightarrow> terminal" where
  "term_putc t c =
     (if c = CHR 0x0A then feed t
      else if c = CHR 0x0D then t\<lparr>col := 0\<rparr>
      else let t = t\<lparr>row := (row t)[col t := cell_of c], col := col t + 1\<rparr> in
           if col t = 80 then feed t else t)"

definition window :: "u16 list list \<Rightarrow> u16 list list" where
  "window rows =
     (if length rows \<le> 25 then rows @ replicate (25 - length rows) blank_row else drop (length rows - 25) rows)"

definition terminal_ok :: "terminal \<Rightarrow> bool" where
  "terminal_ok t \<longleftrightarrow> (\<forall>r\<in>set (rolled t @ [row t]). length r = 80) \<and> col t < 80"

definition displays :: "vga_state \<Rightarrow> terminal \<Rightarrow> bool" where
  "displays s t \<longleftrightarrow> vga s = concat (window (rolled t @ [row t])) \<and>
     unat (cur_x s) = col t \<and> unat (cur_y s) = min (length (rolled t)) 24"

lemma window_rows:
  assumes "\<forall>r\<in>set rows. length r = 80"
  shows "length (window rows) = 25" "\<forall>r\<in>set (window rows). length r = 80"
  using assms by (auto simp: window_def blank_row_def dest: in_set_dropD)

lemma length_rows: "\<forall>r\<in>set rows. length r = 80 \<Longrightarrow> length (concat rows) = 80 * length rows"
  by (induction rows) auto

lemma displays_length:
  assumes "terminal_ok t" "displays s t"
  shows "length (vga s) = 2000"
proof -
  have "\<forall>r\<in>set (rolled t @ [row t]). length r = 80" using assms(1) unfolding terminal_ok_def by (rule conjunct1)
  note W = window_rows [OF this]
  show ?thesis using length_rows [OF W(2)] W(1) assms(2) by (simp add: displays_def)
qed

lemma displays_feed:
  assumes "terminal_ok t" "unat (cur_y s) = min (length (rolled t)) 24" "vga s = concat (window (rolled t @ [row t]))"
  shows "\<exists>s'. new_line s = Inr s' \<and> displays s' (feed t)"
proof -
  let ?rows = "rolled t @ [row t]"
  have ok: "\<forall>r\<in>set ?rows. length r = 80" using assms(1) by (simp add: terminal_ok_def)
  have l: "length (vga s) = 2000" using length_rows [OF window_rows(2) [OF ok]] window_rows(1) [OF ok] assms(3) by simp
  have y: "unat (cur_y s + 1) = Suc (unat (cur_y s))" using assms(2) by (simp add: unat_word_ariths)
  show ?thesis
  proof (cases "length (rolled t) < 24")
    case True
    then have "\<not> ROWS \<le> cur_y s + 1" using y assms(2) by (simp add: word_le_nat_alt ROWS_def)
    moreover have "window ?rows = window (?rows @ [blank_row])"
      using True by (simp add: window_def Suc_diff_Suc [symmetric] replicate_app_Cons_same)
    ultimately show ?thesis
      using assms(2,3) y True by (auto simp: new_line_def displays_def feed_def Let_def)
  next
    case False
    then have "ROWS \<le> cur_y s + 1" using y assms(2) by (simp add: word_le_nat_alt ROWS_def)
    then have n: "new_line s = Inr (s\<lparr>cur_x := 0, cur_y := ROWS - 1, vga := drop 80 (vga s) @ replicate 80 0\<rparr>)"
      using scroll_eq [OF l] by (simp add: new_line_def Let_def)
    have w: "window ?rows = drop (length ?rows - 25) ?rows" using False by (simp add: window_def)
    then obtain r rs where r: "window ?rows = r # rs" using window_rows(1) [OF ok]
      by (metis list.exhaust list.size(3) zero_neq_numeral)
    then have "length r = 80" using window_rows(2) [OF ok] by simp
    then have "drop 80 (vga s) = concat rs" unfolding assms(3) r by simp
    moreover have "window (?rows @ [blank_row]) = rs @ [blank_row]"
    proof -
      have "drop (Suc (length ?rows - 25)) ?rows = rs" using w r by (metis drop_Suc list.sel(3) tl_drop)
      moreover have "length (?rows @ [blank_row]) - 25 = Suc (length ?rows - 25)" using False by simp
      ultimately show ?thesis using False by (simp add: window_def)
    qed
    ultimately show ?thesis unfolding n
      using False by (auto simp: displays_def feed_def blank_row_def ROWS_def)
  qed
qed

lemma window_last:
  assumes "length r = length r'"
  shows "\<exists>pre post. window (rows @ [r]) = pre @ r # post \<and> window (rows @ [r']) = pre @ r' # post \<and>
    length pre = min (length rows) 24"
proof (cases "length rows < 25")
  case True
  then show ?thesis
    by (intro exI [of _ rows] exI [of _ "replicate (24 - length rows) blank_row"])
       (simp add: window_def)
next
  case False
  then show ?thesis
    by (intro exI [of _ "drop (length rows - 24) rows"] exI [of _ "[]"]) (simp add: window_def Suc_diff_le)
qed

lemma update_row:
  assumes "\<forall>r\<in>set pre. length r = 80" "length r = 80" "x < 80"
  shows "(concat (pre @ r # post))[x + 80 * length pre := w] = concat (pre @ r[x := w] # post)"
  using assms length_rows [OF assms(1)] by (simp add: list_update_append)

lemma term_putc_ok: "terminal_ok t \<Longrightarrow> terminal_ok (term_putc t c)"
  by (auto simp: terminal_ok_def term_putc_def feed_def blank_row_def Let_def)

lemma console_putc_displays:
  assumes t: "terminal_ok t" and d: "displays s t"
  shows "\<exists>s'. console_putc s c = Inr s' \<and> displays s' (term_putc t c)"
proof -
  have v: "vga s = concat (window (rolled t @ [row t]))" and x: "unat (cur_x s) = col t"
    and y: "unat (cur_y s) = min (length (rolled t)) 24" using d by (simp_all add: displays_def)
  consider "c = CHR 0x0A" | "c = CHR 0x0D" | "c \<noteq> CHR 0x0A" "c \<noteq> CHR 0x0D" by blast
  then show ?thesis
  proof cases
    case 1
    then show ?thesis using displays_feed [OF t y v] by (simp add: console_putc_def term_putc_def)
  next
    case 2
    then show ?thesis using d by (simp add: console_putc_def term_putc_def displays_def)
  next
    case 3
    have ok: "\<forall>r\<in>set (rolled t @ [row t]). length r = 80" "col t < 80" using t by (auto simp: terminal_ok_def)
    have b: "col t < 80" "min (length (rolled t)) 24 < 25" using ok by simp_all
    have slot: "slot_from_xy (cur_x s) (cur_y s) = Some (word_of_nat (col t + 80 * min (length (rolled t)) 24))"
      using slot_index(1) [OF b] unfolding word_eq_of_unat [OF x] word_eq_of_unat [OF y] .
    let ?r = "(row t)[col t := cell_of c]"
    obtain pre post where w: "window (rolled t @ [row t]) = pre @ row t # post" "window (rolled t @ [?r]) = pre @ ?r # post"
      "length pre = min (length (rolled t)) 24"
      using window_last [of "row t" ?r "rolled t"] by auto
    have p: "\<forall>r\<in>set pre. length r = 80" "length (row t) = 80" using window_rows(2) [OF ok(1)] w(1) ok(1) by auto
    have v': "(vga s)[col t + 80 * min (length (rolled t)) 24 := cell_of c] = concat (window (rolled t @ [?r]))"
      using update_row [OF p b(1)] unfolding v w by simp
    let ?s = "s\<lparr>vga := concat (window (rolled t @ [?r])), cur_x := cur_x s + 1\<rparr>"
    have e: "console_putc s c = (if COLUMNS \<le> cur_x s + 1 then new_line ?s else Inr ?s)"
      using 3 by (simp add: console_putc_def slot write_slot_def slot_index(2) [OF b] v' Let_def del: of_nat_add)
    have x': "unat (cur_x s + 1) = Suc (col t)" using x b(1) by (simp add: unat_word_ariths)
    let ?t = "t\<lparr>row := ?r, col := col t + 1\<rparr>"
    show ?thesis
    proof (cases "Suc (col t) = 80")
      case True
      have "terminal_ok (?t\<lparr>col := 0\<rparr>)" using ok by (auto simp: terminal_ok_def)
      from displays_feed [OF this, of ?s] y have "\<exists>s'. new_line ?s = Inr s' \<and> displays s' (feed (?t\<lparr>col := 0\<rparr>))" by simp
      moreover have "feed (?t\<lparr>col := 0\<rparr>) = feed ?t" by (simp add: feed_def)
      moreover have "COLUMNS \<le> cur_x s + 1" using x' True by (simp add: word_le_nat_alt COLUMNS_def)
      moreover have "term_putc t c = feed ?t" using 3 True by (simp add: term_putc_def)
      ultimately show ?thesis unfolding e by simp
    next
      case False
      then have "\<not> COLUMNS \<le> cur_x s + 1" using x' b(1) by (simp add: word_le_nat_alt COLUMNS_def)
      moreover have "displays ?s ?t" using x' y by (simp add: displays_def)
      moreover have "term_putc t c = ?t" using 3 False by (simp add: term_putc_def)
      ultimately show ?thesis unfolding e by simp
    qed
  qed
qed

fun console_text :: "string \<Rightarrow> vga_state \<Rightarrow> console_fault + vga_state" where
  "console_text [] s = Inr s"
| "console_text (c # cs) s = bindE (console_putc s c) (console_text cs)"

lemma console_text_displays:
  assumes "terminal_ok t" "displays s t"
  shows "\<exists>s'. console_text cs s = Inr s' \<and> displays s' (foldl term_putc t cs)"
  using assms
proof (induction cs arbitrary: s t)
  case (Cons c cs)
  obtain s1 where "console_putc s c = Inr s1" "displays s1 (term_putc t c)"
    using console_putc_displays [OF Cons.prems] by blast
  then show ?case using Cons.IH [OF term_putc_ok [OF Cons.prems(1)], of s1 c] by auto
qed simp

definition blank_terminal :: terminal where
  "blank_terminal = \<lparr>rolled = [], row = blank_row, col = 0\<rparr>"

lemma console_init_displays:
  assumes "length (vga s) = 2000"
  shows "displays (console_init s) blank_terminal" "terminal_ok blank_terminal"
proof -
  have "concat (replicate n blank_row) = replicate (80 * n) 0" for n
    by (induction n) (simp_all add: blank_row_def replicate_add [symmetric])
  from this [of 25] have "concat (window [blank_row]) = replicate 2000 0"
    by (simp add: window_def flip: replicate_Suc)
  then show "displays (console_init s) blank_terminal"
    using assms by (simp add: console_init_def write_reg_def console_clear_eq displays_def blank_terminal_def)
qed (simp add: terminal_ok_def blank_terminal_def blank_row_def)

section \<open>The properties\<close>

text \<open>
  C13: the console implements a terminal: after console_init any text is written without
  touching memory outside the screen, and the screen then shows the last 25 rows of the endless
  roll that the text fills, with the cursor in the row and column the roll has reached.
\<close>

theorem console_refines_terminal:
  assumes "length (vga s) = 2000"
  shows "\<exists>s'. console_text cs (console_init s) = Inr s' \<and>
    vga s' = concat (window (rolled (foldl term_putc blank_terminal cs) @ [row (foldl term_putc blank_terminal cs)])) \<and>
    unat (cur_x s') = col (foldl term_putc blank_terminal cs) \<and>
    unat (cur_y s') = min (length (rolled (foldl term_putc blank_terminal cs))) 24"
  using console_text_displays [OF console_init_displays(2,1) [OF assms], of cs] by (simp add: displays_def)

text \<open>
  A character from 0x80 on is sign-extended first, which sets every attribute bit: blinking
  bright white on white instead of the grey on black of the others.
\<close>

lemma sign_extended_cell: "cell_of (CHR 0x41) = 0x0741" "cell_of (CHR 0xE9) = 0xffe9"
  by (simp_all add: cell_of_def)

subsection \<open>Concrete instance\<close>

definition blank_vga :: vga_state where
  "blank_vga = \<lparr>vga = replicate 2000 0, cur_x = 7, cur_y = 3, crtc_writes = []\<rparr>"

lemma console_refines_terminal_witness:
  "\<exists>s'. console_text [CHR ''a'', CHR 0x0A, CHR ''b''] (console_init blank_vga) = Inr s' \<and>
    unat (cur_x s') = 1 \<and> unat (cur_y s') = 1"
proof -
  have "length (vga blank_vga) = 2000" by (simp add: blank_vga_def)
  from console_refines_terminal [OF this, of "[CHR ''a'', CHR 0x0A, CHR ''b'']"] show ?thesis
    by (auto simp: term_putc_def feed_def blank_terminal_def)
qed

end
