(* ===== verification/X86_Platform.thy ===== *)
theory X86_Platform
  imports X86_Console X86_Trap
begin

section \<open>The x86-64 platforms (platform/x86_64/native and qemu: serial.c, timer.c, platform.c, mem.c)\<close>

text \<open>
  The state of a platform is the processor's, the screen's, the values its port and APIC reads
  return, and the static variable of timer.c. A sink of printf works on a state that may already
  have failed; a failure is a NULL slot of the console or a read without an answer.
\<close>

datatype io_fault = Screen_fault console_fault | Cpu_fault x86_fault

record x86_io =
  cpu :: x86_state
  screen :: vga_state
  port_answers :: "u8 list"
  lapic_answers :: "u32 list"
  lapic_frequency :: u32

definition on_cpu :: "(x86_state \<Rightarrow> x86_state) \<Rightarrow> x86_io \<Rightarrow> x86_io" where
  [model_eval]: "on_cpu f m = m\<lparr>cpu := f (cpu m)\<rparr>"

definition on_screen :: "(vga_state \<Rightarrow> console_fault + vga_state) \<Rightarrow> x86_io \<Rightarrow> io_fault + x86_io" where
  "on_screen f m = (case f (screen m) of Inl e \<Rightarrow> Inl (Screen_fault e) | Inr v \<Rightarrow> Inr (m\<lparr>screen := v\<rparr>))"

subsection \<open>The serial port (native/serial.c)\<close>

definition COM1 :: u16 where [model_eval]: "COM1 = 0x3f8"

definition out8 :: "u16 \<Rightarrow> u8 \<Rightarrow> x86_io \<Rightarrow> x86_io" where
  [model_eval]: "out8 port data m = on_cpu (issue (Outb port data)) m"

definition inb :: "u16 \<Rightarrow> x86_io \<Rightarrow> io_fault + u8 \<times> x86_io" where
  "inb port m =
     (case port_answers m of
        [] \<Rightarrow> Inl (Cpu_fault No_answer)
      | v # vs \<Rightarrow> Inr (v, (on_cpu (issue (Inb port)) m)\<lparr>port_answers := vs\<rparr>))"

definition serial_init :: "x86_io \<Rightarrow> x86_io" where
  "serial_init m =
     (let m = out8 (COM1 + 1) 0x00 m; m = out8 (COM1 + 3) 0x80 m; m = out8 (COM1 + 0) 0x03 m;
          m = out8 (COM1 + 1) 0x00 m; m = out8 (COM1 + 3) 0x03 m
      in out8 (COM1 + 2) 0xc7 m)"

definition is_transmit_empty :: "x86_io \<Rightarrow> io_fault + bool \<times> x86_io" where
  "is_transmit_empty m = bindE (inb (COM1 + 5) m) (\<lambda>(v, m). Inr (v AND 0x20 \<noteq> 0, m))"

lemma transmit_answers:
  "is_transmit_empty m = Inr (b, m') \<Longrightarrow> length (port_answers m') < length (port_answers m)"
  by (auto simp: is_transmit_empty_def inb_def split: list.splits)

function serial_putc :: "x86_io \<Rightarrow> char \<Rightarrow> io_fault + x86_io" where
  "serial_putc m ch =
     (case is_transmit_empty m of
        Inl e \<Rightarrow> Inl e
      | Inr (ready, m) \<Rightarrow> if \<not> ready then serial_putc m ch else Inr (out8 COM1 (of_char ch) m))"
  by pat_completeness auto
termination
  by (relation "measure (\<lambda>(m, ch). length (port_answers m))") (auto dest: transmit_answers)

declare serial_putc.simps [simp del]

subsection \<open>The timer (native/timer.c)\<close>

definition PIT_FREQUENCY :: u32 where [model_eval]: "PIT_FREQUENCY = 1193180"
definition CALIBRATION_FREQUENCY :: u32 where [model_eval]: "CALIBRATION_FREQUENCY = 100"

text \<open>The two calls of the timer's set-up that read port 0x61 take its value first.\<close>

definition with_port :: "(u8 \<Rightarrow> x86_state \<Rightarrow> x86_state) \<Rightarrow> x86_io \<Rightarrow> io_fault + x86_io" where
  "with_port f m =
     (case port_answers m of
        [] \<Rightarrow> Inl (Cpu_fault No_answer)
      | v # vs \<Rightarrow> Inr ((on_cpu (f v) m)\<lparr>port_answers := vs\<rparr>))"

function wait_for_pit :: "x86_io \<Rightarrow> io_fault + x86_io" where
  "wait_for_pit m =
     (case inb 0x61 m of
        Inl e \<Rightarrow> Inl e
      | Inr (v, m) \<Rightarrow> if \<not> pit_expired v then wait_for_pit m else Inr m)"
  by pat_completeness auto
termination
  by (relation "measure (\<lambda>m. length (port_answers m))") (auto simp: inb_def split: list.splits)

declare wait_for_pit.simps [simp del]

definition read_timer :: "x86_io \<Rightarrow> io_fault + u32 \<times> x86_io" where
  "read_timer m =
     (case lapic_timer_read (lapic_answers m) (cpu m) of
        Inl e \<Rightarrow> Inl (Cpu_fault e)
      | Inr (v, vs, s) \<Rightarrow> Inr (v, m\<lparr>cpu := s, lapic_answers := vs\<rparr>))"

definition timer_init :: "x86_io \<Rightarrow> io_fault + x86_io" where
  "timer_init m =
     (let period = PIT_FREQUENCY div CALIBRATION_FREQUENCY;
          m = on_cpu lapic_timer_reset m
      in bindE (with_port (\<lambda>v. pit_init_oneshot v (ucast period)) m) (\<lambda>m.
         bindE (with_port pit_start m) (\<lambda>m.
         let m = on_cpu lapic_timer_start m
         in bindE (wait_for_pit m) (\<lambda>m.
            let m = on_cpu lapic_timer_stop m
            in bindE (read_timer m) (\<lambda>(v, m).
               let ticks_per_period = push_bit 4 (0xffffffff - v)
               in Inr (m\<lparr>lapic_frequency := ticks_per_period div 100\<rparr>))))))"

definition timer_start :: "x86_io \<Rightarrow> x86_io" where "timer_start m = on_cpu lapic_timer_start m"

definition timer_reset :: "x86_io \<Rightarrow> x86_io" where "timer_reset m = on_cpu lapic_timer_reset m"

definition timer_read :: "x86_io \<Rightarrow> io_fault + u64 \<times> x86_io" where
  "timer_read m = bindE (read_timer m) (\<lambda>(v, m). Inr (ucast v, m))"

subsection \<open>The platform interface (native/platform.c and qemu/platform.c)\<close>

definition console_sink :: "io_fault + x86_io \<Rightarrow> char \<Rightarrow> io_fault + x86_io" where
  "console_sink s c = bindE s (on_screen (\<lambda>v. console_putc v c))"

definition serial_sink :: "io_fault + x86_io \<Rightarrow> char \<Rightarrow> io_fault + x86_io" where
  "serial_sink s c = bindE s (\<lambda>m. serial_putc m c)"

definition qemu_output_putc :: "x86_io \<Rightarrow> char \<Rightarrow> x86_io" where
  "qemu_output_putc m ch = on_cpu (issue (Outb 0xe9 (of_char ch))) m"

definition qemu_sink :: "io_fault + x86_io \<Rightarrow> char \<Rightarrow> io_fault + x86_io" where
  "qemu_sink s c = bindE s (\<lambda>m. Inr (qemu_output_putc m c))"

definition native_platform_init ::
  "(io_fault + x86_io) printf_files \<times> x86_io \<Rightarrow> io_fault + (io_fault + x86_io) printf_files \<times> x86_io" where
  "native_platform_init = (\<lambda>(fs, m).
     let m = serial_init (m\<lparr>screen := console_init (screen m)\<rparr>);
         fs = (if use_framebuffer (cpu m) then printf_register_output (Some console_sink) fs
               else printf_register_output (Some serial_sink) fs);
         fs = printf_register_debug (Some console_sink) fs;
         fs = printf_register_error (Some console_sink) fs
     in bindE (timer_init m) (\<lambda>m. Inr (fs, m)))"

definition qemu_platform_init ::
  "bool \<Rightarrow> (io_fault + x86_io) printf_files \<times> x86_io \<Rightarrow> (io_fault + x86_io) printf_files \<times> x86_io" where
  "qemu_platform_init SIMBENCH_DEBUG = (\<lambda>(fs, m).
     let fs = printf_register_output (Some qemu_sink) fs;
         m = m\<lparr>screen := console_init (screen m)\<rparr>
     in (if SIMBENCH_DEBUG
         then printf_register_error (Some qemu_sink) (printf_register_debug (Some qemu_sink) fs)
         else printf_register_error (Some console_sink) (printf_register_debug (Some console_sink) fs), m))"

text \<open>The rest of the interface is the same in both files.\<close>

definition x86_platform_shutdown :: "x86_io \<Rightarrow> x86_io" where "x86_platform_shutdown m = m"
definition x86_null_devptr :: u64 where [model_eval]: "x86_null_devptr = 0x0000fee00380"
definition x86_null_devval :: u32 where [model_eval]: "x86_null_devval = 0x1234"
definition x86_trigger_swi :: "x86_state \<Rightarrow> x86_state" where "x86_trigger_swi s = lapic_issue_interrupt 0x30 s"
definition x86_clear_swi :: "x86_state \<Rightarrow> x86_state" where "x86_clear_swi s = lapic_acknowledge_irq s"

definition native_phys_info :: "u64 \<times> u64" where [model_eval]: "native_phys_info = (0x04000000, 0x08000000)"
definition qemu_phys_info :: "u64 \<times> u64" where [model_eval]: "qemu_phys_info = (0x10000000, 0x40000000)"

section \<open>What the devices receive\<close>

text \<open>The bytes sent to a port, oldest first.\<close>

fun sent_byte :: "u16 \<Rightarrow> bus_op \<Rightarrow> string" where
  "sent_byte port (Outb p v) = (if p = port then [char_of (unat v)] else [])"
| "sent_byte port _ = []"

definition port_text :: "u16 \<Rightarrow> x86_io \<Rightarrow> string" where
  "port_text port m = concat (map (sent_byte port) (bus (cpu m)))"

lemma char_byte: "char_of (unat (of_char c :: u8)) = c"
proof -
  have "(of_char c :: nat) mod 256 = of_char c" by simp
  then have "unat (of_nat (of_char c) :: u8) = of_char c" by (simp add: unat_of_nat)
  then show ?thesis by (simp add: of_nat_of_char)
qed

lemma port_text_issue: "port_text port (on_cpu (issue op) m) = port_text port m @ sent_byte port op"
  by (simp add: port_text_def on_cpu_def issue_def)

interpretation debug_port: console qemu_output_putc "port_text 0xe9"
  by unfold_locales (simp add: qemu_output_putc_def port_text_issue char_byte)

lemma serial_sends:
  assumes "\<forall>v\<in>set busy. v AND 0x20 = 0" "port_answers m = busy @ rest"
  shows "case rest of
      [] \<Rightarrow> serial_putc m c = Inl (Cpu_fault No_answer)
    | v # vs \<Rightarrow> v AND 0x20 \<noteq> 0 \<longrightarrow>
        (\<exists>m'. serial_putc m c = Inr m' \<and> port_answers m' = vs \<and> port_text COM1 m' = port_text COM1 m @ [c])"
  using assms
proof (induction busy arbitrary: m)
  case Nil
  show ?case
  proof (cases rest)
    case (Cons v vs)
    let ?m = "(on_cpu (issue (Inb (COM1 + 5))) m)\<lparr>port_answers := vs\<rparr>"
    have "serial_putc m c = Inr (out8 COM1 (of_char c) ?m)" if "v AND 0x20 \<noteq> 0"
      using Nil Cons that by (subst serial_putc.simps) (simp add: is_transmit_empty_def inb_def)
    moreover have "port_text COM1 (out8 COM1 (of_char c) ?m) = port_text COM1 m @ [c]" "port_answers (out8 COM1 (of_char c) ?m) = vs"
      by (simp_all add: port_text_def on_cpu_def issue_def out8_def char_byte)
    ultimately show ?thesis using Cons by auto
  qed (use Nil in \<open>subst serial_putc.simps, simp add: is_transmit_empty_def inb_def\<close>)
next
  case (Cons b busy)
  let ?m = "(on_cpu (issue (Inb (COM1 + 5))) m)\<lparr>port_answers := busy @ rest\<rparr>"
  have e: "serial_putc m c = serial_putc ?m c"
    using Cons.prems by (subst serial_putc.simps) (simp add: is_transmit_empty_def inb_def)
  have t: "port_text COM1 ?m = port_text COM1 m"
    by (simp add: port_text_def on_cpu_def issue_def)
  show ?case using Cons.IH [of ?m] Cons.prems(1) unfolding e t by simp
qed

text \<open>For each character the answers of a port that is not ready, and the one with which it is.\<close>

fun serial_answers :: "(u8 list \<times> u8) list \<Rightarrow> u8 list \<Rightarrow> u8 list" where
  "serial_answers [] vs = vs"
| "serial_answers ((busy, ready) # bs) vs = busy @ ready # serial_answers bs vs"

definition becomes_ready :: "u8 list \<times> u8 \<Rightarrow> bool" where
  "becomes_ready w \<longleftrightarrow> (\<forall>v\<in>set (fst w). v AND 0x20 = 0) \<and> snd w AND 0x20 \<noteq> 0"

lemma serial_text:
  assumes "length waits = length t" "list_all becomes_ready waits"
    and "port_answers m = serial_answers waits vs"
  shows "\<exists>m'. foldl serial_sink (Inr m) t = Inr m' \<and> port_text COM1 m' = port_text COM1 m @ t \<and> port_answers m' = vs"
  using assms
proof (induction t arbitrary: waits m)
  case (Cons c t)
  obtain busy ready bs where w: "waits = (busy, ready) # bs" using Cons.prems(1) by (cases waits) auto
  have "\<forall>v\<in>set busy. v AND 0x20 = 0" "port_answers m = busy @ ready # serial_answers bs vs" "ready AND 0x20 \<noteq> 0"
    using Cons.prems(2,3) w by (simp_all add: becomes_ready_def)
  from serial_sends [OF this(1,2), of c] this(3)
  obtain m1 where 1: "serial_putc m c = Inr m1" "port_answers m1 = serial_answers bs vs"
    "port_text COM1 m1 = port_text COM1 m @ [c]" by auto
  then show ?case using Cons.IH [of bs m1] Cons.prems(1,2) w by (auto simp: serial_sink_def)
qed simp

lemma console_sink_steps:
  "console_sink (Inl e) c = Inl e"
  "console_sink (Inr m) c = (case console_putc (screen m) c of Inl e \<Rightarrow> Inl (Screen_fault e) | Inr v \<Rightarrow> Inr (m\<lparr>screen := v\<rparr>))"
  by (simp_all add: console_sink_def on_screen_def)

lemma console_sink_text:
  "foldl console_sink (Inr m) t = (case console_text t (screen m) of Inl e \<Rightarrow> Inl (Screen_fault e) | Inr v \<Rightarrow> Inr (m\<lparr>screen := v\<rparr>))"
proof (induction t arbitrary: m)
  case (Cons c t)
  have "foldl console_sink (Inl e) t = Inl e" for e
    by (induction t) (simp_all add: console_sink_steps)
  then show ?case using Cons by (cases "console_putc (screen m) c") (simp_all add: console_sink_steps split: sum.split)
qed simp

section \<open>The calibration of the timer\<close>

lemma wait_for_pit_ends:
  assumes "\<forall>v\<in>set running. v AND 0x20 \<noteq> 0" "port_answers m = running @ v # vs" "v AND 0x20 = 0"
  shows "\<exists>m'. wait_for_pit m = Inr m' \<and> port_answers m' = vs \<and> lapic_answers m' = lapic_answers m"
  using assms(1,2)
proof (induction running arbitrary: m)
  case Nil
  then show ?case using assms(3)
    by (subst wait_for_pit.simps) (simp add: inb_def pit_expired_def on_cpu_def)
next
  case (Cons b running)
  let ?m = "(on_cpu (issue (Inb 0x61)) m)\<lparr>port_answers := running @ v # vs\<rparr>"
  have "wait_for_pit m = wait_for_pit ?m"
    using Cons.prems by (subst wait_for_pit.simps) (simp add: inb_def pit_expired_def)
  then show ?case using Cons.IH [of ?m] Cons.prems(1) by (simp add: on_cpu_def)
qed

lemma ticks_shifted:
  fixes w :: u32
  assumes "unat w < 2 ^ 28"
  shows "unat (push_bit 4 w div 100) = (16 * unat w) div 100"
proof -
  have "unat (push_bit 4 w) = (16 * unat w) mod 2 ^ 32"
    by (simp add: push_bit_eq_mult unat_word_ariths mult.commute)
  then show ?thesis using assms by (simp add: unat_div)
qed

lemma timer_init_ends:
  assumes "\<forall>v\<in>set running. v AND 0x20 \<noteq> 0" and "v AND 0x20 = 0"
    and "port_answers m = a # b # running @ v # vs" and "lapic_answers m = t # ts"
    and "unat (0xffffffff - t) < 2 ^ 28"
  shows "\<exists>m'. timer_init m = Inr m' \<and> port_answers m' = vs \<and>
    unat (lapic_frequency m') = (16 * (0xffffffff - unat t)) div 100"
proof -
  let ?m1 = "(on_cpu (pit_init_oneshot a (ucast (PIT_FREQUENCY div CALIBRATION_FREQUENCY))) (on_cpu lapic_timer_reset m))
      \<lparr>port_answers := b # running @ v # vs\<rparr>"
  let ?m3 = "on_cpu lapic_timer_start ((on_cpu (pit_start b) ?m1)\<lparr>port_answers := running @ v # vs\<rparr>)"
  obtain m4 where 4: "wait_for_pit ?m3 = Inr m4" "port_answers m4 = vs" "lapic_answers m4 = t # ts"
    using wait_for_pit_ends [OF assms(1) _ assms(2), of ?m3 vs] assms(4) by (auto simp: on_cpu_def)
  have r: "read_timer (on_cpu lapic_timer_stop m4) = Inr (t, m4\<lparr>cpu := issue (Lapic_load (4 * drop_bit 2 TCCR)) (lapic_timer_stop (cpu m4)), lapic_answers := ts\<rparr>)"
    using 4(3) by (simp add: read_timer_def lapic_timer_read_def on_cpu_def)
  have "unat (0xffffffff - t) = 0xffffffff - unat t"
    using unat_sub [of t "0xffffffff"] word_le_nat_alt [of t "0xffffffff"] unsigned_less [of t, where 'a = nat] by simp
  then show ?thesis
    using assms(3) 4 r ticks_shifted [OF assms(5)]
    by (simp add: timer_init_def with_port_def Let_def on_cpu_def)
qed

text \<open>
  C40: the calibration returns as soon as the interval timer's output bit reads 0 and sets
  lapic_frequency to the elapsed ticks times 16 over 100, without loss if fewer than 2 to the 28
  ticks elapsed.
\<close>

theorem timer_calibration:
  assumes "\<forall>v\<in>set running. v AND 0x20 \<noteq> 0" and "v AND 0x20 = 0"
    and "port_answers m = a # b # running @ v # vs" and "lapic_answers m = t # ts"
    and "unat (0xffffffff - t) < 2 ^ 28"
  shows "\<exists>m'. timer_init m = Inr m' \<and> port_answers m' = vs \<and>
    unat (lapic_frequency m') = (16 * (0xffffffff - unat t)) div 100"
  using assms by (rule timer_init_ends)

section \<open>Output and software interrupts\<close>

lemma screen_of_inb: "inb p m = Inr (v, m') \<Longrightarrow> screen m' = screen m"
  by (auto simp: inb_def on_cpu_def split: list.splits)

lemma screen_of_wait: "wait_for_pit m = Inr m' \<Longrightarrow> screen m' = screen m"
proof (induction m rule: wait_for_pit.induct)
  case (1 m)
  then show ?case
    by (subst (asm) (2) wait_for_pit.simps) (auto dest: screen_of_inb split: sum.splits if_splits)
qed

lemma screen_of_timer_init: "timer_init m = Inr m' \<Longrightarrow> screen m' = screen m"
  by (auto simp: timer_init_def with_port_def read_timer_def on_cpu_def Let_def dest!: screen_of_wait split: list.splits sum.splits)

lemma native_init_sinks:
  assumes "native_platform_init (fs0, m0) = Inr (fs, m)"
  shows "output_file fs = \<lparr>putch_fn = Some (if use_framebuffer (cpu m0) then console_sink else serial_sink)\<rparr>"
    and "screen m = console_init (screen m0)"
proof -
  have u: "use_framebuffer (cpu (serial_init (m0\<lparr>screen := console_init (screen m0)\<rparr>))) = use_framebuffer (cpu m0)"
    by (simp add: serial_init_def out8_def on_cpu_def issue_def Let_def)
  have v: "screen (serial_init (m0\<lparr>screen := console_init (screen m0)\<rparr>)) = console_init (screen m0)"
    by (simp add: serial_init_def out8_def on_cpu_def issue_def Let_def)
  show "output_file fs = \<lparr>putch_fn = Some (if use_framebuffer (cpu m0) then console_sink else serial_sink)\<rparr>"
    "screen m = console_init (screen m0)"
    using assms u v
    by (auto simp: native_platform_init_def Let_def printf_register_output_def printf_register_debug_def printf_register_error_def
        dest!: screen_of_timer_init)
qed

text \<open>
  C33: output on the native platform. Once platform_init has come back, one call of fprintf on the output file whose format
  denotes a text t without NUL and shorter than 0xfff returns its length, and t appears on the screen, which has its 2000 slots, as
  on an empty terminal of the console if the command line asked for the framebuffer. Otherwise t leaves through the first
  serial port, character by character, and for each character the port's line status is read until the
  transmitter is ready, however many times it was not.
\<close>

theorem native_output:
  assumes "native_platform_init (fs0, m0) = Inr (fs, m)" and "length (vga (screen m0)) = 2000"
    and "render False fmt args = Some t" and "nul \<notin> set t" and "length t < 0xfff" and "0x1000 \<le> length junk"
    and "length waits = length t" and "list_all becomes_ready waits" and "port_answers m = serial_answers waits vs"
  shows "\<exists>m'. fprintf False junk (Some (output_file fs)) fmt args (Inr m) = Inr (length t, Inr m') \<and>
    (if use_framebuffer (cpu m0) then displays (screen m') (foldl term_putc blank_terminal t)
     else port_text COM1 m' = port_text COM1 m @ t \<and> port_answers m' = vs)"
proof (cases "use_framebuffer (cpu m0)")
  case True
  obtain v where v: "console_text t (screen m) = Inr v" "displays v (foldl term_putc blank_terminal t)"
    using console_text_displays [OF console_init_displays(2,1) [OF assms(2)], of t] native_init_sinks(2) [OF assms(1)] by auto
  then show ?thesis
    using True native_init_sinks(1) [OF assms(1)] fprintf_render_eq [OF assms(3-6), of console_sink "Inr m"]
    by (simp add: console_sink_text)
next
  case False
  then show ?thesis
    using native_init_sinks(1) [OF assms(1)] fprintf_render_eq [OF assms(3-6), of serial_sink "Inr m"] serial_text [OF assms(7-9)]
    by auto
qed

text \<open>
  The software interrupt of the x86-64 platforms: once irq_init has run, the interrupt that
  platform_trigger_swi sends, to processor 0 and with fixed delivery, has the vector whose gate
  leads to the handler of inter-processor interrupts, which user mode may not raise; clearing
  it signals the end of the interrupt.
\<close>

theorem x86_swi_vector:
  assumes "page_aligned (heap_cur s)" and "irq_init tr vs s = Inr (vs', s')"
  shows "bus (x86_trigger_swi s') = bus s' @ [Lapic_store ICRHI 0, Lapic_load 4, Lapic_store ICRLO 0x30, Lapic_load 4] \<and>
    gate (cells (x86_trigger_swi s')) (heap_cur s) 0x30 = interrupt_gate (trap_irq tr) False \<and>
    bus (x86_clear_swi s') = bus s' @ [Lapic_store EOI 0, Lapic_load 4]"
proof -
  have "vector_entry tr 0x30 = trap_irq tr" by (simp add: vector_entry_def)
  then have "gate (cells s') (heap_cur s) 0x30 = interrupt_gate (trap_irq tr) False"
    using irq_init_vectors(1) [OF assms, of "0x30"] by simp
  then show ?thesis
    by (simp add: x86_trigger_swi_def x86_clear_swi_def lapic_issue_interrupt_def lapic_acknowledge_irq_def lapic_write_def
        issue_def ICRHI_def ICRLO_def EOI_def)
qed

subsection \<open>Concrete instances\<close>

definition demo_traps :: trap_entries where
  "demo_traps = \<lparr>trap_unknown = 1, trap_unknown_arg = 2, trap_page_fault = 3, trap_syscall = 4, trap_irq = 5,
     trap_undef = 6, trap_gpf = 7, trap_timer = 8\<rparr>"

lemma x86_swi_vector_witness:
  "\<exists>s'. irq_init demo_traps [0x1000, 0] blank_x86 = Inr ([], s') \<and>
    gate (cells (x86_trigger_swi s')) (heap_cur blank_x86) 0x30 = interrupt_gate 5 False"
proof -
  have "\<exists>s'. irq_init demo_traps [0x1000, 0] blank_x86 = Inr ([], s')"
    by (simp add: irq_init_def heap_alloc_page_eq blank_x86_def Let_def lapic_init_def DELIVS_def)
  then obtain s' where s': "irq_init demo_traps [0x1000, 0] blank_x86 = Inr ([], s')" by blast
  have "page_aligned (heap_cur blank_x86)" by (simp add: page_aligned_def blank_x86_def)
  from x86_swi_vector [OF this s'] s' show ?thesis by (simp add: demo_traps_def)
qed

definition demo_io :: "u8 list \<Rightarrow> x86_io" where
  "demo_io vs = \<lparr>cpu = blank_x86, screen = blank_vga, port_answers = vs, lapic_answers = [0xfffe0000], lapic_frequency = 0\<rparr>"

lemma timer_calibration_witness:
  "\<exists>m'. timer_init (demo_io [0x10, 0x10, 0x20, 0x00]) = Inr m' \<and> unat (lapic_frequency m') = 20971"
  using timer_calibration [of "[0x20]" "0x00" "demo_io [0x10, 0x10, 0x20, 0x00]" "0x10" "0x10" "[]" "0xfffe0000" "[]"]
  by (auto simp: demo_io_def)

definition no_sinks :: "'s printf_files" where
  "no_sinks = \<lparr>output_file = \<lparr>putch_fn = None\<rparr>, debug_file = \<lparr>putch_fn = None\<rparr>, error_file = \<lparr>putch_fn = None\<rparr>\<rparr>"

lemma native_output_witness:
  "\<exists>fs m m'. native_platform_init (no_sinks, demo_io [0x10, 0x10, 0x20, 0x00, 0x60, 0x40, 0x60]) = Inr (fs, m) \<and>
    fprintf False (replicate 0x1000 nul) (Some (output_file fs)) ''ok'' [] (Inr m) = Inr (2, Inr m') \<and>
    port_text COM1 m' = port_text COM1 m @ ''ok''"
proof -
  let ?m = "demo_io [0x10, 0x10, 0x20, 0x00, 0x60, 0x40, 0x60]"
  let ?s = "serial_init (?m\<lparr>screen := console_init (screen ?m)\<rparr>)"
  have s: "port_answers ?s = 0x10 # 0x10 # [0x20] @ 0x00 # [0x60, 0x40, 0x60]" "lapic_answers ?s = [0xfffe0000]"
    by (simp_all add: serial_init_def out8_def on_cpu_def demo_io_def Let_def)
  obtain m where m: "timer_init ?s = Inr m" "port_answers m = [0x60, 0x40, 0x60]"
    using timer_init_ends [OF _ _ s] by auto
  then obtain fs where i: "native_platform_init (no_sinks, ?m) = Inr (fs, m)"
    by (auto simp: native_platform_init_def Let_def)
  have p: "port_answers m = serial_answers [([], 0x60), ([0x40], 0x60)] []" unfolding m(2) by simp
  have v: "length (vga (screen ?m)) = 2000" "\<not> use_framebuffer (cpu ?m)" by (simp_all add: demo_io_def blank_vga_def blank_x86_def)
  have t: "render False ''ok'' [] = Some ''ok''" "nul \<notin> set ''ok''" "length ''ok'' < 0xfff"
    "(0x1000 :: nat) \<le> length (replicate 0x1000 nul)" by (simp_all add: nul_def)
  have w: "length [([], 0x60), ([0x40 :: u8], 0x60 :: u8)] = length ''ok''" "list_all becomes_ready [([], 0x60), ([0x40], 0x60)]"
    by (simp_all add: becomes_ready_def)
  show ?thesis using native_output [OF i v(1) t w p] i v(2) by auto
qed

end
