(* ===== verification/Benchmarks.thy ===== *)
theory Benchmarks
  imports Harness
begin

section \<open>The benchmarks (src/benchmarks)\<close>

text \<open>
  The benchmarks are written against the interfaces of arch.h, mem.h, platform.h and debug.h, which
  each port and board implements: the record machine, whose routines take the machine's state 's to
  a new one or end in an abort 'e. The symbols of the linker (addresses of functions and of static
  variables) are fields as well. Addresses, of the type 'a, have the width of uintptr_t. The static variables of
  the benchmarks live in the machine's state and are reached through statics_of and put_statics.

  A loop that never ends is the value None of its definition and the fault hang of the kernel.
  call_fn is the call of a function whose body is empty.
\<close>

record 'a statics =
  swi_flag :: u32
  flush_start :: 'a
  flush_end :: 'a
  evict_start :: 'a
  evict_end :: 'a
  lb_value1 :: u32
  lb_value2 :: u32
  lb_value3 :: u32

record ('e, 's, 'a) machine =
  fast :: bool
  hang :: 'e
  statics_of :: "'s \<Rightarrow> 'a statics"
  put_statics :: "'a statics \<Rightarrow> 's \<Rightarrow> 's"
  spinner_start :: "u64 \<Rightarrow> ('e, 's) routine"
  spinner_turn :: "('e, 's) routine"
  op_mem_init :: "('e, 's) routine"
  op_mem_reset :: "('e, 's) routine"
  op_mmu_enable :: "('e, 's) routine"
  op_mmu_disable :: "('e, 's) routine"
  op_flush :: "('e, 's) routine"
  op_evict :: "'a \<Rightarrow> ('e, 's) routine"
  op_map_data :: "'a \<Rightarrow> 'a \<Rightarrow> ('e, 's) routine"
  op_page_size :: 'a
  op_phys_start :: 'a
  op_phys_end :: 'a
  op_ifault_return :: "('e, 's) routine"
  op_dfault_skip :: "('e, 's) routine"
  op_syscall_skip :: "('e, 's) routine"
  op_undef_skip :: "('e, 's) routine"
  op_irq_handler :: "('e, 's) routine \<Rightarrow> ('e, 's) routine"
  op_irq_enable :: "('e, 's) routine"
  op_irq_disable :: "('e, 's) routine"
  op_syscall :: "('e, 's) routine"
  op_undefined :: "('e, 's) routine"
  op_coprocessor :: "('e, 's) routine"
  op_nonpriv_read :: "'a \<Rightarrow> ('e, 's) routine"
  op_code_flush :: "'a \<Rightarrow> ('e, 's) routine"
  op_trigger_swi :: "('e, 's) routine"
  op_clear_swi :: "('e, 's) routine"
  op_null_devptr :: 'a
  op_null_devval :: "'s \<Rightarrow> u32 \<times> 's"
  load8 :: "'a \<Rightarrow> 's \<Rightarrow> 'e + u8 \<times> 's"
  store8 :: "'a \<Rightarrow> u8 \<Rightarrow> ('e, 's) routine"
  load32 :: "'a \<Rightarrow> 's \<Rightarrow> 'e + u32 \<times> 's"
  store32 :: "'a \<Rightarrow> u32 \<Rightarrow> ('e, 's) routine"
  jump_to :: "'a \<Rightarrow> ('e, 's) routine"
  call_fn :: "nat \<Rightarrow> ('e, 's) routine"
  poll_irq :: "('e, 's) routine \<Rightarrow> ('e, 's) routine"
  sym_hot_value :: 'a
  sym_nonpriv_value :: 'a
  sym_block :: 'a
  sym_small_fn :: "nat \<Rightarrow> 'a"

text \<open>The iteration counts of benchmark.h, of the normal and of the fast build.\<close>

definition BENCHMARK_ITERATIONS :: "bool \<Rightarrow> u64" where "BENCHMARK_ITERATIONS quick = (if quick then 1 else 1000)"
definition IO_COPRO_ITERATIONS :: "bool \<Rightarrow> u64" where "IO_COPRO_ITERATIONS quick = (if quick then 5 else 250000)"
definition IO_DEVICE_ITERATIONS :: "bool \<Rightarrow> u64" where "IO_DEVICE_ITERATIONS quick = (if quick then 5 else 400000)"
definition DISPATCH_SPD_ITERATIONS :: "bool \<Rightarrow> u64" where "DISPATCH_SPD_ITERATIONS quick = (if quick then 5 else 500000)"
definition DISPATCH_SPI_ITERATIONS :: "bool \<Rightarrow> u64" where "DISPATCH_SPI_ITERATIONS quick = (if quick then 5 else 200)"
definition DISPATCH_IPD_ITERATIONS :: "bool \<Rightarrow> u64" where "DISPATCH_IPD_ITERATIONS quick = (if quick then 5 else 100000)"
definition DISPATCH_IPI_ITERATIONS :: "bool \<Rightarrow> u64" where "DISPATCH_IPI_ITERATIONS quick = (if quick then 5 else 250)"
definition MEMORY_TLBFLUSH_ITERATIONS :: "bool \<Rightarrow> u64" where "MEMORY_TLBFLUSH_ITERATIONS quick = (if quick then 5 else 4000)"
definition MEMORY_COLD_ITERATIONS :: "bool \<Rightarrow> u64" where "MEMORY_COLD_ITERATIONS quick = (if quick then 5 else 50000)"
definition MEMORY_NONPRIV_ITERATIONS :: "bool \<Rightarrow> u64" where "MEMORY_NONPRIV_ITERATIONS quick = (if quick then 5 else 300000)"
definition MEMORY_TLBEVICT_ITERATIONS :: "bool \<Rightarrow> u64" where "MEMORY_TLBEVICT_ITERATIONS quick = (if quick then 5 else 4000)"
definition MEMORY_HOT_ITERATIONS :: "bool \<Rightarrow> u64" where "MEMORY_HOT_ITERATIONS quick = (if quick then 5 else 500000)"
definition EXCEPTION_DF_ITERATIONS :: "bool \<Rightarrow> u64" where "EXCEPTION_DF_ITERATIONS quick = (if quick then 5 else 25000)"
definition EXCEPTION_SC_ITERATIONS :: "bool \<Rightarrow> u64" where "EXCEPTION_SC_ITERATIONS quick = (if quick then 5 else 50000)"
definition EXCEPTION_SWI_ITERATIONS :: "bool \<Rightarrow> u64" where "EXCEPTION_SWI_ITERATIONS quick = (if quick then 5 else 20000)"
definition EXCEPTION_UNDEF_ITERATIONS :: "bool \<Rightarrow> u64" where "EXCEPTION_UNDEF_ITERATIONS quick = (if quick then 5 else 50000)"
definition EXCEPTION_IF_ITERATIONS :: "bool \<Rightarrow> u64" where "EXCEPTION_IF_ITERATIONS quick = (if quick then 5 else 25000)"
definition CODEGEN_LB_ITERATIONS :: "bool \<Rightarrow> u64" where "CODEGEN_LB_ITERATIONS quick = (if quick then 5 else 500)"
definition CODEGEN_SB_ITERATIONS :: "bool \<Rightarrow> u64" where "CODEGEN_SB_ITERATIONS quick = (if quick then 5 else 100)"

subsection \<open>The shape the kernels share\<close>

text \<open>
  A for loop of n rounds, and a kernel: the spinner is started, then every round turns it and does the
  measured operation, BENCHMARK_ITERATIONS times the benchmark's own count.
\<close>

fun repeat :: "nat \<Rightarrow> ('e, 's) routine \<Rightarrow> ('e, 's) routine" where
  "repeat 0 f s = Inr s"
| "repeat (Suc n) f s = bindE (f s) (repeat n f)"

definition total_iterations :: "('e, 's, 'a) machine \<Rightarrow> (bool \<Rightarrow> u64) \<Rightarrow> u64" where
  "total_iterations M count = BENCHMARK_ITERATIONS (fast M) * count (fast M)"

definition kernel_loop :: "('e, 's, 'a) machine \<Rightarrow> (bool \<Rightarrow> u64) \<Rightarrow> ('e, 's) routine \<Rightarrow> ('e, 's) routine" where
  "kernel_loop M count operation s =
     bindE (spinner_start M (count (fast M)) s)
       (repeat (unat (total_iterations M count)) (\<lambda>s. bindE (spinner_turn M s) operation))"

definition mmu_init :: "('e, 's, 'a) machine \<Rightarrow> ('e, 's) routine" where
  "mmu_init M s = bindE (op_mem_init M s) (\<lambda>s. bindE (op_mmu_enable M s) (op_flush M))"

definition mmu_cleanup :: "('e, 's, 'a) machine \<Rightarrow> ('e, 's) routine" where
  "mmu_cleanup M s = bindE (op_mmu_disable M s) (\<lambda>s. bindE (op_flush M s) (op_mem_reset M))"

definition discard :: "'e + 'a \<times> 's \<Rightarrow> 'e + 's" where
  "discard r = bindE r (\<lambda>(v, s). Inr s)"

definition ends :: "('e, 's, 'a) machine \<Rightarrow> ('e + 's) option \<Rightarrow> 'e + 's" where
  "ends M r = (case r of None \<Rightarrow> Inl (hang M) | Some x \<Rightarrow> x)"

subsection \<open>Exceptions\<close>

definition dfault_kernel :: "('e, 's, 'w::len word) machine \<Rightarrow> ('e, 's) routine" where
  "dfault_kernel M = kernel_loop M EXCEPTION_DF_ITERATIONS (\<lambda>s. discard (load32 M 0xc0000000 s))"

definition dfault_init :: "('e, 's, 'a) machine \<Rightarrow> ('e, 's) routine" where
  "dfault_init M s = bindE (mmu_init M s) (op_dfault_skip M)"

definition dfault :: "('e, 's, 'w::len word) machine \<Rightarrow> ('e, 's) benchmark_t" where
  "dfault M = \<lparr>bm_name = ''Data-Fault'', category = ''Exception'', kernel_init = Some (dfault_init M), kernel = dfault_kernel M,
     kernel_cleanup = Some (mmu_cleanup M), kernel_control = None,
     iteration_count = total_iterations M EXCEPTION_DF_ITERATIONS, kernel_priv = 0\<rparr>"

definition ifault_kernel :: "('e, 's, 'w::len word) machine \<Rightarrow> ('e, 's) routine" where
  "ifault_kernel M = kernel_loop M EXCEPTION_IF_ITERATIONS (jump_to M 0xc0000000)"

definition ifault_init :: "('e, 's, 'a) machine \<Rightarrow> ('e, 's) routine" where
  "ifault_init M s = bindE (mmu_init M s) (op_ifault_return M)"

definition ifault :: "('e, 's, 'w::len word) machine \<Rightarrow> ('e, 's) benchmark_t" where
  "ifault M = \<lparr>bm_name = ''Instruction-Fault'', category = ''Exception'', kernel_init = Some (ifault_init M), kernel = ifault_kernel M,
     kernel_cleanup = Some (mmu_cleanup M), kernel_control = None,
     iteration_count = total_iterations M EXCEPTION_IF_ITERATIONS, kernel_priv = 0\<rparr>"

definition undef_kernel :: "('e, 's, 'a) machine \<Rightarrow> ('e, 's) routine" where
  "undef_kernel M = kernel_loop M EXCEPTION_UNDEF_ITERATIONS (op_undefined M)"

definition undef_init :: "('e, 's, 'a) machine \<Rightarrow> ('e, 's) routine" where
  "undef_init M s = bindE (mmu_init M s) (op_undef_skip M)"

definition undef :: "('e, 's, 'a) machine \<Rightarrow> ('e, 's) benchmark_t" where
  "undef M = \<lparr>bm_name = ''Undef-Instruction'', category = ''Exception'', kernel_init = Some (undef_init M), kernel = undef_kernel M,
     kernel_cleanup = Some (mmu_cleanup M), kernel_control = None,
     iteration_count = total_iterations M EXCEPTION_UNDEF_ITERATIONS, kernel_priv = 0\<rparr>"

definition syscall_kernel :: "('e, 's, 'a) machine \<Rightarrow> ('e, 's) routine" where
  "syscall_kernel M = kernel_loop M EXCEPTION_SC_ITERATIONS (op_syscall M)"

definition syscall_init :: "('e, 's, 'a) machine \<Rightarrow> ('e, 's) routine" where
  "syscall_init M s = bindE (mmu_init M s) (op_syscall_skip M)"

definition syscall :: "('e, 's, 'a) machine \<Rightarrow> ('e, 's) benchmark_t" where
  "syscall M = \<lparr>bm_name = ''Syscall'', category = ''Exception'', kernel_init = Some (syscall_init M), kernel = syscall_kernel M,
     kernel_cleanup = Some (mmu_cleanup M), kernel_control = None,
     iteration_count = total_iterations M EXCEPTION_SC_ITERATIONS, kernel_priv = 0\<rparr>"

text \<open>
  The interrupt benchmark. Between two reads of the flag the machine may take the interrupt and run
  the handler: that is one poll_irq, which is given the installed handler.
\<close>

definition set_flag :: "('e, 's, 'a) machine \<Rightarrow> u32 \<Rightarrow> 's \<Rightarrow> 's" where
  "set_flag M v s = put_statics M ((statics_of M s)\<lparr>swi_flag := v\<rparr>) s"

definition swi_irq_handler :: "('e, 's, 'a) machine \<Rightarrow> ('e, 's) routine" where
  "swi_irq_handler M s = op_clear_swi M (set_flag M 1 s)"

partial_function (option) wait_flag :: "('s \<Rightarrow> bool) \<Rightarrow> ('e, 's) routine \<Rightarrow> 's \<Rightarrow> ('e + 's) option" where
  "wait_flag flag turn s =
     (if flag s then Some (Inr s)
      else case turn s of Inl e \<Rightarrow> Some (Inl e) | Inr s \<Rightarrow> wait_flag flag turn s)"

definition swi_kernel :: "('e, 's, 'a) machine \<Rightarrow> ('e, 's) routine" where
  "swi_kernel M = kernel_loop M EXCEPTION_SWI_ITERATIONS (\<lambda>s.
     bindE (op_trigger_swi M (set_flag M 0 s)) (\<lambda>s.
     ends M (wait_flag (\<lambda>s. swi_flag (statics_of M s) \<noteq> 0) (poll_irq M (swi_irq_handler M)) s)))"

definition swi_init :: "('e, 's, 'a) machine \<Rightarrow> ('e, 's) routine" where
  "swi_init M s = bindE (mmu_init M s) (\<lambda>s. bindE (op_irq_handler M (swi_irq_handler M) s) (op_irq_enable M))"

definition swi_cleanup :: "('e, 's, 'a) machine \<Rightarrow> ('e, 's) routine" where
  "swi_cleanup M s = bindE (op_irq_disable M s) (mmu_cleanup M)"

definition interrupt :: "('e, 's, 'a) machine \<Rightarrow> ('e, 's) benchmark_t" where
  "interrupt M = \<lparr>bm_name = ''Interrupt'', category = ''Exception'', kernel_init = Some (swi_init M), kernel = swi_kernel M,
     kernel_cleanup = Some (swi_cleanup M), kernel_control = None,
     iteration_count = total_iterations M EXCEPTION_SWI_ITERATIONS, kernel_priv = 0\<rparr>"

subsection \<open>Input and output\<close>

definition coprocessor_kernel :: "('e, 's, 'a) machine \<Rightarrow> ('e, 's) routine" where
  "coprocessor_kernel M = kernel_loop M IO_COPRO_ITERATIONS (op_coprocessor M)"

definition coprocessor_access :: "('e, 's, 'a) machine \<Rightarrow> ('e, 's) benchmark_t" where
  "coprocessor_access M = \<lparr>bm_name = ''Coprocessor'', category = ''IO'', kernel_init = None, kernel = coprocessor_kernel M,
     kernel_cleanup = None, kernel_control = None,
     iteration_count = total_iterations M IO_COPRO_ITERATIONS, kernel_priv = 0\<rparr>"

text \<open>This kernel starts the spinner but does not turn it.\<close>

definition device_kernel :: "('e, 's, 'a) machine \<Rightarrow> ('e, 's) routine" where
  "device_kernel M s =
     bindE (spinner_start M (IO_DEVICE_ITERATIONS (fast M)) s) (\<lambda>s.
     let (val, s) = op_null_devval M s in
     repeat (unat (total_iterations M IO_DEVICE_ITERATIONS)) (store32 M (op_null_devptr M) val) s)"

definition device_access :: "('e, 's, 'a) machine \<Rightarrow> ('e, 's) benchmark_t" where
  "device_access M = \<lparr>bm_name = ''Device-Access'', category = ''IO'', kernel_init = None, kernel = device_kernel M,
     kernel_cleanup = None, kernel_control = None,
     iteration_count = total_iterations M IO_DEVICE_ITERATIONS, kernel_priv = 0\<rparr>"

subsection \<open>Dispatch\<close>

text \<open>
  ipd_fn_10 calls ipd_fn_9 and so on to ipd_fn_0; spd_fn11 calls spd_fn10 and so on to spd_fn1.
\<close>

fun ipd_fn :: "('e, 's, 'a) machine \<Rightarrow> nat \<Rightarrow> ('e, 's) routine" where
  "ipd_fn M 0 s = call_fn M 0 s"
| "ipd_fn M (Suc x) s = bindE (call_fn M (Suc x) s) (ipd_fn M x)"

fun spd_fn :: "('e, 's, 'a) machine \<Rightarrow> nat \<Rightarrow> ('e, 's) routine" where
  "spd_fn M x s = (if x \<le> 1 then call_fn M x s else bindE (call_fn M x s) (spd_fn M (x - 1)))"

declare spd_fn.simps [simp del]

definition ipd_kernel :: "('e, 's, 'a) machine \<Rightarrow> ('e, 's) routine" where
  "ipd_kernel M = kernel_loop M DISPATCH_IPD_ITERATIONS (ipd_fn M 10)"

definition inter_page_direct :: "('e, 's, 'a) machine \<Rightarrow> ('e, 's) benchmark_t" where
  "inter_page_direct M = \<lparr>bm_name = ''Inter-Page-Direct'', category = ''Dispatch'', kernel_init = None, kernel = ipd_kernel M,
     kernel_cleanup = None, kernel_control = None,
     iteration_count = total_iterations M DISPATCH_IPD_ITERATIONS, kernel_priv = 0\<rparr>"

definition spd_kernel :: "('e, 's, 'a) machine \<Rightarrow> ('e, 's) routine" where
  "spd_kernel M = kernel_loop M DISPATCH_SPD_ITERATIONS (spd_fn M 11)"

definition intra_page_direct :: "('e, 's, 'a) machine \<Rightarrow> ('e, 's) benchmark_t" where
  "intra_page_direct M = \<lparr>bm_name = ''Same-Page-Direct'', category = ''Dispatch'', kernel_init = None, kernel = spd_kernel M,
     kernel_cleanup = None, kernel_control = None,
     iteration_count = total_iterations M DISPATCH_SPD_ITERATIONS, kernel_priv = 0\<rparr>"

text \<open>
  The indirect calls go through a table of sixteen functions, fn1 to fn16 here; dispatch counts
  its argument down, so that the last call is the table's first entry. The two files differ only in
  where the linker puts the functions.
\<close>

definition FN_TABLE_SIZE :: nat where [model_eval]: "FN_TABLE_SIZE = 16"

definition fn_table :: "nat list" where [model_eval]: "fn_table = [1, 2, 3, 4, 5, 6, 7, 8, 9, 10, 11, 12, 13, 14, 15, 16]"

fun dispatch :: "('e, 's, 'a) machine \<Rightarrow> nat \<Rightarrow> ('e, 's) routine" where
  "dispatch M 0 s = Inr s"
| "dispatch M (Suc i) s = bindE (call_fn M (fn_table ! (i mod FN_TABLE_SIZE)) s) (dispatch M i)"

definition ipi_kernel :: "('e, 's, 'a) machine \<Rightarrow> ('e, 's) routine" where
  "ipi_kernel M = kernel_loop M DISPATCH_IPI_ITERATIONS (dispatch M 1000)"

definition inter_page_indirect :: "('e, 's, 'a) machine \<Rightarrow> ('e, 's) benchmark_t" where
  "inter_page_indirect M = \<lparr>bm_name = ''Inter-Page-Indirect'', category = ''Dispatch'', kernel_init = None, kernel = ipi_kernel M,
     kernel_cleanup = None, kernel_control = None,
     iteration_count = total_iterations M DISPATCH_IPI_ITERATIONS, kernel_priv = 0\<rparr>"

definition spi_kernel :: "('e, 's, 'a) machine \<Rightarrow> ('e, 's) routine" where
  "spi_kernel M = kernel_loop M DISPATCH_SPI_ITERATIONS (dispatch M 1000)"

definition intra_page_indirect :: "('e, 's, 'a) machine \<Rightarrow> ('e, 's) benchmark_t" where
  "intra_page_indirect M = \<lparr>bm_name = ''Same-Page-Indirect'', category = ''Dispatch'', kernel_init = None, kernel = spi_kernel M,
     kernel_cleanup = None, kernel_control = None,
     iteration_count = total_iterations M DISPATCH_SPI_ITERATIONS, kernel_priv = 0\<rparr>"

subsection \<open>Code generation\<close>

text \<open>
  The table of the thirty small functions: entry i is fn(i+1), and fn x calls entry x, until the
  last one returns.
\<close>

definition small_fn_table :: "nat list" where "small_fn_table = [1..<31]"

function small_fn :: "('e, 's, 'a) machine \<Rightarrow> nat \<Rightarrow> ('e, 's) routine" where
  "small_fn M x s =
     (if x < 30 then bindE (call_fn M x s) (small_fn M (small_fn_table ! x)) else call_fn M x s)"
  by pat_completeness auto
termination
  by (relation "measure (\<lambda>(M, x, s). 30 - x)") (auto simp: small_fn_table_def)

declare small_fn.simps [simp del]

text \<open>The head of each function is read and, but in the control, written back; then its code is flushed.\<close>

definition dirty :: "('e, 's, 'a) machine \<Rightarrow> bool \<Rightarrow> 'a \<Rightarrow> ('e, 's) routine" where
  "dirty M write fn_head s =
     bindE (load8 M fn_head s) (\<lambda>(v, s).
     bindE (if write then store8 M fn_head v s else Inr s)
       (op_code_flush M fn_head))"

fun dirty_all :: "('e, 's, 'a) machine \<Rightarrow> bool \<Rightarrow> nat list \<Rightarrow> ('e, 's) routine" where
  "dirty_all M write [] s = Inr s"
| "dirty_all M write (fn # fns) s = bindE (dirty M write (sym_small_fn M fn) s) (dirty_all M write fns)"

definition copy_code :: "('e, 's, 'a) machine \<Rightarrow> ('e, 's) routine" where
  "copy_code M = dirty_all M True small_fn_table"

definition copy_code_control :: "('e, 's, 'a) machine \<Rightarrow> ('e, 's) routine" where
  "copy_code_control M = dirty_all M False small_fn_table"

definition sb_kernel :: "('e, 's, 'a) machine \<Rightarrow> ('e, 's) routine" where
  "sb_kernel M = kernel_loop M CODEGEN_SB_ITERATIONS (\<lambda>s. bindE (small_fn M 1 s) (copy_code M))"

definition sb_kernel_control :: "('e, 's, 'a) machine \<Rightarrow> ('e, 's) routine" where
  "sb_kernel_control M = kernel_loop M CODEGEN_SB_ITERATIONS (\<lambda>s. bindE (small_fn M 1 s) (copy_code_control M))"

definition small_blocks :: "('e, 's, 'a) machine \<Rightarrow> ('e, 's) benchmark_t" where
  "small_blocks M = \<lparr>bm_name = ''Small-Blocks'', category = ''Codegen'', kernel_init = Some Inr, kernel = sb_kernel M,
     kernel_cleanup = None, kernel_control = Some (sb_kernel_control M),
     iteration_count = total_iterations M CODEGEN_SB_ITERATIONS, kernel_priv = 0\<rparr>"

text \<open>STMT(x,y), and the 54 statements of block as 18 rounds of three; the third load is of value2.\<close>

definition stmt :: "u32 \<Rightarrow> u32 \<Rightarrow> u32 \<times> u32" where
  "stmt x y =
     (let y = y + x; x = push_bit 1 x; x = x + y; x = x XOR 0xf0f0f0f0; x = x - y; x = drop_bit 1 x in (x, y))"

definition stmt_round :: "u32 \<times> u32 \<times> u32 \<Rightarrow> u32 \<times> u32 \<times> u32" where
  "stmt_round = (\<lambda>(i, j, k).
     let (i, j) = stmt i j; (j, k) = stmt j k; (k, i) = stmt k i in (i, j, k))"

definition block :: "('e, 's, 'a) machine \<Rightarrow> 's \<Rightarrow> 's" where
  "block M s =
     (let st = statics_of M s;
          (i, j, k) = (stmt_round ^^ 18) (lb_value1 st, lb_value2 st, lb_value2 st)
      in put_statics M (st\<lparr>lb_value1 := i, lb_value2 := j, lb_value3 := k\<rparr>) s)"

definition lb_kernel :: "('e, 's, 'a) machine \<Rightarrow> ('e, 's) routine" where
  "lb_kernel M = kernel_loop M CODEGEN_LB_ITERATIONS (\<lambda>s. dirty M True (sym_block M) (block M s))"

definition lb_kernel_control :: "('e, 's, 'a) machine \<Rightarrow> ('e, 's) routine" where
  "lb_kernel_control M = kernel_loop M CODEGEN_LB_ITERATIONS (\<lambda>s. dirty M False (sym_block M) (block M s))"

definition large_blocks :: "('e, 's, 'a) machine \<Rightarrow> ('e, 's) benchmark_t" where
  "large_blocks M = \<lparr>bm_name = ''Large-Blocks'', category = ''Codegen'', kernel_init = None, kernel = lb_kernel M,
     kernel_cleanup = None, kernel_control = Some (lb_kernel_control M),
     iteration_count = total_iterations M CODEGEN_LB_ITERATIONS, kernel_priv = 0\<rparr>"

subsection \<open>Memory\<close>

text \<open>value = value, ten times a round; the control only runs the loop.\<close>

definition copy_value :: "('e, 's, 'a) machine \<Rightarrow> ('e, 's) routine" where
  "copy_value M s = bindE (load32 M (sym_hot_value M) s) (\<lambda>(v, s). store32 M (sym_hot_value M) v s)"

definition hot_kernel :: "('e, 's, 'a) machine \<Rightarrow> ('e, 's) routine" where
  "hot_kernel M = kernel_loop M MEMORY_HOT_ITERATIONS (repeat 10 (copy_value M))"

definition hot_kernel_control :: "('e, 's, 'a) machine \<Rightarrow> ('e, 's) routine" where
  "hot_kernel_control M = kernel_loop M MEMORY_HOT_ITERATIONS Inr"

definition memory_hot_nommu :: "('e, 's, 'a) machine \<Rightarrow> ('e, 's) benchmark_t" where
  "memory_hot_nommu M = \<lparr>bm_name = ''Memory-Hot-NoMMU'', category = ''Memory'', kernel_init = None, kernel = hot_kernel M,
     kernel_cleanup = None, kernel_control = Some (hot_kernel_control M),
     iteration_count = total_iterations M MEMORY_HOT_ITERATIONS, kernel_priv = 0\<rparr>"

definition memory_hot_mmu :: "('e, 's, 'a) machine \<Rightarrow> ('e, 's) benchmark_t" where
  "memory_hot_mmu M = \<lparr>bm_name = ''Memory-Hot-MMU'', category = ''Memory'', kernel_init = Some (mmu_init M), kernel = hot_kernel M,
     kernel_cleanup = Some (mmu_cleanup M), kernel_control = Some (hot_kernel_control M),
     iteration_count = total_iterations M MEMORY_HOT_ITERATIONS, kernel_priv = 0\<rparr>"

text \<open>
  The pointer walks: a round uses the pointer, advances it, and takes it back to the start when it
  has reached the end.
\<close>

definition advance :: "'w::len word \<Rightarrow> 'w word \<Rightarrow> 'w word \<Rightarrow> 'w word \<Rightarrow> 'w word" where
  "advance start end' step ptr = (let ptr = ptr + step in if end' \<le> ptr then start else ptr)"

fun walk ::
  "nat \<Rightarrow> ('e, 's) routine \<Rightarrow> ('w::len word \<Rightarrow> 'w word) \<Rightarrow> ('w word \<Rightarrow> ('e, 's) routine) \<Rightarrow> 'w word \<Rightarrow> ('e, 's) routine" where
  "walk 0 turn next use ptr s = Inr s"
| "walk (Suc n) turn next use ptr s =
     bindE (turn s) (\<lambda>s. bindE (use ptr s) (walk n turn next use (next ptr)))"

definition walk_kernel ::
  "('e, 's, 'w::len word) machine \<Rightarrow> (bool \<Rightarrow> u64) \<Rightarrow> 'w word \<Rightarrow> 'w word \<Rightarrow> 'w word \<Rightarrow> ('w word \<Rightarrow> ('e, 's) routine) \<Rightarrow> ('e, 's) routine" where
  "walk_kernel M count start end' step use s =
     bindE (spinner_start M (count (fast M)) s)
       (walk (unat (total_iterations M count)) (spinner_turn M) (advance start end' step) use start)"

definition cold_kernel :: "('e, 's, 'w::len word) machine \<Rightarrow> ('e, 's) routine" where
  "cold_kernel M = walk_kernel M MEMORY_COLD_ITERATIONS (op_phys_start M) (op_phys_end M) 4096
     (\<lambda>ptr s. discard (load8 M ptr s))"

definition cold_kernel_control :: "('e, 's, 'w::len word) machine \<Rightarrow> ('e, 's) routine" where
  "cold_kernel_control M = walk_kernel M MEMORY_COLD_ITERATIONS (op_phys_start M) (op_phys_end M) 4096 (\<lambda>ptr. Inr)"

text \<open>Identity mapping of a range, page by page, while the start is below the end.\<close>

partial_function (option) map_range ::
  "('w::len word \<Rightarrow> 'w word \<Rightarrow> ('e, 's) routine) \<Rightarrow> 'w word \<Rightarrow> 'w word \<Rightarrow> 'w word \<Rightarrow> 's \<Rightarrow> ('e + 's) option" where
  "map_range f step end' ptr s =
     (if ptr < end'
      then case f ptr ptr s of Inl e \<Rightarrow> Some (Inl e) | Inr s \<Rightarrow> map_range f step end' (ptr + step) s
      else Some (Inr s))"

definition cold_mmu_init :: "('e, 's, 'w::len word) machine \<Rightarrow> ('e, 's) routine" where
  "cold_mmu_init M s =
     bindE (op_mem_init M s) (\<lambda>s.
     bindE (ends M (map_range (op_map_data M) (op_page_size M) (op_phys_end M) (op_phys_start M) s)) (\<lambda>s.
     bindE (op_mmu_enable M s) (op_flush M)))"

definition memory_cold_nommu :: "('e, 's, 'w::len word) machine \<Rightarrow> ('e, 's) benchmark_t" where
  "memory_cold_nommu M = \<lparr>bm_name = ''Memory-Cold-NoMMU'', category = ''Memory'', kernel_init = None, kernel = cold_kernel M,
     kernel_cleanup = None, kernel_control = Some (cold_kernel_control M),
     iteration_count = total_iterations M MEMORY_COLD_ITERATIONS, kernel_priv = 0\<rparr>"

definition memory_cold_mmu :: "('e, 's, 'w::len word) machine \<Rightarrow> ('e, 's) benchmark_t" where
  "memory_cold_mmu M = \<lparr>bm_name = ''Memory-Cold-MMU'', category = ''Memory'', kernel_init = Some (cold_mmu_init M), kernel = cold_kernel M,
     kernel_cleanup = Some (mmu_cleanup M), kernel_control = Some (cold_kernel_control M),
     iteration_count = total_iterations M MEMORY_COLD_ITERATIONS, kernel_priv = 0\<rparr>"

text \<open>
  The TLB benchmarks map the same range and remember where the virtual range ends: the pointers ptr
  and vptr start equal and advance together.
\<close>

partial_function (option) map_pair ::
  "('w::len word \<Rightarrow> 'w word \<Rightarrow> ('e, 's) routine) \<Rightarrow> 'w word \<Rightarrow> 'w word \<Rightarrow> 'w word \<Rightarrow> 'w word \<Rightarrow> 's \<Rightarrow> ('e + 'w word \<times> 's) option" where
  "map_pair f step end' ptr vptr s =
     (if ptr < end'
      then case f ptr vptr s of Inl e \<Rightarrow> Some (Inl e) | Inr s \<Rightarrow> map_pair f step end' (ptr + step) (vptr + step) s
      else Some (Inr (vptr, s)))"

definition map_phys :: "('e, 's, 'w::len word) machine \<Rightarrow> 's \<Rightarrow> 'e + 'w word \<times> 's" where
  "map_phys M s =
     (case map_pair (op_map_data M) (op_page_size M) (op_phys_end M) (op_phys_start M) (op_phys_start M) s of
        None \<Rightarrow> Inl (hang M) | Some r \<Rightarrow> r)"

definition flush_mmu_init :: "('e, 's, 'w::len word) machine \<Rightarrow> ('e, 's) routine" where
  "flush_mmu_init M s =
     bindE (op_mem_init M s) (\<lambda>s.
     let s = put_statics M ((statics_of M s)\<lparr>flush_start := op_phys_start M\<rparr>) s in
     bindE (map_phys M s) (\<lambda>(vptr, s).
     let s = put_statics M ((statics_of M s)\<lparr>flush_end := vptr\<rparr>) s in
     bindE (op_mmu_enable M s) (op_flush M)))"

definition flush_kernel :: "('e, 's, 'w::len word) machine \<Rightarrow> ('e, 's) routine" where
  "flush_kernel M s =
     walk_kernel M MEMORY_TLBFLUSH_ITERATIONS (flush_start (statics_of M s)) (flush_end (statics_of M s)) (op_page_size M)
       (\<lambda>ptr s. bindE (store32 M ptr 0x12345678 s) (op_flush M)) s"

definition tlb_flush :: "('e, 's, 'w::len word) machine \<Rightarrow> ('e, 's) benchmark_t" where
  "tlb_flush M = \<lparr>bm_name = ''TLB-Flush'', category = ''Memory'', kernel_init = Some (flush_mmu_init M), kernel = flush_kernel M,
     kernel_cleanup = Some (mmu_cleanup M), kernel_control = None,
     iteration_count = total_iterations M MEMORY_TLBFLUSH_ITERATIONS, kernel_priv = 0\<rparr>"

definition evict_mmu_init :: "('e, 's, 'w::len word) machine \<Rightarrow> ('e, 's) routine" where
  "evict_mmu_init M s =
     bindE (op_mem_init M s) (\<lambda>s.
     let s = put_statics M ((statics_of M s)\<lparr>evict_start := op_phys_start M\<rparr>) s in
     bindE (map_phys M s) (\<lambda>(vptr, s).
     let s = put_statics M ((statics_of M s)\<lparr>evict_end := vptr\<rparr>) s in
     bindE (op_mmu_enable M s) (op_flush M)))"

definition evict_kernel :: "('e, 's, 'w::len word) machine \<Rightarrow> ('e, 's) routine" where
  "evict_kernel M s =
     walk_kernel M MEMORY_TLBEVICT_ITERATIONS (evict_start (statics_of M s)) (evict_end (statics_of M s)) (op_page_size M)
       (\<lambda>ptr s. bindE (store32 M ptr 0x12345678 s) (op_evict M ptr)) s"

definition tlb_evict :: "('e, 's, 'w::len word) machine \<Rightarrow> ('e, 's) benchmark_t" where
  "tlb_evict M = \<lparr>bm_name = ''TLB-Evict'', category = ''Memory'', kernel_init = Some (evict_mmu_init M), kernel = evict_kernel M,
     kernel_cleanup = Some (mmu_cleanup M), kernel_control = None,
     iteration_count = total_iterations M MEMORY_TLBEVICT_ITERATIONS, kernel_priv = 0\<rparr>"

definition nonpriv_kernel :: "('e, 's, 'a) machine \<Rightarrow> ('e, 's) routine" where
  "nonpriv_kernel M = kernel_loop M MEMORY_NONPRIV_ITERATIONS (op_nonpriv_read M (sym_nonpriv_value M))"

definition nonpriv_mmu_init :: "('e, 's, 'a) machine \<Rightarrow> ('e, 's) routine" where
  "nonpriv_mmu_init M s =
     bindE (op_mem_init M s) (\<lambda>s.
     bindE (op_map_data M (sym_nonpriv_value M) (sym_nonpriv_value M) s) (\<lambda>s.
     bindE (op_mmu_enable M s) (op_flush M)))"

definition memory_nonpriv :: "('e, 's, 'a) machine \<Rightarrow> ('e, 's) benchmark_t" where
  "memory_nonpriv M = \<lparr>bm_name = ''Memory-NonPriv'', category = ''Memory'', kernel_init = Some (nonpriv_mmu_init M), kernel = nonpriv_kernel M,
     kernel_cleanup = Some (mmu_cleanup M), kernel_control = None,
     iteration_count = total_iterations M MEMORY_NONPRIV_ITERATIONS, kernel_priv = 1\<rparr>"

text \<open>The linker section .benchmarks, in the order of the Makefile's object list.\<close>

definition suite :: "('e, 's, 'w::len word) machine \<Rightarrow> ('e, 's) benchmark_t list" where
  "suite M = [undef M, interrupt M, syscall M, dfault M, ifault M, small_blocks M, large_blocks M,
     intra_page_indirect M, inter_page_indirect M, intra_page_direct M, inter_page_direct M,
     tlb_flush M, tlb_evict M, memory_hot_nommu M, memory_hot_mmu M, memory_cold_nommu M, memory_cold_mmu M, memory_nonpriv M,
     device_access M, coprocessor_access M]"

section \<open>A machine that records\<close>

text \<open>
  Every operation of this machine appends an event, loads return 0, and an interrupt is taken, by
  running the handler, at the first poll.
\<close>

datatype 'a event =
    Spinner_start u64 | Spinner_turn | Mem_init | Mem_reset | Mmu_enable | Mmu_disable | Tlb_flush | Tlb_evict 'a
  | Map_data 'a 'a | Install string | Irq_enable | Irq_disable | Syscall | Undefined | Coprocessor | Nonpriv_read 'a
  | Code_flush 'a | Trigger | Clear | Load8 'a | Store8 'a u8 | Load32 'a | Store32 'a u32 | Jump 'a | Call nat

record 'a recording =
  events :: "'a event list"
  memory_of :: "'a statics"

definition note_event :: "'a event \<Rightarrow> (unit, 'a recording) routine" where
  "note_event e s = Inr (s\<lparr>events := events s @ [e]\<rparr>)"

definition recorder :: "bool \<Rightarrow> 'w::len word \<Rightarrow> 'w word \<Rightarrow> 'w word \<Rightarrow> (unit, 'w word recording, 'w word) machine" where
  "recorder quick page lo hi =
     \<lparr>fast = quick, hang = (), statics_of = memory_of, put_statics = (\<lambda>st s. s\<lparr>memory_of := st\<rparr>),
      spinner_start = (\<lambda>n. note_event (Spinner_start n)), spinner_turn = note_event Spinner_turn,
      op_mem_init = note_event Mem_init, op_mem_reset = note_event Mem_reset,
      op_mmu_enable = note_event Mmu_enable, op_mmu_disable = note_event Mmu_disable,
      op_flush = note_event Tlb_flush, op_evict = (\<lambda>a. note_event (Tlb_evict a)),
      op_map_data = (\<lambda>pa va. note_event (Map_data pa va)), op_page_size = page, op_phys_start = lo, op_phys_end = hi,
      op_ifault_return = note_event (Install ''ifault''), op_dfault_skip = note_event (Install ''dfault''),
      op_syscall_skip = note_event (Install ''syscall''), op_undef_skip = note_event (Install ''undef''),
      op_irq_handler = (\<lambda>h. note_event (Install ''irq'')), op_irq_enable = note_event Irq_enable,
      op_irq_disable = note_event Irq_disable, op_syscall = note_event Syscall, op_undefined = note_event Undefined,
      op_coprocessor = note_event Coprocessor, op_nonpriv_read = (\<lambda>a. note_event (Nonpriv_read a)),
      op_code_flush = (\<lambda>a. note_event (Code_flush a)), op_trigger_swi = note_event Trigger, op_clear_swi = note_event Clear,
      op_null_devptr = 0x10, op_null_devval = (\<lambda>s. (0xff, s)),
      load8 = (\<lambda>a s. bindE (note_event (Load8 a) s) (\<lambda>s. Inr (0, s))), store8 = (\<lambda>a v. note_event (Store8 a v)),
      load32 = (\<lambda>a s. bindE (note_event (Load32 a) s) (\<lambda>s. Inr (0, s))), store32 = (\<lambda>a v. note_event (Store32 a v)),
      jump_to = (\<lambda>a. note_event (Jump a)), call_fn = (\<lambda>n. note_event (Call n)), poll_irq = (\<lambda>h. h),
      sym_hot_value = 0x20, sym_nonpriv_value = 0x30, sym_block = 0x40, sym_small_fn = word_of_nat\<rparr>"

subsection \<open>Counting\<close>

definition counted :: "('a event \<Rightarrow> bool) \<Rightarrow> 'a recording \<Rightarrow> nat" where
  "counted P s = length (filter P (events s))"

text \<open>A routine that always returns and adds k events of a kind.\<close>

definition adds :: "('a event \<Rightarrow> bool) \<Rightarrow> nat \<Rightarrow> (unit, 'a recording) routine \<Rightarrow> bool" where
  "adds P k f \<longleftrightarrow> (\<forall>s. \<exists>s'. f s = Inr s' \<and> counted P s' = counted P s + k)"

lemma counted_statics [simp]: "counted P (s\<lparr>memory_of := st\<rparr>) = counted P s"
  by (simp add: counted_def)

lemma adds_event: "adds P (if P e then 1 else 0) (note_event e)"
  by (simp add: adds_def note_event_def counted_def)

lemma adds_none: "adds P 0 Inr"
  by (simp add: adds_def)

lemma adds_seq: "adds P k f \<Longrightarrow> adds P l g \<Longrightarrow> adds P (k + l) (\<lambda>s. bindE (f s) g)"
  by (auto simp: adds_def) (metis add.assoc bindE_simps(2))

lemma adds_then: "adds P k (\<lambda>s. bindE (f s) Inr) \<Longrightarrow> adds P k f"
  by (auto simp: adds_def bindE_eq_Inr)

lemma adds_repeat: "adds P k f \<Longrightarrow> adds P (n * k) (repeat n f)"
proof (induction n)
  case (Suc n)
  have "repeat (Suc n) f = (\<lambda>s. bindE (f s) (repeat n f))" by (simp add: fun_eq_iff)
  then show ?case using adds_seq [OF Suc.prems Suc.IH [OF Suc.prems]] by simp
qed (auto simp: adds_def)

lemma adds_walk:
  assumes "adds P k turn" "\<And>ptr. adds P l (use ptr)"
  shows "adds P (n * (k + l)) (walk n turn next use ptr)"
proof (induction n arbitrary: ptr)
  case (Suc n)
  have "walk (Suc n) turn next use ptr = (\<lambda>s. bindE (turn s) (\<lambda>s. bindE (use ptr s) (walk n turn next use (next ptr))))"
    by (simp add: fun_eq_iff)
  then show ?case using adds_seq [OF assms(1) adds_seq [OF assms(2) Suc.IH]] by (simp add: algebra_simps)
qed (auto simp: adds_def)

lemma recorder_events:
  "spinner_start (recorder q p lo hi) = (\<lambda>n. note_event (Spinner_start n))" "spinner_turn (recorder q p lo hi) = note_event Spinner_turn"
  by (simp_all add: recorder_def)

lemma adds_kernel_loop:
  assumes "adds P k f" "\<And>n. \<not> P (Spinner_start n)" "\<not> P Spinner_turn"
  shows "adds P (unat (total_iterations (recorder q p lo hi) count) * k) (kernel_loop (recorder q p lo hi) count f)"
proof -
  have t: "adds P 0 (note_event Spinner_turn)" "\<And>n. adds P 0 (note_event (Spinner_start n))"
    using adds_event [of P Spinner_turn] adds_event [of P "Spinner_start n" for n] assms(2,3) by simp_all
  have "kernel_loop (recorder q p lo hi) count f = (\<lambda>s. bindE (note_event (Spinner_start (count (fast (recorder q p lo hi)))) s)
    (repeat (unat (total_iterations (recorder q p lo hi) count)) (\<lambda>s. bindE (note_event Spinner_turn s) f)))"
    by (simp add: kernel_loop_def recorder_events fun_eq_iff)
  then show ?thesis using adds_seq [OF t(2) adds_repeat [OF adds_seq [OF t(1) assms(1)]]] by simp
qed

lemma adds_walk_kernel:
  assumes "\<And>ptr. adds P k (use ptr)" "\<And>n. \<not> P (Spinner_start n)" "\<not> P Spinner_turn"
  shows "adds P (unat (total_iterations (recorder q p lo hi) count) * k) (walk_kernel (recorder q p lo hi) count a b c use)"
proof -
  have t: "adds P 0 (note_event Spinner_turn)" "\<And>n. adds P 0 (note_event (Spinner_start n))"
    using adds_event [of P Spinner_turn] adds_event [of P "Spinner_start n" for n] assms(2,3) by simp_all
  have "walk_kernel (recorder q p lo hi) count a b c use = (\<lambda>s. bindE (note_event (Spinner_start (count (fast (recorder q p lo hi)))) s)
    (walk (unat (total_iterations (recorder q p lo hi) count)) (note_event Spinner_turn) (advance a b c) use a))"
    by (simp add: walk_kernel_def recorder_events fun_eq_iff)
  then show ?thesis using adds_seq [OF t(2) adds_walk [OF t(1) assms(1)]] by simp
qed

lemmas kernel_defs = undef_kernel_def swi_kernel_def syscall_kernel_def dfault_kernel_def ifault_kernel_def sb_kernel_def
  lb_kernel_def spi_kernel_def ipi_kernel_def spd_kernel_def ipd_kernel_def hot_kernel_def
  cold_kernel_def nonpriv_kernel_def coprocessor_kernel_def

text \<open>What each benchmark of the suite measures, and how often a round does it.\<close>

definition measured :: "('w::len word event \<Rightarrow> bool) list" where
  "measured = [(=) Undefined, (=) Trigger, (=) Syscall, (=) (Load32 0xc0000000), (=) (Jump 0xc0000000),
     (\<lambda>e. \<exists>n. e = Call n), (=) (Store8 0x40 0), (\<lambda>e. \<exists>n. e = Call n), (\<lambda>e. \<exists>n. e = Call n), (\<lambda>e. \<exists>n. e = Call n),
     (\<lambda>e. \<exists>n. e = Call n), (=) Tlb_flush, (\<lambda>e. \<exists>a. e = Tlb_evict a), (=) (Store32 0x20 0), (=) (Store32 0x20 0),
     (\<lambda>e. \<exists>a. e = Load8 a), (\<lambda>e. \<exists>a. e = Load8 a), (=) (Nonpriv_read 0x30), (=) (Store32 0x10 0xff), (=) Coprocessor]"

definition per_round :: "nat list" where
  "per_round = [1, 1, 1, 1, 1, 30, 1, 1000, 1000, 11, 11, 1, 1, 10, 10, 1, 1, 1, 1, 1]"

definition performs :: "('w::len word event \<Rightarrow> bool) \<Rightarrow> nat \<Rightarrow> (unit, 'w word recording) benchmark_t \<Rightarrow> bool" where
  "performs P k bm \<longleftrightarrow> adds P (unat (iteration_count bm) * k) (kernel bm)"

abbreviation is_call :: "'a event \<Rightarrow> bool" where "is_call e \<equiv> \<exists>n. e = Call n"

lemma adds_call: "adds is_call 1 (note_event (Call n))"
  using adds_event [of is_call "Call n"] by simp

lemma recorder_calls: "call_fn (recorder q p lo hi) n = note_event (Call n)"
  by (simp add: recorder_def)

lemma adds_ipd: "adds is_call (Suc n) (ipd_fn (recorder q p lo hi) n)"
proof (induction n)
  case (Suc n)
  have "ipd_fn (recorder q p lo hi) (Suc n) = (\<lambda>s. bindE (note_event (Call (Suc n)) s) (ipd_fn (recorder q p lo hi) n))"
    by (simp add: recorder_calls fun_eq_iff)
  then show ?case using adds_seq [OF adds_call Suc] by simp
next
  case 0
  have "ipd_fn (recorder q p lo hi) 0 = note_event (Call 0)" by (simp add: recorder_calls fun_eq_iff)
  then show ?case using adds_call by simp
qed

lemma adds_spd: "adds is_call (Suc n) (spd_fn (recorder q p lo hi) (Suc n))"
proof (induction n)
  case (Suc n)
  have "spd_fn (recorder q p lo hi) (Suc (Suc n)) = (\<lambda>s. bindE (note_event (Call (Suc (Suc n))) s) (spd_fn (recorder q p lo hi) (Suc n)))"
    by (rule ext, subst spd_fn.simps) (simp add: recorder_calls)
  then show ?case using adds_seq [OF adds_call Suc] by simp
next
  case 0
  have "spd_fn (recorder q p lo hi) (Suc 0) = note_event (Call (Suc 0))"
    by (rule ext, subst spd_fn.simps) (simp add: recorder_calls)
  then show ?case using adds_call by simp
qed

lemma adds_dispatch: "adds is_call n (dispatch (recorder q p lo hi) n)"
proof (induction n)
  case (Suc n)
  have "dispatch (recorder q p lo hi) (Suc n) =
    (\<lambda>s. bindE (note_event (Call (fn_table ! (n mod FN_TABLE_SIZE))) s) (dispatch (recorder q p lo hi) n))"
    by (simp add: recorder_calls fun_eq_iff)
  then show ?case using adds_seq [OF adds_call Suc] by simp
qed (auto simp: adds_def)

lemma adds_small_fn: "x \<le> 30 \<Longrightarrow> adds is_call (31 - x) (small_fn (recorder q p lo hi) x)"
proof (induction "30 - x" arbitrary: x)
  case 0
  then have "small_fn (recorder q p lo hi) x = note_event (Call x)"
    by (intro ext, subst small_fn.simps) (simp add: recorder_calls)
  then show ?case using adds_call 0 by simp
next
  case (Suc n)
  then have x: "x < 30" "small_fn_table ! x = Suc x" by (simp_all add: small_fn_table_def)
  then have "small_fn (recorder q p lo hi) x = (\<lambda>s. bindE (note_event (Call x) s) (small_fn (recorder q p lo hi) (Suc x)))"
    by (intro ext, subst small_fn.simps) (simp add: recorder_calls)
  moreover have "adds is_call (31 - Suc x) (small_fn (recorder q p lo hi) (Suc x))"
    using Suc.hyps(1) [of "Suc x"] Suc.hyps(2) x(1) by simp
  moreover have "1 + (31 - Suc x) = 31 - x" using x by simp
  ultimately show ?case using adds_seq [OF adds_call, of "31 - Suc x"] by metis
qed

lemma adds_dirty_all:
  assumes "\<And>a. \<not> P (Load8 a)" "\<And>a v. \<not> P (Store8 a v)" "\<And>a. \<not> P (Code_flush a)"
  shows "adds P 0 (dirty_all (recorder q p lo hi) w fns)"
proof (induction fns)
  case (Cons fn fns)
  have "adds P 0 (dirty (recorder q p lo hi) w a)" for a
    using assms by (auto simp: adds_def dirty_def recorder_def note_event_def counted_def)
  then show ?case using adds_seq [OF _ Cons, of 0] by (simp add: adds_def)
qed (simp add: adds_def)

lemma wait_flag_now: "flag s \<Longrightarrow> wait_flag flag turn s = Some (Inr s)"
  by (subst wait_flag.simps) simp

lemma wait_flag_turn: "\<not> flag s \<Longrightarrow> turn s = Inr s' \<Longrightarrow> wait_flag flag turn s = wait_flag flag turn s'"
  by (subst wait_flag.simps) simp

lemma swi_round:
  assumes M_def: "M = recorder q p lo hi"
  shows "adds ((=) Trigger) 1 (\<lambda>s. bindE (op_trigger_swi M (set_flag M 0 s)) (\<lambda>s.
     ends M (wait_flag (\<lambda>s. swi_flag (statics_of M s) \<noteq> 0) (poll_irq M (swi_irq_handler M)) s)))"
proof -
  let ?flag = "\<lambda>s. swi_flag (statics_of M s) \<noteq> 0" and ?turn = "poll_irq M (swi_irq_handler M)"
  have t: "op_trigger_swi M (set_flag M 0 s) = Inr (s\<lparr>memory_of := (memory_of s)\<lparr>swi_flag := 0\<rparr>, events := events s @ [Trigger]\<rparr>)" for s
    by (simp add: M_def recorder_def set_flag_def note_event_def)
  have w: "wait_flag ?flag ?turn s = Some (Inr (s\<lparr>memory_of := (memory_of s)\<lparr>swi_flag := 1\<rparr>, events := events s @ [Clear]\<rparr>))"
    if "swi_flag (memory_of s) = 0" for s
    using that by (subst wait_flag_turn, simp add: M_def recorder_def,
        simp add: M_def recorder_def swi_irq_handler_def set_flag_def note_event_def)
      (rule wait_flag_now, simp add: M_def recorder_def)
  show ?thesis unfolding t by (simp add: adds_def w ends_def counted_def)
qed

lemma adds_at: "(\<And>s. adds P k (f s)) \<Longrightarrow> adds P k (\<lambda>s. f s s)"
  by (simp add: adds_def)

lemma device_adds: "adds ((=) (Store32 0x10 0xff)) (unat (total_iterations (recorder q p lo hi) IO_DEVICE_ITERATIONS))
    (device_kernel (recorder q p lo hi))"
proof -
  have "device_kernel (recorder q p lo hi) = (\<lambda>s. bindE (note_event (Spinner_start (IO_DEVICE_ITERATIONS q)) s)
    (repeat (unat (total_iterations (recorder q p lo hi) IO_DEVICE_ITERATIONS)) (note_event (Store32 0x10 0xff))))"
    by (simp add: device_kernel_def recorder_def fun_eq_iff)
  then show ?thesis
    using adds_seq [OF adds_event adds_repeat [OF adds_event], of "(=) (Store32 0x10 0xff)" "Spinner_start (IO_DEVICE_ITERATIONS q)"
      "unat (total_iterations (recorder q p lo hi) IO_DEVICE_ITERATIONS)" "Store32 0x10 0xff"] by simp
qed

text \<open>
  C16: every benchmark of the suite does what it reports: its kernel returns and performs the
  measured operation exactly the reported iteration count times, times the operations of a round
  (thirty calls of the small functions, a thousand indirect and eleven direct calls, ten writes of
  the hot value).
\<close>

theorem kernels_perform_their_count:
  "list_all2 (\<lambda>(P, k) bm. performs P k bm) (zip measured per_round) (suite (recorder quick page lo hi))"
proof -
  let ?M = "recorder quick page lo hi"
  note L = adds_kernel_loop [of _ _ _ quick page lo hi] and W = adds_walk_kernel [of _ _ _ quick page lo hi]
  have one: "adds ((=) e) 1 (note_event e)" for e :: "'a word event" using adds_event [of "(=) e" e] by simp
  have simple: "adds ((=) Undefined) 1 (op_undefined ?M)" "adds ((=) Syscall) 1 (op_syscall ?M)" "adds ((=) (Jump 0xc0000000)) 1 (jump_to ?M 0xc0000000)"
    "adds ((=) (Nonpriv_read 0x30)) 1 (op_nonpriv_read ?M (sym_nonpriv_value ?M))" "adds ((=) Coprocessor) 1 (op_coprocessor ?M)"
    using one by (simp_all add: recorder_def)
  have load: "adds ((=) (Load32 0xc0000000)) 1 (\<lambda>s. discard (load32 ?M 0xc0000000 s))"
    and walked: "\<And>ptr. adds (\<lambda>e. \<exists>a. e = Load8 a) 1 (\<lambda>s. discard (load8 ?M ptr s))"
    "\<And>ptr. adds ((=) Tlb_flush) 1 (\<lambda>s. bindE (store32 ?M ptr 0x12345678 s) (op_flush ?M))"
    "\<And>ptr. adds (\<lambda>e. \<exists>a. e = Tlb_evict a) 1 (\<lambda>s. bindE (store32 ?M ptr 0x12345678 s) (op_evict ?M ptr))"
    and lb: "adds ((=) (Store8 0x40 0)) 1 (\<lambda>s. dirty ?M True (sym_block ?M) (block ?M s))"
    and copy: "adds ((=) (Store32 0x20 0)) 1 (copy_value ?M)"
    by (simp_all add: adds_def recorder_def note_event_def counted_def discard_def dirty_def block_def copy_value_def
        Let_def split: prod.split)
  have flush: "adds ((=) Tlb_flush) (unat (total_iterations ?M MEMORY_TLBFLUSH_ITERATIONS)) (flush_kernel ?M)"
    and evict: "adds (\<lambda>e. \<exists>a. e = Tlb_evict a) (unat (total_iterations ?M MEMORY_TLBEVICT_ITERATIONS)) (evict_kernel ?M)"
    unfolding flush_kernel_def [abs_def] evict_kernel_def [abs_def]
    by (rule adds_at, use W [OF walked(2)] in simp) (rule adds_at, use W [OF walked(3)] in simp)
  have sb: "adds is_call 30 (\<lambda>s. bindE (small_fn ?M 1 s) (copy_code ?M))"
    using adds_seq [OF adds_small_fn [of 1 quick page lo hi] adds_dirty_all [of is_call quick page lo hi True small_fn_table]]
    by (simp add: copy_code_def)
  have ten: "adds ((=) (Store32 0x20 0)) 10 (repeat 10 (copy_value ?M))" using adds_repeat [OF copy, of 10] by simp
  show ?thesis
    unfolding suite_def measured_def per_round_def
    using L [OF simple(1)] L [OF swi_round [OF refl]] L [OF simple(2)] L [OF load] L [OF simple(3)] L [OF sb] L [OF lb] L [OF adds_dispatch]
      L [OF adds_spd [of 10 quick page lo hi]] L [OF adds_ipd [of 10 quick page lo hi]] flush evict L [OF ten] W [OF walked(1)] L [OF simple(4)]
      device_adds L [OF simple(5)]
    by (simp add: performs_def undef_def interrupt_def syscall_def dfault_def ifault_def small_blocks_def large_blocks_def
        intra_page_indirect_def inter_page_indirect_def intra_page_direct_def inter_page_direct_def tlb_flush_def tlb_evict_def
        memory_hot_nommu_def memory_hot_mmu_def memory_cold_nommu_def memory_cold_mmu_def memory_nonpriv_def device_access_def
        coprocessor_access_def kernel_defs)
qed

end
