(* ===== verification/Suite_On_Port.thy ===== *)
theory Suite_On_Port
  imports Benchmarks
begin

section \<open>What the benchmarks need of a port\<close>

text \<open>
  The benchmarks only use the interfaces of arch.h, mem.h and platform.h. The locale port states
  what these operations have to do, as the benchmarks use them; from it follows, once for all
  ports, that every benchmark of the suite runs to its end under the harness. A port whose model
  satisfies the laws interprets the locale.

  The states a benchmark goes through are named by predicates: idle between benchmarks (MMU off),
  tables p after mem_init with the pages of the physical range mapped up to p, on p the same with
  the MMU switched on, handles k with the handler of the exception k installed, inside between
  arch_priv_enter and arch_priv_leave. The locale interrupting_port adds what the interrupt benchmark needs, with two
  more states: armed with an interrupt handler installed and interrupts enabled, pending with the software
  interrupt raised.
\<close>

subsection \<open>Composing quiet routines\<close>

lemma keeps_Inr: "(\<And>s. P s \<Longrightarrow> Q s) \<Longrightarrow> keeps shown P Q C Inr"
  by (auto simp: keeps_def)

lemma keeps_mono:
  "keeps shown P Q {} f \<Longrightarrow> (\<And>s. P' s \<Longrightarrow> P s) \<Longrightarrow> (\<And>s. Q s \<Longrightarrow> Q' s) \<Longrightarrow> keeps shown P' Q' C f"
  unfolding keeps_def by fastforce

lemma keeps_bind:
  assumes "keeps shown P Q {} f" "keeps shown Q R {} g"
  shows "keeps shown P R {} (\<lambda>s. bindE (f s) g)"
  unfolding keeps_def
proof (intro allI impI)
  fix s
  assume "P s"
  then obtain s1 where 1: "f s = Inr s1" "Q s1" "shown s1 = shown s" using assms(1) unfolding keeps_def by fastforce
  then obtain s2 where "g s1 = Inr s2" "R s2" "shown s2 = shown s1" using assms(2) unfolding keeps_def by fastforce
  then show "\<exists>s' t. bindE (f s) g = Inr s' \<and> R s' \<and> shown s' = shown s @ t \<and> set t \<subseteq> {}" using 1 by simp
qed

lemma keeps_repeat: "keeps shown P P {} f \<Longrightarrow> keeps shown P P {} (repeat n f)"
proof (induction n)
  case (Suc n)
  then show ?case using keeps_bind [of shown P P f P "repeat n f"] by simp
qed (simp add: keeps_def)

lemma keeps_walk:
  assumes "turn = Inr" "\<And>p. J p \<Longrightarrow> J (next' p)" "\<And>p. J p \<Longrightarrow> keeps shown P P {} (use p)"
  shows "J p \<Longrightarrow> keeps shown P P {} (walk n turn next' use p)"
proof (induction n arbitrary: p)
  case (Suc n)
  have "keeps shown P P {} (\<lambda>s. bindE (use p s) (walk n turn next' use (next' p)))"
    using Suc assms(2,3) by (intro keeps_bind) auto
  then show ?case by (simp add: assms(1) keeps_def)
qed (simp add: keeps_def)

text \<open>A routine that leaves the static variables of the benchmarks alone, too.\<close>

definition with_statics :: "('e, 's, 'a) machine \<Rightarrow> 'a statics \<Rightarrow> ('s \<Rightarrow> bool) \<Rightarrow> 's \<Rightarrow> bool" where
  "with_statics M st P s \<longleftrightarrow> P s \<and> statics_of M s = st"

lemma keeps_statics:
  assumes "\<And>st. keeps shown (with_statics M st P) (with_statics M st Q) {} f"
  shows "keeps shown (\<lambda>s. P s \<and> F (statics_of M s)) (\<lambda>s. Q s \<and> F (statics_of M s)) {} f"
    and "keeps shown P Q {} f"
  using assms unfolding keeps_def with_statics_def by metis+

section \<open>The laws\<close>

datatype trap = Bad_data | Bad_fetch | Bad_instruction | System_call

fun install_handler :: "('e, 's, 'a) machine \<Rightarrow> trap \<Rightarrow> ('e, 's) routine" where
  "install_handler M Bad_data = op_dfault_skip M"
| "install_handler M Bad_fetch = op_ifault_return M"
| "install_handler M Bad_instruction = op_undef_skip M"
| "install_handler M System_call = op_syscall_skip M"

fun raise_trap :: "('e, 's, 'w::len word) machine \<Rightarrow> trap \<Rightarrow> ('e, 's) routine" where
  "raise_trap M Bad_data = (\<lambda>s. discard (load32 M 0xc0000000 s))"
| "raise_trap M Bad_fetch = jump_to M 0xc0000000"
| "raise_trap M Bad_instruction = op_undefined M"
| "raise_trap M System_call = op_syscall M"

definition code_heads :: "('e, 's, 'a) machine \<Rightarrow> 'a set" where
  "code_heads M = insert (sym_block M) (sym_small_fn M ` {1..30})"

text \<open>The pages of the physical range, and its addresses.\<close>

definition phys_page :: "('e, 's, 'w::len word) machine \<Rightarrow> 'w word \<Rightarrow> bool" where
  "phys_page M p \<longleftrightarrow> op_phys_start M \<le> p \<and> p < op_phys_end M \<and> unat (op_page_size M) dvd unat p - unat (op_phys_start M)"

definition phys_addr :: "('e, 's, 'w::len word) machine \<Rightarrow> 'w word \<Rightarrow> bool" where
  "phys_addr M p \<longleftrightarrow> op_phys_start M \<le> p \<and> p < op_phys_end M"

locale port = guarded_console putch shown good
  for putch :: "'s \<Rightarrow> char \<Rightarrow> 's" and shown :: "'s \<Rightarrow> string" and good :: "'s \<Rightarrow> bool" +
  fixes M :: "('e, 's, 'w::len word) machine" and env :: "('e, 's) harness_env"
    and idle :: "'s \<Rightarrow> bool" and tables on :: "'w word \<Rightarrow> 's \<Rightarrow> bool"
    and handles :: "trap \<Rightarrow> 's \<Rightarrow> bool" and inside :: "'s \<Rightarrow> bool"
  assumes states_good: "idle s \<Longrightarrow> good s" "on p s \<Longrightarrow> good s"
    and states_putch: "idle s \<Longrightarrow> idle (putch s c)" "on p s \<Longrightarrow> on p (putch s c)"
      "handles k s \<Longrightarrow> handles k (putch s c)" "statics_of M (putch s c) = statics_of M s"
    and statics_put: "statics_of M (put_statics M st s) = st" "shown (put_statics M st s) = shown s"
      "idle s \<Longrightarrow> idle (put_statics M st s)" "tables p s \<Longrightarrow> tables p (put_statics M st s)"
    and spinner: "spinner_start M n = Inr" "spinner_turn M = Inr"
    and range: "op_page_size M \<noteq> 0" "op_phys_start M < op_phys_end M"
      "unat (op_phys_end M) + unat (op_page_size M) < 2 ^ LENGTH('w)" "unat (op_phys_end M) + 4096 < 2 ^ LENGTH('w)"
      "unat (op_page_size M) dvd unat (op_phys_end M) - unat (op_phys_start M)"
    and mem_init: "keeps shown idle (tables (op_phys_start M)) {} (op_mem_init M)"
    and map_page: "phys_page M p \<Longrightarrow>
      keeps shown (with_statics M st (tables p)) (with_statics M st (tables (p + op_page_size M))) {} (op_map_data M p p)"
    and map_value: "keeps shown (tables (op_phys_start M)) (tables (op_phys_start M)) {}
      (op_map_data M (sym_nonpriv_value M) (sym_nonpriv_value M))"
    and enable: "keeps shown (with_statics M st (tables p)) (with_statics M st (on p)) {} (op_mmu_enable M)"
    and flush: "keeps shown (with_statics M st (on p)) (with_statics M st (on p)) {} (op_flush M)"
      "keeps shown idle idle {} (op_flush M)"
    and evict: "keeps shown (with_statics M st (on p)) (with_statics M st (on p)) {} (op_evict M a)"
    and disable: "keeps shown (on p) idle {} (op_mmu_disable M)" "keeps shown idle idle {} (op_mem_reset M)"
    and install: "keeps shown (on (op_phys_start M)) (\<lambda>s. on (op_phys_start M) s \<and> handles k s) {} (install_handler M k)"
    and trap: "keeps shown (\<lambda>s. on (op_phys_start M) s \<and> handles k s) (\<lambda>s. on (op_phys_start M) s \<and> handles k s) {} (raise_trap M k)"
    and coprocessor: "keeps shown idle idle {} (op_coprocessor M)"
    and device: "keeps shown idle idle {} (\<lambda>s. Inr (snd (op_null_devval M s)))"
      "keeps shown idle idle {} (store32 M (op_null_devptr M) v)"
    and code: "keeps shown idle idle {} (call_fn M x)"
      "a \<in> code_heads M \<Longrightarrow> keeps shown idle idle {} (\<lambda>s. discard (load8 M a s))"
      "a \<in> code_heads M \<Longrightarrow> keeps shown idle idle {} (store8 M a b)"
      "a \<in> code_heads M \<Longrightarrow> keeps shown idle idle {} (op_code_flush M a)"
    and hot: "P \<in> {idle, on (op_phys_start M)} \<Longrightarrow> keeps shown P P {} (\<lambda>s. discard (load32 M (sym_hot_value M) s))"
      "P \<in> {idle, on (op_phys_start M)} \<Longrightarrow> keeps shown P P {} (store32 M (sym_hot_value M) v)"
    and phys: "phys_addr M p \<Longrightarrow> P \<in> {idle, on (op_phys_end M)} \<Longrightarrow> keeps shown P P {} (\<lambda>s. discard (load8 M p s))"
      "phys_addr M p \<Longrightarrow> keeps shown (with_statics M st (on (op_phys_end M))) (with_statics M st (on (op_phys_end M))) {} (store32 M p v)"
    and nonpriv: "keeps shown inside inside {} (op_nonpriv_read M (sym_nonpriv_value M))"
    and priv: "keeps shown (on (op_phys_start M)) inside {} (priv_enter env)"
      "keeps shown inside (on (op_phys_start M)) {} (priv_leave env)" "keeps shown idle idle {} (priv_leave env)"
begin

lemma loop:
  assumes "keeps shown P P {} f"
  shows "keeps shown P P C (kernel_loop M count f)"
proof -
  have "keeps shown P P {} (repeat n f)" for n using assms by (rule keeps_repeat)
  then have "keeps shown P P {} (kernel_loop M count f)" by (simp add: keeps_def kernel_loop_def spinner)
  then show ?thesis by (rule keeps_mono)
qed

lemma advance_phys:
  assumes "phys_addr M p" "unat (op_phys_end M) + unat step < 2 ^ LENGTH('w)"
  shows "phys_addr M (advance (op_phys_start M) (op_phys_end M) step p)"
proof -
  have "unat p + unat step < 2 ^ LENGTH('w)" using assms by (simp add: phys_addr_def word_less_nat_alt)
  then have "unat (p + step) = unat p + unat step" by (simp add: unat_word_ariths)
  then have "p \<le> p + step" by (simp add: word_le_nat_alt)
  then show ?thesis using assms(1) range(2) by (auto simp: phys_addr_def advance_def Let_def)
qed

lemma phys_start: "phys_addr M (op_phys_start M)"
  using range(2) by (simp add: phys_addr_def)

lemma walk_loop:
  assumes "\<And>p. phys_addr M p \<Longrightarrow> keeps shown P P {} (use p)" "unat (op_phys_end M) + unat step < 2 ^ LENGTH('w)"
  shows "keeps shown P P C (walk_kernel M count (op_phys_start M) (op_phys_end M) step use)"
proof -
  have "keeps shown P P {} (walk n (spinner_turn M) (advance (op_phys_start M) (op_phys_end M) step) use (op_phys_start M))" for n
    by (rule keeps_walk [where J = "phys_addr M"]) (use assms phys_start advance_phys spinner in auto)
  then have "keeps shown P P {} (walk_kernel M count (op_phys_start M) (op_phys_end M) step use)"
    by (simp add: keeps_def walk_kernel_def spinner)
  then show ?thesis by (rule keeps_mono)
qed

subsection \<open>Set-up and clean-up\<close>

lemmas quiet_enable = keeps_statics(2) [OF enable]
lemmas quiet_flush = keeps_statics(2) [OF flush(1)]

lemma mmu_init_on: "keeps shown idle (on (op_phys_start M)) {} (mmu_init M)"
proof -
  have "keeps shown idle (on (op_phys_start M)) {} (\<lambda>s. bindE (op_mem_init M s) (\<lambda>s. bindE (op_mmu_enable M s) (op_flush M)))"
    using mem_init quiet_enable quiet_flush by (intro keeps_bind)
  then show ?thesis by (simp add: keeps_def mmu_init_def)
qed

lemma mmu_cleanup_idle: "keeps shown (on p) idle {} (mmu_cleanup M)"
proof -
  have "keeps shown (on p) idle {} (\<lambda>s. bindE (op_mmu_disable M s) (\<lambda>s. bindE (op_flush M s) (op_mem_reset M)))"
    using disable flush(2) by (intro keeps_bind)
  then show ?thesis by (simp add: keeps_def mmu_cleanup_def)
qed

text \<open>What remains to be shown of a benchmark without privilege switches.\<close>

lemma moves:
  assumes "word_ok (category bm)" "word_ok (bm_name bm)" "\<And>s. ready s \<Longrightarrow> good s" "\<And>s c. ready s \<Longrightarrow> ready (putch s c)"
    and "keeps shown before ready {} (routine_of (kernel_init bm))" "keeps shown ready ready spinner_output (routine_of (kernel_control bm))"
    and "keeps shown ready ready spinner_output (kernel bm)" "keeps shown ready after {} (routine_of (kernel_cleanup bm))"
    and "kernel_priv bm = 0"
  shows "benchmark_moves putch shown good before after env bm"
  unfolding benchmark_moves_def level_ok_def using assms by (intro conjI exI [of _ ready]) auto

lemmas words = word_ok_def white_def nul_def

text \<open>Benchmarks without set-up and clean-up, and those that run with the MMU on.\<close>

lemma plain_runs:
  assumes "keeps shown idle idle spinner_output k" "\<And>f. c = Some f \<Longrightarrow> keeps shown idle idle spinner_output f"
    and "word_ok n" "word_ok cat" "i \<in> {None, Some Inr}"
  shows "benchmark_runs putch shown good idle env \<lparr>bm_name = n, category = cat, kernel_init = i, kernel = k,
     kernel_cleanup = None, kernel_control = c, iteration_count = it, kernel_priv = 0\<rparr>"
proof -
  have "keeps shown idle idle spinner_output (routine_of c)"
    using assms(2) by (cases c) (auto simp: routine_of_def intro: keeps_Inr)
  moreover have "keeps shown idle idle {} (routine_of i)"
    using assms(5) by (auto simp: routine_of_def intro: keeps_Inr)
  moreover have "keeps shown idle idle {} (routine_of None)" by (auto simp: routine_of_def intro: keeps_Inr)
  ultimately show ?thesis
    using assms(1,3,4) states_good(1) states_putch(1) unfolding benchmark_runs_def by (intro moves [of _ idle]) simp_all
qed

lemma mmu_runs:
  assumes "keeps shown idle ready {} f" "keeps shown ready ready spinner_output k"
    and "\<And>f. c = Some f \<Longrightarrow> keeps shown ready ready spinner_output f"
    and "\<And>s. ready s \<Longrightarrow> on p s" "\<And>s c. ready s \<Longrightarrow> ready (putch s c)" "word_ok n" "word_ok cat"
  shows "benchmark_runs putch shown good idle env \<lparr>bm_name = n, category = cat, kernel_init = Some f, kernel = k,
     kernel_cleanup = Some (mmu_cleanup M), kernel_control = c, iteration_count = it, kernel_priv = 0\<rparr>"
proof -
  have "keeps shown ready ready spinner_output (routine_of c)"
    using assms(3) by (cases c) (auto simp: routine_of_def intro: keeps_Inr)
  moreover have "keeps shown ready idle {} (mmu_cleanup M)"
    by (rule keeps_mono [OF mmu_cleanup_idle [of p]]) (auto dest: assms(4))
  ultimately show ?thesis
    using assms(1,2,5-7) states_good(2) [OF assms(4)] unfolding benchmark_runs_def by (intro moves [of _ ready]) (simp_all add: routine_of_def)
qed

subsection \<open>Mapping the physical range\<close>

lemma next_page:
  assumes "phys_page M p"
  shows "unat (p + op_page_size M) = unat p + unat (op_page_size M)"
    and "phys_page M (p + op_page_size M) \<or> p + op_page_size M = op_phys_end M"
proof -
  let ?g = "unat (op_page_size M)" and ?a = "unat (op_phys_start M)" and ?b = "unat (op_phys_end M)"
  have p: "?a \<le> unat p" "unat p < ?b" "?g dvd unat p - ?a"
    using assms by (simp_all add: phys_page_def word_le_nat_alt word_less_nat_alt)
  have le: "unat p + ?g < 2 ^ LENGTH('w)" using p range(3) by simp
  then show u: "unat (p + op_page_size M) = unat p + ?g" by (simp add: unat_word_ariths)
  have "?g dvd (?b - ?a) - (unat p - ?a)" using range(5) p(3) by (rule dvd_diff_nat)
  then have d: "?g dvd ?b - unat p" using p(1) by simp
  then have b: "unat p + ?g \<le> ?b" using p(2) by (auto dest: dvd_imp_le)
  show "phys_page M (p + op_page_size M) \<or> p + op_page_size M = op_phys_end M"
  proof (cases "unat p + ?g = ?b")
    case True
    then show ?thesis using u by (simp add: word_unat_eq_iff)
  next
    case False
    have "?g dvd (unat p - ?a) + ?g" using p(3) by simp
    moreover have "(unat p - ?a) + ?g = (unat p + ?g) - ?a" using p(1) by simp
    ultimately show ?thesis
      using False b p(1) u by (simp add: phys_page_def word_le_nat_alt word_less_nat_alt)
  qed
qed

lemma maps_all:
  assumes "phys_page M p \<or> p = op_phys_end M" "with_statics M st (tables p) s"
  shows "\<exists>s'. with_statics M st (tables (op_phys_end M)) s' \<and> shown s' = shown s \<and>
    map_range (op_map_data M) (op_page_size M) (op_phys_end M) p s = Some (Inr s') \<and>
    map_pair (op_map_data M) (op_page_size M) (op_phys_end M) p p s = Some (Inr (op_phys_end M, s'))"
  using assms
proof (induction "unat (op_phys_end M) - unat p" arbitrary: p s rule: less_induct)
  case less
  show ?case
  proof (cases "p = op_phys_end M")
    case True
    then show ?thesis using less.prems(2) by (subst map_range.simps, subst map_pair.simps) auto
  next
    case False
    then have p: "phys_page M p" using less.prems(1) by simp
    have lt: "p < op_phys_end M" using p by (simp add: phys_page_def)
    obtain s1 where 1: "op_map_data M p p s = Inr s1" "with_statics M st (tables (p + op_page_size M)) s1" "shown s1 = shown s"
      using map_page [OF p, of st] less.prems(2) unfolding keeps_def by fastforce
    have "0 < unat (op_page_size M)" using range(1) by (simp add: unat_gt_0)
    then have "unat (op_phys_end M) - unat (p + op_page_size M) < unat (op_phys_end M) - unat p"
      using next_page(1) [OF p] lt by (simp add: word_less_nat_alt)
    from less.hyps [OF this next_page(2) [OF p] 1(2)]
    obtain s' where s': "with_statics M st (tables (op_phys_end M)) s'" "shown s' = shown s1"
      "map_range (op_map_data M) (op_page_size M) (op_phys_end M) (p + op_page_size M) s1 = Some (Inr s')"
      "map_pair (op_map_data M) (op_page_size M) (op_phys_end M) (p + op_page_size M) (p + op_page_size M) s1 =
        Some (Inr (op_phys_end M, s'))" by blast
    show ?thesis
      by (rule exI [of _ s'], subst map_range.simps, subst map_pair.simps) (simp add: lt 1 s')
  qed
qed

lemma phys_page_start: "phys_page M (op_phys_start M)"
  using range(2) by (simp add: phys_page_def)

lemma cold_init_on: "keeps shown idle (on (op_phys_end M)) {} (cold_mmu_init M)"
proof -
  let ?m = "\<lambda>s. ends M (map_range (op_map_data M) (op_page_size M) (op_phys_end M) (op_phys_start M) s)"
  have "keeps shown (tables (op_phys_start M)) (tables (op_phys_end M)) {} ?m"
    unfolding keeps_def
  proof (intro allI impI)
    fix s
    assume "tables (op_phys_start M) s"
    then have w: "with_statics M (statics_of M s) (tables (op_phys_start M)) s" by (simp add: with_statics_def)
    show "\<exists>s' t. ?m s = Inr s' \<and> tables (op_phys_end M) s' \<and> shown s' = shown s @ t \<and> set t \<subseteq> {}"
      using maps_all [OF _ w] phys_page_start by (auto simp: ends_def with_statics_def)
  qed
  then have "keeps shown idle (on (op_phys_end M)) {}
      (\<lambda>s. bindE (op_mem_init M s) (\<lambda>s. bindE (?m s) (\<lambda>s. bindE (op_mmu_enable M s) (op_flush M))))"
    using mem_init quiet_enable quiet_flush by (intro keeps_bind)
  then show ?thesis by (simp add: keeps_def cold_mmu_init_def)
qed

text \<open>The set-up of the TLB benchmarks, for the two pairs of static variables it fills.\<close>

lemma tlb_init_on:
  assumes "\<And>s. f s = bindE (op_mem_init M s) (\<lambda>s.
      let s = put_statics M (first (statics_of M s)) s in
      bindE (map_phys M s) (\<lambda>(vptr, s).
      let s = put_statics M (second vptr (statics_of M s)) s in
      bindE (op_mmu_enable M s) (op_flush M)))"
    and "\<And>st. F (second (op_phys_end M) (first st))"
  shows "keeps shown idle (\<lambda>s. on (op_phys_end M) s \<and> F (statics_of M s)) {} f"
  unfolding keeps_def
proof (intro allI impI)
  fix s
  assume "idle s"
  then obtain s1 where 1: "op_mem_init M s = Inr s1" "tables (op_phys_start M) s1" "shown s1 = shown s"
    using mem_init unfolding keeps_def by fastforce
  let ?s1 = "put_statics M (first (statics_of M s1)) s1"
  have "with_statics M (first (statics_of M s1)) (tables (op_phys_start M)) ?s1"
    using statics_put 1(2) by (simp add: with_statics_def)
  from maps_all [OF disjI1 [OF phys_page_start] this]
  obtain s2 where 2: "tables (op_phys_end M) s2" "statics_of M s2 = first (statics_of M s1)" "shown s2 = shown s"
    "map_phys M ?s1 = Inr (op_phys_end M, s2)"
    using statics_put(2) 1(3) by (auto simp: map_phys_def with_statics_def)
  let ?st = "second (op_phys_end M) (first (statics_of M s1))" and ?s2 = "put_statics M (second (op_phys_end M) (statics_of M s2)) s2"
  have "with_statics M ?st (tables (op_phys_end M)) ?s2" using statics_put 2 by (simp add: with_statics_def)
  moreover have "keeps shown (with_statics M ?st (tables (op_phys_end M))) (with_statics M ?st (on (op_phys_end M))) {}
      (\<lambda>s. bindE (op_mmu_enable M s) (op_flush M))"
    using enable flush(1) by (intro keeps_bind)
  ultimately obtain s3 where "bindE (op_mmu_enable M ?s2) (op_flush M) = Inr s3" "with_statics M ?st (on (op_phys_end M)) s3"
    "shown s3 = shown ?s2"
    unfolding keeps_def by fastforce
  then show "\<exists>s' t. f s = Inr s' \<and> (on (op_phys_end M) s' \<and> F (statics_of M s')) \<and> shown s' = shown s @ t \<and> set t \<subseteq> {}"
    using 1(1) 2(3,4) statics_put(2) assms(2) by (simp add: assms(1) with_statics_def)
qed

subsection \<open>Every benchmark runs\<close>

lemma trap_ready: "keeps shown idle (\<lambda>s. on (op_phys_start M) s \<and> handles k s) {} (\<lambda>s. bindE (mmu_init M s) (install_handler M k))"
  using mmu_init_on install by (intro keeps_bind)

lemma trap_loop:
  "keeps shown (\<lambda>s. on (op_phys_start M) s \<and> handles k s) (\<lambda>s. on (op_phys_start M) s \<and> handles k s) C
    (kernel_loop M count (raise_trap M k))"
  by (rule loop [OF trap])

lemma exceptions_run:
  "benchmark_runs putch shown good idle env (dfault M)" "benchmark_runs putch shown good idle env (ifault M)"
  "benchmark_runs putch shown good idle env (undef M)" "benchmark_runs putch shown good idle env (syscall M)"
proof -
  have d: "dfault_init M = (\<lambda>s. bindE (mmu_init M s) (install_handler M Bad_data))"
    "ifault_init M = (\<lambda>s. bindE (mmu_init M s) (install_handler M Bad_fetch))"
    "undef_init M = (\<lambda>s. bindE (mmu_init M s) (install_handler M Bad_instruction))"
    "syscall_init M = (\<lambda>s. bindE (mmu_init M s) (install_handler M System_call))"
    by (simp_all add: fun_eq_iff dfault_init_def ifault_init_def undef_init_def syscall_init_def)
  have k: "dfault_kernel M = kernel_loop M EXCEPTION_DF_ITERATIONS (raise_trap M Bad_data)"
    "ifault_kernel M = kernel_loop M EXCEPTION_IF_ITERATIONS (raise_trap M Bad_fetch)"
    "undef_kernel M = kernel_loop M EXCEPTION_UNDEF_ITERATIONS (raise_trap M Bad_instruction)"
    "syscall_kernel M = kernel_loop M EXCEPTION_SC_ITERATIONS (raise_trap M System_call)"
    by (simp_all add: dfault_kernel_def ifault_kernel_def undef_kernel_def syscall_kernel_def)
  note m = mmu_runs [OF trap_ready trap_loop, where p = "op_phys_start M"]
  show "benchmark_runs putch shown good idle env (dfault M)"
    unfolding dfault_def d k by (rule m) (simp_all add: words states_putch)
  show "benchmark_runs putch shown good idle env (ifault M)"
    unfolding ifault_def d k by (rule m) (simp_all add: words states_putch)
  show "benchmark_runs putch shown good idle env (undef M)"
    unfolding undef_def d k by (rule m) (simp_all add: words states_putch)
  show "benchmark_runs putch shown good idle env (syscall M)"
    unfolding syscall_def d k by (rule m) (simp_all add: words states_putch)
qed

text \<open>
  The set-up of the undefined-instruction benchmark may lead from other states than the idle ones: its handler stays
  installed, so that the machine may be able to do more afterwards.
\<close>

lemma undef_moves:
  assumes "keeps shown before (\<lambda>s. on (op_phys_start M) s \<and> handles Bad_instruction s) {} (undef_init M)"
  shows "benchmark_moves putch shown good before idle env (undef M)"
proof -
  let ?ready = "\<lambda>s. on (op_phys_start M) s \<and> handles Bad_instruction s"
  have k: "keeps shown ?ready ?ready C (undef_kernel M)" for C using trap_loop [of Bad_instruction] by (simp add: undef_kernel_def)
  have c: "keeps shown ?ready idle {} (mmu_cleanup M)" by (rule keeps_mono [OF mmu_cleanup_idle [of "op_phys_start M"]]) simp_all
  have n: "keeps shown ?ready ?ready spinner_output (routine_of None)" by (auto simp: routine_of_def intro: keeps_Inr)
  have g: "?ready s \<Longrightarrow> good s" for s using states_good(2) [of "op_phys_start M" s] by simp
  show ?thesis
    unfolding undef_def by (rule moves [of _ ?ready]) (use assms k c n g states_putch in \<open>simp_all add: words routine_of_def\<close>)
qed

text \<open>The dispatch benchmarks only call.\<close>

lemma calls:
  "keeps shown idle idle {} (ipd_fn M x)" "keeps shown idle idle {} (spd_fn M x)" "keeps shown idle idle {} (dispatch M x)"
  "keeps shown idle idle {} (small_fn M x)"
proof -
  show "keeps shown idle idle {} (ipd_fn M x)"
  proof (induction x)
    case (Suc x)
    then show ?case using keeps_bind [OF code(1) [of "Suc x"], of idle "ipd_fn M x"] by (simp add: keeps_def)
  qed (use code(1) [of 0] in \<open>simp add: keeps_def\<close>)
  show "keeps shown idle idle {} (spd_fn M x)"
  proof (induction x rule: less_induct)
    case (less x)
    then show ?case using keeps_bind [OF code(1) [of x], of idle "spd_fn M (x - 1)"] code(1) [of x]
      by (cases "x \<le> 1") (simp_all add: keeps_def spd_fn.simps [of M x])
  qed
  show "keeps shown idle idle {} (dispatch M x)"
  proof (induction x)
    case (Suc x)
    then show ?case using keeps_bind [OF code(1) [of "fn_table ! (x mod FN_TABLE_SIZE)"], of idle "dispatch M x"] by (simp add: keeps_def)
  qed (simp add: keeps_def)
  show "keeps shown idle idle {} (small_fn M x)"
  proof (induction "30 - x" arbitrary: x rule: less_induct)
    case less
    show ?case
    proof (cases "x < 30")
      case True
      then have "small_fn_table ! x = Suc x" by (simp add: small_fn_table_def)
      then show ?thesis using less [of "Suc x"] True keeps_bind [OF code(1) [of x], of idle "small_fn M (Suc x)"]
        by (simp add: keeps_def small_fn.simps [of M x])
    qed (use code(1) [of x] in \<open>simp add: keeps_def small_fn.simps [of M x]\<close>)
  qed
qed

lemma dirty_quiet:
  assumes "a \<in> code_heads M"
  shows "keeps shown idle idle {} (dirty M w a)"
  unfolding keeps_def
proof (intro allI impI)
  fix s
  assume "idle s"
  then obtain s1 where "discard (load8 M a s) = Inr s1" "idle s1" "shown s1 = shown s"
    using code(2) [OF assms] unfolding keeps_def by fastforce
  then obtain v where 1: "load8 M a s = Inr (v, s1)" "idle s1" "shown s1 = shown s"
    by (cases "load8 M a s") (auto simp: discard_def)
  have "keeps shown idle idle {} (\<lambda>s. bindE (if w then store8 M a v s else Inr s) (op_code_flush M a))"
    by (rule keeps_bind [OF _ code(4) [OF assms]]) (use code(3) [OF assms] in \<open>simp add: keeps_def\<close>)
  then show "\<exists>s' t. dirty M w a s = Inr s' \<and> idle s' \<and> shown s' = shown s @ t \<and> set t \<subseteq> {}"
    using 1 unfolding keeps_def dirty_def by fastforce
qed

lemma dirty_all_quiet: "set fns \<subseteq> {1..30} \<Longrightarrow> keeps shown idle idle {} (dirty_all M w fns)"
proof (induction fns)
  case (Cons x fns)
  then show ?case using keeps_bind [OF dirty_quiet, of "sym_small_fn M x" idle "dirty_all M w fns" w]
    by (simp add: code_heads_def keeps_def)
qed (simp add: keeps_def)

lemma copies_quiet: "keeps shown idle idle {} (copy_code M)" "keeps shown idle idle {} (copy_code_control M)"
proof -
  have "set small_fn_table \<subseteq> {1..30}" by (auto simp: small_fn_table_def)
  then show "keeps shown idle idle {} (copy_code M)" "keeps shown idle idle {} (copy_code_control M)"
    unfolding copy_code_def copy_code_control_def by (simp_all add: dirty_all_quiet)
qed

lemma block_quiet: "keeps shown idle idle {} (\<lambda>s. dirty M w (sym_block M) (block M s))"
proof -
  have "keeps shown idle idle {} (\<lambda>s. Inr (block M s))"
    by (auto simp: keeps_def block_def Let_def statics_put split: prod.split)
  from keeps_bind [OF this dirty_quiet [of "sym_block M" w]] show ?thesis by (simp add: code_heads_def)
qed

lemma dispatch_runs:
  "benchmark_runs putch shown good idle env (inter_page_direct M)" "benchmark_runs putch shown good idle env (intra_page_direct M)"
  "benchmark_runs putch shown good idle env (inter_page_indirect M)" "benchmark_runs putch shown good idle env (intra_page_indirect M)"
proof -
  show "benchmark_runs putch shown good idle env (inter_page_direct M)"
    unfolding inter_page_direct_def ipd_kernel_def by (rule plain_runs) (use loop [OF calls(1)] in \<open>simp_all add: words\<close>)
  show "benchmark_runs putch shown good idle env (intra_page_direct M)"
    unfolding intra_page_direct_def spd_kernel_def by (rule plain_runs) (use loop [OF calls(2)] in \<open>simp_all add: words\<close>)
  show "benchmark_runs putch shown good idle env (inter_page_indirect M)"
    unfolding inter_page_indirect_def ipi_kernel_def by (rule plain_runs) (use loop [OF calls(3)] in \<open>simp_all add: words\<close>)
  show "benchmark_runs putch shown good idle env (intra_page_indirect M)"
    unfolding intra_page_indirect_def spi_kernel_def by (rule plain_runs) (use loop [OF calls(3)] in \<open>simp_all add: words\<close>)
qed

lemma codegen_runs:
  "benchmark_runs putch shown good idle env (small_blocks M)" "benchmark_runs putch shown good idle env (large_blocks M)"
proof -
  show "benchmark_runs putch shown good idle env (small_blocks M)"
    unfolding small_blocks_def sb_kernel_def sb_kernel_control_def
    by (rule plain_runs)
      (use loop [OF keeps_bind [OF calls(4) copies_quiet(1)]] loop [OF keeps_bind [OF calls(4) copies_quiet(2)]] in
        \<open>auto simp: words\<close>)
  show "benchmark_runs putch shown good idle env (large_blocks M)"
    unfolding large_blocks_def lb_kernel_def lb_kernel_control_def
    by (rule plain_runs) (use loop [OF block_quiet] in \<open>auto simp: words\<close>)
qed

text \<open>Memory.\<close>

lemma copy_value_quiet:
  assumes "P \<in> {idle, on (op_phys_start M)}"
  shows "keeps shown P P {} (repeat 10 (copy_value M))"
proof -
  have "keeps shown P P {} (copy_value M)"
    unfolding keeps_def
  proof (intro allI impI)
    fix s
    assume "P s"
    then obtain s1 where "discard (load32 M (sym_hot_value M) s) = Inr s1" "P s1" "shown s1 = shown s"
      using hot(1) [OF assms] unfolding keeps_def by fastforce
    then obtain v where "load32 M (sym_hot_value M) s = Inr (v, s1)" "P s1" "shown s1 = shown s"
      by (cases "load32 M (sym_hot_value M) s") (auto simp: discard_def)
    then show "\<exists>s' t. copy_value M s = Inr s' \<and> P s' \<and> shown s' = shown s @ t \<and> set t \<subseteq> {}"
      using hot(2) [OF assms, of v] unfolding keeps_def copy_value_def by fastforce
  qed
  then show ?thesis by (rule keeps_repeat)
qed

lemma hot_runs:
  "benchmark_runs putch shown good idle env (memory_hot_nommu M)" "benchmark_runs putch shown good idle env (memory_hot_mmu M)"
proof -
  have c: "keeps shown P P C (hot_kernel_control M)" for P C
    unfolding hot_kernel_control_def by (rule loop) (simp add: keeps_def)
  have k: "keeps shown P P C (hot_kernel M)" if "P \<in> {idle, on (op_phys_start M)}" for P C
    unfolding hot_kernel_def by (rule loop [OF copy_value_quiet [OF that]])
  show "benchmark_runs putch shown good idle env (memory_hot_nommu M)"
    unfolding memory_hot_nommu_def by (rule plain_runs) (use c k in \<open>auto simp: words\<close>)
  show "benchmark_runs putch shown good idle env (memory_hot_mmu M)"
    unfolding memory_hot_mmu_def
    by (rule mmu_runs [OF mmu_init_on, where p = "op_phys_start M"]) (use c k states_putch(2) in \<open>auto simp: words\<close>)
qed

lemma cold_runs:
  "benchmark_runs putch shown good idle env (memory_cold_nommu M)" "benchmark_runs putch shown good idle env (memory_cold_mmu M)"
proof -
  have w: "unat (op_phys_end M) + unat (4096 :: 'w word) < 2 ^ LENGTH('w)"
  proof -
    have "unat (4096 :: 'w word) \<le> 4096" by (metis unat_of_nat of_nat_numeral mod_less_eq_dividend)
    from add_left_mono [OF this] show ?thesis using range(4) by (rule le_less_trans)
  qed
  have k: "keeps shown P P C (cold_kernel M)" if "P \<in> {idle, on (op_phys_end M)}" for P C
    unfolding cold_kernel_def by (rule walk_loop) (use phys(1) that w in auto)
  have c: "keeps shown P P C (cold_kernel_control M)" for P C
    unfolding cold_kernel_control_def by (rule walk_loop) (use w in \<open>auto simp: keeps_def\<close>)
  show "benchmark_runs putch shown good idle env (memory_cold_nommu M)"
    unfolding memory_cold_nommu_def by (rule plain_runs) (use c k in \<open>auto simp: words\<close>)
  show "benchmark_runs putch shown good idle env (memory_cold_mmu M)"
    unfolding memory_cold_mmu_def
    by (rule mmu_runs [OF cold_init_on, where p = "op_phys_end M"]) (use c k states_putch(2) in \<open>auto simp: words\<close>)
qed

text \<open>A walk whose uses keep the static variables.\<close>

lemma tlb_walk:
  assumes "\<And>p st. phys_addr M p \<Longrightarrow>
      keeps shown (with_statics M st (on (op_phys_end M))) (with_statics M st (on (op_phys_end M))) {} (use p)"
    and "\<And>s. F (statics_of M s) \<Longrightarrow> k s = walk_kernel M count (op_phys_start M) (op_phys_end M) (op_page_size M) use s"
  shows "keeps shown (\<lambda>s. on (op_phys_end M) s \<and> F (statics_of M s)) (\<lambda>s. on (op_phys_end M) s \<and> F (statics_of M s)) C k"
proof -
  have "keeps shown (\<lambda>s. on (op_phys_end M) s \<and> F (statics_of M s)) (\<lambda>s. on (op_phys_end M) s \<and> F (statics_of M s)) {}
      (walk_kernel M count (op_phys_start M) (op_phys_end M) (op_page_size M) use)"
    using range(3) by (intro walk_loop keeps_statics(1) assms(1)) auto
  then have "keeps shown (\<lambda>s. on (op_phys_end M) s \<and> F (statics_of M s)) (\<lambda>s. on (op_phys_end M) s \<and> F (statics_of M s)) {} k"
    unfolding keeps_def using assms(2) by metis
  then show ?thesis by (rule keeps_mono)
qed

lemma tlb_runs:
  "benchmark_runs putch shown good idle env (tlb_flush M)" "benchmark_runs putch shown good idle env (tlb_evict M)"
proof -
  let ?F = "\<lambda>st. flush_start st = op_phys_start M \<and> flush_end st = op_phys_end M"
  let ?E = "\<lambda>st. evict_start st = op_phys_start M \<and> evict_end st = op_phys_end M"
  have i: "keeps shown idle (\<lambda>s. on (op_phys_end M) s \<and> ?F (statics_of M s)) {} (flush_mmu_init M)"
    "keeps shown idle (\<lambda>s. on (op_phys_end M) s \<and> ?E (statics_of M s)) {} (evict_mmu_init M)"
    by (rule tlb_init_on [where first = "\<lambda>st. st\<lparr>flush_start := op_phys_start M\<rparr>" and second = "\<lambda>v st. st\<lparr>flush_end := v\<rparr>"];
        simp add: flush_mmu_init_def)
      (rule tlb_init_on [where first = "\<lambda>st. st\<lparr>evict_start := op_phys_start M\<rparr>" and second = "\<lambda>v st. st\<lparr>evict_end := v\<rparr>"];
        simp add: evict_mmu_init_def)
  have k: "keeps shown (\<lambda>s. on (op_phys_end M) s \<and> ?F (statics_of M s)) (\<lambda>s. on (op_phys_end M) s \<and> ?F (statics_of M s)) C (flush_kernel M)"
    "keeps shown (\<lambda>s. on (op_phys_end M) s \<and> ?E (statics_of M s)) (\<lambda>s. on (op_phys_end M) s \<and> ?E (statics_of M s)) C (evict_kernel M)" for C
    by (rule tlb_walk [OF keeps_bind [OF phys(2) flush(1)]]; simp add: flush_kernel_def)
      (rule tlb_walk [OF keeps_bind [OF phys(2) evict]]; simp add: evict_kernel_def)
  show "benchmark_runs putch shown good idle env (tlb_flush M)"
    unfolding tlb_flush_def
    by (rule mmu_runs [OF i(1) k(1), where p = "op_phys_end M"]) (simp_all add: words states_putch)
  show "benchmark_runs putch shown good idle env (tlb_evict M)"
    unfolding tlb_evict_def
    by (rule mmu_runs [OF i(2) k(2), where p = "op_phys_end M"]) (simp_all add: words states_putch)
qed

lemma nonpriv_runs: "benchmark_runs putch shown good idle env (memory_nonpriv M)"
proof -
  let ?on = "on (op_phys_start M)"
  have "keeps shown idle ?on {} (\<lambda>s. bindE (op_mem_init M s) (\<lambda>s. bindE (op_map_data M (sym_nonpriv_value M) (sym_nonpriv_value M) s)
      (\<lambda>s. bindE (op_mmu_enable M s) (op_flush M))))"
    using mem_init map_value quiet_enable quiet_flush by (intro keeps_bind)
  then have i: "keeps shown idle ?on {} (nonpriv_mmu_init M)" by (simp add: keeps_def nonpriv_mmu_init_def)
  have n: "keeps shown inside inside spinner_output (routine_of None)" by (auto simp: routine_of_def intro: keeps_Inr)
  have k: "keeps shown inside inside C (nonpriv_kernel M)" for C unfolding nonpriv_kernel_def by (rule loop [OF nonpriv])
  show ?thesis
    unfolding benchmark_runs_def benchmark_moves_def memory_nonpriv_def
    by (intro conjI exI [of _ ?on] exI [of _ inside])
      (use i n k mmu_cleanup_idle priv states_good(2) states_putch(2) in \<open>simp_all add: words routine_of_def level_ok_def\<close>)
qed

lemma io_runs:
  "benchmark_runs putch shown good idle env (coprocessor_access M)" "benchmark_runs putch shown good idle env (device_access M)"
proof -
  show "benchmark_runs putch shown good idle env (coprocessor_access M)"
    unfolding coprocessor_access_def coprocessor_kernel_def
    by (rule plain_runs) (use loop [OF coprocessor] in \<open>simp_all add: words\<close>)
  have "keeps shown idle idle {} (device_kernel M)"
    unfolding keeps_def
  proof (intro allI impI)
    fix s
    assume s: "idle s"
    obtain v s1 where 1: "op_null_devval M s = (v, s1)" by (cases "op_null_devval M s")
    then have 2: "idle s1" "shown s1 = shown s" using device(1) s unfolding keeps_def by fastforce+
    show "\<exists>s' t. device_kernel M s = Inr s' \<and> idle s' \<and> shown s' = shown s @ t \<and> set t \<subseteq> {}"
      using keeps_repeat [OF device(2) [of v], of "unat (total_iterations M IO_DEVICE_ITERATIONS)", unfolded keeps_def,
        rule_format, OF 2(1)] 1 2(2) by (simp add: device_kernel_def spinner)
  qed
  then have "keeps shown idle idle spinner_output (device_kernel M)" by (rule keeps_mono)
  then show "benchmark_runs putch shown good idle env (device_access M)"
    unfolding device_access_def by (intro plain_runs) (simp_all add: words)
qed

lemma quiet_runs: "\<forall>bm\<in>set (suite M) - {interrupt M}. benchmark_runs putch shown good idle env bm"
  using exceptions_run codegen_runs dispatch_runs tlb_runs hot_runs cold_runs nonpriv_runs io_runs by (auto simp: suite_def)

end

section \<open>Ports that deliver the software interrupt\<close>

text \<open>
  With two more states, armed and pending, and the laws of the interrupt switches and of the board's
  controller, the interrupt benchmark runs too, and with it the whole suite.
\<close>

locale interrupting_port = port +
  fixes armed pending :: "'a \<Rightarrow> bool"
  assumes arm: "keeps shown (on (op_phys_start M)) armed {} (\<lambda>s. bindE (op_irq_handler M h s) (op_irq_enable M))"
      "keeps shown armed (on (op_phys_start M)) {} (op_irq_disable M)"
    and interrupts: "keeps shown (with_statics M st armed) (with_statics M st pending) {} (op_trigger_swi M)"
      "pending s \<Longrightarrow> poll_irq M h s = h s"
      "keeps shown (with_statics M st pending) (with_statics M st armed) {} (op_clear_swi M)"
    and armed_good: "armed s \<Longrightarrow> good s"
    and armed_putch: "armed s \<Longrightarrow> armed (putch s c)"
    and armed_statics: "armed s \<Longrightarrow> armed (put_statics M st s)" "pending s \<Longrightarrow> pending (put_statics M st s)"
begin

lemma armed_put: "armed s \<Longrightarrow> armed (set_flag M v s) \<and> shown (set_flag M v s) = shown s \<and> swi_flag (statics_of M (set_flag M v s)) = v"
  "pending s \<Longrightarrow> pending (set_flag M v s) \<and> shown (set_flag M v s) = shown s \<and> swi_flag (statics_of M (set_flag M v s)) = v"
  by (simp_all add: set_flag_def statics_put armed_statics)

text \<open>One round of the interrupt benchmark: the first poll takes the interrupt, whose handler sets the flag.\<close>

lemma swi_round_quiet:
  "keeps shown armed armed {} (\<lambda>s. bindE (op_trigger_swi M (set_flag M 0 s)) (\<lambda>s.
     ends M (wait_flag (\<lambda>s. swi_flag (statics_of M s) \<noteq> 0) (poll_irq M (swi_irq_handler M)) s)))"
  unfolding keeps_def
proof (intro allI impI)
  fix s
  assume "armed s"
  let ?s = "set_flag M 0 s"
  let ?flag = "\<lambda>s. swi_flag (statics_of M s) \<noteq> 0" and ?turn = "poll_irq M (swi_irq_handler M)"
  have "with_statics M (statics_of M ?s) armed ?s" using armed_put(1) [OF \<open>armed s\<close>] by (simp add: with_statics_def)
  then obtain s1 where 1: "op_trigger_swi M ?s = Inr s1" "pending s1" "statics_of M s1 = statics_of M ?s" "shown s1 = shown s"
    using interrupts(1) [of "statics_of M ?s"] armed_put(1) [OF \<open>armed s\<close>, of 0] unfolding keeps_def with_statics_def by fastforce
  have z: "\<not> ?flag s1" using 1(3) armed_put(1) [OF \<open>armed s\<close>] by simp
  let ?s2 = "set_flag M 1 s1"
  have "with_statics M (statics_of M ?s2) pending ?s2" using armed_put(2) [OF 1(2)] by (simp add: with_statics_def)
  then obtain s3 where 3: "op_clear_swi M ?s2 = Inr s3" "armed s3" "statics_of M s3 = statics_of M ?s2" "shown s3 = shown s"
    using interrupts(3) [of "statics_of M ?s2"] armed_put(2) [OF 1(2), of 1] 1(4) unfolding keeps_def with_statics_def by fastforce
  have "?turn s1 = Inr s3" using interrupts(2) [OF 1(2)] 3(1) by (simp add: swi_irq_handler_def)
  moreover have "?flag s3" using 3(3) armed_put(2) [OF 1(2)] by simp
  ultimately have "wait_flag ?flag ?turn s1 = Some (Inr s3)"
    using z by (subst wait_flag.simps) (simp add: wait_flag.simps [of _ _ s3])
  then show "\<exists>s' t. bindE (op_trigger_swi M ?s) (\<lambda>s. ends M (wait_flag ?flag ?turn s)) = Inr s' \<and> armed s' \<and>
      shown s' = shown s @ t \<and> set t \<subseteq> {}"
    using 1(1) 3(2,4) by (simp add: ends_def)
qed

lemma interrupt_runs: "benchmark_runs putch shown good idle env (interrupt M)"
proof -
  have i: "keeps shown idle armed {} (swi_init M)"
    using keeps_bind [OF mmu_init_on arm(1)] by (simp add: keeps_def swi_init_def [abs_def])
  have c: "keeps shown armed idle {} (swi_cleanup M)"
    using keeps_bind [OF arm(2) mmu_cleanup_idle] by (simp add: keeps_def swi_cleanup_def [abs_def])
  have n: "keeps shown armed armed spinner_output (routine_of None)" by (auto simp: routine_of_def intro: keeps_Inr)
  show ?thesis
    unfolding interrupt_def
    unfolding benchmark_runs_def
    by (rule moves [of _ armed])
      (use i c n loop [OF swi_round_quiet] armed_good armed_putch in
        \<open>simp_all add: words routine_of_def swi_kernel_def\<close>)
qed

lemma suite_runs: "\<forall>bm\<in>set (suite M). benchmark_runs putch shown good idle env bm"
  using quiet_runs interrupt_runs by fast

lemma suite_report:
  assumes "wired putch env" "idle s"
  shows "\<exists>s' runs. harness_main env (suite M) s = Inr s' \<and> idle s' \<and> recorded (suite M) runs \<and>
    shown s' = shown s @ crlf @ crlf @ marker ''BEGIN'' @ report runs @ marker ''END''"
  using harness_main_runs [OF assms(1) suite_runs states_good(1) states_putch(1) assms(2)] by blast

text \<open>The same from states in which the suite's first benchmark runs, but not yet all of them.\<close>

lemma suite_moves_report:
  assumes w: "wired putch env" and u: "keeps shown before (\<lambda>s. on (op_phys_start M) s \<and> handles Bad_instruction s) {} (undef_init M)"
    and before: "\<And>s. before s \<Longrightarrow> good s" "\<And>s c. before s \<Longrightarrow> before (putch s c)" and s: "before s"
  shows "\<exists>s' runs. harness_main env (suite M) s = Inr s' \<and> idle s' \<and> recorded (suite M) runs \<and>
    shown s' = shown s @ crlf @ crlf @ marker ''BEGIN'' @ report runs @ marker ''END''"
proof (rule harness_main_framed [where before = before and idle = idle, OF w _ before states_good(1) states_putch(1) s])
  fix s
  assume s: "before s"
  obtain bms where b: "suite M = undef M # bms" by (simp add: suite_def)
  then have r: "\<forall>bm\<in>set bms. benchmark_runs putch shown good idle env bm" using suite_runs by simp
  show "\<exists>s' runs. execute_all env (suite M) s = Inr s' \<and> idle s' \<and> recorded (suite M) runs \<and> shown s' = shown s @ report runs"
    unfolding b
    by (rule execute_all_moves [where before = before and idle = idle, OF w undef_moves [OF u] r before states_good(1) states_putch(1) s])
qed

end

end
