(* ===== verification/Versatile_Machine.thy ===== *)
theory Versatile_Machine
  imports Suite_On_Port Board_Memory Arm_Trap
begin

section \<open>The arm port on the Versatile board\<close>

text \<open>
  The operations of the arm port and of the Versatile board, put together to the machine the
  benchmarks run on: the state is the processor's (with its memory as words), the log of the
  device registers, and the static variables of the benchmarks. A load, store or jump goes through
  the section table once the MMU is on; without a translation it raises an abort, which is taken
  through the vector and the handler word as the processor does, and comes back only if the routine
  found there resumes where the code goes on. There is no translation buffer: an access sees the
  table as it is.

  What the linker and the machine provide is the record arm_layout: the image with the symbols of the
  vectors, the addresses of the benchmarks' variables and functions, the address of a trapping
  instruction and of a call's continuation, what a skipped load leaves in its register, and when the
  interrupt controller asserts the processor's line.
\<close>

record arm_layout =
  ly_image :: arm_image
  ly_syms :: vector_syms
  ly_code :: u32
  ly_return :: u32
  ly_stale :: u32
  ly_hot :: u32
  ly_nonpriv :: u32
  ly_block :: u32
  ly_small :: "nat \<Rightarrow> u32"
  ly_fast :: bool
  ly_irq_line :: "mmio \<Rightarrow> bool"

record arm_board =
  core :: arm_state
  io :: mmio
  board_statics :: "u32 statics"

datatype arm_stop = Stopped arm_fault | Lost exception | No_device_answer | Wild_jump u32 | Never_returns

subsection \<open>Accesses\<close>

definition mmu_on :: "arm_board \<Rightarrow> bool" where
  "mmu_on s \<longleftrightarrow> CONTROL (core s) AND 1 \<noteq> 0"

definition access :: "u32 \<Rightarrow> arm_board \<Rightarrow> u32 option" where
  "access va s = (if mmu_on s then map_option fst (arm_translate (core s) va) else Some va)"

text \<open>The registers of the board are above its memory.\<close>

definition is_device :: "u32 \<Rightarrow> bool" where
  "is_device pa \<longleftrightarrow> 0x10000000 \<le> pa"

text \<open>
  An exception: the trampoline of its vector jumps to the handler word that lies as far behind the
  vector base as the word's symbol behind vectors_start.
\<close>

definition vector_word :: "arm_layout \<Rightarrow> exception \<Rightarrow> arm_board \<Rightarrow> u32" where
  "vector_word L k s = vector_base (core s) + (handler_slot (ly_syms L) k - vectors_base (ly_syms L))"

definition raised :: "arm_layout \<Rightarrow> exception \<Rightarrow> u32 \<Rightarrow> u32 \<Rightarrow> u32 \<Rightarrow> arm_board \<Rightarrow> arm_stop + arm_board" where
  "raised L k pc user_lr continue s =
     (case access (vector_word L k s) s of
        None \<Rightarrow> Inl (Lost k)
      | Some pa \<Rightarrow>
          if resume (ly_syms L) (arm_words (core s) pa) (exception_lr k pc) user_lr = Some continue then Inr s
          else Inl (Lost k))"

definition data_abort :: "arm_layout \<Rightarrow> arm_board \<Rightarrow> arm_stop + arm_board" where
  "data_abort L s = raised L Data_abort (ly_code L) (ly_return L) (ly_code L + 4) s"

definition word_of_byte_address :: "u32 \<Rightarrow> u32" where
  "word_of_byte_address pa = pa AND NOT 3"

definition byte_shift :: "u32 \<Rightarrow> nat" where
  "byte_shift pa = 8 * unat (pa AND 3)"

definition device_load :: "u32 \<Rightarrow> arm_board \<Rightarrow> arm_stop + u32 \<times> arm_board" where
  "device_load pa s =
     (case load_reg pa (io s) of None \<Rightarrow> Inl No_device_answer | Some (v, m) \<Rightarrow> Inr (v, s\<lparr>io := m\<rparr>))"

definition memory_store :: "u32 \<Rightarrow> u32 \<Rightarrow> arm_board \<Rightarrow> arm_board" where
  "memory_store a v s = s\<lparr>core := (core s)\<lparr>arm_words := (arm_words (core s))(a := v)\<rparr>\<rparr>"

definition arm_load32 :: "arm_layout \<Rightarrow> u32 \<Rightarrow> arm_board \<Rightarrow> arm_stop + u32 \<times> arm_board" where
  "arm_load32 L va s =
     (case access va s of
        None \<Rightarrow> bindE (data_abort L s) (\<lambda>s. Inr (ly_stale L, s))
      | Some pa \<Rightarrow>
          if is_device pa then device_load pa s
          else Inr (arm_words (core s) (word_of_byte_address pa), s))"

definition arm_store32 :: "arm_layout \<Rightarrow> u32 \<Rightarrow> u32 \<Rightarrow> arm_board \<Rightarrow> arm_stop + arm_board" where
  "arm_store32 L va v s =
     (case access va s of
        None \<Rightarrow> data_abort L s
      | Some pa \<Rightarrow>
          if is_device pa then Inr (s\<lparr>io := store_reg pa v (io s)\<rparr>)
          else Inr (memory_store (word_of_byte_address pa) v s))"

definition arm_load8 :: "arm_layout \<Rightarrow> u32 \<Rightarrow> arm_board \<Rightarrow> arm_stop + u8 \<times> arm_board" where
  "arm_load8 L va s =
     (case access va s of
        None \<Rightarrow> bindE (data_abort L s) (\<lambda>s. Inr (ucast (ly_stale L), s))
      | Some pa \<Rightarrow>
          if is_device pa then bindE (device_load pa s) (\<lambda>(v, s). Inr (ucast v, s))
          else Inr (ucast (drop_bit (byte_shift pa) (arm_words (core s) (word_of_byte_address pa))), s))"

definition arm_store8 :: "arm_layout \<Rightarrow> u32 \<Rightarrow> u8 \<Rightarrow> arm_board \<Rightarrow> arm_stop + arm_board" where
  "arm_store8 L va v s =
     (case access va s of
        None \<Rightarrow> data_abort L s
      | Some pa \<Rightarrow>
          if is_device pa then Inr (s\<lparr>io := store_reg pa (ucast v) (io s)\<rparr>)
          else
            let w = arm_words (core s) (word_of_byte_address pa)
            in Inr (memory_store (word_of_byte_address pa)
                 ((w AND NOT (push_bit (byte_shift pa) 0xff)) OR push_bit (byte_shift pa) (ucast v)) s))"

text \<open>A call of an address that holds no known function: without a translation it is a prefetch abort.\<close>

definition arm_jump :: "arm_layout \<Rightarrow> u32 \<Rightarrow> arm_board \<Rightarrow> arm_stop + arm_board" where
  "arm_jump L va s =
     (case access va s of
        None \<Rightarrow> raised L Prefetch_abort va (ly_return L) (ly_return L) s
      | Some pa \<Rightarrow> Inl (Wild_jump pa))"

subsection \<open>The operations\<close>

definition on_core :: "(arm_state \<Rightarrow> arm_state) \<Rightarrow> arm_board \<Rightarrow> arm_stop + arm_board" where
  "on_core f s = Inr (s\<lparr>core := f (core s)\<rparr>)"

definition core_step :: "(arm_state \<Rightarrow> arm_fault + arm_state) \<Rightarrow> arm_board \<Rightarrow> arm_stop + arm_board" where
  "core_step f s = (case f (core s) of Inl e \<Rightarrow> Inl (Stopped e) | Inr c \<Rightarrow> Inr (s\<lparr>core := c\<rparr>))"

definition core_loop :: "(arm_state \<Rightarrow> (arm_fault + arm_state) option) \<Rightarrow> arm_board \<Rightarrow> arm_stop + arm_board" where
  "core_loop f s =
     (case f (core s) of
        None \<Rightarrow> Inl Never_returns | Some (Inl e) \<Rightarrow> Inl (Stopped e) | Some (Inr c) \<Rightarrow> Inr (s\<lparr>core := c\<rparr>))"

text \<open>
  arch.c of the port: the instruction of arch_undefined_instruction and of arch_syscall raises its
  exception, the load of arch_nonpriviliged_read is an access of the unprivileged mode, which the
  domains do not restrict (mem_init makes all of them manager), and arch_coprocessor_access reads a
  register.
\<close>

definition arm_undefined_instruction :: "arm_layout \<Rightarrow> arm_board \<Rightarrow> arm_stop + arm_board" where
  "arm_undefined_instruction L s = raised L Undefined (ly_code L) (ly_return L) (ly_code L + 4) s"

definition arm_syscall :: "arm_layout \<Rightarrow> arm_board \<Rightarrow> arm_stop + arm_board" where
  "arm_syscall L s = raised L Software (ly_code L) (ly_return L) (ly_code L + 4) s"

definition arm_nonpriviliged_read :: "arm_layout \<Rightarrow> u32 \<Rightarrow> arm_board \<Rightarrow> arm_stop + u32 \<times> arm_board" where
  "arm_nonpriviliged_read L ptr s = arm_load32 L ptr s"

definition arm_coprocessor_access :: "arm_board \<Rightarrow> arm_stop + arm_board" where
  "arm_coprocessor_access s = (let data = DACR (core s) in Inr s)"

text \<open>
  The board's functions, whose registers are reached through the section table once the MMU is on,
  and the interrupt: it is taken between two instructions when the line is asserted, interrupts are
  enabled and a handler is installed.
\<close>

definition through_mmu :: "u32 list \<Rightarrow> (mmio \<Rightarrow> mmio) \<Rightarrow> arm_board \<Rightarrow> arm_stop + arm_board" where
  "through_mmu regs f s = (if \<forall>a\<in>set regs. access a s = Some a then Inr (s\<lparr>io := f (io s)\<rparr>) else Inl (Lost Data_abort))"

definition irq_taken :: "arm_layout \<Rightarrow> arm_board \<Rightarrow> bool" where
  "irq_taken L s \<longleftrightarrow> ly_irq_line L (io s) \<and> CPSR (core s) AND 0x80 = 0 \<and> arm_irq_handler (core s) \<noteq> None"

definition versatile_machine :: "arm_layout \<Rightarrow> (arm_stop, arm_board, u32) machine" where
  "versatile_machine L =
     \<lparr>fast = ly_fast L, hang = Never_returns,
      statics_of = board_statics, put_statics = (\<lambda>st s. s\<lparr>board_statics := st\<rparr>),
      spinner_start = (\<lambda>n. Inr), spinner_turn = Inr,
      op_mem_init = core_loop (arm_mem_init (ly_image L)), op_mem_reset = core_loop (arm_mem_reset (ly_image L)),
      op_mmu_enable = core_step (arm_mmu_enable (\<lambda>c. c) (ly_image L)), op_mmu_disable = core_step (arm_mmu_disable (ly_image L)),
      op_flush = on_core arm_tlb_flush, op_evict = (\<lambda>a. on_core (arm_tlb_evict a)),
      op_map_data = (\<lambda>pa va. core_step (\<lambda>c. bindE (arm_create_page_mapping_data pa va c) (\<lambda>(rc, c). Inr c))),
      op_page_size = arm_page_size,
      op_phys_start = phys_mem_start versatile_mem_get_phys_info, op_phys_end = phys_mem_end versatile_mem_get_phys_info,
      op_ifault_return = on_core (arm_ifault_install_return (ly_syms L)), op_dfault_skip = on_core (arm_dfault_install_skip (ly_syms L)),
      op_syscall_skip = on_core (arm_syscall_install_skip (ly_syms L)), op_undef_skip = on_core (arm_undef_install_skip (ly_syms L)),
      op_irq_handler = (\<lambda>h. on_core (arm_irq_install_handler (Some 0))),
      op_irq_enable = on_core (arm_irq_enable (ARCH_ARMV7 (ly_image L))), op_irq_disable = on_core (arm_irq_disable (ARCH_ARMV7 (ly_image L))),
      op_syscall = arm_syscall L, op_undefined = arm_undefined_instruction L, op_coprocessor = arm_coprocessor_access,
      op_nonpriv_read = (\<lambda>a s. discard (arm_nonpriviliged_read L a s)), op_code_flush = (\<lambda>a. on_core (arm_code_flush a)),
      op_trigger_swi = through_mmu (swi_registers Versatile) versatile_trigger_swi,
      op_clear_swi = through_mmu (swi_registers Versatile) versatile_clear_swi,
      op_null_devptr = versatile_null_devptr, op_null_devval = (\<lambda>s. (versatile_null_devval, s)),
      load8 = arm_load8 L, store8 = arm_store8 L, load32 = arm_load32 L, store32 = arm_store32 L,
      jump_to = arm_jump L, call_fn = (\<lambda>x. Inr), poll_irq = (\<lambda>h s. if irq_taken L s then h s else Inr s),
      sym_hot_value = ly_hot L, sym_nonpriv_value = ly_nonpriv L, sym_block = ly_block L, sym_small_fn = ly_small L\<rparr>"

text \<open>
  The file OUTPUT that platform_init registers writes to the serial port; a character whose store does
  not reach the port is lost.
\<close>

definition versatile_sink :: "arm_board \<Rightarrow> char \<Rightarrow> arm_board" where
  "versatile_sink s c =
     (if access (versatile_UART0_BASE + reg_dr) s = Some (versatile_UART0_BASE + reg_dr)
      then s\<lparr>io := versatile_uart_putc (io s) c\<rparr> else s)"

definition uart_text :: "arm_board \<Rightarrow> string" where
  "uart_text s = received versatile_UART0_BASE (io s)"

definition versatile_env :: "char list \<Rightarrow> (arm_stop, arm_board) harness_env" where
  "versatile_env junk =
     \<lparr>he_arm = True, he_junk = junk, OUTPUT = Some \<lparr>putch_fn = Some versatile_sink\<rparr>,
      priv_enter = on_core arm_priv_enter, priv_leave = on_core arm_priv_leave\<rparr>"

section \<open>The layout of the image\<close>

text \<open>
  What the linker script of the board fixes (the text below the physical range the benchmarks use, the
  data between that range and the devices, the relocated vectors at 0x5f0000), and what the code
  assumes of the symbols.
\<close>

definition layout_ok :: "arm_layout \<Rightarrow> bool" where
  "layout_ok L \<longleftrightarrow>
     (let img = ly_image L; v = ly_syms L in
      sym_vectors_end img < 0x04000000 \<and> arm_TEXT_END img < 0x04000000 \<and>
      arm_DATA_START img = 0x08000000 \<and> arm_DATA_END img < 0x10000000 \<and>
      sym_VECTORS_RELOCATE img = 0x5f0000 \<and> vectors_copy v = 0x5f0000 \<and>
      arm_devices img = device_ranges versatile_mem_get_device_info \<and>
      syms_ok v \<and> (\<forall>k\<in>{Undefined, Software, Prefetch_abort, Data_abort}. handler_slot v k - vectors_base v < 0x10000) \<and>
      (\<forall>a\<in>{ly_hot L, ly_nonpriv L}. 0x08000000 \<le> a \<and> a < arm_DATA_END img) \<and>
      (\<forall>a\<in>code_heads (versatile_machine L). a < 0x10000000) \<and>
      (\<forall>m. ly_irq_line L (versatile_trigger_swi m)))"

lemma section_of_nat: "unat (section_of a) = unat a div 0x100000"
  by (simp add: section_of_def unsigned_drop_bit_eq drop_bit_eq_div unat_div)

lemma section_of_mono: "a \<le> b \<Longrightarrow> section_of a \<le> section_of b"
  by (simp add: word_le_nat_alt section_of_nat div_le_mono)

lemma section_base_nat: "unat ((a :: u32) AND NOT 0xfffff) = unat a div 0x100000 * 0x100000"
proof -
  have "(NOT 0xfffff :: u32) = 0xfff00000" by simp
  then have "a AND NOT 0xfffff = push_bit 20 (section_of a)" by (simp only: section_base)
  then have "unat (a AND NOT 0xfffff) = (unat (section_of a) * 0x100000) mod 2 ^ 32"
    by (simp add: push_bit_eq_mult unat_word_ariths)
  moreover have "unat (section_of a) * 0x100000 \<le> unat a" unfolding section_of_nat by (rule div_times_less_eq_dividend)
  ultimately show ?thesis using unsigned_less [of a, where 'a = nat] by (simp add: section_of_nat)
qed

text \<open>The sections a region covers: all from that of its start to that of its end.\<close>

lemma sections_range:
  assumes "a \<in> set (sections lo hi)"
  shows "lo AND NOT 0xfffff \<le> a" "a \<le> hi" "section_of lo \<le> section_of a" "section_of a \<le> section_of hi"
proof -
  let ?b = "lo AND NOT 0xfffff"
  obtain k where k: "?b \<le> hi" "a = ?b + 0x100000 * word_of_nat k" "k < (unat hi - unat ?b) div 0x100000 + 1"
    using assms by (auto simp: sections_def region_pages_def split: if_splits)
  have "0x100000 * k \<le> unat hi - unat ?b" using k(3) by (simp add: less_Suc_eq_le mult.commute)
  then have kb: "unat ?b + 0x100000 * k \<le> unat hi" using k(1) by (simp add: word_le_nat_alt)
  have h: "unat hi < 2 ^ 32" using unsigned_less [of hi, where 'a = nat] by simp
  have "unat (word_of_nat k :: u32) = k" using kb h by (simp add: unat_of_nat)
  then have "unat (0x100000 * word_of_nat k :: u32) = 0x100000 * k" using kb h by (simp add: unat_word_ariths)
  then have u: "unat a = unat ?b + 0x100000 * k" unfolding k(2) using kb h by (simp add: unat_word_ariths)
  show 1: "?b \<le> a" using u by (simp add: word_le_nat_alt)
  show 2: "a \<le> hi" using u kb by (simp add: word_le_nat_alt)
  have "unat (section_of ?b) = unat (section_of lo)" unfolding section_of_nat section_base_nat by simp
  then have "section_of ?b = section_of lo" by (simp add: word_unat_eq_iff)
  then show "section_of lo \<le> section_of a" "section_of a \<le> section_of hi" using section_of_mono [OF 1] section_of_mono [OF 2] by simp_all
qed

lemma sections_cover:
  assumes "lo \<le> v" "v \<le> hi"
  shows "\<exists>a\<in>set (sections lo hi). section_of a = section_of v"
proof -
  let ?b = "lo AND NOT 0xfffff"
  have b: "unat ?b \<le> unat lo" unfolding section_base_nat by (rule div_times_less_eq_dividend)
  have n: "unat lo \<le> unat v" "unat v \<le> unat hi" "unat hi < 2 ^ 32"
    using assms unsigned_less [of hi, where 'a = nat] by (simp_all add: word_le_nat_alt)
  define k where "k = (unat v - unat ?b) div 0x100000"
  have d: "0x100000 dvd unat ?b" unfolding section_base_nat by simp
  have kb: "unat ?b + 0x100000 * k \<le> unat v" unfolding k_def using b n by (simp add: mult.commute)
  let ?a = "?b + 0x100000 * word_of_nat k"
  have "unat (word_of_nat k :: u32) = k" using kb n by (simp add: unat_of_nat)
  then have "unat (0x100000 * word_of_nat k :: u32) = 0x100000 * k" using kb n by (simp add: unat_word_ariths)
  then have u: "unat ?a = unat ?b + 0x100000 * k" using kb n by (simp add: unat_word_ariths)
  have "unat v div 0x100000 = unat ?b div 0x100000 + k"
  proof -
    have "unat v = unat ?b + (unat v - unat ?b)" using b n by simp
    then have "unat v div 0x100000 = (unat ?b + (unat v - unat ?b)) div 0x100000" by simp
    also have "\<dots> = unat ?b div 0x100000 + k" unfolding k_def using d by (rule div_plus_div_distrib_dvd_left)
    finally show ?thesis .
  qed
  moreover have "unat ?a div 0x100000 = unat ?b div 0x100000 + k" unfolding u using d by simp
  ultimately have "unat (section_of ?a) = unat (section_of v)" unfolding section_of_nat by simp
  then have s: "section_of ?a = section_of v" by (simp add: word_unat_eq_iff)
  have "k < (unat hi - unat ?b) div 0x100000 + 1" unfolding k_def using n by (simp add: div_le_mono less_Suc_eq_le)
  moreover have "?b \<le> hi" using b n by (simp add: word_le_nat_alt)
  ultimately have "?a \<in> set (sections lo hi)" by (auto simp: sections_def region_pages_def simp del: upt_Suc)
  then show ?thesis using s by blast
qed

lemma same_section:
  assumes "section_of a = section_of b"
  shows "sec_data a = sec_data b" "sec_device a = sec_device b"
proof -
  have "x AND 0xfff00000 = push_bit 20 (section_of x)" for x :: u32 by (rule section_base)
  then have "a AND 0xfff00000 = b AND 0xfff00000" using assms by simp
  then show "sec_data a = sec_data b" "sec_device a = sec_device b" by (simp_all only: sec_data_def sec_device_def)
qed

subsection \<open>What mem_init maps on this board\<close>

definition requests :: "arm_layout \<Rightarrow> (u32 \<times> u32) list" where
  "requests L = image_requests (ly_image L) 0xfff00000"

lemma layout_devices:
  assumes "layout_ok L"
  shows "arm_devices (ly_image L) = [(0x101f1000, 0x101f1fff), (0x10000000, 0x10000fff)]"
  using assms by (simp add: layout_ok_def Let_def model_eval)

lemma layout_vector_page: "layout_ok L \<Longrightarrow> vector_page (ly_image L) = 0x500000"
  by (simp add: layout_ok_def Let_def vector_page_def)

lemma requests_eq:
  assumes "layout_ok L"
  shows "requests L = map (\<lambda>a. (a, sec_data a)) (sections (sym_vectors_start (ly_image L)) (sym_vectors_end (ly_image L)) @
      sections (arm_TEXT_START (ly_image L)) (arm_TEXT_END (ly_image L)) @ sections 0x08000000 (arm_DATA_END (ly_image L))) @
    [(0x10100000, sec_device 0x10100000), (0x10000000, sec_device 0x10000000), (0xfff00000, sec_data 0x500000)] @
    map (\<lambda>a. (a, sec_data a)) (sections 0x500000 0x600000)"
proof -
  have "sections 0x101f1000 0x101f1fff = [0x10100000]" "sections 0x10000000 0x10000fff = [0x10000000]"
    by (simp_all add: sections_def region_pages_def upt_rec)
  then have "device_requests (ly_image L) = [(0x10100000, sec_device 0x10100000), (0x10000000, sec_device 0x10000000)]"
    unfolding device_requests_def layout_devices [OF assms] by simp
  then show ?thesis
    using assms unfolding requests_def image_requests_def layout_vector_page [OF assms] by (simp add: layout_ok_def Let_def)
qed

lemma request_cases:
  assumes "layout_ok L" "(a, d) \<in> set (requests L)"
  obtains (low) "section_of a < 0x40" "d = sec_data a"
    | (data) "0x80 \<le> section_of a" "section_of a \<le> 0xff" "d = sec_data a"
    | (device) "section_of a = 0x100 \<or> section_of a = 0x101" "d = sec_device a"
    | (vectors) "section_of a = 0xfff" "d = sec_data 0x500000"
proof -
  let ?i = "ly_image L"
  note L = assms(1) [unfolded layout_ok_def Let_def]
  have num: "section_of 0x03ffffff = 0x3f" "section_of 0x0fffffff = 0xff" "section_of 0x08000000 = 0x80"
    "section_of 0x600000 = 6" "section_of 0xfff00000 = 0xfff"
    by (simp_all add: section_of_def)
  have below: "section_of b < 0x40" if "b \<in> set (sections lo hi)" "hi < 0x04000000" for b lo hi
  proof -
    have "hi \<le> 0x03ffffff" using that(2) by (simp add: word_less_nat_alt word_le_nat_alt)
    from section_of_mono [OF this] sections_range(4) [OF that(1)] have "section_of b \<le> 0x3f" unfolding num by (rule order_trans [rotated])
    then show ?thesis by (simp add: word_less_nat_alt word_le_nat_alt)
  qed
  have dat: "0x80 \<le> section_of b \<and> section_of b \<le> 0xff" if "b \<in> set (sections 0x08000000 hi)" "hi < 0x10000000" for b hi
  proof -
    have "hi \<le> 0x0fffffff" using that(2) by (simp add: word_less_nat_alt word_le_nat_alt)
    from section_of_mono [OF this] sections_range(4) [OF that(1)] have "section_of b \<le> 0xff" unfolding num by (rule order_trans [rotated])
    then show ?thesis using sections_range(3) [OF that(1)] unfolding num by simp
  qed
  have "(a \<in> set (sections (sym_vectors_start ?i) (sym_vectors_end ?i) @ sections (arm_TEXT_START ?i) (arm_TEXT_END ?i) @
        sections 0x08000000 (arm_DATA_END ?i) @ sections 0x500000 0x600000) \<and> d = sec_data a) \<or>
      (a \<in> {0x10100000, 0x10000000} \<and> d = sec_device a) \<or> (a, d) = (0xfff00000, sec_data 0x500000)"
    using assms(2) unfolding requests_eq [OF assms(1)] by auto
  then consider "(\<exists>lo hi. a \<in> set (sections lo hi) \<and> hi < 0x04000000) \<and> d = sec_data a"
    | "a \<in> set (sections 0x08000000 (arm_DATA_END ?i)) \<and> d = sec_data a"
    | "a \<in> {0x10100000, 0x10000000} \<and> d = sec_device a" | "(a, d) = (0xfff00000, sec_data 0x500000)"
    using L by (fastforce simp: word_less_nat_alt)
  then show thesis
  proof cases
    case 1
    then show ?thesis using below low by blast
  next
    case 2
    then show ?thesis using dat L data by blast
  next
    case 3
    then have "section_of a = 0x100 \<or> section_of a = 0x101" by (auto simp: section_of_def)
    then show ?thesis using 3 device by blast
  next
    case 4
    then show ?thesis using vectors num by simp
  qed
qed

lemma requests_agree:
  assumes "layout_ok L"
  shows "\<not> conflict (requests L)"
proof -
  have "d = e" if "(a, d) \<in> set (requests L)" "(b, e) \<in> set (requests L)" "section_of a = section_of b" for a b d e
  proof (cases rule: request_cases [OF assms that(1)])
    case 1
    then show ?thesis using same_section(1) [OF that(3)] that(3) by (cases rule: request_cases [OF assms that(2)]) auto
  next
    case 2
    then show ?thesis using same_section(1) [OF that(3)] that(3) by (cases rule: request_cases [OF assms that(2)]) (auto simp: word_le_nat_alt word_less_nat_alt)
  next
    case 3
    then show ?thesis using same_section(2) [OF that(3)] that(3) by (cases rule: request_cases [OF assms that(2)]) auto
  next
    case 4
    then show ?thesis using that(3) by (cases rule: request_cases [OF assms that(2)]) auto
  qed
  then show ?thesis by (fastforce simp: conflict_def)
qed

lemma requests_good: "(a, d) \<in> set (requests L) \<Longrightarrow> d AND 3 = 2"
  by (auto simp: requests_def image_requests_def device_requests_def sec_bits)

lemma requested: "layout_ok L \<Longrightarrow> (a, d) \<in> set (requests L) \<Longrightarrow> entered (requests L) (section_of a) = Some d"
  by (simp add: entered_in requests_agree)

text \<open>The view of the table once the pages of the physical range are mapped up to p.\<close>

definition phys_view :: "u32 \<Rightarrow> u32 \<Rightarrow> u32 option" where
  "phys_view p i = (if 0x40 \<le> i \<and> i < section_of p then Some (sec_data (push_bit 20 i)) else None)"

definition layout_view :: "arm_layout \<Rightarrow> u32 \<Rightarrow> u32 \<Rightarrow> u32 option" where
  "layout_view L p = entered (requests L) ++ phys_view p"

lemma section_of_push: "i < 0x1000 \<Longrightarrow> section_of (push_bit 20 i) = i"
proof -
  assume "i < 0x1000"
  then have "unat (push_bit 20 i) = unat i * 0x100000"
    by (simp add: push_bit_eq_mult unat_word_ariths word_less_nat_alt)
  then have "unat (section_of (push_bit 20 i)) = unat i" by (simp add: section_of_nat)
  then show ?thesis by (simp add: word_unat_eq_iff)
qed

lemma layout_view_image:
  assumes "section_of v < 0x40 \<or> 0x80 \<le> section_of v" "p \<le> 0x08000000"
  shows "layout_view L p (section_of v) = entered (requests L) (section_of v)"
proof -
  have "section_of p \<le> section_of 0x08000000" by (rule section_of_mono [OF assms(2)])
  then have "section_of p \<le> 0x80" by (simp add: section_of_def)
  then have "phys_view p (section_of v) = None"
    using assms(1) by (auto simp: phys_view_def word_le_nat_alt word_less_nat_alt)
  then show ?thesis by (simp add: layout_view_def map_add_def)
qed

lemma layout_view_data:
  assumes "layout_ok L" "0x08000000 \<le> v" "v < arm_DATA_END (ly_image L)" "p \<le> 0x08000000"
  shows "layout_view L p (section_of v) = Some (sec_data v)"
proof -
  obtain a where a: "a \<in> set (sections 0x08000000 (arm_DATA_END (ly_image L)))" "section_of a = section_of v"
    using sections_cover [OF assms(2) less_imp_le [OF assms(3)]] by auto
  then have "(a, sec_data a) \<in> set (requests L)" unfolding requests_eq [OF assms(1)] by auto
  then have "entered (requests L) (section_of v) = Some (sec_data v)"
    using requested [OF assms(1)] a(2) same_section(1) [OF a(2)] by metis
  moreover have "0x80 \<le> section_of v" using section_of_mono [OF assms(2)] by (simp add: section_of_def)
  ultimately show ?thesis using layout_view_image [OF _ assms(4), of v L] by simp
qed

lemma layout_view_device:
  assumes "layout_ok L" "section_of v = 0x100 \<or> section_of v = 0x101" "p \<le> 0x08000000"
  shows "layout_view L p (section_of v) = Some (sec_device v)"
proof -
  have "(0x10100000, sec_device 0x10100000) \<in> set (requests L)" "(0x10000000, sec_device 0x10000000) \<in> set (requests L)"
    by (simp_all add: requests_eq [OF assms(1)])
  moreover have "section_of 0x10100000 = 0x101" "section_of 0x10000000 = 0x100" by (simp_all add: section_of_def)
  ultimately obtain a where "(a, sec_device a) \<in> set (requests L)" "section_of a = section_of v" using assms(2) by metis
  then have "entered (requests L) (section_of v) = Some (sec_device v)"
    using requested [OF assms(1)] same_section(2) by metis
  moreover have "0x80 \<le> section_of v" using assms(2) by auto
  ultimately show ?thesis using layout_view_image [OF _ assms(3), of v L] by simp
qed

lemma layout_view_vectors:
  assumes "layout_ok L" "section_of v = 0xfff" "p \<le> 0x08000000"
  shows "layout_view L p (section_of v) = Some (sec_data 0x500000)"
proof -
  have "(0xfff00000, sec_data 0x500000) \<in> set (requests L)"
    by (simp add: requests_eq [OF assms(1)])
  then have "entered (requests L) (section_of v) = Some (sec_data 0x500000)"
    using requested [OF assms(1)] assms(2) by (fastforce simp: section_of_def)
  then show ?thesis using layout_view_image [OF _ assms(3), of v L] assms(2) by simp
qed

lemma layout_view_hole:
  assumes "layout_ok L" "p \<le> 0x08000000"
  shows "layout_view L p (section_of 0xc0000000) = None"
proof -
  have h: "section_of 0xc0000000 = 0xc00" by (simp add: section_of_def)
  have "section_of a \<noteq> 0xc00" if "(a, d) \<in> set (requests L)" for a d
    by (cases rule: request_cases [OF assms(1) that]) (auto simp: word_le_nat_alt word_less_nat_alt)
  then have "entered (requests L) 0xc00 = None" by (intro entered_none) auto
  then show ?thesis using layout_view_image [OF _ assms(2), of "0xc0000000" L] by (simp add: h)
qed

subsection \<open>The states of a benchmark\<close>

text \<open>High vectors (load_vectors of reset.S), and a processor the build supports.\<close>

definition cpu_ok :: "arm_layout \<Rightarrow> arm_state \<Rightarrow> bool" where
  "cpu_ok L c \<longleftrightarrow> CONTROL c AND 0x2000 \<noteq> 0 \<and>
     (if ARCH_ARMV7 (ly_image L) then mem_get_arm_arch_version c = 7 else mem_get_arm_arch_version c \<le> 5)"

definition mapped :: "arm_layout \<Rightarrow> u32 \<Rightarrow> arm_state \<Rightarrow> bool" where
  "mapped L p c \<longleftrightarrow> 0x04000000 \<le> p \<and> p \<le> 0x08000000 \<and> table_ok c \<and> section_view c = layout_view L p"

definition board_idle :: "arm_layout \<Rightarrow> arm_board \<Rightarrow> bool" where
  "board_idle L s \<longleftrightarrow> cpu_ok L (core s) \<and> \<not> mmu_on s"

definition board_tables :: "arm_layout \<Rightarrow> u32 \<Rightarrow> arm_board \<Rightarrow> bool" where
  "board_tables L p s \<longleftrightarrow> cpu_ok L (core s) \<and> \<not> mmu_on s \<and> mapped L p (core s)"

definition board_on :: "arm_layout \<Rightarrow> u32 \<Rightarrow> arm_board \<Rightarrow> bool" where
  "board_on L p s \<longleftrightarrow> cpu_ok L (core s) \<and> mmu_on s \<and> mapped L p (core s)"

fun trap_exception :: "trap \<Rightarrow> exception" where
  "trap_exception Bad_data = Data_abort" | "trap_exception Bad_fetch = Prefetch_abort"
| "trap_exception Bad_instruction = Undefined" | "trap_exception System_call = Software"

fun trap_routine :: "vector_syms \<Rightarrow> trap \<Rightarrow> u32" where
  "trap_routine v Bad_data = fn_dabt_skip v" | "trap_routine v Bad_fetch = fn_pabt_return v"
| "trap_routine v Bad_instruction = fn_undef_skip v" | "trap_routine v System_call = fn_swi_skip v"

definition board_handles :: "arm_layout \<Rightarrow> trap \<Rightarrow> arm_board \<Rightarrow> bool" where
  "board_handles L k s \<longleftrightarrow> arm_words (core s) (handler_word (ly_syms L) (trap_exception k)) = trap_routine (ly_syms L) k"

definition board_armed :: "arm_layout \<Rightarrow> arm_board \<Rightarrow> bool" where
  "board_armed L s \<longleftrightarrow> board_on L 0x04000000 s \<and> CPSR (core s) AND 0x80 = 0 \<and> arm_irq_handler (core s) \<noteq> None"

definition board_pending :: "arm_layout \<Rightarrow> arm_board \<Rightarrow> bool" where
  "board_pending L s \<longleftrightarrow> board_armed L s \<and> ly_irq_line L (io s)"

lemmas state_defs = board_idle_def board_tables_def board_on_def board_handles_def board_armed_def board_pending_def mmu_on_def

lemma layout_image_ok: "layout_ok L \<Longrightarrow> arm_image_ok (ly_image L)"
proof -
  assume ok: "layout_ok L"
  have lt: "x < 0x04000000 \<Longrightarrow> x < 0xfff00000" "x < 0x10000000 \<Longrightarrow> x < 0xfff00000" for x :: u32
    by (simp_all add: word_less_nat_alt)
  show ?thesis
    using ok lt unfolding arm_image_ok_def layout_devices [OF ok] layout_vector_page [OF ok] by (simp add: layout_ok_def Let_def)
qed

lemma high_vectors:
  assumes "CONTROL c AND 0x2000 \<noteq> 0"
  shows "vector_section c = 0xfff00000" "vector_base c = 0xffff0000"
  using assms by (simp_all add: vector_section_def vector_base_def push_bit_eq_mult)

lemma midr_version: "MIDR c' = MIDR c \<Longrightarrow> mem_get_arm_arch_version c' = mem_get_arm_arch_version c"
  by (simp add: mem_get_arm_arch_version_def)

lemma cpu_ok_same: "cpu_ok L c \<Longrightarrow> CONTROL c' = CONTROL c \<Longrightarrow> MIDR c' = MIDR c \<Longrightarrow> cpu_ok L c'"
  using midr_version [of c' c] by (simp add: cpu_ok_def)

lemma check_frame': "MIDR (mem_check_is_tlb_unified s) = MIDR s" "MIDR (mem_check_is_cache_unified s) = MIDR s"
proof -
  show "MIDR (mem_check_is_tlb_unified s) = MIDR s" by (simp add: mem_check_is_tlb_unified_def)
  obtain v where v: "mem_get_arm_arch_version s = v" by simp
  show "MIDR (mem_check_is_cache_unified s) = MIDR s"
    unfolding mem_check_is_cache_unified_def Let_def v if_distrib [of MIDR] by simp
qed

lemma layout_view_start: "layout_view L 0x04000000 = entered (requests L)"
proof -
  have "section_of 0x04000000 = 0x40" by (simp add: section_of_def)
  then have "phys_view 0x04000000 = Map.empty" by (auto simp: phys_view_def fun_eq_iff)
  then show ?thesis by (simp add: layout_view_def)
qed

lemma mem_init_maps:
  assumes "layout_ok L" "cpu_ok L c"
  shows "\<exists>c'. arm_mem_init (ly_image L) c = Some (Inr c') \<and> mapped L 0x04000000 c' \<and> CONTROL c' = CONTROL c \<and> MIDR c' = MIDR c"
proof -
  note v = high_vectors [OF conjunct1 [OF assms(2) [unfolded cpu_ok_def]]]
  have o: "\<not> offsets_differ (ly_image L) c"
    using assms(1) by (simp add: offsets_differ_def v layout_ok_def Let_def)
  have g: "\<forall>(a, d)\<in>set (requests L). d AND 3 = 2" using requests_good by blast
  have n: "(\<forall>(a, d)\<in>set (requests L). section_view (reset_table c) (section_of a) \<in> {None, Some d}) \<and> \<not> conflict (requests L)"
    using requests_agree [OF assms(1)] by (auto simp: reset_table_facts)
  obtain t where t: "enter_list (requests L) (reset_table c) = Inr ((reset_table c)\<lparr>section_table := t\<rparr>)"
    "table_ok ((reset_table c)\<lparr>section_table := t\<rparr>)"
    "section_view ((reset_table c)\<lparr>section_table := t\<rparr>) = entered (requests L)"
    using enter_list_exact [OF reset_table_facts(1) g, of c, unfolded if_P [OF n]]
    by (auto simp: reset_table_facts(2) map_add_def fun_eq_iff split: option.splits)
  let ?c = "(write_dacr 0xffffffff ((reset_table c)\<lparr>section_table := t\<rparr>))\<lparr>arm_mem_inited := 1\<rparr>"
  have e: "arm_mem_init (ly_image L) c = Some (Inr ?c)"
    unfolding arm_mem_init_eq [OF layout_image_ok [OF assms(1)]] v requests_def [symmetric] using o t(1) by simp
  have s: "section_table ?c = section_table ((reset_table c)\<lparr>section_table := t\<rparr>)" by (simp add: write_dacr_def)
  have "mapped L 0x04000000 ?c"
    unfolding mapped_def layout_view_start using same_table [OF s] t(2,3) by simp
  moreover have "CONTROL ?c = CONTROL c" "MIDR ?c = MIDR c"
    by (simp_all add: write_dacr_def reset_table_def write_ttbr_def check_frame check_frame')
  ultimately show ?thesis using e by blast
qed

lemma next_section:
  assumes "p AND 0xfffff = 0" "p < 0x08000000"
  shows "section_of (p + 0x100000) = section_of p + 1" "p + 0x100000 \<le> 0x08000000"
proof -
  have d: "0x100000 dvd unat p" using assms(1) aligned_nat by (simp add: aligned_def)
  have lt: "unat p < 0x08000000" using assms(2) by (simp add: word_less_nat_alt)
  then have u: "unat (p + 0x100000) = unat p + 0x100000" by (simp add: unat_word_ariths)
  obtain k where k: "unat p = 0x100000 * k" using d by (auto elim: dvdE)
  then show "p + 0x100000 \<le> 0x08000000" using lt u by (simp add: word_le_nat_alt)
  have "unat (section_of (p + 0x100000)) = k + 1" "unat (section_of p) = k" by (simp_all add: section_of_nat u k)
  moreover from this have "unat (section_of p + 1) = k + 1" using lt k by (simp add: unat_word_ariths)
  ultimately show "section_of (p + 0x100000) = section_of p + 1" by (simp add: word_unat_eq_iff)
qed

lemma map_next_page:
  assumes ok: "layout_ok L" and m: "mapped L p c" and p: "p AND 0xfffff = 0" "p < 0x08000000"
  shows "\<exists>c'. arm_create_page_mapping_data p p c = Inr (0, c') \<and> mapped L (p + 0x100000) c' \<and> CONTROL c' = CONTROL c \<and> MIDR c' = MIDR c"
proof -
  note M = m [unfolded mapped_def]
  have lo: "0x40 \<le> section_of p" using section_of_mono [of "0x04000000" p] M by (simp add: section_of_def)
  have hi: "section_of p < 0x80"
  proof -
    have "p \<le> 0x07ffffff" using p(2) by (simp add: word_less_nat_alt word_le_nat_alt)
    then have "section_of p \<le> 0x7f" using section_of_mono [of p "0x07ffffff"] by (simp add: section_of_def)
    then show ?thesis by (simp add: word_less_nat_alt word_le_nat_alt)
  qed
  have e: "entered (requests L) (section_of p) = None"
  proof (rule entered_none, rule notI)
    assume "section_of p \<in> section_of ` fst ` set (requests L)"
    then obtain a d where a: "(a, d) \<in> set (requests L)" "section_of p = section_of a" by auto
    show False using lo hi unfolding a(2)
      by (cases rule: request_cases [OF ok a(1)]) (auto simp: word_le_nat_alt word_less_nat_alt)
  qed
  have v: "section_view c (section_of p) = None" using M e by (simp add: layout_view_def map_add_def phys_view_def)
  have al: "aligned p" using p(1) by (simp add: aligned_def)
  let ?c = "c\<lparr>section_table := (section_table c)[unat (section_of p) := sec_data p]\<rparr>"
  have s: "enter_section (sec_data p) p c = Inr (0, ?c)"
    using enter_section_cases [OF _ sec_bits(1), of c p p] M v by simp
  note E = enter_section_ok [OF _ sec_bits(1) s]
  have "layout_view L (p + 0x100000) = (layout_view L p)(section_of p \<mapsto> sec_data p)"
  proof
    fix i
    have b: "sec_data (push_bit 20 (section_of p)) = sec_data p"
      using section_of_push [of "section_of p"] hi by (intro same_section) (simp add: word_less_nat_alt)
    have sp: "i < section_of p + 1 \<longleftrightarrow> i < section_of p \<or> i = section_of p"
    proof -
      have "unat (section_of p + 1) = unat (section_of p) + 1" using hi by (simp add: unat_word_ariths word_less_nat_alt)
      then show ?thesis by (auto simp: word_less_nat_alt word_unat_eq_iff)
    qed
    show "layout_view L (p + 0x100000) i = ((layout_view L p)(section_of p \<mapsto> sec_data p)) i"
      unfolding layout_view_def map_add_def fun_upd_apply phys_view_def next_section(1) [OF p] sp using lo b by auto
  qed
  moreover have "0x04000000 \<le> p + 0x100000"
  proof -
    have "unat (p + 0x100000) = unat p + 0x100000" using p(2) by (simp add: unat_word_ariths word_less_nat_alt)
    then show ?thesis using M by (simp add: word_le_nat_alt)
  qed
  ultimately have "mapped L (p + 0x100000) ?c"
    using E(2,3) M next_section(2) [OF p] unfolding mapped_def by simp
  then show ?thesis using s arm_map_enter(1) [OF al al] by simp
qed

subsection \<open>Accesses in these states\<close>

lemma access_off: "\<not> mmu_on s \<Longrightarrow> access va s = Some va"
  by (simp add: access_def)

lemma access_on:
  assumes "mmu_on s" "mapped L p (core s)"
  shows "access va s = map_option (\<lambda>d. fst (section_target d va)) (layout_view L p (section_of va))"
proof -
  have "table_ok (core s)" "section_view (core s) = layout_view L p" using assms(2) by (simp_all add: mapped_def)
  then show ?thesis using arm_translate_view [of "core s" va] assms(1) by (simp add: access_def option.map_comp o_def)
qed

lemma target_same: "fst (section_target (sec_data va) va) = va" "fst (section_target (sec_device va) va) = va"
proof -
  have b: "((va AND 0xfff00000) OR x) AND 0xfff00000 = va AND 0xfff00000" if "x AND 0xfff00000 = 0" for x
    using that by (simp add: bit.conj_disj_distrib2 and.assoc)
  have m: "(va AND 0xfff00000) OR (va AND 0xfffff) = va"
  proof -
    have "(0xfff00000 OR 0xfffff :: u32) = - 1" by simp
    then show ?thesis unfolding bit.conj_disj_distrib [symmetric] by (simp only: and.right_neutral)
  qed
  show "fst (section_target (sec_data va) va) = va" "fst (section_target (sec_device va) va) = va"
    by (simp_all add: section_target_def sec_data_def sec_device_def b m)
qed

lemma mapped_le: "mapped L p c \<Longrightarrow> p \<le> 0x08000000"
  by (simp add: mapped_def)

text \<open>The data of the image, the pages of the physical range and the registers are mapped to themselves.\<close>

lemma reaches_data:
  assumes "layout_ok L" "mapped L p (core s)" "0x08000000 \<le> va" "va < arm_DATA_END (ly_image L)"
  shows "access va s = Some va"
  using layout_view_data [OF assms(1,3,4) mapped_le [OF assms(2)]] access_on [OF _ assms(2), of va] access_off [of s va] target_same
  by (cases "mmu_on s") simp_all

lemma reaches_device:
  assumes "layout_ok L" "mmu_on s \<Longrightarrow> mapped L p (core s)" "section_of va = 0x100 \<or> section_of va = 0x101"
  shows "access va s = Some va"
proof (cases "mmu_on s")
  case True
  then show ?thesis
    using layout_view_device [OF assms(1,3) mapped_le [OF assms(2) [OF True]]] access_on [OF True assms(2) [OF True], of va] target_same
    by simp
qed (rule access_off)

lemma reaches_phys:
  assumes "mapped L 0x08000000 (core s)" "0x04000000 \<le> va" "va < 0x08000000"
  shows "access va s = Some va"
proof (cases "mmu_on s")
  case True
  have "va \<le> 0x07ffffff" using assms(3) by (simp add: word_less_nat_alt word_le_nat_alt)
  then have "section_of va \<le> 0x7f" using section_of_mono [of va "0x07ffffff"] by (simp add: section_of_def)
  then have hi: "section_of va < 0x80" by (simp add: word_less_nat_alt word_le_nat_alt)
  have lo: "0x40 \<le> section_of va" using section_of_mono [OF assms(2)] by (simp add: section_of_def)
  have "section_of 0x08000000 = 0x80" by (simp add: section_of_def)
  then have "layout_view L 0x08000000 (section_of va) = Some (sec_data (push_bit 20 (section_of va)))"
    using lo hi by (simp add: layout_view_def phys_view_def map_add_def)
  moreover have "sec_data (push_bit 20 (section_of va)) = sec_data va"
    using section_of_push [of "section_of va"] hi by (intro same_section) (simp add: word_less_nat_alt)
  ultimately show ?thesis using access_on [OF True assms(1), of va] target_same by simp
qed (rule access_off)

lemma hole:
  assumes "layout_ok L" "board_on L p s"
  shows "access 0xc0000000 s = None"
proof -
  have m: "mmu_on s" "mapped L p (core s)" using assms(2) by (simp_all add: board_on_def)
  then show ?thesis using layout_view_hole [OF assms(1) mapped_le [OF m(2)]] access_on [OF m, of "0xc0000000"] by simp
qed

text \<open>The word a trampoline reads is the handler word of the exception in the relocated vectors.\<close>

lemma vector_target:
  assumes "off < 0x10000"
  shows "section_of (0xffff0000 + off) = 0xfff"
    and "fst (section_target (sec_data 0x500000) (0xffff0000 + off)) = off + 0x5f0000"
proof -
  have o: "unat off < 0x10000" using assms by (simp add: word_less_nat_alt)
  then have u: "unat (0xffff0000 + off) = 0xffff0000 + unat off" by (simp add: unat_word_ariths)
  then have "unat (section_of (0xffff0000 + off)) = 0xfff" using o unfolding section_of_nat by simp
  then show "section_of (0xffff0000 + off) = 0xfff" by (simp add: word_unat_eq_iff)
  have "unat (take_bit 16 off) = unat off" unfolding unsigned_take_bit_eq take_bit_nat_def using o by simp
  then have "take_bit 16 off = off" by (simp only: word_unat_eq_iff)
  then have m: "0xffff AND off = off" by (simp add: take_bit_eq_mask mask_eq_exp_minus_1 and.commute)
  have add: "b + off = b OR off" if "b AND 0xffff = 0" for b :: u32
  proof (rule disjunctive_add_eq_or)
    have "b AND off = (b AND 0xffff) AND off" unfolding and.assoc m ..
    then show "b AND off = 0" using that by simp
  qed
  have k: "x AND off = (x AND 0xffff) AND off" for x unfolding and.assoc m ..
  have "0xfffff AND off = off" "0xfff00000 AND off = 0" by (subst k, simp add: m)+
  then have "fst (section_target (sec_data 0x500000) (0xffff0000 + off)) = 0x500000 OR (0xf0000 OR off)"
    by (simp add: section_target_def sec_data_def add bit.conj_disj_distrib and.commute)
  also have "\<dots> = 0x5f0000 + off" by (simp add: add or.assoc [symmetric])
  finally show "fst (section_target (sec_data 0x500000) (0xffff0000 + off)) = off + 0x5f0000" by (simp add: add.commute)
qed

end
