(* ===== verification/Versatile_Suite.thy ===== *)
theory Versatile_Suite
  imports Versatile_Machine
begin

text \<open>
  The Versatile machine satisfies the laws of the locale port, so that the whole suite runs on it;
  the report of the run is what its serial port receives. The last part is an image laid out as the
  board's linker script does, on which the theorems apply.
\<close>

section \<open>The laws of a port\<close>

subsection \<open>Which parts of the state matter\<close>

lemma states_same:
  assumes "CONTROL c = CONTROL (core s)" "MIDR c = MIDR (core s)" "section_table c = section_table (core s)"
  shows "board_idle L (s\<lparr>core := c\<rparr>) = board_idle L s" "board_tables L p (s\<lparr>core := c\<rparr>) = board_tables L p s"
    "board_on L p (s\<lparr>core := c\<rparr>) = board_on L p s" "mmu_on (s\<lparr>core := c\<rparr>) = mmu_on s"
proof -
  have c: "cpu_ok L c = cpu_ok L (core s)" using assms(1) midr_version [OF assms(2)] by (simp add: cpu_ok_def)
  have m: "mapped L p c = mapped L p (core s)" using same_table [OF assms(3)] by (simp add: mapped_def)
  show "board_idle L (s\<lparr>core := c\<rparr>) = board_idle L s" "board_tables L p (s\<lparr>core := c\<rparr>) = board_tables L p s"
    "board_on L p (s\<lparr>core := c\<rparr>) = board_on L p s" "mmu_on (s\<lparr>core := c\<rparr>) = mmu_on s"
    by (simp_all add: state_defs c m assms(1))
qed

lemma states_io:
  "board_idle L (s\<lparr>io := m\<rparr>) = board_idle L s" "board_on L p (s\<lparr>io := m\<rparr>) = board_on L p s"
  "board_handles L k (s\<lparr>io := m\<rparr>) = board_handles L k s" "board_armed L (s\<lparr>io := m\<rparr>) = board_armed L s"
  by (simp_all add: state_defs)

lemma states_statics:
  "board_idle L (s\<lparr>board_statics := st\<rparr>) = board_idle L s" "board_on L p (s\<lparr>board_statics := st\<rparr>) = board_on L p s"
  "board_tables L p (s\<lparr>board_statics := st\<rparr>) = board_tables L p s"
  "board_armed L (s\<lparr>board_statics := st\<rparr>) = board_armed L s" "board_pending L (s\<lparr>board_statics := st\<rparr>) = board_pending L s"
  by (simp_all add: state_defs)

lemma uart_text_core [simp]: "uart_text (s\<lparr>core := c\<rparr>) = uart_text s" "uart_text (s\<lparr>board_statics := st\<rparr>) = uart_text s"
  by (simp_all add: uart_text_def)

lemma uart_text_store: "a \<noteq> versatile_UART0_BASE \<Longrightarrow> uart_text (s\<lparr>io := store_reg a v m\<rparr>) = received versatile_UART0_BASE m"
  by (simp add: uart_text_def received_store)

text \<open>An operation on the processor that leaves the mode, the processor's identity and the table alone.\<close>

definition harmless :: "(arm_state \<Rightarrow> arm_state) \<Rightarrow> bool" where
  "harmless f \<longleftrightarrow> (\<forall>c. CONTROL (f c) = CONTROL c \<and> MIDR (f c) = MIDR c \<and> section_table (f c) = section_table c)"

lemma harmless_ops:
  "harmless arm_tlb_flush" "harmless (arm_tlb_evict a)" "harmless (arm_code_flush a)" "harmless (arm_irq_install_handler h)"
  "harmless (arm_irq_enable b)" "harmless (arm_irq_disable b)" "harmless arm_priv_enter" "harmless arm_priv_leave"
  "harmless (store_word a v)"
  by (simp_all add: harmless_def arm_tlb_flush_def arm_tlb_evict_def arm_code_flush_def cp15_def arm_irq_install_handler_def
      arm_irq_enable_def arm_irq_disable_def msr_cpsr_c_def Let_def arm_priv_enter_def arm_priv_leave_def store_word_def)

lemma keeps_harmless:
  assumes "harmless f"
  shows "keeps uart_text (board_idle L) (board_idle L) {} (on_core f)"
    "keeps uart_text (board_on L p) (board_on L p) {} (on_core f)"
    "keeps uart_text (with_statics (versatile_machine M) st (board_on L p)) (with_statics (versatile_machine M) st (board_on L p)) {} (on_core f)"
  using assms states_same
  by (simp_all add: keeps_def on_core_def harmless_def with_statics_def versatile_machine_def)

subsection \<open>Memory management\<close>

lemma control_bits:
  fixes c :: u32
  shows "(c OR 0x0400400d) AND 0x2000 = c AND 0x2000" "(c OR 0x0400400d) AND 1 \<noteq> 0"
    "(c AND NOT 0xd) AND 0x2000 = c AND 0x2000" "(c AND NOT 0xd) AND 1 = 0"
proof -
  have o: "(c OR 0x0400400d) AND x = (c AND x) OR (0x0400400d AND x)" for x by (rule bit.conj_disj_distrib2)
  show "(c OR 0x0400400d) AND 0x2000 = c AND 0x2000" unfolding o by simp
  have "bit ((c OR 0x0400400d) AND 1) 0" by (simp add: bit_simps)
  then show "(c OR 0x0400400d) AND 1 \<noteq> 0" by auto
  show "(c AND NOT 0xd) AND 0x2000 = c AND 0x2000" "(c AND NOT 0xd) AND 1 = 0" unfolding and.assoc by simp_all
qed

lemma supported:
  assumes "cpu_ok L c"
  shows "mem_cache_implemented c = 0 \<or> mem_get_arm_arch_version c \<le> 5 \<or> ARCH_ARMV7 (ly_image L)"
    "mem_get_arm_arch_version c = 7 \<longleftrightarrow> ARCH_ARMV7 (ly_image L)"
  using assms by (auto simp: cpu_ok_def not_less split: if_splits)

lemma enable_step:
  assumes "board_tables L p s"
  shows "\<exists>s'. core_step (arm_mmu_enable (\<lambda>c. c) (ly_image L)) s = Inr s' \<and> board_on L p s' \<and> uart_text s' = uart_text s \<and>
    board_statics s' = board_statics s"
proof -
  have c: "cpu_ok L (core s)" "mapped L p (core s)" using assms by (simp_all add: board_tables_def)
  obtain ops where e: "arm_mmu_enable (\<lambda>c. c) (ly_image L) (core s) =
      Inr ((core s)\<lparr>CONTROL := CONTROL (core s) OR 0x0400400d, cp15_ops := ops\<rparr>)"
    using supported(1) [OF c(1)] by (rule arm_mmu_enable_control)
  let ?c = "(core s)\<lparr>CONTROL := CONTROL (core s) OR 0x0400400d, cp15_ops := ops\<rparr>"
  have "mem_get_arm_arch_version ?c = mem_get_arm_arch_version (core s)" by (rule midr_version) simp
  then have "cpu_ok L ?c" using c(1) by (simp add: cpu_ok_def control_bits)
  moreover have "mapped L p ?c" using c(2) same_table [of ?c "core s"] by (simp add: mapped_def)
  ultimately have "board_on L p (s\<lparr>core := ?c\<rparr>)" by (simp add: board_on_def mmu_on_def control_bits)
  then show ?thesis using e by (simp add: core_step_def)
qed

lemma disable_step:
  assumes "board_on L p s"
  shows "\<exists>s'. core_step (arm_mmu_disable (ly_image L)) s = Inr s' \<and> board_idle L s' \<and> uart_text s' = uart_text s"
proof -
  have c: "cpu_ok L (core s)" using assms by (simp add: board_on_def)
  obtain op where e: "arm_mmu_disable (ly_image L) (core s) = Inr (cache_mmu_off op (core s))"
    using supported(2) [OF c] by (auto simp: arm_mmu_disable_def)
  have "mem_get_arm_arch_version (cache_mmu_off op (core s)) = mem_get_arm_arch_version (core s)"
    by (rule midr_version) (simp add: cache_mmu_off_def cp15_def)
  then have "board_idle L (s\<lparr>core := cache_mmu_off op (core s)\<rparr>)"
    using c control_bits(3,4) [of "CONTROL (core s)"] by (simp add: board_idle_def mmu_on_def cpu_ok_def cache_mmu_off_def cp15_def)
  then show ?thesis using e by (simp add: core_step_def)
qed

lemma init_step:
  assumes "layout_ok L" "board_idle L s"
  shows "\<exists>s'. core_loop (arm_mem_init (ly_image L)) s = Inr s' \<and> board_tables L 0x04000000 s' \<and> uart_text s' = uart_text s"
    and "\<exists>s'. core_loop (arm_mem_reset (ly_image L)) s = Inr s' \<and> board_idle L s' \<and> uart_text s' = uart_text s"
proof -
  have c: "cpu_ok L (core s)" "\<not> mmu_on s" using assms(2) by (simp_all add: board_idle_def)
  obtain c1 where 1: "arm_mem_init (ly_image L) (core s) = Some (Inr c1)" "mapped L 0x04000000 c1"
    "CONTROL c1 = CONTROL (core s)" "MIDR c1 = MIDR (core s)" using mem_init_maps [OF assms(1) c(1)] by blast
  then show "\<exists>s'. core_loop (arm_mem_init (ly_image L)) s = Inr s' \<and> board_tables L 0x04000000 s' \<and> uart_text s' = uart_text s"
    using cpu_ok_same [OF c(1) 1(3,4)] c(2) by (simp add: core_loop_def board_tables_def mmu_on_def)
  let ?c = "(core s)\<lparr>arm_mem_inited := 0\<rparr>"
  have r: "cpu_ok L ?c" by (rule cpu_ok_same [OF c(1)]) simp_all
  obtain c2 where 2: "arm_mem_init (ly_image L) ?c = Some (Inr c2)" "CONTROL c2 = CONTROL ?c" "MIDR c2 = MIDR ?c"
    using mem_init_maps [OF assms(1) r] by blast
  then show "\<exists>s'. core_loop (arm_mem_reset (ly_image L)) s = Inr s' \<and> board_idle L s' \<and> uart_text s' = uart_text s"
    using cpu_ok_same [OF r 2(2,3)] c(2) by (simp add: core_loop_def arm_mem_reset_def board_idle_def mmu_on_def)
qed

lemma map_step:
  assumes "layout_ok L" "board_tables L p s" "p AND 0xfffff = 0" "p < 0x08000000"
  shows "\<exists>s'. core_step (\<lambda>c. bindE (arm_create_page_mapping_data p p c) (\<lambda>(rc, c). Inr c)) s = Inr s' \<and>
    board_tables L (p + 0x100000) s' \<and> uart_text s' = uart_text s \<and> board_statics s' = board_statics s"
proof -
  have t: "cpu_ok L (core s)" "\<not> mmu_on s" "mapped L p (core s)" using assms(2) by (simp_all add: board_tables_def)
  obtain c where "arm_create_page_mapping_data p p (core s) = Inr (0, c)" "mapped L (p + 0x100000) c"
    "CONTROL c = CONTROL (core s)" "MIDR c = MIDR (core s)" using map_next_page [OF assms(1) t(3) assms(3,4)] by blast
  then show ?thesis using cpu_ok_same [OF t(1)] t(2) by (simp add: core_step_def board_tables_def mmu_on_def)
qed

text \<open>Mapping a variable of the data region again: refused if it is not aligned to a section, and no change otherwise.\<close>

lemma map_value_step:
  assumes "layout_ok L" "board_tables L p s" "0x08000000 \<le> a" "a < arm_DATA_END (ly_image L)"
  shows "\<exists>s'. core_step (\<lambda>c. bindE (arm_create_page_mapping_data a a c) (\<lambda>(rc, c). Inr c)) s = Inr s' \<and>
    board_tables L p s' \<and> uart_text s' = uart_text s"
proof (cases "aligned a")
  case False
  then have "arm_create_page_mapping_data a a (core s) = Inr (1, core s)"
    by (simp add: arm_create_page_mapping_data_def page_size_facts aligned_def)
  then show ?thesis using assms(2) by (simp add: core_step_def)
next
  case True
  have t: "cpu_ok L (core s)" "\<not> mmu_on s" "mapped L p (core s)" using assms(2) by (simp_all add: board_tables_def)
  then have ok: "table_ok (core s)" and w: "section_view (core s) = layout_view L p" by (simp_all add: mapped_def)
  have v: "section_view (core s) (section_of a) = Some (sec_data a)"
    unfolding w by (rule layout_view_data [OF assms(1,3,4) mapped_le [OF t(3)]])
  let ?c = "(core s)\<lparr>section_table := (section_table (core s))[unat (section_of a) := sec_data a]\<rparr>"
  have e: "enter_section (sec_data a) a (core s) = Inr (0, ?c)"
    using enter_section_cases [OF ok sec_bits(1), of a a] v by simp
  note E = enter_section_ok [OF ok sec_bits(1) e]
  have "section_view ?c = layout_view L p" unfolding E(3) w [symmetric] using v by (auto simp: fun_eq_iff)
  then have "mapped L p ?c" using E(2) t(3) by (simp add: mapped_def)
  moreover have "cpu_ok L ?c" by (rule cpu_ok_same [OF t(1)]) simp_all
  ultimately show ?thesis
    using e t(2) arm_map_enter(1) [OF True True] by (simp add: core_step_def board_tables_def mmu_on_def)
qed

subsection \<open>Exceptions and interrupts\<close>

lemma syms_facts:
  assumes "layout_ok L"
  shows "syms_ok (ly_syms L)" "handler_slot (ly_syms L) (trap_exception t) - vectors_base (ly_syms L) < 0x10000"
    "handler_word (ly_syms L) k = (handler_slot (ly_syms L) k - vectors_base (ly_syms L)) + 0x5f0000"
  using assms by (cases t; simp add: layout_ok_def Let_def handler_word_def)+

lemma vector_access:
  assumes "layout_ok L" "board_on L p s"
  shows "access (vector_word L (trap_exception t) s) s = Some (handler_word (ly_syms L) (trap_exception t))"
proof -
  let ?k = "trap_exception t"
  have m: "mmu_on s" "mapped L p (core s)" "CONTROL (core s) AND 0x2000 \<noteq> 0" using assms(2) by (simp_all add: board_on_def cpu_ok_def)
  let ?off = "handler_slot (ly_syms L) ?k - vectors_base (ly_syms L)"
  have w: "vector_word L ?k s = 0xffff0000 + ?off" by (simp add: vector_word_def high_vectors(2) [OF m(3)])
  note V = vector_target [OF syms_facts(2) [OF assms(1), of t]]
  have "layout_view L p (section_of (0xffff0000 + ?off)) = Some (sec_data 0x500000)"
    by (rule layout_view_vectors [OF assms(1) V(1) mapped_le [OF m(2)]])
  then show ?thesis using access_on [OF m(1,2), of "0xffff0000 + ?off"] V(2) unfolding w syms_facts(3) [OF assms(1)] by simp
qed

lemma raised_handled:
  assumes "layout_ok L" "board_on L p s" "board_handles L k s"
  shows "raised L (trap_exception k) pc lr continue s =
    (if resume (ly_syms L) (trap_routine (ly_syms L) k) (exception_lr (trap_exception k) pc) lr = Some continue then Inr s
     else Inl (Lost (trap_exception k)))"
  using assms(3) vector_access [OF assms(1,2)] by (simp add: raised_def board_handles_def)

lemma resumes:
  assumes "syms_ok v"
  shows "resume v (fn_dabt_skip v) lr u = Some (lr - 4)" "resume v (fn_pabt_return v) lr u = Some u"
    "resume v (fn_undef_skip v) lr u = Some lr" "resume v (fn_swi_skip v) lr u = Some lr"
  using assms by (auto simp: resume_def syms_ok_def)

lemma trap_resumes:
  assumes "layout_ok L" "board_on L p s" "board_handles L k s"
  shows "raise_trap (versatile_machine L) k s = Inr s"
proof -
  note r = raised_handled [OF assms] and v = resumes [OF syms_facts(1) [OF assms(1)]] and h = hole [OF assms(1,2)]
  show ?thesis
    by (cases k) (use r h in \<open>auto simp: versatile_machine_def discard_def arm_load32_def data_abort_def arm_jump_def
      arm_undefined_instruction_def arm_syscall_def v\<close>)
qed

lemma install_step:
  assumes "board_on L p s"
  shows "\<exists>s'. install_handler (versatile_machine L) k s = Inr s' \<and> board_on L p s' \<and> board_handles L k s' \<and> uart_text s' = uart_text s"
proof -
  let ?c = "store_word (handler_word (ly_syms L) (trap_exception k)) (trap_routine (ly_syms L) k) (core s)"
  have "install_handler (versatile_machine L) k s = Inr (s\<lparr>core := ?c\<rparr>)"
    by (cases k) (simp_all add: versatile_machine_def on_core_def install_eqs)
  moreover have "board_on L p (s\<lparr>core := ?c\<rparr>)" using assms states_same(3) [of ?c s L p] by (simp add: store_word_def)
  moreover have "board_handles L k (s\<lparr>core := ?c\<rparr>)" by (simp add: board_handles_def store_word_def)
  ultimately show ?thesis by simp
qed

lemma irq_masks:
  "CPSR (arm_irq_enable b c) AND 0x80 = 0"
proof -
  have "(x AND NOT 0x80) AND 0x80 = 0" for x :: u32 by (simp add: and.assoc)
  then show ?thesis by (simp add: arm_irq_builds_agree)
qed

lemma arm_step:
  assumes "board_on L 0x04000000 s"
  shows "\<exists>s'. bindE (on_core (arm_irq_install_handler (Some 0)) s) (on_core (arm_irq_enable b)) = Inr s' \<and> board_armed L s' \<and>
    uart_text s' = uart_text s"
proof -
  let ?c = "arm_irq_enable b (arm_irq_install_handler (Some 0) (core s))"
  have "board_on L 0x04000000 (s\<lparr>core := ?c\<rparr>)"
    using assms harmless_ops(4) [of "Some 0"] harmless_ops(5) [of b] states_same(3) [of ?c s L "0x04000000"] by (simp add: harmless_def)
  moreover have "arm_irq_handler ?c = Some 0"
    by (simp add: arm_irq_builds_agree arm_irq_install_handler_def)
  ultimately show ?thesis using irq_masks [of b "arm_irq_install_handler (Some 0) (core s)"] by (simp add: on_core_def board_armed_def)
qed

lemma swi_sections:
  "a \<in> set (swi_registers Versatile) \<Longrightarrow> section_of a = 0x101" "section_of versatile_UART0_BASE = 0x101"
  by (auto simp: versatile_PL190_BASE_def section_of_def versatile_UART0_BASE_def)

lemma through_mmu_on:
  assumes "layout_ok L" "board_on L p s"
  shows "through_mmu (swi_registers Versatile) f s = Inr (s\<lparr>io := f (io s)\<rparr>)"
proof -
  have "access a s = Some a" if "a \<in> set (swi_registers Versatile)" for a
    using reaches_device [OF assms(1), of s p a] assms(2) swi_sections(1) [OF that] by (simp add: board_on_def)
  then show ?thesis unfolding through_mmu_def by (metis (no_types, lifting))
qed

lemma swi_text:
  "received versatile_UART0_BASE (versatile_trigger_swi m) = received versatile_UART0_BASE m"
  "received versatile_UART0_BASE (versatile_clear_swi m) = received versatile_UART0_BASE m"
  by (simp_all add: versatile_trigger_swi_def versatile_clear_swi_def received_store versatile_PL190_BASE_def versatile_UART0_BASE_def)

subsection \<open>Memory\<close>

lemma states_store: "board_idle L (memory_store a v s) = board_idle L s" "board_on L p (memory_store a v s) = board_on L p s"
  "uart_text (memory_store a v s) = uart_text s" "board_statics (memory_store a v s) = board_statics s"
  unfolding memory_store_def by (subst states_same; simp)+ simp_all

text \<open>Accesses to an address of the memory that is reached under itself.\<close>

lemma memory_ops:
  assumes "access a s = Some a" "a < 0x10000000"
  shows "\<exists>v. arm_load32 L a s = Inr (v, s)" "\<exists>v. arm_load8 L a s = Inr (v, s)"
    "\<exists>w. arm_store32 L a v32 s = Inr (memory_store (word_of_byte_address a) w s)"
    "\<exists>w. arm_store8 L a v8 s = Inr (memory_store (word_of_byte_address a) w s)"
proof -
  have "\<not> is_device a" using assms(2) by (simp add: is_device_def)
  then show "\<exists>v. arm_load32 L a s = Inr (v, s)" "\<exists>v. arm_load8 L a s = Inr (v, s)"
    "\<exists>w. arm_store32 L a v32 s = Inr (memory_store (word_of_byte_address a) w s)"
    "\<exists>w. arm_store8 L a v8 s = Inr (memory_store (word_of_byte_address a) w s)"
    using assms(1) by (auto simp: arm_load32_def arm_load8_def arm_store32_def arm_store8_def Let_def)
qed

lemma keeps_memory:
  assumes "\<And>s. P s \<Longrightarrow> access a s = Some a" "a < 0x10000000" "\<And>b w s. P s \<Longrightarrow> P (memory_store b w s)"
  shows "keeps uart_text P P {} (\<lambda>s. discard (arm_load32 L a s))" "keeps uart_text P P {} (\<lambda>s. discard (arm_load8 L a s))"
    "keeps uart_text P P {} (arm_store32 L a v32)" "keeps uart_text P P {} (arm_store8 L a v8)"
proof -
  note m = memory_ops [OF assms(1) assms(2)]
  show "keeps uart_text P P {} (\<lambda>s. discard (arm_load32 L a s))"
    unfolding keeps_def
  proof (intro allI impI)
    fix s assume "P s"
    then show "\<exists>s' t. discard (arm_load32 L a s) = Inr s' \<and> P s' \<and> uart_text s' = uart_text s @ t \<and> set t \<subseteq> {}"
      using m(1) [of s L] by (auto simp: discard_def)
  qed
  show "keeps uart_text P P {} (\<lambda>s. discard (arm_load8 L a s))"
    unfolding keeps_def
  proof (intro allI impI)
    fix s assume "P s"
    then show "\<exists>s' t. discard (arm_load8 L a s) = Inr s' \<and> P s' \<and> uart_text s' = uart_text s @ t \<and> set t \<subseteq> {}"
      using m(2) [of s L] by (auto simp: discard_def)
  qed
  show "keeps uart_text P P {} (arm_store32 L a v32)"
    unfolding keeps_def
  proof (intro allI impI)
    fix s assume "P s"
    then show "\<exists>s' t. arm_store32 L a v32 s = Inr s' \<and> P s' \<and> uart_text s' = uart_text s @ t \<and> set t \<subseteq> {}"
      using m(3) [of s L v32] assms(3) by (auto simp: states_store)
  qed
  show "keeps uart_text P P {} (arm_store8 L a v8)"
    unfolding keeps_def
  proof (intro allI impI)
    fix s assume "P s"
    then show "\<exists>s' t. arm_store8 L a v8 s = Inr s' \<and> P s' \<and> uart_text s' = uart_text s @ t \<and> set t \<subseteq> {}"
      using m(4) [of s L v8] assms(3) by (auto simp: states_store)
  qed
qed

text \<open>The null device is a register of the board's own, not the serial port.\<close>

lemma null_store:
  assumes "board_idle L s"
  shows "arm_store32 L versatile_null_devptr v s = Inr (s\<lparr>io := store_reg versatile_null_devptr v (io s)\<rparr>)"
    "board_idle L (s\<lparr>io := store_reg versatile_null_devptr v (io s)\<rparr>)"
    "uart_text (s\<lparr>io := store_reg versatile_null_devptr v (io s)\<rparr>) = uart_text s"
proof -
  have "\<not> mmu_on s" using assms by (simp add: board_idle_def)
  moreover have "is_device versatile_null_devptr" by (simp add: is_device_def versatile_null_devptr_def)
  ultimately show "arm_store32 L versatile_null_devptr v s = Inr (s\<lparr>io := store_reg versatile_null_devptr v (io s)\<rparr>)"
    by (simp add: arm_store32_def access_off)
  show "board_idle L (s\<lparr>io := store_reg versatile_null_devptr v (io s)\<rparr>)" using assms by (simp only: states_io)
  show "uart_text (s\<lparr>io := store_reg versatile_null_devptr v (io s)\<rparr>) = uart_text s"
    by (simp add: uart_text_def received_store versatile_null_devptr_def versatile_UART0_BASE_def)
qed

subsection \<open>The console\<close>

definition uart_reached :: "arm_board \<Rightarrow> bool" where
  "uart_reached s \<longleftrightarrow> access (versatile_UART0_BASE + reg_dr) s = Some (versatile_UART0_BASE + reg_dr)"

lemma access_io [simp]: "access a (s\<lparr>io := m\<rparr>) = access a s"
  by (simp add: access_def mmu_on_def)

lemma reached_states:
  assumes "layout_ok L"
  shows "board_idle L s \<Longrightarrow> uart_reached s" "board_on L p s \<Longrightarrow> uart_reached s"
proof -
  have s: "section_of (versatile_UART0_BASE + reg_dr) = 0x101" by (simp add: versatile_UART0_BASE_def reg_dr_def section_of_def)
  show "board_idle L s \<Longrightarrow> uart_reached s" by (simp add: board_idle_def uart_reached_def access_off)
  show "board_on L p s \<Longrightarrow> uart_reached s"
    unfolding uart_reached_def using reaches_device [OF assms, of s p "versatile_UART0_BASE + reg_dr"] s by (simp add: board_on_def)
qed

interpretation versatile_port: guarded_console versatile_sink uart_text uart_reached
proof unfold_locales
  fix s c
  assume r: "uart_reached s"
  then show "uart_reached (versatile_sink s c)" by (simp add: uart_reached_def versatile_sink_def)
  show "uart_text (versatile_sink s c) = uart_text s @ [c]"
    using r by (simp add: uart_reached_def versatile_sink_def uart_text_def versatile.shown_putch)
qed

section \<open>The board as a port\<close>

lemma machine_ops:
  "statics_of (versatile_machine L) = board_statics" "put_statics (versatile_machine L) st s = s\<lparr>board_statics := st\<rparr>"
  "spinner_start (versatile_machine L) n = Inr" "spinner_turn (versatile_machine L) = Inr"
  "op_mem_init (versatile_machine L) = core_loop (arm_mem_init (ly_image L))"
  "op_mem_reset (versatile_machine L) = core_loop (arm_mem_reset (ly_image L))"
  "op_mmu_enable (versatile_machine L) = core_step (arm_mmu_enable (\<lambda>c. c) (ly_image L))"
  "op_mmu_disable (versatile_machine L) = core_step (arm_mmu_disable (ly_image L))"
  "op_flush (versatile_machine L) = on_core arm_tlb_flush" "op_evict (versatile_machine L) a = on_core (arm_tlb_evict a)"
  "op_map_data (versatile_machine L) pa va = core_step (\<lambda>c. bindE (arm_create_page_mapping_data pa va c) (\<lambda>(rc, c). Inr c))"
  "op_page_size (versatile_machine L) = 0x100000"
  "op_phys_start (versatile_machine L) = 0x04000000" "op_phys_end (versatile_machine L) = 0x08000000"
  "op_irq_handler (versatile_machine L) h = on_core (arm_irq_install_handler (Some 0))"
  "op_irq_enable (versatile_machine L) = on_core (arm_irq_enable (ARCH_ARMV7 (ly_image L)))"
  "op_irq_disable (versatile_machine L) = on_core (arm_irq_disable (ARCH_ARMV7 (ly_image L)))"
  "op_coprocessor (versatile_machine L) s = Inr s"
  "op_nonpriv_read (versatile_machine L) a = (\<lambda>s. discard (arm_load32 L a s))"
  "op_code_flush (versatile_machine L) a = on_core (arm_code_flush a)"
  "op_trigger_swi (versatile_machine L) = through_mmu (swi_registers Versatile) versatile_trigger_swi"
  "op_clear_swi (versatile_machine L) = through_mmu (swi_registers Versatile) versatile_clear_swi"
  "op_null_devptr (versatile_machine L) = versatile_null_devptr" "op_null_devval (versatile_machine L) s = (versatile_null_devval, s)"
  "load8 (versatile_machine L) = arm_load8 L" "store8 (versatile_machine L) = arm_store8 L"
  "load32 (versatile_machine L) = arm_load32 L" "store32 (versatile_machine L) = arm_store32 L"
  "call_fn (versatile_machine L) x = Inr" "poll_irq (versatile_machine L) h s = (if irq_taken L s then h s else Inr s)"
  "sym_hot_value (versatile_machine L) = ly_hot L" "sym_nonpriv_value (versatile_machine L) = ly_nonpriv L"
  by (simp_all add: versatile_machine_def page_size_facts versatile_mem_get_phys_info_def versatile_phys_info_def
      arm_coprocessor_access_def arm_nonpriviliged_read_def fun_eq_iff)

lemma board_phys_page:
  assumes "phys_page (versatile_machine L) p"
  shows "p AND 0xfffff = 0" "p < 0x08000000"
proof -
  have d: "0x100000 dvd unat p - 0x04000000" "0x04000000 \<le> unat p"
    using assms by (simp_all add: phys_page_def machine_ops word_le_nat_alt)
  have "0x100000 dvd (unat p - 0x04000000) + 0x04000000" using d(1) by (rule dvd_add) simp
  then have "0x100000 dvd unat p" using d(2) by simp
  then show "p AND 0xfffff = 0" using aligned_nat by (simp add: aligned_def)
  show "p < 0x08000000" using assms by (simp add: phys_page_def machine_ops)
qed

locale versatile_board =
  fixes L :: arm_layout and junk :: "char list"
  assumes layout: "layout_ok L" and room: "0x1000 \<le> length junk"
begin

lemma data_symbols:
  "0x08000000 \<le> ly_hot L" "ly_hot L < arm_DATA_END (ly_image L)" "0x08000000 \<le> ly_nonpriv L" "ly_nonpriv L < arm_DATA_END (ly_image L)"
  "arm_DATA_END (ly_image L) < 0x10000000"
  using layout by (simp_all add: layout_ok_def Let_def)

lemma symbols_low: "ly_hot L < 0x10000000" "ly_nonpriv L < 0x10000000"
  using data_symbols by (auto intro: less_trans)

lemma access_idle: "board_idle L s \<Longrightarrow> access a s = Some a"
  by (simp add: board_idle_def access_off)

lemma on_mapped: "board_on L p s \<Longrightarrow> mapped L p (core s)"
  by (simp add: board_on_def)

lemma keeps_hot:
  assumes "P \<in> {board_idle L, board_on L 0x04000000}"
  shows "keeps uart_text P P {} (\<lambda>s. discard (arm_load32 L (ly_hot L) s))" "keeps uart_text P P {} (arm_store32 L (ly_hot L) v)"
proof -
  have a: "access (ly_hot L) s = Some (ly_hot L)" if "P s" for s
    using assms that reaches_data [OF layout on_mapped data_symbols(1,2)] by (auto simp: board_idle_def access_off)
  have m: "P (memory_store b w s)" if "P s" for b w s using assms that by (auto simp: states_store)
  show "keeps uart_text P P {} (\<lambda>s. discard (arm_load32 L (ly_hot L) s))" "keeps uart_text P P {} (arm_store32 L (ly_hot L) v)"
    by (rule keeps_memory [where P = P, OF a symbols_low(1) m]; assumption)+
qed

lemma keeps_nonpriv:
  "keeps uart_text (board_on L 0x04000000) (board_on L 0x04000000) {} (\<lambda>s. discard (arm_load32 L (ly_nonpriv L) s))"
  by (rule keeps_memory [OF reaches_data [OF layout on_mapped data_symbols(3,4)] symbols_low(2)]; simp add: states_store)

lemma keeps_code:
  assumes "a \<in> code_heads (versatile_machine L)"
  shows "keeps uart_text (board_idle L) (board_idle L) {} (\<lambda>s. discard (arm_load8 L a s))"
    "keeps uart_text (board_idle L) (board_idle L) {} (arm_store8 L a b)"
proof -
  have a: "a < 0x10000000" using layout assms by (auto simp: layout_ok_def Let_def)
  show "keeps uart_text (board_idle L) (board_idle L) {} (\<lambda>s. discard (arm_load8 L a s))"
    "keeps uart_text (board_idle L) (board_idle L) {} (arm_store8 L a b)"
    by (rule keeps_memory [where P = "board_idle L", OF access_idle a]; simp add: states_store)+
qed

lemma phys_low: "phys_addr (versatile_machine L) p \<Longrightarrow> 0x04000000 \<le> p \<and> p < 0x08000000 \<and> p < 0x10000000"
  by (auto simp: phys_addr_def machine_ops word_less_nat_alt)

lemma keeps_phys:
  assumes "phys_addr (versatile_machine L) p"
  shows "P \<in> {board_idle L, board_on L 0x08000000} \<Longrightarrow> keeps uart_text P P {} (\<lambda>s. discard (arm_load8 L p s))"
    and "keeps uart_text (with_statics (versatile_machine L) st (board_on L 0x08000000))
      (with_statics (versatile_machine L) st (board_on L 0x08000000)) {} (arm_store32 L p v)"
proof -
  have p: "0x04000000 \<le> p" "p < 0x08000000" "p < 0x10000000" using phys_low [OF assms] by simp_all
  have a: "access p s = Some p" if "board_idle L s \<or> board_on L 0x08000000 s" for s
    using that reaches_phys [OF on_mapped p(1,2)] by (auto simp: board_idle_def access_off)
  show "keeps uart_text P P {} (\<lambda>s. discard (arm_load8 L p s))" if "P \<in> {board_idle L, board_on L 0x08000000}"
    by (rule keeps_memory [OF _ p(3)]) (use that a in \<open>auto simp: states_store\<close>)
  show "keeps uart_text (with_statics (versatile_machine L) st (board_on L 0x08000000))
      (with_statics (versatile_machine L) st (board_on L 0x08000000)) {} (arm_store32 L p v)"
    by (rule keeps_memory [OF _ p(3)]) (use a in \<open>auto simp: states_store with_statics_def machine_ops\<close>)
qed

subsection \<open>The laws, one by one\<close>

lemma keeps_step: "(\<And>s. P s \<Longrightarrow> \<exists>s'. f s = Inr s' \<and> Q s' \<and> uart_text s' = uart_text s) \<Longrightarrow> keeps uart_text P Q {} f"
  unfolding keeps_def by fastforce

lemma keeps_step_statics:
  "(\<And>s. P s \<Longrightarrow> \<exists>s'. f s = Inr s' \<and> Q s' \<and> uart_text s' = uart_text s \<and> board_statics s' = board_statics s) \<Longrightarrow>
    keeps uart_text (with_statics (versatile_machine L) st P) (with_statics (versatile_machine L) st Q) {} f"
  unfolding keeps_def with_statics_def machine_ops by fastforce

lemma laws_states:
  "board_idle L s \<Longrightarrow> uart_reached s" "board_on L p s \<Longrightarrow> uart_reached s" "board_armed L s \<Longrightarrow> uart_reached s"
  "board_idle L s \<Longrightarrow> board_idle L (versatile_sink s c)" "board_on L p s \<Longrightarrow> board_on L p (versatile_sink s c)"
  "board_armed L s \<Longrightarrow> board_armed L (versatile_sink s c)" "board_handles L k s \<Longrightarrow> board_handles L k (versatile_sink s c)"
  using reached_states [OF layout] by (simp_all add: versatile_sink_def states_io) (auto simp: board_armed_def)

lemma laws_statics:
  "statics_of (versatile_machine L) (versatile_sink s c) = statics_of (versatile_machine L) s"
  "statics_of (versatile_machine L) (put_statics (versatile_machine L) st s) = st"
  "uart_text (put_statics (versatile_machine L) st s) = uart_text s"
  "board_idle L s \<Longrightarrow> board_idle L (put_statics (versatile_machine L) st s)"
  "board_tables L p s \<Longrightarrow> board_tables L p (put_statics (versatile_machine L) st s)"
  "board_armed L s \<Longrightarrow> board_armed L (put_statics (versatile_machine L) st s)"
  "board_pending L s \<Longrightarrow> board_pending L (put_statics (versatile_machine L) st s)"
  by (simp_all add: machine_ops states_statics versatile_sink_def)

lemma laws_range:
  "op_page_size (versatile_machine L) \<noteq> 0" "op_phys_start (versatile_machine L) < op_phys_end (versatile_machine L)"
  "unat (op_phys_end (versatile_machine L)) + unat (op_page_size (versatile_machine L)) < 2 ^ LENGTH(32)"
  "unat (op_phys_end (versatile_machine L)) + 4096 < 2 ^ LENGTH(32)"
  "unat (op_page_size (versatile_machine L)) dvd unat (op_phys_end (versatile_machine L)) - unat (op_phys_start (versatile_machine L))"
  by (simp_all add: machine_ops)

lemma laws_memory:
  "keeps uart_text (board_idle L) (board_tables L (op_phys_start (versatile_machine L))) {} (op_mem_init (versatile_machine L))"
  "keeps uart_text (board_idle L) (board_idle L) {} (op_mem_reset (versatile_machine L))"
  "keeps uart_text (board_tables L (op_phys_start (versatile_machine L))) (board_tables L (op_phys_start (versatile_machine L))) {}
     (op_map_data (versatile_machine L) (sym_nonpriv_value (versatile_machine L)) (sym_nonpriv_value (versatile_machine L)))"
  "keeps uart_text (board_on L p) (board_idle L) {} (op_mmu_disable (versatile_machine L))"
  unfolding machine_ops
  by (rule keeps_step init_step [OF layout] map_value_step [OF layout] disable_step data_symbols | assumption)+

lemma laws_tables:
  "phys_page (versatile_machine L) p \<Longrightarrow> keeps uart_text (with_statics (versatile_machine L) st (board_tables L p))
     (with_statics (versatile_machine L) st (board_tables L (p + op_page_size (versatile_machine L)))) {} (op_map_data (versatile_machine L) p p)"
  "keeps uart_text (with_statics (versatile_machine L) st (board_tables L p)) (with_statics (versatile_machine L) st (board_on L p)) {}
     (op_mmu_enable (versatile_machine L))"
proof -
  show "keeps uart_text (with_statics (versatile_machine L) st (board_tables L p))
     (with_statics (versatile_machine L) st (board_tables L (p + op_page_size (versatile_machine L)))) {} (op_map_data (versatile_machine L) p p)"
    if "phys_page (versatile_machine L) p"
    using map_step [OF layout _ board_phys_page [OF that]] unfolding machine_ops by (rule keeps_step_statics)
  show "keeps uart_text (with_statics (versatile_machine L) st (board_tables L p)) (with_statics (versatile_machine L) st (board_on L p)) {}
     (op_mmu_enable (versatile_machine L))"
    using enable_step unfolding machine_ops by (rule keeps_step_statics)
qed

lemma laws_harmless:
  "keeps uart_text (with_statics (versatile_machine L) st (board_on L p)) (with_statics (versatile_machine L) st (board_on L p)) {}
     (op_flush (versatile_machine L))"
  "keeps uart_text (board_idle L) (board_idle L) {} (op_flush (versatile_machine L))"
  "keeps uart_text (with_statics (versatile_machine L) st (board_on L p)) (with_statics (versatile_machine L) st (board_on L p)) {}
     (op_evict (versatile_machine L) a)"
  "keeps uart_text (board_idle L) (board_idle L) {} (op_code_flush (versatile_machine L) a)"
  "keeps uart_text (board_idle L) (board_idle L) {} (op_coprocessor (versatile_machine L))"
  "keeps uart_text (board_idle L) (board_idle L) {} (call_fn (versatile_machine L) x)"
  unfolding machine_ops by (rule keeps_harmless harmless_ops | simp add: keeps_def machine_ops)+

lemma laws_priv:
  "keeps uart_text (board_on L (op_phys_start (versatile_machine L))) (board_on L (op_phys_start (versatile_machine L))) {}
     (priv_enter (versatile_env junk))"
  "keeps uart_text (board_on L (op_phys_start (versatile_machine L))) (board_on L (op_phys_start (versatile_machine L))) {}
     (priv_leave (versatile_env junk))"
  "keeps uart_text (board_idle L) (board_idle L) {} (priv_leave (versatile_env junk))"
  using keeps_harmless(1,2) harmless_ops(7,8) by (simp_all add: versatile_env_def)

lemma laws_traps:
  "keeps uart_text (board_on L (op_phys_start (versatile_machine L)))
     (\<lambda>s. board_on L (op_phys_start (versatile_machine L)) s \<and> board_handles L k s) {} (install_handler (versatile_machine L) k)"
  "keeps uart_text (\<lambda>s. board_on L (op_phys_start (versatile_machine L)) s \<and> board_handles L k s)
     (\<lambda>s. board_on L (op_phys_start (versatile_machine L)) s \<and> board_handles L k s) {} (raise_trap (versatile_machine L) k)"
  by (rule keeps_step; use install_step trap_resumes [OF layout] in fastforce)+

lemma laws_interrupts:
  "keeps uart_text (board_on L (op_phys_start (versatile_machine L))) (board_armed L) {}
     (\<lambda>s. bindE (op_irq_handler (versatile_machine L) h s) (op_irq_enable (versatile_machine L)))"
  "keeps uart_text (board_armed L) (board_on L (op_phys_start (versatile_machine L))) {} (op_irq_disable (versatile_machine L))"
  "keeps uart_text (with_statics (versatile_machine L) st (board_armed L)) (with_statics (versatile_machine L) st (board_pending L)) {}
     (op_trigger_swi (versatile_machine L))"
  "board_pending L s \<Longrightarrow> poll_irq (versatile_machine L) g s = g s"
  "keeps uart_text (with_statics (versatile_machine L) st (board_pending L)) (with_statics (versatile_machine L) st (board_armed L)) {}
     (op_clear_swi (versatile_machine L))"
proof -
  show "keeps uart_text (board_on L (op_phys_start (versatile_machine L))) (board_armed L) {}
     (\<lambda>s. bindE (op_irq_handler (versatile_machine L) h s) (op_irq_enable (versatile_machine L)))"
    using arm_step unfolding machine_ops by (rule keeps_step)
  show "keeps uart_text (board_armed L) (board_on L (op_phys_start (versatile_machine L))) {} (op_irq_disable (versatile_machine L))"
    unfolding machine_ops
    by (rule keeps_mono [OF keeps_harmless(2) [OF harmless_ops(6)]]) (auto simp: board_armed_def)
  have on: "board_armed L s \<Longrightarrow> board_on L 0x04000000 s" for s by (simp add: board_armed_def)
  note t = through_mmu_on [OF layout on, simplified]
  have l: "ly_irq_line L (versatile_trigger_swi m)" for m using layout by (simp add: layout_ok_def Let_def)
  show "keeps uart_text (with_statics (versatile_machine L) st (board_armed L)) (with_statics (versatile_machine L) st (board_pending L)) {}
     (op_trigger_swi (versatile_machine L))"
    unfolding machine_ops by (rule keeps_step_statics) (simp add: t uart_text_def swi_text states_io board_pending_def l)
  show "board_pending L s \<Longrightarrow> poll_irq (versatile_machine L) g s = g s"
    by (simp add: machine_ops irq_taken_def board_pending_def board_armed_def)
  show "keeps uart_text (with_statics (versatile_machine L) st (board_pending L)) (with_statics (versatile_machine L) st (board_armed L)) {}
     (op_clear_swi (versatile_machine L))"
    unfolding machine_ops by (rule keeps_step_statics) (simp add: t uart_text_def swi_text states_io board_pending_def)
qed

lemma laws_device:
  "keeps uart_text (board_idle L) (board_idle L) {} (\<lambda>s. Inr (snd (op_null_devval (versatile_machine L) s)))"
  "keeps uart_text (board_idle L) (board_idle L) {} (store32 (versatile_machine L) (op_null_devptr (versatile_machine L)) w)"
  unfolding machine_ops using null_store by (auto simp: keeps_def machine_ops)

lemmas machine_memory = machine_ops(25-28,31)

lemma laws_accesses:
  "a \<in> code_heads (versatile_machine L) \<Longrightarrow> keeps uart_text (board_idle L) (board_idle L) {} (\<lambda>s. discard (load8 (versatile_machine L) a s))"
  "a \<in> code_heads (versatile_machine L) \<Longrightarrow> keeps uart_text (board_idle L) (board_idle L) {} (store8 (versatile_machine L) a b)"
  "P \<in> {board_idle L, board_on L (op_phys_start (versatile_machine L))} \<Longrightarrow>
    keeps uart_text P P {} (\<lambda>s. discard (load32 (versatile_machine L) (sym_hot_value (versatile_machine L)) s))"
  "P \<in> {board_idle L, board_on L (op_phys_start (versatile_machine L))} \<Longrightarrow>
    keeps uart_text P P {} (store32 (versatile_machine L) (sym_hot_value (versatile_machine L)) w)"
  "phys_addr (versatile_machine L) p \<Longrightarrow> P \<in> {board_idle L, board_on L (op_phys_end (versatile_machine L))} \<Longrightarrow>
    keeps uart_text P P {} (\<lambda>s. discard (load8 (versatile_machine L) p s))"
  "phys_addr (versatile_machine L) p \<Longrightarrow>
    keeps uart_text (with_statics (versatile_machine L) st (board_on L (op_phys_end (versatile_machine L))))
      (with_statics (versatile_machine L) st (board_on L (op_phys_end (versatile_machine L)))) {} (store32 (versatile_machine L) p w)"
  "keeps uart_text (board_on L (op_phys_start (versatile_machine L))) (board_on L (op_phys_start (versatile_machine L))) {}
    (op_nonpriv_read (versatile_machine L) (sym_nonpriv_value (versatile_machine L)))"
  using keeps_code keeps_hot keeps_phys keeps_nonpriv by (simp_all only: machine_ops)

end

text \<open>The processor's level makes no difference here: the domains are open to both.\<close>

sublocale versatile_board \<subseteq> interrupting_port versatile_sink uart_text uart_reached "versatile_machine L" "versatile_env junk"
  "board_idle L" "board_tables L" "board_on L" "board_handles L" "board_on L (op_phys_start (versatile_machine L))"
  "board_armed L" "board_pending L"
  by unfold_locales
    (rule laws_states laws_statics laws_range laws_memory laws_tables laws_harmless laws_priv laws_traps laws_interrupts laws_device
      laws_accesses machine_ops(3,4); assumption)+

section \<open>The suite on the board\<close>

context versatile_board
begin

lemma whole_report:
  assumes "board_idle L s"
  shows "\<exists>s' runs. harness_main (versatile_env junk) (suite (versatile_machine L)) s = Inr s' \<and> board_idle L s' \<and>
    recorded (suite (versatile_machine L)) runs \<and>
    uart_text s' = uart_text s @ crlf @ crlf @ marker ''BEGIN'' @ report runs @ marker ''END''"
  using room assms by (intro suite_report) (simp_all add: wired_def versatile_env_def)

end

text \<open>
  C1: the whole suite runs on the Versatile board. From any state in which the MMU is off, on any
  image laid out as the board's linker script does, the harness runs every benchmark of the suite to
  its end (the traps of the exception benchmarks are taken through the relocated vectors and resume,
  the interrupt benchmark gets its interrupt, every access with the MMU on finds its translation), the
  MMU is off again, and what the serial port has received in the meantime is a complete report of all
  benchmarks between the two markers.
\<close>

theorem versatile_suite_report:
  assumes "layout_ok L" and "0x1000 \<le> length junk" and "board_idle L s"
  shows "\<exists>s' runs. harness_main (versatile_env junk) (suite (versatile_machine L)) s = Inr s' \<and> board_idle L s' \<and>
    recorded (suite (versatile_machine L)) runs \<and>
    uart_text s' = uart_text s @ crlf @ crlf @ marker ''BEGIN'' @ report runs @ marker ''END''"
  by (rule versatile_board.whole_report [OF _ assms(3)]) (use assms(1,2) in \<open>simp add: versatile_board_def\<close>)

text \<open>The PL190 as the board wires it: the software interrupt 0 is set and cleared by two registers and masked by a third.\<close>

fun pl190_op :: "mmio_op \<Rightarrow> bool \<times> bool \<Rightarrow> bool \<times> bool" where
  "pl190_op (Load a) l = l"
| "pl190_op (Store a v) (soft, enabled) =
     (if a = versatile_PL190_BASE + 0x18 then (soft \<or> v AND 1 \<noteq> 0, enabled)
      else if a = versatile_PL190_BASE + 0x1C then (soft \<and> v AND 1 = 0, enabled)
      else if a = versatile_PL190_BASE + 0x10 then (soft, enabled \<or> v AND 1 \<noteq> 0)
      else (soft, enabled))"

definition pl190_line :: "mmio \<Rightarrow> bool" where
  "pl190_line m = (let (soft, enabled) = fold pl190_op (mmio_log m) (False, False) in soft \<and> enabled)"

lemma pl190_lines: "pl190_line (versatile_trigger_swi m)" "\<not> pl190_line (versatile_clear_swi m)"
  by (cases "fold pl190_op (mmio_log m) (False, False)";
      simp add: pl190_line_def versatile_trigger_swi_def versatile_clear_swi_def store_reg_def)+

text \<open>An image as sys.ld of the board lays it out, and the processor after reset.S.\<close>

definition built_layout :: arm_layout where
  "built_layout =
     \<lparr>ly_image = \<lparr>ARCH_ARMV7 = False, sym_vectors_start = 0x20000, sym_vectors_end = 0x21040, arm_TEXT_START = 0x10000,
        arm_TEXT_END = 0x21044, arm_DATA_START = 0x08000000, arm_DATA_END = 0x08120000, sym_VECTORS_RELOCATE = 0x5f0000,
        arm_devices = device_ranges versatile_mem_get_device_info\<rparr>,
      ly_syms = \<lparr>vectors_base = 0x20000, undef_slot = 0x21000, swi_slot = 0x21004, pabt_slot = 0x21008, dabt_slot = 0x2100c,
        irq_slot = 0x21010, fiq_slot = 0x21014, reset_slot = 0x10000, fn_default_handler = 0x21018, fn_pabt_return = 0x12000,
        fn_dabt_skip = 0x12030, fn_swi_skip = 0x12034, fn_undef_skip = 0x12038, vectors_copy = 0x5f0000\<rparr>,
      ly_code = 0x14000, ly_return = 0x14100, ly_stale = 0, ly_hot = 0x08010000, ly_nonpriv = 0x08010004, ly_block = 0x16000,
      ly_small = (\<lambda>n. 0x17000), ly_fast = False, ly_irq_line = pl190_line\<rparr>"

definition reset_board :: arm_board where
  "reset_board = \<lparr>core = blank_arm\<lparr>MIDR := 0x41069265\<rparr>, io = quiet,
     board_statics = \<lparr>swi_flag = 0, flush_start = 0, flush_end = 0, evict_start = 0, evict_end = 0, lb_value1 = 0, lb_value2 = 0, lb_value3 = 0\<rparr>\<rparr>"

lemma built_ok: "layout_ok built_layout"
  by (simp add: layout_ok_def built_layout_def syms_ok_def code_heads_def versatile_machine_def pl190_lines)

interpretation built_board: versatile_board built_layout "replicate 0x1000 nul"
  by unfold_locales (simp_all add: built_ok)

lemma reset_idle: "board_idle built_layout reset_board"
  by (simp add: board_idle_def reset_board_def cpu_ok_def mmu_on_def built_layout_def blank_arm_def mem_get_arm_arch_version_def)

theorem versatile_suite_report_witness:
  "\<exists>s' runs. harness_main (versatile_env (replicate 0x1000 nul)) (suite (versatile_machine built_layout)) reset_board = Inr s' \<and>
    recorded (suite (versatile_machine built_layout)) runs \<and>
    uart_text s' = crlf @ crlf @ marker ''BEGIN'' @ report runs @ marker ''END''"
proof -
  have t: "uart_text reset_board = []" by (simp add: uart_text_def reset_board_def quiet_def received_def)
  show ?thesis
    using versatile_suite_report [OF built_ok _ reset_idle, of "replicate 0x1000 nul"] unfolding t by auto
qed

end
