(* ===== verification/X86_Range.thy ===== *)
theory X86_Range
  imports X86_Platform Benchmarks
begin

section \<open>The benchmarks that map the whole physical range, on x86-64\<close>

text \<open>
  Memory-Cold, TLB-Flush and TLB-Evict map every page of the board's physical range before their
  kernel. Page tables come from the heap, whose size the linker script fixes to 0x40000 bytes on both
  x86-64 platforms. This theory counts what a heap can hold: every mapped page has an entry of its own in
  some table of the heap. The range of the qemu platform has more pages than the heap has entries,
  so that the set-up of the three benchmarks ends in heap_alloc_page's abort.
\<close>

subsection \<open>A tree of tables holds no more pages than its heap has entries\<close>

context entry_format
begin

lemma leaf_of:
  assumes "tables_ok present base m root lo cur" "path q" "length q = 4" "look present base m root q \<noteq> None"
  obtains p i t where "q = p @ [i]" "path p" "length p = 3" "i < 512" "node base m root p = Some t"
proof -
  obtain p i where q: "q = p @ [i]" using assms(3) by (cases q rule: rev_cases) auto
  then have p: "path p" "length p = 3" "i < 512" using assms(2,3) by auto
  have "visible present base m root p"
  proof (rule ccontr)
    assume "\<not> visible present base m root p"
    then have "look present base m root q = None" unfolding q by (rule look_invisible)
    then show False using assms(4) by simp
  qed
  then obtain t where "node base m root p = Some t" using visible_node [OF assms(1) p(1)] p(2) by auto
  then show thesis using that [OF q p] by blast
qed

lemma aligned_eight: "page_aligned t \<Longrightarrow> unat t mod 8 = 0"
  using mod_mod_cancel [of 8 4096 "unat t"] by (simp add: page_aligned_nat)

lemma leaves_bounded:
  assumes ok: "tables_ok present base m root lo cur"
    and Q: "\<And>q. q \<in> Q \<Longrightarrow> path q \<and> length q = 4 \<and> look present base m root q \<noteq> None"
  shows "8 * card Q \<le> unat cur - unat lo + 7"
proof -
  define leaf where "leaf q = cell (the (node base m root (butlast q))) (last q)" for q
  define entry where "entry q = unat (leaf q) div 8" for q
  have c: "page_aligned cur" using ok by (simp add: tables_ok_def)
  then have cd: "unat cur mod 8 = 0" by (rule aligned_eight)
  have entry: "unat (leaf q) = 8 * entry q \<and> unat lo \<le> unat (leaf q) \<and> unat (leaf q) < unat cur" if q: "q \<in> Q" for q
  proof -
    obtain p i t where p: "q = p @ [i]" "path p" "length p = 3" "i < 512" "node base m root p = Some t"
      by (rule leaf_of [OF ok conjunct1 [OF Q [OF q]] conjunct1 [OF conjunct2 [OF Q [OF q]]] conjunct2 [OF conjunct2 [OF Q [OF q]]]])
    note T = tables_okD [OF ok p(2) _ p(5)]
    have l: "leaf q = cell t i" by (simp add: leaf_def p(1,5))
    have t: "page_aligned t" using T(1) p(3) by simp
    then have "unat t mod 8 = 0" by (rule aligned_eight)
    then have "unat (leaf q) mod 8 = 0" unfolding l unat_cell [OF t p(4)] by presburger
    then have "unat (leaf q) = 8 * entry q" unfolding entry_def by presburger
    then show ?thesis
      using cell_bounds [OF t c _ _ p(4), of lo] T(2,3) p(3) unfolding l by (simp add: word_le_nat_alt word_less_nat_alt)
  qed
  have "inj_on entry Q"
  proof (rule inj_onI)
    fix q r
    assume q: "q \<in> Q" and r: "r \<in> Q" and e: "entry q = entry r"
    obtain p i t where p: "q = p @ [i]" "path p" "length p = 3" "i < 512" "node base m root p = Some t"
      by (rule leaf_of [OF ok conjunct1 [OF Q [OF q]] conjunct1 [OF conjunct2 [OF Q [OF q]]] conjunct2 [OF conjunct2 [OF Q [OF q]]]])
    obtain p' i' t' where p': "r = p' @ [i']" "path p'" "length p' = 3" "i' < 512" "node base m root p' = Some t'"
      by (rule leaf_of [OF ok conjunct1 [OF Q [OF r]] conjunct1 [OF conjunct2 [OF Q [OF r]]] conjunct2 [OF conjunct2 [OF Q [OF r]]]])
    have "leaf q = leaf r" using entry [OF q] entry [OF r] e by (simp add: word_unat_eq_iff)
    then have "cell t i = cell t' i'" by (simp add: leaf_def p(1,5) p'(1,5))
    then show "q = r" using cell_of_node [OF ok p(2) _ p(5,4) p'(2) _ p'(5,4)] p(1,3) p'(1,3) by simp
  qed
  moreover have "entry ` Q \<subseteq> {unat lo div 8..<unat cur div 8}"
  proof
    fix k
    assume "k \<in> entry ` Q"
    then obtain q where q: "q \<in> Q" "k = entry q" by auto
    have b: "unat lo \<le> 8 * k" "8 * k < 8 * (unat cur div 8)" using entry [OF q(1)] q(2) cd by auto
    from b(1) have "unat lo div 8 \<le> 8 * k div 8" by (rule div_le_mono)
    then show "k \<in> {unat lo div 8..<unat cur div 8}" using b(2) by simp
  qed
  ultimately have "card Q \<le> unat cur div 8 - unat lo div 8"
    using card_inj_on_le [of entry Q "{unat lo div 8..<unat cur div 8}"] by simp
  then show ?thesis using cd div_mult_mod_eq [of "unat lo" 8] mod_less_divisor [of 8 "unat lo"] div_mult_mod_eq [of "unat cur" 8] by linarith
qed

end

subsection \<open>How far the heap pointer gets\<close>

definition within_heap :: "x86_state \<Rightarrow> bool" where
  "within_heap s \<longleftrightarrow> heap_ok s \<and> unat (heap_cur s) < unat (heap_end s) + 0x1000"

lemma alloc_within:
  assumes "heap_ok s" "heap_alloc_page s = Inr (page, s')"
  shows "within_heap s'" "heap_base s' = heap_base s" "heap_end s' = heap_end s"
proof -
  have lt: "\<not> heap_end s \<le> heap_cur s" and s': "heap_end s' = heap_end s" "heap_cur s' = heap_cur s + 0x1000"
    and b: "heap_base s' = heap_base s"
    using assms(2) by (auto simp: heap_alloc_page_eq split: if_splits)
  have "unat (heap_cur s) < unat (heap_end s)" using lt by (simp add: word_le_nat_alt)
  moreover have "unat (heap_cur s + 0x1000) \<le> unat (heap_cur s) + 0x1000"
    by (simp add: unat_word_ariths)
  ultimately show "within_heap s'" using assms(1) by (simp add: within_heap_def heap_ok_def s')
  show "heap_base s' = heap_base s" "heap_end s' = heap_end s" using b s' by simp_all
qed

lemma enter_within:
  assumes "within_heap s" "enter_table t i s = Inr (c, s')"
  shows "within_heap s'" "heap_base s' = heap_base s" "heap_end s' = heap_end s"
proof -
  have h: "heap_ok s" using assms(1) by (simp add: within_heap_def)
  have k: "within_heap (poke a v x) = within_heap x" "heap_base (poke a v x) = heap_base x" "heap_end (poke a v x) = heap_end x" for a v x
    by (simp_all add: within_heap_def heap_ok_def poke_def)
  show "within_heap s'" "heap_base s' = heap_base s" "heap_end s' = heap_end s"
    using assms alloc_within [OF h] by (auto simp: enter_table_def Let_def k split: if_splits)
qed

lemma mapping_within:
  assumes "within_heap s" "mem_create_page_mapping_data pa va s = Inr s'"
  shows "within_heap s'" "heap_base s' = heap_base s" "heap_end s' = heap_end s"
proof -
  have k: "within_heap (poke a v x) = within_heap x" "heap_base (poke a v x) = heap_base x" "heap_end (poke a v x) = heap_end x" for a v x
    by (simp_all add: within_heap_def heap_ok_def poke_def)
  let ?i = "calculate_indicies va"
  obtain t1 s1 t2 s2 t3 s3 where e: "enter_table (runtime_pagetables s) (idx_pml ?i) s = Inr (t1, s1)"
    "enter_table t1 (idx_pdp ?i) s1 = Inr (t2, s2)" "enter_table t2 (idx_pd ?i) s2 = Inr (t3, s3)"
    "\<exists>a b v w. s' = poke a v (poke b w s3)"
    using assms(2) by (auto simp: mem_create_page_mapping_data_def create_page_mapping_def Let_def) blast
  note E = enter_within [OF assms(1) e(1)]
  note E2 = enter_within [OF E(1) e(2)]
  note E3 = enter_within [OF E2(1) e(3)]
  show "within_heap s'" "heap_base s' = heap_base s" "heap_end s' = heap_end s"
    using e(4) E E2 E3 by (auto simp: k)
qed

lemma map_pages_within:
  "\<lbrakk>within_heap s; map_pages mem_create_page_mapping_data ps s = Inr s'\<rbrakk> \<Longrightarrow>
    within_heap s' \<and> heap_base s' = heap_base s \<and> heap_end s' = heap_end s"
proof (induction ps arbitrary: s)
  case (Cons p ps)
  obtain pa va where p: "p = (pa, va)" by (cases p)
  obtain s1 where s1: "mem_create_page_mapping_data pa va s = Inr s1"
    "map_pages mem_create_page_mapping_data ps s1 = Inr s'" using Cons.prems(2) p by auto
  show ?case using Cons.IH [OF mapping_within(1) [OF Cons.prems(1) s1(1)] s1(2)] mapping_within(2,3) [OF Cons.prems(1) s1(1)] by simp
qed simp

lemma map_pages_error: "map_pages mem_create_page_mapping_data ps s = Inl e \<Longrightarrow> e = Out_of_memory"
  by (induction ps arbitrary: s) (auto simp: bindE_def dest: mapping_error split: sum.splits)

text \<open>Pages with distinct paths, too many for the entries of the heap: the mapping ends in the abort.\<close>

lemma too_many_pages:
  assumes b: "tables_built (runtime_pagetables s) s" "within_heap s"
    and many: "unat (heap_end s) + 0x1007 \<le> unat (heap_base s) + 8 * card (va_path ` set as)"
    and agree: "\<forall>a\<in>set as. \<forall>b\<in>set as. va_path a = va_path b \<longrightarrow> page_entry a = page_entry b"
  shows "map_pages mem_create_page_mapping_data (map (\<lambda>a. (a, a)) as) s = Inl Out_of_memory"
proof (cases "map_pages mem_create_page_mapping_data (map (\<lambda>a. (a, a)) as) s")
  case (Inl e)
  then show ?thesis using map_pages_error by auto
next
  case (Inr s')
  have b': "tables_built (runtime_pagetables s') s'" by (rule x86_data.map_pages_inv [OF b(1) Inr])
  have w: "within_heap s'" "heap_base s' = heap_base s" "heap_end s' = heap_end s" using map_pages_within [OF b(2) Inr] by simp_all
  have "x86_view (runtime_pagetables s') s' (va_path a) = Some (page_entry a)" if "a \<in> set as" for a
    using x86_data.identity_region(1) [OF b(1) Inr agree that] .
  then have "path q \<and> length q = 4 \<and> look is_present get_base_address (cells s') (runtime_pagetables s') q \<noteq> None"
    if "q \<in> va_path ` set as" for q using that by (fastforce simp: x86_view_def split: if_splits)
  from x86.leaves_bounded [OF tables_builtD(1) [OF b'] this]
  have "8 * card (va_path ` set as) \<le> unat (heap_cur s') - unat (heap_base s') + 7" .
  moreover have "unat (heap_base s') < unat (heap_cur s')"
    using x86.tables_okD(2,3) [OF tables_builtD(1) [OF b'], of "[]" "runtime_pagetables s'"] by (simp add: word_le_nat_alt word_less_nat_alt)
  ultimately show ?thesis using many w by (auto simp: within_heap_def)
qed

subsection \<open>The loops of the benchmarks\<close>

lemma range_pages_Suc: "range_pages (Suc n) a = a # range_pages n (a + 0x1000)"
  by (simp add: range_pages_def upt_conv_Cons map_Suc_upt [symmetric] algebra_simps del: upt_Suc)

text \<open>Both loops map the pages of the range in order.\<close>

lemma range_loops:
  assumes "unat p + 0x1000 * n = unat (b :: u64)"
  shows "map_range f 0x1000 b p s = Some (map_pages f (map (\<lambda>a. (a, a)) (range_pages n p)) s)"
    and "map_pair f 0x1000 b p p s = Some (bindE (map_pages f (map (\<lambda>a. (a, a)) (range_pages n p)) s) (\<lambda>s. Inr (b, s)))"
proof -
  have "map_range f 0x1000 b p s = Some (map_pages f (map (\<lambda>a. (a, a)) (range_pages n p)) s) \<and>
    map_pair f 0x1000 b p p s = Some (bindE (map_pages f (map (\<lambda>a. (a, a)) (range_pages n p)) s) (\<lambda>s. Inr (b, s)))"
    using assms
  proof (induction n arbitrary: p s)
    case 0
    then have "p = b" by (simp add: word_unat_eq_iff)
    then show ?case by (subst map_range.simps, subst map_pair.simps) (simp add: range_pages_def)
  next
    case (Suc n)
    have lt: "p < b" using Suc.prems by (simp add: word_less_nat_alt)
    have "unat p + 0x1000 < 2 ^ 64" using Suc.prems unsigned_less [of b, where 'a = nat] by simp
    then have "unat (p + 0x1000) + 0x1000 * n = unat b" using Suc.prems by (simp add: unat_word_ariths)
    note IH = Suc.IH [OF this]
    show ?case
      by (cases "f p p s"; subst map_range.simps, subst map_pair.simps) (simp_all add: lt IH range_pages_Suc)
  qed
  then show "map_range f 0x1000 b p s = Some (map_pages f (map (\<lambda>a. (a, a)) (range_pages n p)) s)"
    "map_pair f 0x1000 b p p s = Some (bindE (map_pages f (map (\<lambda>a. (a, a)) (range_pages n p)) s) (\<lambda>s. Inr (b, s)))" by simp_all
qed

lemma range_page_nat:
  assumes "unat p + 0x1000 * n \<le> 2 ^ 48" "k < n"
  shows "unat (p + 0x1000 * word_of_nat k :: u64) = unat p + 0x1000 * k"
proof -
  have b: "unat p + 0x1000 * k < 2 ^ 64" using assms by simp
  then have "unat (word_of_nat k :: u64) = k" by (simp add: unat_of_nat)
  then have "unat (0x1000 * word_of_nat k :: u64) = 0x1000 * k" using b by (simp add: unat_word_ariths)
  then show ?thesis using b by (simp add: unat_word_ariths)
qed

lemma range_pages_bound:
  assumes "unat p + 0x1000 * n \<le> 2 ^ 48"
  shows "\<forall>a\<in>set (range_pages n p). a < 2 ^ 48"
proof
  fix a
  assume "a \<in> set (range_pages n p)"
  then obtain k where k: "k < n" "a = p + 0x1000 * word_of_nat k" by (auto simp: range_pages_def)
  have "unat a < 2 ^ 48" using range_page_nat [OF assms k(1)] assms k by simp
  then show "a < 2 ^ 48" by (simp add: word_less_nat_alt)
qed

lemma range_paths:
  assumes "page_aligned p" "unat p + 0x1000 * n \<le> 2 ^ 48"
  shows "card (va_path ` set (range_pages n p)) = n"
proof -
  have al: "page_aligned a" if a: "a \<in> set (range_pages n p)" for a
  proof -
    obtain k where k: "k < n" "a = p + 0x1000 * word_of_nat k" using a by (auto simp: range_pages_def)
    have "unat p mod 4096 = 0" using assms(1) by (simp only: page_aligned_nat)
    then have "(unat p + 4096 * k) mod 4096 = 0" by simp
    then show ?thesis unfolding page_aligned_nat k(2) range_page_nat [OF assms(2) k(1)] .
  qed
  have "inj_on va_path (set (range_pages n p))"
  proof (rule inj_onI)
    fix a b
    assume a: "a \<in> set (range_pages n p)" and b: "b \<in> set (range_pages n p)" and e: "va_path a = va_path b"
    have "a AND NOT 0xfff = b AND NOT 0xfff"
      using same_page [of a b] range_pages_bound [OF assms(2)] a b e unfolding va_path_eq_iff by blast
    then show "a = b" using aligned_base [OF al [OF a]] aligned_base [OF al [OF b]] by simp
  qed
  then have "card (va_path ` set (range_pages n p)) = card (set (range_pages n p))" by (rule card_image)
  moreover have "distinct (range_pages n p)"
  proof -
    have "inj_on (\<lambda>k. p + 0x1000 * word_of_nat k) (set [0..<n])"
    proof (rule inj_onI)
      fix j k
      assume j: "j \<in> set [0..<n]" and k: "k \<in> set [0..<n]" and e: "p + 0x1000 * word_of_nat j = p + 0x1000 * word_of_nat k"
      have "j < n" "k < n" using j k by simp_all
      from range_page_nat [OF assms(2) this(1)] range_page_nat [OF assms(2) this(2)]
      have "unat p + 0x1000 * j = unat p + 0x1000 * k" unfolding e by (rule trans [OF sym])
      then show "j = k" by simp
    qed
    then show ?thesis by (simp add: range_pages_def distinct_map)
  qed
  ultimately show ?thesis by (simp add: distinct_card) (simp add: range_pages_def)
qed

subsection \<open>The set-up of the three benchmarks\<close>

text \<open>
  The operations of the x86-64 port on a platform with the given physical range; the processor's own
  accesses and instructions are those of the machine base. The state is the processor's and the static
  variables of the benchmarks.
\<close>

record x86_board =
  proc :: x86_state
  x86_statics :: "u64 statics"

definition on_proc :: "(x86_state \<Rightarrow> x86_fault + x86_state) \<Rightarrow> x86_board \<Rightarrow> x86_fault + x86_board" where
  "on_proc f s = bindE (f (proc s)) (\<lambda>c. Inr (s\<lparr>proc := c\<rparr>))"

definition x86_port ::
  "image \<Rightarrow> u64 \<times> u64 \<Rightarrow> (x86_fault, x86_board, u64) machine \<Rightarrow> (x86_fault, x86_board, u64) machine" where
  "x86_port img phys base = base
     \<lparr>statics_of := x86_statics, put_statics := (\<lambda>st s. s\<lparr>x86_statics := st\<rparr>),
      op_mem_init := on_proc (mem_init img), op_mem_reset := on_proc (\<lambda>s. Inr (mem_reset s)),
      op_mmu_enable := on_proc (\<lambda>s. Inr (mem_mmu_enable s)), op_mmu_disable := on_proc (\<lambda>s. Inr (mem_mmu_disable s)),
      op_flush := on_proc (\<lambda>s. Inr (mem_tlb_flush s)), op_evict := (\<lambda>a. on_proc (\<lambda>s. Inr (mem_tlb_evict a s))),
      op_map_data := (\<lambda>pa va. on_proc (mem_create_page_mapping_data pa va)), op_page_size := mem_get_page_size,
      op_phys_start := fst phys, op_phys_end := snd phys,
      op_ifault_return := on_proc (\<lambda>s. Inr (arch_ifault_install_return s)),
      op_dfault_skip := on_proc (\<lambda>s. Inr (arch_dfault_install_skip s)),
      op_syscall_skip := on_proc (\<lambda>s. Inr (arch_syscall_install_skip s)),
      op_undef_skip := on_proc (\<lambda>s. Inr (arch_undef_install_skip s)),
      op_irq_handler := (\<lambda>h. on_proc (\<lambda>s. Inr (arch_irq_install_handler (Some 0) s))),
      op_irq_enable := on_proc (\<lambda>s. Inr (arch_irq_enable s)), op_irq_disable := on_proc (\<lambda>s. Inr (arch_irq_disable s)),
      op_coprocessor := on_proc (\<lambda>s. Inr (arch_coprocessor_access s)),
      op_trigger_swi := on_proc (\<lambda>s. Inr (x86_trigger_swi s)), op_clear_swi := on_proc (\<lambda>s. Inr (x86_clear_swi s)),
      op_null_devptr := x86_null_devptr, op_null_devval := (\<lambda>s. (x86_null_devval, s))\<rparr>"

text \<open>The state between benchmarks: the heap in order, and the runtime tables built if mem_init has run.\<close>

definition memory_ready :: "x86_state \<Rightarrow> bool" where
  "memory_ready s \<longleftrightarrow> within_heap s \<and> page_aligned (heap_cur s) \<and> 0 < heap_base s \<and> heap_base s \<le> heap_cur s \<and>
     (mem_inited s \<longrightarrow> tables_built (runtime_pagetables s) s)"

lemma on_proc_pages:
  "map_pages (\<lambda>pa va. on_proc (mem_create_page_mapping_data pa va)) ps s = on_proc (map_pages mem_create_page_mapping_data ps) s"
proof (induction ps arbitrary: s)
  case Nil
  then show ?case by (simp add: on_proc_def)
next
  case (Cons p ps)
  obtain pa va where p: "p = (pa, va)" by (cases p)
  show ?case
    by (cases "mem_create_page_mapping_data pa va (proc s)") (simp_all add: p Cons.IH, simp_all add: on_proc_def)
qed

lemma mem_init_ready:
  assumes "memory_ready s" "\<forall>a\<in>set (runtime_pages img). a < 2 ^ 48"
  shows "case mem_init img s of Inl e \<Rightarrow> e = Out_of_memory
    | Inr s' \<Rightarrow> tables_built (runtime_pagetables s') s' \<and> within_heap s' \<and> heap_base s' = heap_base s \<and> heap_end s' = heap_end s"
proof (cases "mem_inited s")
  case True
  then show ?thesis using assms(1) by (simp add: mem_init_def memory_ready_def)
next
  case False
  note r = assms(1) [unfolded memory_ready_def]
  have h: "heap_ok s" using r by (simp add: within_heap_def)
  show ?thesis
  proof (cases "mem_init img s")
    case (Inl e)
    then show ?thesis using False
      by (auto simp: mem_init_def prepare_runtime_pagetables_eq heap_alloc_page_eq Let_def bindE_def
          dest: map_pages_error split: sum.splits if_splits)
  next
    case (Inr s')
    have t: "tables_built (runtime_pagetables s') s'" using mem_init_parts(1) [OF h _ _ _ assms(2) False Inr] r by blast
    let ?s0 = "irq_reset_page_fault_handler (s\<lparr>mem_inited := True\<rparr>)"
    obtain page s1 s2 where 1: "heap_alloc_page ?s0 = Inr (page, s1)"
      "map_pages mem_create_page_mapping_data (map (\<lambda>a. (a, a)) (runtime_pages img)) (s1\<lparr>runtime_pagetables := page\<rparr>) = Inr s2"
      "s' = mem_tlb_flush s2"
      using Inr False by (auto simp: mem_init_def prepare_runtime_pagetables_eq Let_def)
    have "heap_ok ?s0" using h by (simp add: heap_ok_def irq_reset_page_fault_handler_def)
    note A = alloc_within [OF this 1(1)]
    have "within_heap (s1\<lparr>runtime_pagetables := page\<rparr>)" using A(1) by (simp add: within_heap_def heap_ok_def)
    note B = map_pages_within [OF this 1(2)]
    have "within_heap s' = within_heap s2" "heap_base s' = heap_base s2" "heap_end s' = heap_end s2"
      unfolding 1(3) by (simp_all add: mem_tlb_flush_def write_cr3_def issue_def within_heap_def heap_ok_def)
    then have "within_heap s'" "heap_base s' = heap_base s" "heap_end s' = heap_end s"
      using B A(2,3) by (simp_all add: irq_reset_page_fault_handler_def)
    then show ?thesis using t Inr by simp
  qed
qed

lemma port_pages:
  assumes "tables_built (runtime_pagetables (proc s)) (proc s)" "within_heap (proc s)"
    and "unat (heap_end (proc s)) + 0x1007 \<le> unat (heap_base (proc s)) + 8 * n"
    and "page_aligned p" "unat p + 0x1000 * n \<le> 2 ^ 48" "unat p + 0x1000 * n = unat b"
  shows "map_range (\<lambda>pa va. on_proc (mem_create_page_mapping_data pa va)) 0x1000 b p s = Some (Inl Out_of_memory)"
    and "map_pair (\<lambda>pa va. on_proc (mem_create_page_mapping_data pa va)) 0x1000 b p p s = Some (Inl Out_of_memory)"
proof -
  have "\<forall>a\<in>set (range_pages n p). \<forall>b\<in>set (range_pages n p). va_path a = va_path b \<longrightarrow> page_entry a = page_entry b"
    using range_pages_bound [OF assms(5)] same_path_same_entry by blast
  from too_many_pages [OF assms(1,2) _ this] assms(3) range_paths [OF assms(4,5)]
  have "map_pages mem_create_page_mapping_data (map (\<lambda>a. (a, a)) (range_pages n p)) (proc s) = Inl Out_of_memory" by simp
  then have e: "map_pages (\<lambda>pa va. on_proc (mem_create_page_mapping_data pa va)) (map (\<lambda>a. (a, a)) (range_pages n p)) s = Inl Out_of_memory"
    unfolding on_proc_pages by (simp add: on_proc_def)
  show "map_range (\<lambda>pa va. on_proc (mem_create_page_mapping_data pa va)) 0x1000 b p s = Some (Inl Out_of_memory)"
    "map_pair (\<lambda>pa va. on_proc (mem_create_page_mapping_data pa va)) 0x1000 b p p s = Some (Inl Out_of_memory)"
    unfolding range_loops [OF assms(6)] e by simp_all
qed

lemma page_size_x86: "mem_get_page_size = 0x1000"
  by (simp add: mem_get_page_size_def push_bit_eq_mult)

text \<open>
  C12: on the qemu platform the benchmarks Memory-Cold-MMU, TLB-Flush and TLB-Evict never start. The
  physical range has 0x30000 pages, the heap of 0x40000 bytes holds no more than 0x8200 page-table
  entries, and so each of the three set-ups stops the machine with the heap exhausted, whether mem_init
  has run before or not.
\<close>

theorem qemu_range_exhausts_heap:
  assumes "memory_ready (proc s)" and "unat (heap_end (proc s)) \<le> unat (heap_base (proc s)) + 0x40000"
    and "\<forall>a\<in>set (runtime_pages img). a < 2 ^ 48" and "M = x86_port img qemu_phys_info base"
  shows "kernel_init (memory_cold_mmu M) = Some (cold_mmu_init M) \<and> cold_mmu_init M s = Inl Out_of_memory \<and>
    kernel_init (tlb_flush M) = Some (flush_mmu_init M) \<and> flush_mmu_init M s = Inl Out_of_memory \<and>
    kernel_init (tlb_evict M) = Some (evict_mmu_init M) \<and> evict_mmu_init M s = Inl Out_of_memory"
proof (cases "mem_init img (proc s)")
  case (Inl e)
  then have "on_proc (mem_init img) s = Inl Out_of_memory"
    using mem_init_ready [OF assms(1,3)] by (simp add: on_proc_def)
  then show ?thesis
    by (simp add: assms(4) x86_port_def cold_mmu_init_def flush_mmu_init_def evict_mmu_init_def memory_cold_mmu_def tlb_flush_def tlb_evict_def)
next
  case (Inr c)
  let ?s = "s\<lparr>proc := c\<rparr>"
  have m: "on_proc (mem_init img) s = Inr ?s" using Inr by (simp add: on_proc_def)
  have r: "tables_built (runtime_pagetables c) c" "within_heap c" "unat (heap_end c) + 0x1007 \<le> unat (heap_base c) + 8 * 0x30000"
    using mem_init_ready [OF assms(1,3)] assms(2) Inr by simp_all
  have P: "map_range (\<lambda>pa va. on_proc (mem_create_page_mapping_data pa va)) 0x1000 0x40000000 0x10000000 t = Some (Inl Out_of_memory)"
    "map_pair (\<lambda>pa va. on_proc (mem_create_page_mapping_data pa va)) 0x1000 0x40000000 0x10000000 0x10000000 t = Some (Inl Out_of_memory)"
    if "proc t = c" for t
    by (rule port_pages [of t "0x30000" "0x10000000"]; use r that in \<open>simp add: page_aligned_def\<close>)+
  show ?thesis
    using m P by (simp add: assms(4) x86_port_def cold_mmu_init_def flush_mmu_init_def evict_mmu_init_def map_phys_def ends_def
        qemu_phys_info_def page_size_x86 memory_cold_mmu_def tlb_flush_def tlb_evict_def page_aligned_def)
qed

text \<open>The processor once the heap of the linker script is initialised.\<close>

definition qemu_image :: image where
  "qemu_image = \<lparr>sym_TEXT_START = 0x100000, sym_TEXT_END = 0x108000, sym_DATA_START = 0x108000, sym_DATA_END = 0x10c000,
     sym_HEAP_START = 0x10d000, sym_HEAP_SIZE = 0x40000\<rparr>"

lemma qemu_range_exhausts_heap_witness:
  "\<forall>base st. flush_mmu_init (x86_port qemu_image qemu_phys_info base)
     \<lparr>proc = heap_init qemu_image blank_x86, x86_statics = st\<rparr> = Inl Out_of_memory"
proof (intro allI)
  fix base st
  let ?s = "\<lparr>proc = heap_init qemu_image blank_x86, x86_statics = st\<rparr>"
  have "as_count (NR_PAGES 0x100000 0x108000) = 9" "as_count (NR_PAGES 0x108000 0x10c000) = 5" "as_count (drop_bit 12 0x40000) = 64"
    by (simp_all add: as_count_def NR_PAGES_def)
  then have "runtime_pages qemu_image = range_pages 1 0xb8000 @ range_pages 9 0x100000 @ range_pages 5 0x108000 @
      range_pages 64 0x10d000 @ [LAPIC]"
    by (simp add: runtime_pages_def qemu_image_def)
  then have "\<forall>a\<in>set (runtime_pages qemu_image). a < 2 ^ 48"
    using range_pages_bound [of "0xb8000" 1] range_pages_bound [of "0x100000" 9] range_pages_bound [of "0x108000" 5]
      range_pages_bound [of "0x10d000" 64] by (auto simp: LAPIC_def)
  moreover have "memory_ready (proc ?s)" "unat (heap_end (proc ?s)) \<le> unat (heap_base (proc ?s)) + 0x40000"
    by (simp_all add: memory_ready_def within_heap_def heap_ok_def heap_init_def qemu_image_def blank_x86_def page_aligned_def)
  ultimately show "flush_mmu_init (x86_port qemu_image qemu_phys_info base) ?s = Inl Out_of_memory"
    using qemu_range_exhausts_heap [of ?s qemu_image _ base] by blast
qed

end
