(* ===== verification/X86_Start.thy ===== *)
theory X86_Start
  imports X86_Platform
begin

section \<open>The start-up of the x86-64 port (arch/x86_64/arch.c)\<close>

text \<open>
  arch_start is what the assembly of boot.S calls: it reads the command line, initialises the port
  and the platform, and runs the harness. The state of the harness is that of the sinks: a platform
  or the fault a sink met. The build is the one without SIMBENCH_DEBUG, where dprintf is empty;
  harness_init has an empty body.
\<close>

datatype start_fault = Command_line_overrun | Setup_fault io_fault | Run_fault "io_fault harness_fault"

definition x86_priv_enter :: "(io_fault, io_fault + x86_io) routine" where "x86_priv_enter s = Inr s"
definition x86_priv_leave :: "(io_fault, io_fault + x86_io) routine" where "x86_priv_leave s = Inr s"

definition x86_env :: "char list \<Rightarrow> (io_fault + x86_io) printf_files \<Rightarrow> (io_fault, io_fault + x86_io) harness_env" where
  "x86_env junk fs = \<lparr>he_arm = False, he_junk = junk, OUTPUT = Some (output_file fs),
     priv_enter = x86_priv_enter, priv_leave = x86_priv_leave\<rparr>"

definition failing :: "('a \<Rightarrow> 'b) \<Rightarrow> 'a + 'c \<Rightarrow> 'b + 'c" where
  "failing f r = (case r of Inl e \<Rightarrow> Inl (f e) | Inr x \<Rightarrow> Inr x)"

text \<open>The static files of printf.c start without a function.\<close>

definition arch_start ::
  "((io_fault + x86_io) printf_files \<times> x86_io \<Rightarrow> io_fault + (io_fault + x86_io) printf_files \<times> x86_io) \<Rightarrow>
   image \<Rightarrow> trap_entries \<Rightarrow> string \<Rightarrow> char list \<Rightarrow> (io_fault, io_fault + x86_io) benchmark_t list \<Rightarrow> x86_io \<Rightarrow> start_fault + x86_io" where
  "arch_start platform_init img tr cmdline junk bms m =
     (case parse_cmdline cmdline (use_framebuffer (cpu m)) of
        None \<Rightarrow> Inl Command_line_overrun
      | Some fb \<Rightarrow>
          bindE (failing (Setup_fault \<circ> Cpu_fault) (arch_init img tr (lapic_answers m) ((cpu m)\<lparr>use_framebuffer := fb\<rparr>))) (\<lambda>(vs, c).
          let m = m\<lparr>cpu := c, lapic_answers := vs\<rparr> in
          bindE (failing Setup_fault (platform_init (no_sinks, m))) (\<lambda>(fs, m).
          bindE (failing Run_fault (harness_main (x86_env junk fs) bms (Inr m))) (\<lambda>s.
          bindE (failing Setup_fault s) (\<lambda>m.
          Inr (x86_platform_shutdown m))))))"

section \<open>The set-up succeeds\<close>

lemma lapic_wait_some:
  "\<exists>v\<in>set vs. v AND DELIVS = 0 \<Longrightarrow> \<exists>vs' s'. lapic_wait vs s = Inr (vs', s')"
  by (induction vs arbitrary: s) (auto simp: Let_def)

lemma lapic_init_succeeds:
  assumes "\<exists>v\<in>set vs. v AND DELIVS = 0"
  shows "\<exists>vs' s'. lapic_init vs s = Inr (vs', s')"
proof -
  have "\<exists>vs' s'. bindE (lapic_wait vs f) (\<lambda>(vs, s). Inr (vs, g s)) = Inr (vs', s')" for f and g :: "x86_state \<Rightarrow> x86_state"
    using lapic_wait_some [OF assms, of f] by auto
  then show ?thesis unfolding lapic_init_def Let_def .
qed

text \<open>Four pages of heap are enough: three tables for the APIC's page and the interrupt table.\<close>

lemma arch_init_succeeds:
  assumes "unat (sym_HEAP_START img) + unat (sym_HEAP_SIZE img) < 2 ^ 64" "0x4000 \<le> unat (sym_HEAP_SIZE img)"
    and "\<exists>v\<in>set vs. v AND DELIVS = 0"
  shows "\<exists>vs' c'. arch_init img tr vs c = Inr (vs', c')"
proof -
  let ?c = "heap_init img c"
  have e: "unat (heap_end ?c) = unat (sym_HEAP_START img) + unat (sym_HEAP_SIZE img)" "heap_cur ?c = sym_HEAP_START img"
    using assms(1) by (simp_all add: heap_init_def Let_def unat_word_ariths)
  let ?d = "?c\<lparr>initial_pagetables := 0x8000\<rparr>"
  have "unat (heap_cur ?d) + 0x3000 + 0x1000 * 1 \<le> unat (heap_end ?d)" using e assms(2) by simp
  from create_page_mapping_succeeds [OF this, of "0x8000" LAPIC LAPIC]
  obtain c1 where 1: "create_page_mapping 0x8000 LAPIC LAPIC ?d = Inr c1" "unat (heap_cur c1) + 0x1000 \<le> unat (heap_end c1)" by auto
  have m: "early_mem_init ?c = Inr (mem_tlb_flush c1)" using 1(1) by (simp add: early_mem_init_def Let_def)
  have "\<not> heap_end (mem_tlb_flush c1) \<le> heap_cur (mem_tlb_flush c1)"
    using 1(2) by (simp add: mem_tlb_flush_def write_cr3_def issue_def word_le_nat_alt)
  then have a: "heap_alloc_page (mem_tlb_flush c1) = Inr (heap_cur (mem_tlb_flush c1),
      (mem_tlb_flush c1)\<lparr>heap_cur := heap_cur (mem_tlb_flush c1) + 0x1000,
        cells := fast_zero_page (heap_cur (mem_tlb_flush c1)) (cells (mem_tlb_flush c1))\<rparr>)"
    by (simp add: heap_alloc_page_eq)
  obtain vs' c' where "lapic_init vs (issue (Lidt (16 * 0x100) (heap_cur (mem_tlb_flush c1)))
      ((mem_tlb_flush c1)\<lparr>heap_cur := heap_cur (mem_tlb_flush c1) + 0x1000,
        cells := fill_idt tr (heap_cur (mem_tlb_flush c1)) (fast_zero_page (heap_cur (mem_tlb_flush c1)) (cells (mem_tlb_flush c1)))\<rparr>)) =
      Inr (vs', c')"
    using lapic_init_succeeds [OF assms(3)] by blast
  then show ?thesis unfolding arch_init_def m irq_init_def bindE_simps a by (simp add: Let_def)
qed

section \<open>The set-up sends nothing to a port\<close>

definition sent :: "u16 \<Rightarrow> x86_state \<Rightarrow> string" where
  "sent port c = concat (map (sent_byte port) (bus c))"

lemma sent_issue: "sent port (issue op c) = sent port c @ sent_byte port op"
  by (simp add: sent_def issue_def)

lemma sent_lapic: "sent port (lapic_write r v c) = sent port c"
  by (simp add: lapic_write_def sent_issue)

lemma sent_alloc: "heap_alloc_page c = Inr (p, c') \<Longrightarrow> sent port c' = sent port c"
  by (auto simp: heap_alloc_page_eq sent_def split: if_splits)

lemma sent_poke: "sent port (poke a v c) = sent port c"
  by (simp add: sent_def poke_def)

lemma sent_enter: "enter_table t i c = Inr (u, c') \<Longrightarrow> sent port c' = sent port c"
  by (auto simp: enter_table_def Let_def sent_poke dest: sent_alloc [where port = port] split: if_splits)

lemma sent_mapping: "create_page_mapping r pa va c = Inr c' \<Longrightarrow> sent port c' = sent port c"
  by (auto simp: create_page_mapping_def Let_def sent_poke dest!: sent_enter [where port = port])

lemma sent_wait: "lapic_wait vs c = Inr (vs', c') \<Longrightarrow> sent port c' = sent port c"
  by (induction vs arbitrary: c) (auto simp: Let_def sent_issue split: if_splits)

lemma sent_lapic_init: "lapic_init vs c = Inr (vs', c') \<Longrightarrow> sent port c' = sent port c"
  by (auto simp: lapic_init_def Let_def sent_lapic lapic_timer_reset_def dest!: sent_wait [where port = port])

lemma sent_handlers:
  "sent port (irq_reset_undef_handler c) = sent port c" "sent port (irq_reset_irq_handler c) = sent port c"
  "sent port (irq_reset_page_fault_handler c) = sent port c" "sent port (irq_reset_syscall_handler c) = sent port c"
  by (simp_all add: sent_def irq_reset_undef_handler_def irq_reset_irq_handler_def irq_reset_page_fault_handler_def
      irq_reset_syscall_handler_def)

lemma sent_fields:
  "sent port (c\<lparr>cells := m\<rparr>) = sent port c" "sent port (c\<lparr>initial_pagetables := r\<rparr>) = sent port c"
  "sent port (c\<lparr>use_framebuffer := b\<rparr>) = sent port c" "sent port (heap_init img c) = sent port c"
  "sent port (mem_tlb_flush c) = sent port c"
  by (simp_all add: sent_def heap_init_def Let_def mem_tlb_flush_def write_cr3_def issue_def)

lemma arch_init_silent: "arch_init img tr vs c = Inr (vs', c') \<Longrightarrow> sent port c' = sent port c"
  by (auto simp: arch_init_def early_mem_init_def irq_init_def Let_def sent_handlers sent_fields sent_issue
      dest!: sent_lapic_init [where port = port] sent_alloc [where port = port] sent_mapping [where port = port])

section \<open>A run on the qemu platform\<close>

definition alive :: "'e + 's \<Rightarrow> bool" where "alive s \<longleftrightarrow> (\<exists>m. s = Inr m)"

definition debug_text :: "io_fault + x86_io \<Rightarrow> string" where
  "debug_text s = (case s of Inl e \<Rightarrow> [] | Inr m \<Rightarrow> port_text 0xe9 m)"

interpretation qemu_console: guarded_console qemu_sink debug_text alive
  by unfold_locales (auto simp: alive_def qemu_sink_def debug_text_def debug_port.shown_putch)

lemma debug_text_sent: "debug_text (Inr m) = sent 0xe9 (cpu m)"
  by (simp add: debug_text_def port_text_def sent_def)

text \<open>
  C15: the qemu platform from power-on to the end of the report. If the heap has at least four pages
  and the local APIC becomes idle at some poll, the set-up succeeds, whatever the memory holds. If the
  command line ends inside its string and the benchmarks run, the harness's report is all the debug port
  receives, and arch_start returns.
\<close>

theorem qemu_start_reports:
  assumes "parse_cmdline cmdline (use_framebuffer (cpu m)) = Some fb"
    and "unat (sym_HEAP_START img) + unat (sym_HEAP_SIZE img) < 2 ^ 64" and "0x4000 \<le> unat (sym_HEAP_SIZE img)"
    and "\<exists>v\<in>set (lapic_answers m). v AND DELIVS = 0" and "0x1000 \<le> length junk"
    and "\<forall>env. priv_enter env = x86_priv_enter \<and> priv_leave env = x86_priv_leave \<longrightarrow>
      (\<forall>bm\<in>set bms. benchmark_runs qemu_sink debug_text alive alive env bm)"
  shows "\<exists>m' runs. arch_start (\<lambda>x. Inr (qemu_platform_init False x)) img tr cmdline junk bms m = Inr m' \<and> recorded bms runs \<and>
    port_text 0xe9 m' = port_text 0xe9 m @ crlf @ crlf @ marker ''BEGIN'' @ report runs @ marker ''END''"
proof -
  obtain vs c where a: "arch_init img tr (lapic_answers m) ((cpu m)\<lparr>use_framebuffer := fb\<rparr>) = Inr (vs, c)"
    using arch_init_succeeds [OF assms(2-4)] by blast
  obtain fs m1 where p: "qemu_platform_init False (no_sinks, m\<lparr>cpu := c, lapic_answers := vs\<rparr>) = (fs, m1)" by (cases "qemu_platform_init False (no_sinks, m\<lparr>cpu := c, lapic_answers := vs\<rparr>)")
  have f: "output_file fs = \<lparr>putch_fn = Some qemu_sink\<rparr>" "cpu m1 = c"
    using p by (auto simp: qemu_platform_init_def Let_def printf_register_output_def printf_register_debug_def printf_register_error_def)
  have w: "wired qemu_sink (x86_env junk fs)" using f(1) assms(5) by (simp add: wired_def x86_env_def)
  have b: "\<forall>bm\<in>set bms. benchmark_runs qemu_sink debug_text alive alive (x86_env junk fs) bm"
    using assms(6) by (simp add: x86_env_def)
  have "alive (Inr m1 :: io_fault + x86_io)" by (simp add: alive_def)
  from qemu_console.harness_main_runs [OF w b _ qemu_console.good_putch this]
  obtain s' runs where h: "harness_main (x86_env junk fs) bms (Inr m1) = Inr s'" "alive s'" "recorded bms runs"
    "debug_text s' = debug_text (Inr m1) @ crlf @ crlf @ marker ''BEGIN'' @ report runs @ marker ''END''" by blast
  obtain m' where m': "s' = Inr m'" using h(2) by (auto simp: alive_def)
  have "sent 0xe9 c = sent 0xe9 (cpu m)" using arch_init_silent [OF a] by (simp add: sent_fields)
  then have "debug_text (Inr m1) = port_text 0xe9 m" by (simp add: debug_text_sent f(2)) (simp add: port_text_def sent_def)
  then show ?thesis
    using h(1,3,4) assms(1) a p by (auto simp: arch_start_def failing_def m' debug_text_def x86_platform_shutdown_def)
qed

definition nop_benchmark :: "(io_fault, io_fault + x86_io) benchmark_t" where
  "nop_benchmark = \<lparr>bm_name = ''NOP'', category = ''Test'', kernel_init = None, kernel = Inr, kernel_cleanup = None,
     kernel_control = None, iteration_count = 1, kernel_priv = 0\<rparr>"

lemma nop_runs: "benchmark_runs qemu_sink debug_text alive alive env nop_benchmark"
  unfolding benchmark_runs_def benchmark_moves_def level_ok_def nop_benchmark_def
  by (auto simp: word_ok_def white_def nul_def keeps_def routine_of_def intro!: exI [of _ alive] qemu_console.good_putch)

lemma qemu_start_reports_witness:
  "\<exists>m' runs. arch_start (\<lambda>x. Inr (qemu_platform_init False x)) (demo_image\<lparr>sym_HEAP_SIZE := 0x40000\<rparr>) demo_traps
      (''fb x'' @ [CHR 0x00]) (replicate 0x1000 nul) [nop_benchmark] (demo_io []\<lparr>lapic_answers := [0x1000, 0]\<rparr>) = Inr m' \<and>
    recorded [nop_benchmark] runs \<and> port_text 0xe9 m' = crlf @ crlf @ marker ''BEGIN'' @ report runs @ marker ''END''"
proof -
  let ?m = "demo_io []\<lparr>lapic_answers := [0x1000, 0]\<rparr>"
  have p: "parse_cmdline (''fb x'' @ [CHR 0x00]) (use_framebuffer (cpu ?m)) = Some True" by (simp add: parse_cmdline.simps)
  have t: "port_text 0xe9 ?m = []" by (simp add: port_text_def demo_io_def blank_x86_def)
  show ?thesis
    using qemu_start_reports [OF p, of "demo_image\<lparr>sym_HEAP_SIZE := 0x40000\<rparr>" "replicate 0x1000 nul" "[nop_benchmark]" demo_traps]
      nop_runs unfolding t by (simp add: demo_image_def DELIVS_def)
qed

end
