(* ===== verification/Memory_Helpers.thy ===== *)
theory Memory_Helpers
  imports Sim_Prelude
begin

section \<open>The memory helpers (util/memcpy.c, util/memset.c)\<close>

text \<open>
  The memory is a function from addresses to bytes; addresses and size_t have the same width,
  which is 32 bits on arm and 64 on the other ports, so that pointers wrap as the registers do.
  The loops are the code's, a byte at a time; their size is not bounded, and the theorems cover
  every overlap of source and destination.
\<close>

type_synonym 'w bytes = "'w word \<Rightarrow> u8"

function memcpy_loop :: "'w::len word \<Rightarrow> 'w word \<Rightarrow> 'w word \<Rightarrow> 'w bytes \<Rightarrow> 'w bytes" where
  "memcpy_loop d s n m = (if n = 0 then m else memcpy_loop (d + 1) (s + 1) (n - 1) (m(d := m s)))"
  by pat_completeness auto
termination
  by (relation "measure (\<lambda>(d, s, n, m). unat n)") (auto intro: unat_mono simp: measure_unat)

declare memcpy_loop.simps [simp del]

definition memcpy :: "'w::len word \<Rightarrow> 'w word \<Rightarrow> 'w word \<Rightarrow> 'w bytes \<Rightarrow> 'w word \<times> 'w bytes" where
  "memcpy dest src n m = (dest, memcpy_loop dest src n m)"

text \<open>
  The array temp of memmove has the length n; an array of length 0 is undefined (None). Its address
  is the compiler's, a parameter. The function returns nothing although its type says so.
\<close>

definition memmove :: "'w::len word \<Rightarrow> 'w word \<Rightarrow> 'w word \<Rightarrow> 'w word \<Rightarrow> 'w bytes \<Rightarrow> 'w bytes option" where
  "memmove temp dest src n m =
     (if n = 0 then None
      else
        let (_, m) = memcpy temp src n m;
            (_, m) = memcpy dest temp n m
        in Some m)"

function memset_loop :: "'w::len word \<Rightarrow> u8 \<Rightarrow> 'w word \<Rightarrow> 'w bytes \<Rightarrow> 'w bytes" where
  "memset_loop s b n m = (if n > 0 then memset_loop (s + 1) b (n - 1) (m(s := b)) else m)"
  by pat_completeness auto
termination
  by (relation "measure (\<lambda>(s, b, n, m). unat n)") (auto simp: measure_unat word_neq_0_conv)

declare memset_loop.simps [simp del]

definition memset :: "'w::len word \<Rightarrow> u32 \<Rightarrow> 'w word \<Rightarrow> 'w bytes \<Rightarrow> 'w word \<times> 'w bytes" where
  "memset s c n m = (let b = ucast (c AND 0xff) in (s, memset_loop s b n m))"

definition bzero :: "'w::len word \<Rightarrow> 'w word \<Rightarrow> 'w bytes \<Rightarrow> 'w bytes" where
  "bzero s n m = snd (memset s 0 n m)"

section \<open>What they do\<close>

text \<open>The offset of an address in a region, and regions that do not meet.\<close>

definition inside :: "'w::len word \<Rightarrow> 'w word \<Rightarrow> 'w word \<Rightarrow> bool" where
  "inside base n a \<longleftrightarrow> a - base < n"

definition apart :: "'w::len word \<Rightarrow> 'w word \<Rightarrow> 'w word \<Rightarrow> bool" where
  "apart a b n \<longleftrightarrow> n \<le> a - b \<and> n \<le> b - a"

lemma inside_first [simp]: "inside b n b \<longleftrightarrow> n \<noteq> 0"
  by (simp add: inside_def word_neq_0_conv)

lemma inside_step:
  assumes "n \<noteq> 0"
  shows "inside (b + 1) (n - 1) a \<longleftrightarrow> inside b n a \<and> a \<noteq> b"
    and "a \<noteq> b \<Longrightarrow> unat (a - b) = Suc (unat (a - (b + 1)))"
proof -
  show e: "unat (a - b) = Suc (unat (a - (b + 1)))" if "a \<noteq> b"
  proof -
    have "a - b \<noteq> 0" using that by simp
    then have "unat (a - b - 1) = unat (a - b) - 1" "unat (a - b) \<noteq> 0" by (simp_all add: unat_minus_one unat_eq_0)
    then show ?thesis by (simp add: diff_diff_eq)
  qed
  have n: "unat (n - 1) = unat n - 1" "0 < unat n" using assms by (simp_all add: unat_minus_one unat_gt_0)
  show "inside (b + 1) (n - 1) a \<longleftrightarrow> inside b n a \<and> a \<noteq> b"
  proof (cases "a = b")
    case True
    have "n - 1 \<le> b - (b + 1)" by simp
    then show ?thesis using True by (simp add: inside_def)
  next
    case False
    then show ?thesis using e [OF False] n by (auto simp: inside_def word_less_nat_alt)
  qed
qed

text \<open>
  The source a forward copy reads for the byte i of the destination: with the destination in front
  of the source, or with no overlap, the byte i; with the destination gap bytes into the source, the
  bytes that repeat the first gap ones.
\<close>

definition copied_from :: "'w::len word \<Rightarrow> 'w word \<Rightarrow> 'w word \<Rightarrow> 'w word" where
  "copied_from d s a = s + word_of_nat (unat (a - d) mod unat (d - s))"

lemma copied_from_start [simp]: "copied_from d s d = s"
  by (simp add: copied_from_def)

lemma copied_from_step:
  fixes m :: "'w::len bytes"
  assumes "a \<noteq> d"
  shows "(m(d := m s)) (copied_from (d + 1) (s + 1) a) = m (copied_from d s a)"
proof -
  let ?g = "unat (d - s)" and ?i = "unat (a - (d + 1))"
  have i: "unat (a - d) = Suc ?i" using assms by (rule inside_step(2) [OF one_neq_zero])
  have g: "unat (d + 1 - (s + 1)) = ?g" by simp
  have f: "copied_from (d + 1) (s + 1) a = s + word_of_nat (Suc (?i mod ?g))"
    by (simp add: copied_from_def add_ac)
  show ?thesis
  proof (cases "Suc (?i mod ?g) = ?g")
    case True
    then have "s + word_of_nat (Suc (?i mod ?g)) = d" "Suc ?i mod ?g = 0" by (simp_all add: mod_Suc)
    then show ?thesis unfolding f by (simp add: copied_from_def i)
  next
    case False
    then have r: "Suc ?i mod ?g = Suc (?i mod ?g)" by (simp add: mod_Suc)
    show ?thesis
    proof (cases "?g = 0")
      case True
      then have "d = s" by (simp add: unat_eq_0)
      then show ?thesis unfolding f by (simp add: copied_from_def i r)
    next
      case g: False
      have "Suc (?i mod ?g) < ?g" using False g mod_less_divisor [of ?g ?i] by linarith
      moreover have "?g < 2 ^ LENGTH('w)" by (rule unsigned_less)
      ultimately have "unat (word_of_nat (Suc (?i mod ?g)) :: 'w word) = Suc (?i mod ?g)"
        unfolding unat_of_nat by (intro mod_less) (rule less_trans)
      then have "word_of_nat (Suc (?i mod ?g)) \<noteq> d - s" using False by auto
      then have "s + word_of_nat (Suc (?i mod ?g)) \<noteq> d" by (simp add: eq_diff_eq add.commute)
      then show ?thesis unfolding f by (simp add: copied_from_def i r)
    qed
  qed
qed

lemma memcpy_loop_exact: "memcpy_loop d s n m a = (if inside d n a then m (copied_from d s a) else m a)"
proof (induction d s n m rule: memcpy_loop.induct)
  case (1 d s n m)
  show ?case
  proof (cases "n = 0")
    case True
    then show ?thesis by (subst memcpy_loop.simps) (simp add: inside_def)
  next
    case False
    have "memcpy_loop d s n m a = (if inside (d + 1) (n - 1) a then (m(d := m s)) (copied_from (d + 1) (s + 1) a) else (m(d := m s)) a)"
      using 1 [OF False] by (subst memcpy_loop.simps) (simp only: False if_False)
    then show ?thesis
      using False copied_from_step [of a d m s] by (cases "a = d") (simp_all add: inside_step(1))
  qed
qed

text \<open>
  C18: memcpy copies bytes upwards, whatever the overlap. It returns the destination; a byte outside
  the n bytes at the destination keeps its value; the byte i of the destination gets the byte i of
  the source as it was, unless the destination starts gap bytes inside the source and i is not below
  gap: then the first gap bytes of the source are repeated.
\<close>

theorem memcpy_exact:
  "memcpy d s n m = (d, \<lambda>a. if a - d < n then m (s + word_of_nat (unat (a - d) mod unat (d - s))) else m a)"
  by (simp add: memcpy_def fun_eq_iff memcpy_loop_exact inside_def copied_from_def)

text \<open>A copy between regions that do not meet, which is all a caller may rely on.\<close>

lemma memcpy_apart:
  assumes "n \<le> d - s"
  shows "memcpy_loop d s n m a = (if inside d n a then m (s + (a - d)) else m a)"
proof -
  have "copied_from d s a = s + (a - d)" if "inside d n a"
  proof -
    have "a - d < d - s" using that assms by (auto simp: inside_def)
    then have "unat (a - d) mod unat (d - s) = unat (a - d)" by (simp add: word_less_nat_alt)
    then show ?thesis by (simp add: copied_from_def)
  qed
  then show ?thesis by (simp add: memcpy_loop_exact)
qed

text \<open>
  C19: memmove moves n bytes correctly whatever the overlap of source and destination, if its
  temporary array meets neither: the destination gets the old bytes of the source, the temporary
  array a copy of them, and no other byte changes. With n = 0 the array is undefined.
\<close>

theorem memmove_exact:
  assumes "apart temp src n" and "apart temp dest n"
  shows "memmove temp dest src n m =
    (if n = 0 then None
     else Some (\<lambda>a. if a - dest < n then m (src + (a - dest)) else if a - temp < n then m (src + (a - temp)) else m a))"
proof -
  have d: "n \<le> temp - src" "n \<le> dest - temp" using assms by (simp_all add: apart_def)
  have "memcpy_loop dest temp n (memcpy_loop temp src n m) a =
    (if a - dest < n then m (src + (a - dest)) else if a - temp < n then m (src + (a - temp)) else m a)" for a
    unfolding memcpy_apart [OF d(2)] memcpy_apart [OF d(1)] by (simp add: inside_def)
  then show ?thesis by (simp add: memmove_def memcpy_def fun_eq_iff)
qed

lemma memmove_exact_witness:
  "map_option (\<lambda>m. map m [100, 101, 102, 103]) (memmove (500 :: 32 word) 101 100 3 (\<lambda>a. ucast a)) = Some [100, 100, 101, 102]"
  by (subst memmove_exact) (simp_all add: apart_def)

section \<open>Filling\<close>

lemma memset_loop_exact: "memset_loop s b n m a = (if inside s n a then b else m a)"
proof (induction s b n m rule: memset_loop.induct)
  case (1 s b n m)
  show ?case
  proof (cases "n = 0")
    case True
    then show ?thesis by (subst memset_loop.simps) (simp add: inside_def)
  next
    case False
    then have "memset_loop s b n m a = (if inside (s + 1) (n - 1) a then b else (m(s := b)) a)"
      using 1 by (subst memset_loop.simps) (simp del: fun_upd_apply add: word_neq_0_conv)
    then show ?thesis
      using False by (cases "a = s") (simp_all add: inside_step(1))
  qed
qed

text \<open>C1: memset and bzero set exactly the n bytes from the address on, to the low byte of the value.\<close>

theorem memset_exact:
  "memset s c n m = (s, \<lambda>a. if a - s < n then ucast c else m a)"
  "bzero s n m = (\<lambda>a. if a - s < n then 0 else m a)"
proof -
  have "(ucast (c AND 0xff) :: u8) = ucast c"
  proof (rule bit_eqI)
    fix i
    assume "possible_bit TYPE(8 word) i"
    then have "i < 8" by (simp add: possible_bit_word)
    then have "bit (0xff :: 32 word) i" by (simp add: bit_iff_odd numeral_eq_Suc less_Suc_eq, elim disjE) simp_all
    then show "bit (ucast (c AND 0xff) :: u8) i = bit (ucast c :: u8) i" by (simp add: bit_simps)
  qed
  then show "memset s c n m = (s, \<lambda>a. if a - s < n then ucast c else m a)"
    by (simp add: memset_def fun_eq_iff memset_loop_exact inside_def)
  show "bzero s n m = (\<lambda>a. if a - s < n then 0 else m a)"
    by (simp add: bzero_def memset_def fun_eq_iff memset_loop_exact inside_def)
qed

end
