(* ===== verification/Armv8_Range.thy ===== *)
theory Armv8_Range
  imports Armv8_Memory
begin

section \<open>How much heap the armv8 tables take\<close>

text \<open>
  The armv8 port never gives a table back: mem_init clears the entries of the root but keeps the
  addresses in them, and a later walk through such an entry takes the old table again. So over any
  sequence of mem_init and mem_create_page_mapping the heap holds one page for each table that some
  mapped address has needed, which this theory counts. The linker script of the virt board gives the
  heap one GiB that reaches into the physical range the benchmarks write to; it is shown here that
  what lies beyond a bound that is never reached makes no difference.
\<close>

text \<open>The tables that are linked, present or not, and a heap pointer that is paid for by them.\<close>

definition linked :: "(u64 \<Rightarrow> u64) \<Rightarrow> (u64 \<Rightarrow> u64) \<Rightarrow> u64 \<Rightarrow> u32 list set" where
  "linked base m root = {p. path p \<and> length p \<le> 3 \<and> node base m root p \<noteq> None}"

definition paid :: "(u64 \<Rightarrow> u64) \<Rightarrow> u32 list set \<Rightarrow> (u64 \<Rightarrow> u64) \<Rightarrow> u64 \<Rightarrow> u64 \<Rightarrow> u64 \<Rightarrow> bool" where
  "paid base A m root lo cur \<longleftrightarrow> linked base m root \<subseteq> A \<and> unat cur \<le> unat lo + 0x1000 * card (linked base m root)"

lemma same_bases:
  assumes "\<And>a. base (m' a) = base (m a)"
  shows "node base m' t p = node base m t p" "linked base m' t = linked base m t"
proof -
  show n: "node base m' t p = node base m t p" for t p
    by (induction p arbitrary: t) (simp_all add: Let_def assms)
  show "linked base m' t = linked base m t" by (simp add: linked_def n)
qed

lemma paid_bound: "paid base A m root lo cur \<Longrightarrow> finite A \<Longrightarrow> unat cur \<le> unat lo + 0x1000 * card A"
proof -
  assume p: "paid base A m root lo cur" and f: "finite A"
  have "card (linked base m root) \<le> card A" using p f by (intro card_mono) (simp_all add: paid_def)
  then have "0x1000 * card (linked base m root) \<le> 0x1000 * card A" by simp
  then show ?thesis using p unfolding paid_def by linarith
qed

context entry_format
begin

lemma descend_paid:
  assumes ok: "tables_ok present base m root lo cur"
    and p: "path p" "length p \<le> 2" "node base m root p = Some t" "i < 512"
    and d: "descended present base t i m cur m' cur' c"
    and A: "paid base A m root lo cur" "finite A" "p @ [i] \<in> A"
  shows "paid base A m' root lo cur'"
proof (cases "present (m (cell t i))")
  case True
  then show ?thesis using d A(1) by (simp add: descended_def)
next
  case np: False
  note D = ok p d np
  show ?thesis
  proof (cases "base (m (cell t i)) = 0")
    case False
    have "linked base m' root = linked base m root"
      using nodes_relinked [OF D False] by (auto simp: linked_def)
    moreover have "cur' = cur" using d np False by (simp add: descended_def)
    ultimately show ?thesis using A(1) by (simp add: paid_def)
  next
    case True
    have none: "node base m root (p @ [i]) = None" using p(3) True by (simp add: node_append)
    have below: "node base m root (p @ [i] @ r) = None" for r
      unfolding append_assoc [symmetric] node_append [of _ _ _ "p @ [i]"] none by simp
    have l: "linked base m' root = insert (p @ [i]) (linked base m root)"
    proof
      show "linked base m' root \<subseteq> insert (p @ [i]) (linked base m root)"
        using nodes_fresh [OF D True] by (auto simp: linked_def split: if_splits)
      have "q \<in> linked base m' root" if "q \<in> linked base m root" for q
      proof -
        have "\<not> (\<exists>r. q = p @ [i] @ r)" using that below by (auto simp: linked_def)
        then show ?thesis using that nodes_fresh [OF D True, of q] by (auto simp: linked_def)
      qed
      moreover have "p @ [i] \<in> linked base m' root"
        using nodes_fresh [OF D True, of "p @ [i]"] p by (simp add: linked_def)
      ultimately show "insert (p @ [i]) (linked base m root) \<subseteq> linked base m' root" by auto
    qed
    have n: "p @ [i] \<notin> linked base m root" using none by (simp add: linked_def)
    have f: "finite (linked base m root)" using A(1,2) finite_subset by (auto simp: paid_def)
    have "cur' = cur + 0x1000" using d np True by (simp add: descended_def)
    then have "unat cur' \<le> unat cur + 0x1000" by (simp add: unat_word_ariths)
    then show ?thesis using A(1,3) n f by (simp add: paid_def l)
  qed
qed

text \<open>Three descents and the write of a page's entry.\<close>

lemma insert_paid:
  assumes ok: "tables_ok present base m root lo cur"
    and root: "node base m root [] = Some root" and ix: "path [i0, i1, i2, i3]"
    and d1: "descended present base root i0 m cur m1 cur1 t1"
    and d2: "descended present base t1 i1 m1 cur1 m2 cur2 t2"
    and d3: "descended present base t2 i2 m2 cur2 m3 cur3 t3"
    and A: "paid base A m root lo cur" "finite A" "{[i0], [i0, i1], [i0, i1, i2]} \<subseteq> A"
  shows "paid base A (m3(cell t3 i3 := e)) root lo cur3"
proof -
  have ix: "i0 < 512" "i1 < 512" "i2 < 512" "i3 < 512" using ix by simp_all
  have ok1: "tables_ok present base m1 root lo cur1" by (rule descend_tables_ok [OF ok _ _ root ix(1) d1]) simp_all
  have n1: "node base m1 root [i0] = Some t1" using descend_node [OF ok _ _ root ix(1) d1] by simp
  have ok2: "tables_ok present base m2 root lo cur2"
    by (rule descend_tables_ok [OF ok1 _ _ n1 ix(2) d2]) (simp_all add: ix)
  have n2: "node base m2 root [i0, i1] = Some t2" using descend_node [OF ok1 _ _ n1 ix(2) d2] ix by simp
  have ok3: "tables_ok present base m3 root lo cur3"
    by (rule descend_tables_ok [OF ok2 _ _ n2 ix(3) d3]) (simp_all add: ix)
  have n3: "node base m3 root [i0, i1, i2] = Some t3" using descend_node [OF ok2 _ _ n2 ix(3) d3] ix by simp
  have p1: "paid base A m1 root lo cur1" by (rule descend_paid [OF ok _ _ root ix(1) d1 A(1,2)]) (use A(3) in simp_all)
  have p2: "paid base A m2 root lo cur2" by (rule descend_paid [OF ok1 _ _ n1 ix(2) d2 p1 A(2)]) (use A(3) ix in simp_all)
  have p3: "paid base A m3 root lo cur3" by (rule descend_paid [OF ok2 _ _ n2 ix(3) d3 p2 A(2)]) (use A(3) ix in simp_all)
  have "linked base (m3(cell t3 i3 := e)) root = linked base m3 root"
    using leaf_nodes [OF ok3 _ _ n3 ix(4), of "m3(cell t3 i3 := e)"] ix by (auto simp: linked_def)
  then show ?thesis using p3 by (simp add: paid_def)
qed

text \<open>Cells outside the pages in use do not matter.\<close>

lemma same_pages:
  assumes ok: "tables_ok present base m root lo cur" and g: "shaped shape base m root"
    and same: "\<And>a. lo \<le> a \<Longrightarrow> a < cur \<Longrightarrow> m' a = m a"
  shows "tables_ok present base m' root lo cur" "shaped shape base m' root" "linked base m' root = linked base m root"
    "\<lbrakk>path q; length q = 4\<rbrakk> \<Longrightarrow> look present base m' root q = look present base m root q"
proof -
  have c: "page_aligned cur" using ok by (simp add: tables_ok_def)
  have e: "m' (cell u j) = m (cell u j)" if "path q" "length q \<le> 3" "node base m root q = Some u" "j < 512" for q u j
    using cell_bounds [OF tables_okD(1) [OF ok that(1-3)] c tables_okD(2,3) [OF ok that(1-3)] that(4)] same by blast
  have n: "\<lbrakk>path q; length q \<le> 3\<rbrakk> \<Longrightarrow> node base m' root q = node base m root q" for q
  proof (induction q rule: rev_induct)
    case (snoc j q)
    then show ?case using e [of q _ j] by (cases "node base m root q") (auto simp: node_append Let_def)
  qed simp
  have v: "\<lbrakk>path q; length q \<le> 3\<rbrakk> \<Longrightarrow> visible present base m' root q = visible present base m root q" for q
  proof (induction q rule: rev_induct)
    case (snoc j q)
    show ?case
    proof (cases "node base m root q")
      case None
      then have "\<not> visible present base m root q" using visible_node [OF ok, of q] snoc.prems by auto
      then show ?thesis using snoc visible_prefix [of _ root q "[j]"] by auto
    next
      case (Some u)
      then have "node base m' root q = Some u" using n [of q] snoc.prems by simp
      then show ?thesis using Some snoc e [of q u j] by (simp add: visible_snoc)
    qed
  qed simp
  show "linked base m' root = linked base m root" using n by (auto simp: linked_def)
  show "shaped shape base m' root"
    unfolding shaped_def
  proof (intro allI impI; elim conjE)
    fix q u and j :: u32
    assume q: "path q" "length q \<le> 2" "j < 512" "node base m' root q = Some u"
    then have "node base m root q = Some u" using n [of q] by simp
    then show "shape (m' (cell u j))" using q shapedD [OF g q(1-3)] e [of q u j] by simp
  qed
  show "tables_ok present base m' root lo cur"
    unfolding tables_ok_def
  proof (intro conjI allI impI; (elim conjE)?)
    show "0 < lo" "page_aligned cur" using ok by (simp_all add: tables_ok_def)
  next
    fix q u assume q: "path q" "length q \<le> 3" and "node base m' root q = Some u"
    then have "node base m root q = Some u" using n [OF q] by simp
    then show "page_aligned u" "lo \<le> u" "u < cur" using tables_okD(1-3) [OF ok q] by blast+
  next
    fix q r u
    assume q: "path q" "length q \<le> 3" and r: "path r" "length r \<le> 3"
      and "node base m' root q = Some u" "node base m' root r = Some u"
    then have "node base m root q = Some u" "node base m root r = Some u" using n [OF q] n [OF r] by simp_all
    then show "q = r" using tables_okD(5) [OF ok q _ r] by blast
  next
    fix q u j
    assume q: "path q" "length q \<le> 2" "j < 512" and u: "node base m' root q = Some u" and p: "present (m' (cell u j))"
    have nu: "node base m root q = Some u" using u n [OF q(1)] q(2) by simp
    have "m' (cell u j) = m (cell u j)" using e [OF q(1) _ nu q(3)] q(2) by simp
    then show "base (m' (cell u j)) \<noteq> 0" using tables_okD(6) [OF ok q(1) _ nu q(2,3)] q(2) p by simp
  qed
  show "look present base m' root q = look present base m root q" if q: "path q" "length q = 4"
  proof -
    obtain r j where r: "q = r @ [j]" "path r" "length r = 3" "j < 512" using q by (cases q rule: rev_cases) auto
    show ?thesis
    proof (cases "node base m root r")
      case None
      then have "\<not> visible present base m root r" using visible_node [OF ok r(2)] r(3) by auto
      then show ?thesis using v [OF r(2)] r by (simp add: look_invisible)
    next
      case (Some u)
      then have "node base m' root r = Some u" using n [OF r(2)] r(3) by simp
      then show ?thesis using Some v [OF r(2)] r e [OF r(2) _ Some r(4)] by (simp add: look_snoc)
    qed
  qed
qed

end

subsection \<open>The mapping functions pay for what they take\<close>

definition a8_paid :: "u32 list set \<Rightarrow> u64 \<Rightarrow> armv8_state \<Rightarrow> bool" where
  "a8_paid A lo s \<longleftrightarrow> paid a8_base A (a8_cells s) (l0_table s) lo (heap_ptr s)"

definition tables_for :: "u64 \<Rightarrow> u32 list set" where
  "tables_for va = {take 1 (a8_path va), take 2 (a8_path va), take 3 (a8_path va)}"

lemma a8_mapping_paid:
  assumes f: "a8_mapper f entry" and b: "a8_ready lo s" and r: "f pa va s = Inr s'"
    and A: "a8_paid A lo s" "finite A" "tables_for va \<subseteq> A"
  shows "a8_paid A lo s'"
proof -
  let ?i0 = "ucast (drop_bit 39 va) AND 511 :: u32" and ?i1 = "ucast (drop_bit 30 va) AND 511 :: u32"
    and ?i2 = "ucast (drop_bit 21 va) AND 511 :: u32" and ?i3 = "ucast (drop_bit 12 va) AND 511 :: u32"
  have lt: "path [?i0, ?i1, ?i2, ?i3]" using path_a8_path [of va] by (simp add: a8_path_def)
  then have l: "?i0 < 512" "?i1 < 512" "?i2 < 512" "?i3 < 512" by simp_all
  have b: "a8_built lo s" "heap_ptr s \<le> sym_HEAP_END s" using b by (simp_all add: a8_ready_def)
  note D = a8_builtD [OF b(1)]
  have fe: "f pa va s = bindE (walk_tables va s) (\<lambda>(l3, s). Inr (a8_poke (get_l3_descriptor l3 va) (entry pa) s))"
    using f by (simp add: a8_mapper_def)
  obtain t1 s1 t2 s2 l3 s3 where
    r1: "get_l1_table (l0_table s) va s = Inr (t1, s1)" and r2: "get_l2_table t1 va s1 = Inr (t2, s2)" and
    r3: "get_l3_table t2 va s2 = Inr (l3, s3)" and s': "s' = a8_poke (get_l3_descriptor l3 va) (entry pa) s3"
    using r D(6) unfolding fe by (auto simp: walk_tables_def get_txln_table_def)
  have root: "node a8_base (a8_cells s) (l0_table s) [] = Some (l0_table s)" by simp
  note E1 = a8_level [OF b path_simps(1) _ root l(1) refl r1 [unfolded get_l1_table_def], simplified]
  have n1: "node a8_base (a8_cells s1) (l0_table s1) [?i0] = Some t1" using E1(5) by simp
  have p1: "path [?i0]" "path [?i0, ?i1]" using l by simp_all
  note E2 = a8_level [OF E1(3,4) p1(1) _ n1 l(2) refl r2 [unfolded get_l2_table_def], simplified]
  have n2: "node a8_base (a8_cells s2) (l0_table s2) [?i0, ?i1] = Some t2" using E2(5) by simp
  note E3 = a8_level [OF E2(3,4) p1(2) _ n2 l(3) refl r3 [unfolded get_l3_table_def], simplified]
  have f1: "s1 = s\<lparr>a8_cells := a8_cells s1, heap_ptr := heap_ptr s1\<rparr>" using E1(2) .
  have f2: "s2 = s\<lparr>a8_cells := a8_cells s2, heap_ptr := heap_ptr s2\<rparr>" using a8_frame_trans [OF f1 E2(2)] .
  have f3: "s3 = s\<lparr>a8_cells := a8_cells s3, heap_ptr := heap_ptr s3\<rparr>" using a8_frame_trans [OF f2 E3(2)] .
  have g: "l0_table s3 = l0_table s" by (subst f3) simp
  have "{[?i0], [?i0, ?i1], [?i0, ?i1, ?i2]} \<subseteq> A" using A(3) by (simp add: tables_for_def a8_path_def)
  from a8.insert_paid [OF D(1) root lt E1(1) E2(1) E3(1) A(1) [unfolded a8_paid_def] A(2) this, of "entry pa"]
  show ?thesis by (simp add: a8_paid_def s' a8_poke_def get_l3_descriptor_def g)
qed

lemma a8_map_pages_paid:
  assumes f: "a8_mapper f entry" and A: "finite A"
  shows "\<lbrakk>a8_ready lo s; a8_paid A lo s; map_pages f ps s = Inr s'; \<forall>p\<in>set ps. tables_for (snd p) \<subseteq> A\<rbrakk> \<Longrightarrow> a8_paid A lo s'"
proof (induction ps arbitrary: s)
  case (Cons p ps)
  obtain pa va where p: "p = (pa, va)" by (cases p)
  obtain s1 where 1: "f pa va s = Inr s1" "map_pages f ps s1 = Inr s'" using Cons.prems(3) p by auto
  have "tables_for va \<subseteq> A" using Cons.prems(4) p by simp
  from Cons.IH [OF a8_mapping_ok(1) [OF f Cons.prems(1) 1(1)] a8_mapping_paid [OF f Cons.prems(1) 1(1) Cons.prems(2) A this] 1(2)]
  show ?case using Cons.prems(4) by simp
qed simp

text \<open>The addresses below 3 GiB need at most 1541 tables.\<close>

definition low_tables :: "u32 list set" where
  "low_tables = {[], [0]} \<union> (\<lambda>j. [0, word_of_nat j]) ` {..<3} \<union> (\<lambda>(j, k). [0, word_of_nat j, word_of_nat k]) ` ({..<3} \<times> {..<512})"

lemma low_tables_finite: "finite low_tables" and low_tables_card: "card low_tables \<le> 1541"
proof -
  show "finite low_tables" by (simp add: low_tables_def)
  have "card ((\<lambda>j. [0, word_of_nat j :: u32]) ` {..<3}) \<le> 3" by (rule order_trans [OF card_image_le]) simp_all
  moreover have "card ((\<lambda>(j, k). [0, word_of_nat j, word_of_nat k :: u32]) ` ({..<3} \<times> {..<512})) \<le> 1536"
    by (rule order_trans [OF card_image_le]) simp_all
  moreover have "card {[], [0 :: u32]} \<le> 2" by (simp add: card_insert_if)
  ultimately show "card low_tables \<le> 1541"
    unfolding low_tables_def
    using card_Un_le [of "{[], [0]} \<union> (\<lambda>j. [0, word_of_nat j :: u32]) ` {..<3}" "(\<lambda>(j, k). [0, word_of_nat j, word_of_nat k]) ` ({..<3} \<times> {..<512})"]
      card_Un_le [of "{[], [0]}" "(\<lambda>j. [0, word_of_nat j :: u32]) ` {..<3}"] by linarith
qed

lemma index_nat: "unat (ucast (drop_bit k (w :: u64)) AND 511 :: u32) = (unat w div 2 ^ k) mod 512"
proof -
  have "(511 :: u32) = mask 9" by (simp add: mask_eq_exp_minus_1)
  then have "ucast (drop_bit k w) AND 511 = (take_bit 9 (ucast (drop_bit k w)) :: u32)" by (simp only: take_bit_eq_mask)
  moreover have d: "unat (drop_bit k w) = unat w div 2 ^ k"
  proof -
    have "take_bit 64 (unat w) = unat w" using unsigned_less [of w, where 'a = nat] by (simp add: take_bit_nat_eq_self)
    then show ?thesis unfolding unsigned_drop_bit_eq by (simp add: drop_bit_eq_div)
  qed
  ultimately have "unat (ucast (drop_bit k w) AND 511 :: u32) = take_bit 9 (take_bit 32 (unat w div 2 ^ k))"
    by (simp only: unsigned_take_bit_eq unsigned_ucast_eq d) simp
  then show ?thesis by (simp add: take_bit_take_bit) (simp add: take_bit_eq_mod)
qed

lemma low_addresses:
  assumes "va < 0xc0000000"
  shows "tables_for va \<subseteq> low_tables"
proof -
  have v: "unat va < 0xc0000000" using assms by (simp add: word_less_nat_alt)
  have i0: "ucast (drop_bit 39 va) AND 511 = (0 :: u32)" using v by (simp add: word_unat_eq_iff index_nat)
  have i1: "unat (ucast (drop_bit 30 va) AND 511 :: u32) < 3" using v unfolding index_nat by simp
  have i2: "unat (ucast (drop_bit 21 va) AND 511 :: u32) < 512" unfolding index_nat by simp
  have "[0] \<in> low_tables" by (simp add: low_tables_def)
  moreover have "[0, ucast (drop_bit 30 va) AND 511 :: u32] \<in> low_tables"
    unfolding low_tables_def
    by (intro UnI1 [OF UnI2] image_eqI [where x = "unat (ucast (drop_bit 30 va) AND 511 :: u32)"]) (use i1 in simp_all)
  moreover have "[0, ucast (drop_bit 30 va) AND 511, ucast (drop_bit 21 va) AND 511 :: u32] \<in> low_tables"
    unfolding low_tables_def
    by (intro UnI2 image_eqI [where x = "(unat (ucast (drop_bit 30 va) AND 511 :: u32), unat (ucast (drop_bit 21 va) AND 511 :: u32))"])
      (use i1 i2 in simp_all)
  ultimately show ?thesis by (simp add: tables_for_def a8_path_def i0)
qed

subsection \<open>Heap that is never reached\<close>

definition heap_upto :: "u64 \<Rightarrow> armv8_state \<Rightarrow> armv8_state" where
  "heap_upto hi s = s\<lparr>sym_HEAP_END := hi\<rparr>"

lemma heap_upto_simps [simp]:
  "a8_cells (heap_upto hi s) = a8_cells s" "heap_ptr (heap_upto hi s) = heap_ptr s" "l0_table (heap_upto hi s) = l0_table s"
  "sym_HEAP_END (heap_upto hi s) = hi" "heap_upto hi' (heap_upto hi s) = heap_upto hi' s" "TTBR0_EL1 (heap_upto hi s) = TTBR0_EL1 s"
  "a8_view (heap_upto hi s) = a8_view s" "a8_paid A lo (heap_upto hi s) = a8_paid A lo s"
  by (simp_all add: heap_upto_def a8_view_def fun_eq_iff a8_paid_def)

lemma heap_upto_same: "heap_upto (sym_HEAP_END s) s = s"
  by (simp add: heap_upto_def)

text \<open>What succeeds with a short heap takes the same way with a longer one.\<close>

lemma get_descriptor_longer:
  assumes "get_descriptor k t va s = Inr (d, s')" "sym_HEAP_END s \<le> hi"
  shows "get_descriptor k t va (heap_upto hi s) = Inr (d, heap_upto hi s')" "sym_HEAP_END s' = sym_HEAP_END s"
proof -
  have n: "\<not> sym_HEAP_END s < x \<Longrightarrow> \<not> hi < x" for x using assms(2) by (meson le_less_trans not_less)
  show "get_descriptor k t va (heap_upto hi s) = Inr (d, heap_upto hi s')" "sym_HEAP_END s' = sym_HEAP_END s"
    using assms(1) n
    by (auto simp: get_descriptor_def Let_def heap_get_page_eq heap_upto_def clear_table_def a8_poke_def split: if_splits)
qed

lemma get_txln_table_longer:
  assumes "get_txln_table s = Inr (t, s')" "sym_HEAP_END s \<le> hi"
  shows "get_txln_table (heap_upto hi s) = Inr (t, heap_upto hi s')" "sym_HEAP_END s' = sym_HEAP_END s"
proof -
  have n: "\<not> sym_HEAP_END s < x \<Longrightarrow> \<not> hi < x" for x using assms(2) by (meson le_less_trans not_less)
  show "get_txln_table (heap_upto hi s) = Inr (t, heap_upto hi s')" "sym_HEAP_END s' = sym_HEAP_END s"
    using assms(1) n by (auto simp: get_txln_table_def heap_get_page_eq heap_upto_def split: if_splits)
qed

lemma mapping_longer:
  assumes f: "a8_mapper f entry" and r: "f pa va s = Inr s'" and h: "sym_HEAP_END s \<le> hi"
  shows "f pa va (heap_upto hi s) = Inr (heap_upto hi s')" "sym_HEAP_END s' = sym_HEAP_END s"
proof -
  have fe: "f pa va s = bindE (walk_tables va s) (\<lambda>(l3, s). Inr (a8_poke (get_l3_descriptor l3 va) (entry pa) s))" for s
    using f by (simp add: a8_mapper_def)
  obtain l0 s0 d1 s1 d2 s2 d3 s3 where
    0: "get_txln_table s = Inr (l0, s0)" and 1: "get_descriptor 39 l0 va s0 = Inr (d1, s1)" and
    2: "get_descriptor 30 (d1 AND table_mask) va s1 = Inr (d2, s2)" and
    3: "get_descriptor 21 (d2 AND table_mask) va s2 = Inr (d3, s3)" and
    s': "s' = a8_poke (get_l3_descriptor (d3 AND table_mask) va) (entry pa) s3"
    using r unfolding fe by (auto simp: walk_tables_def get_l1_table_def get_l2_table_def get_l3_table_def)
  note L0 = get_txln_table_longer [OF 0 h]
  note L1 = get_descriptor_longer [OF 1 h [folded L0(2)]]
  note L2 = get_descriptor_longer [OF 2 h [folded L0(2) L1(2)]]
  note L3 = get_descriptor_longer [OF 3 h [folded L0(2) L1(2) L2(2)]]
  show "f pa va (heap_upto hi s) = Inr (heap_upto hi s')"
    unfolding fe by (simp add: walk_tables_def get_l1_table_def get_l2_table_def get_l3_table_def L0 L1 L2 L3 s')
      (simp add: heap_upto_def a8_poke_def)
  show "sym_HEAP_END s' = sym_HEAP_END s" by (simp add: s' a8_poke_def L0(2) L1(2) L2(2) L3(2))
qed

lemma map_pages_longer:
  assumes f: "a8_mapper f entry"
  shows "\<lbrakk>map_pages f ps s = Inr s'; sym_HEAP_END s \<le> hi\<rbrakk> \<Longrightarrow>
    map_pages f ps (heap_upto hi s) = Inr (heap_upto hi s') \<and> sym_HEAP_END s' = sym_HEAP_END s"
proof (induction ps arbitrary: s)
  case (Cons p ps)
  obtain pa va where p: "p = (pa, va)" by (cases p)
  obtain s1 where 1: "f pa va s = Inr s1" "map_pages f ps s1 = Inr s'" using Cons.prems(1) p by auto
  note L = mapping_longer [OF f 1(1) Cons.prems(2)]
  show ?case using Cons.IH [OF 1(2)] L Cons.prems(2) p by simp
qed simp

lemma mem_init_longer:
  assumes im: "a8_image_ok img" and r: "syscall_mem_init img s = Some (Inr s')" and h: "sym_HEAP_END s \<le> hi"
  shows "syscall_mem_init img (heap_upto hi s) = Some (Inr (heap_upto hi s'))"
proof -
  let ?sc = "\<lambda>s. s\<lparr>SCTLR_EL1 := SCTLR_EL1 s AND NOT (push_bit 19 1)\<rparr>" and ?tt = "\<lambda>t s. s\<lparr>TTBR0_EL1 := t, TCR_EL1 := 0x100010\<rparr>"
  let ?id = "map (\<lambda>a :: u64. (a, a))"
  obtain t s0 s1 s2 s3 where g: "get_txln_table (?sc s) = Inr (t, s0)" and c: "clear_txln_table (?tt t s0) = Inr s1"
    and m2: "map_pages a8_create_page_mapping_code (?id (text_pages img)) s1 = Inr s2"
    and m3: "map_pages a8_create_page_mapping_data (?id (data_pages img)) s2 = Inr s3"
    and m4: "map_pages a8_create_page_mapping_device (?id (device_pages img)) s3 = Inr s'"
    using r unfolding syscall_mem_init_eq [OF im] by auto
  have u: "?sc (heap_upto hi s) = heap_upto hi (?sc s)" "?tt t (heap_upto hi s0) = heap_upto hi (?tt t s0)" by (simp_all add: heap_upto_def)
  note G = get_txln_table_longer [OF g, of hi]
  have h0: "sym_HEAP_END (?tt t s0) \<le> hi" using G(2) h by simp
  obtain t' s0' where g': "get_txln_table (?tt t s0) = Inr (t', s0')" "s1 = clear_table t' s0'"
    using c by (auto simp: clear_txln_table_def)
  note C = get_txln_table_longer [OF g'(1) h0]
  have c': "clear_txln_table (heap_upto hi (?tt t s0)) = Inr (heap_upto hi s1)"
    by (simp add: clear_txln_table_def C(1) g'(2)) (simp add: clear_table_def heap_upto_def)
  have h1: "sym_HEAP_END s1 \<le> hi" using C(2) h0 by (simp add: g'(2) clear_table_def)
  have 2: "map_pages a8_create_page_mapping_code (?id (text_pages img)) (heap_upto hi s1) = Inr (heap_upto hi s2)" "sym_HEAP_END s2 \<le> hi"
    using map_pages_longer [OF a8_mappers(2) m2 h1] h1 by simp_all
  have 3: "map_pages a8_create_page_mapping_data (?id (data_pages img)) (heap_upto hi s2) = Inr (heap_upto hi s3)" "sym_HEAP_END s3 \<le> hi"
    using map_pages_longer [OF a8_mappers(1) m3 2(2)] 2(2) by simp_all
  have 4: "map_pages a8_create_page_mapping_device (?id (device_pages img)) (heap_upto hi s3) = Inr (heap_upto hi s')"
    using map_pages_longer [OF a8_mappers(3) m4 3(2)] by simp
  show ?thesis
    unfolding syscall_mem_init_eq [OF im] u using G(1) h c' 2(1) 3(1) 4 u(2) by simp
qed

section \<open>The tables over a whole run\<close>

text \<open>
  The tables are well built and paid for, in a heap from lo whose use stays below hi; or mem_init has not
  run yet and the heap is untouched. Room for all tables below 3 GiB and for one more initialisation
  of the image is what a run needs.
\<close>

definition tables_within :: "u64 \<Rightarrow> u64 \<Rightarrow> armv8_state \<Rightarrow> bool" where
  "tables_within lo hi s \<longleftrightarrow> a8_ready lo (heap_upto hi s) \<and> a8_paid low_tables lo s \<and> hi \<le> sym_HEAP_END s"

definition tables_start :: "u64 \<Rightarrow> u64 \<Rightarrow> armv8_state \<Rightarrow> bool" where
  "tables_start lo hi s \<longleftrightarrow> tables_within lo hi s \<or>
     l0_table s = 0 \<and> heap_ptr s = lo \<and> page_aligned lo \<and> 0 < lo \<and> lo \<le> hi \<and> free_clear (heap_upto hi s) \<and>
     hi \<le> 0x1000000000000 \<and> hi \<le> sym_HEAP_END s"

definition image_low :: "a8_image \<Rightarrow> bool" where
  "image_low img \<longleftrightarrow> a8_image_ok img \<and> (\<forall>a\<in>set (text_pages img @ data_pages img @ device_pages img). a < 0xc0000000)"

definition heap_room_for :: "a8_image \<Rightarrow> u64 \<Rightarrow> u64 \<Rightarrow> bool" where
  "heap_room_for img lo hi \<longleftrightarrow>
     unat lo + 0x1000 * (1542 + 3 * (length (text_pages img) + length (data_pages img) + length (device_pages img))) \<le> unat hi"

lemma within_room:
  assumes "tables_within lo hi s" "unat lo + 0x1000 * (1541 + k) \<le> unat hi"
  shows "a8_room k (heap_upto hi s)" "l0_table s \<noteq> 0"
proof -
  have "unat (heap_ptr s) \<le> unat lo + 0x1000 * card low_tables"
    using assms(1) paid_bound [OF _ low_tables_finite] by (auto simp: tables_within_def a8_paid_def)
  moreover have "0x1000 * card low_tables \<le> 0x1000 * 1541" using low_tables_card by simp
  ultimately show "a8_room k (heap_upto hi s)" using assms(2) by (simp add: a8_room_def algebra_simps)
  have "a8_built lo (heap_upto hi s)" using assms(1) by (simp add: tables_within_def a8_ready_def)
  from a8_builtD(6) [OF this] show "l0_table s \<noteq> 0" by simp
qed

lemma mapping_within_heap:
  assumes f: "a8_mapper f entry" and s: "tables_within lo hi s" and h: "unat lo + 0x1000 * 1544 \<le> unat hi" and va: "va < 0xc0000000"
  obtains s' where "f pa va s = Inr s'" "tables_within lo hi s'" "a8_view s' = (a8_view s)(a8_path va \<mapsto> entry pa)"
    "s' = s\<lparr>a8_cells := a8_cells s', heap_ptr := heap_ptr s'\<rparr>"
proof -
  have b: "a8_ready lo (heap_upto hi s)" "a8_paid low_tables lo (heap_upto hi s)" "sym_HEAP_END (heap_upto hi s) \<le> sym_HEAP_END s"
    using s by (simp_all add: tables_within_def)
  have "a8_room (0 + 3) (heap_upto hi s)" "l0_table (heap_upto hi s) \<noteq> 0" using within_room [OF s, of 3] h by simp_all
  from a8_mapping_succeeds [OF f this, of pa va] obtain c where c: "f pa va (heap_upto hi s) = Inr c" by blast
  note M = a8_mapping_ok [OF f b(1) c] and P = a8_mapping_paid [OF f b(1) c b(2) low_tables_finite low_addresses [OF va]]
  note L = mapping_longer [OF f c b(3)]
  let ?s = "heap_upto (sym_HEAP_END s) c"
  have e: "sym_HEAP_END c = hi" using L(2) by simp
  show thesis
  proof
    show "f pa va s = Inr ?s" using L(1) by (simp add: heap_upto_same)
    have "a8_ready lo (heap_upto hi c)" using M(1) heap_upto_same [of c] by (simp add: e)
    then show "tables_within lo hi ?s" using P s by (simp add: tables_within_def)
    show "a8_view ?s = (a8_view s)(a8_path va \<mapsto> entry pa)" using M(2) by simp
    show "?s = s\<lparr>a8_cells := a8_cells ?s, heap_ptr := heap_ptr ?s\<rparr>"
      unfolding heap_upto_simps by (subst M(3)) (simp add: heap_upto_def)
  qed
qed

lemma fresh_paid:
  assumes "free_clear s" "page_aligned lo" "heap_ptr s = lo" "lo < lo + 0x1000" "lo + 0x1000 \<le> sym_HEAP_END s"
  shows "paid a8_base low_tables (a8_cells s) lo lo (lo + 0x1000)"
proof -
  have z: "a8_base (a8_cells s (cell lo i)) = 0" if "i < 512" for i
  proof -
    have "page_aligned (lo + 0x1000)" using page_aligned_next [OF assms(2)] by simp
    from a8.cell_bounds [OF assms(2) this order_refl assms(4) that]
    have "lo \<le> cell lo i" "cell lo i < lo + 0x1000" by blast+
    then show ?thesis using assms(1,3,5) less_le_trans unfolding free_clear_def by blast
  qed
  have "node a8_base (a8_cells s) lo p = None" if "path p" "p \<noteq> []" for p using that z by (cases p) auto
  then have "linked a8_base (a8_cells s) lo = {[]}" unfolding linked_def by force
  moreover have "[] \<in> low_tables" by (simp add: low_tables_def)
  moreover have "unat (lo + 0x1000) \<le> unat lo + 0x1000" by (simp add: unat_word_ariths)
  ultimately show ?thesis by (simp add: paid_def)
qed

lemma clear_table_paid: "a8_paid A lo (clear_table t s) = a8_paid A lo s"
proof -
  have "a8_base (clear_entries t (a8_cells s) a) = a8_base (a8_cells s a)" for a by (simp add: clear_entries_eq)
  from same_bases(2) [of a8_base, OF this] show ?thesis by (simp add: a8_paid_def paid_def clear_table_def)
qed

lemma a8_frame_init:
  assumes "s1 = u\<lparr>a8_cells := a8_cells s1, heap_ptr := heap_ptr s1, l0_table := l0_table s1, SCTLR_EL1 := k,
      TTBR0_EL1 := TTBR0_EL1 s1, TCR_EL1 := TCR_EL1 s1\<rparr>"
    and "s2 = s1\<lparr>a8_cells := a8_cells s2, heap_ptr := heap_ptr s2\<rparr>"
  shows "s2 = u\<lparr>a8_cells := a8_cells s2, heap_ptr := heap_ptr s2, l0_table := l0_table s2, SCTLR_EL1 := k,
      TTBR0_EL1 := TTBR0_EL1 s2, TCR_EL1 := TCR_EL1 s2\<rparr>"
  using assms by (cases u; cases s1; cases s2) simp

lemma map_pages_frame:
  assumes f: "a8_mapper f entry" and b: "a8_ready lo x" and m: "map_pages f ps x = Inr y"
  shows "y = x\<lparr>a8_cells := a8_cells y, heap_ptr := heap_ptr y\<rparr>"
  using b m
proof (induction ps arbitrary: x)
  case (Cons p ps)
  then obtain pa va x1 where x1: "f pa va x = Inr x1" "map_pages f ps x1 = Inr y" by (cases p) auto
  note M = a8_mapping_ok [OF f Cons.prems(1) x1(1)]
  show ?case using a8_frame_trans [OF M(3) Cons.IH [OF M(1) x1(2)]] .
qed simp

text \<open>The heap has room for an initialisation, and its root table is paid for.\<close>

lemma init_room:
  assumes s: "tables_start lo hi s" and room: "heap_room_for img lo hi"
  shows "a8_room (1 + 3 * (length (text_pages img) + length (data_pages img) + length (device_pages img))) (heap_upto hi s)"
    and "l0_table (heap_upto hi s) = 0 \<longrightarrow> heap_ptr (heap_upto hi s) \<noteq> 0"
proof -
  let ?n = "length (text_pages img) + length (data_pages img) + length (device_pages img)"
  show "a8_room (1 + 3 * ?n) (heap_upto hi s)"
  proof (cases "tables_within lo hi s")
    case True
    then show ?thesis using within_room(1) [of lo hi s "1 + 3 * ?n"] room by (simp add: heap_room_for_def algebra_simps)
  next
    case False
    then show ?thesis using s room by (auto simp: tables_start_def a8_room_def heap_room_for_def algebra_simps)
  qed
  show "l0_table (heap_upto hi s) = 0 \<longrightarrow> heap_ptr (heap_upto hi s) \<noteq> 0"
    using s within_room(2) [of lo hi s 0] room by (auto simp: tables_start_def heap_room_for_def)
qed

lemma root_paid:
  assumes s: "tables_start lo hi s" and room: "heap_room_for img lo hi"
    and g: "get_txln_table ((heap_upto hi s)\<lparr>SCTLR_EL1 := k\<rparr>) = Inr (t, s0)"
  shows "a8_paid low_tables lo s0"
proof (cases "tables_within lo hi s")
  case True
  then have "s0 = (heap_upto hi s)\<lparr>SCTLR_EL1 := k\<rparr>"
    using g within_room(2) [OF True, of 0] room by (auto simp: get_txln_table_def heap_room_for_def)
  then show ?thesis using True by (simp add: tables_within_def a8_paid_def)
next
  case False
  then have f: "l0_table s = 0" "heap_ptr s = lo" "page_aligned lo" "free_clear (heap_upto hi s)" "hi \<le> 0x1000000000000" "lo \<le> hi"
    using s by (auto simp: tables_start_def)
  have rm: "\<not> hi < lo + 0x1000" and s0: "s0 = (heap_upto hi s)\<lparr>SCTLR_EL1 := k, heap_ptr := lo + 0x1000, l0_table := lo\<rparr>"
    using g f(1,2) by (auto simp: get_txln_table_def heap_get_page_eq split: if_splits)
  have "lo < lo + 0x1000" using heap_room(1) [of "heap_upto hi s"] f rm by simp
  from fresh_paid [OF f(4,3) _ this] f(2) rm show ?thesis by (simp add: s0 a8_paid_def)
qed

lemma mem_init_within:
  assumes s: "tables_start lo hi s" and im: "image_low img" and room: "heap_room_for img lo hi"
  obtains s' where "syscall_mem_init img s = Some (Inr s')" "tables_within lo hi s'" "TTBR0_EL1 s' = l0_table s'"
    "\<And>a. a \<in> set (device_pages img) \<Longrightarrow> a8_view s' (a8_path a) = Some (device_entry a)"
    "\<And>a. a \<in> set (data_pages img) \<Longrightarrow> a8_path a \<notin> a8_path ` set (device_pages img) \<Longrightarrow> a8_view s' (a8_path a) = Some (data_entry a)"
    "\<And>q. q \<notin> a8_path ` (set (text_pages img) \<union> set (data_pages img) \<union> set (device_pages img)) \<Longrightarrow> a8_view s' q = None"
    "s' = s\<lparr>a8_cells := a8_cells s', heap_ptr := heap_ptr s', l0_table := l0_table s', SCTLR_EL1 := SCTLR_EL1 s AND NOT (push_bit 19 1),
      TTBR0_EL1 := TTBR0_EL1 s', TCR_EL1 := TCR_EL1 s'\<rparr>"
proof -
  let ?u = "heap_upto hi s"
  have im': "a8_image_ok img" using im by (simp add: image_low_def)
  have st: "a8_startable lo ?u" using s by (auto simp: tables_start_def tables_within_def a8_startable_def)
  have hi: "hi \<le> sym_HEAP_END s" using s by (auto simp: tables_start_def tables_within_def)
  obtain c where c: "syscall_mem_init img ?u = Some (Inr c)"
    using syscall_mem_init_succeeds [OF im' init_room(2) [OF s room] init_room(1) [OF s room]] by blast
  note V = syscall_mem_init_view [OF st im' c]
  have h: "sym_HEAP_END ?u \<le> sym_HEAP_END s" using hi by simp
  have L: "syscall_mem_init img s = Some (Inr (heap_upto (sym_HEAP_END s) c))"
    using mem_init_longer [OF im' c h] by (simp add: heap_upto_same)
  let ?sc = "?u\<lparr>SCTLR_EL1 := SCTLR_EL1 ?u AND NOT (push_bit 19 1)\<rparr>"
  let ?id = "map (\<lambda>a :: u64. (a, a))"
  obtain t s0 s1 s2 s3 where g: "get_txln_table ?sc = Inr (t, s0)"
    and cl: "clear_txln_table (s0\<lparr>TTBR0_EL1 := t, TCR_EL1 := 0x100010\<rparr>) = Inr s1"
    and m2: "map_pages a8_create_page_mapping_code (?id (text_pages img)) s1 = Inr s2"
    and m3: "map_pages a8_create_page_mapping_data (?id (data_pages img)) s2 = Inr s3"
    and m4: "map_pages a8_create_page_mapping_device (?id (device_pages img)) s3 = Inr c"
    using c unfolding syscall_mem_init_eq [OF im'] by auto
  have "a8_startable lo ?sc" using st by (subst a8_view_cong(3)) simp_all
  note R = root_cleared [OF this g]
  have s1: "s1 = clear_table (l0_table s0) (s0\<lparr>TTBR0_EL1 := t, TCR_EL1 := 0x100010\<rparr>)"
    using cl R(2) by (auto simp: clear_txln_table_def get_txln_table_def)
  have b1: "a8_ready lo s1" using R(3) by (subst a8_view_cong(1)) (simp_all add: s1 clear_table_def)
  have b2: "a8_ready lo s2" by (rule a8_code.map_pages_inv [OF b1 m2])
  have b3: "a8_ready lo s3" by (rule a8_data.map_pages_inv [OF b2 m3])
  have "a8_paid low_tables lo s0" by (rule root_paid [OF s room g])
  then have p1: "a8_paid low_tables lo s1" by (simp add: s1 clear_table_paid) (simp add: a8_paid_def)
  have low: "\<forall>p\<in>set (?id ps). tables_for (snd p) \<subseteq> low_tables" if "set ps \<subseteq> set (text_pages img @ data_pages img @ device_pages img)" for ps
    using im that low_addresses by (auto simp: image_low_def)
  have p2: "a8_paid low_tables lo s2" by (rule a8_map_pages_paid [OF a8_mappers(2) low_tables_finite b1 p1 m2 low]) simp
  have p3: "a8_paid low_tables lo s3" by (rule a8_map_pages_paid [OF a8_mappers(1) low_tables_finite b2 p2 m3 low]) auto
  have p4: "a8_paid low_tables lo c" by (rule a8_map_pages_paid [OF a8_mappers(3) low_tables_finite b3 p3 m4 low]) auto
  note F = a8_frame_trans [OF map_pages_frame [OF a8_mappers(2) b1 m2]
      a8_frame_trans [OF map_pages_frame [OF a8_mappers(1) b2 m3] map_pages_frame [OF a8_mappers(3) b3 m4]]]
  have e1: "s1 = ?u\<lparr>a8_cells := a8_cells s1, heap_ptr := heap_ptr s1, l0_table := l0_table s1, SCTLR_EL1 := SCTLR_EL1 s AND NOT (push_bit 19 1),
      TTBR0_EL1 := TTBR0_EL1 s1, TCR_EL1 := TCR_EL1 s1\<rparr>"
    using g by (auto simp: s1 get_txln_table_def heap_get_page_eq clear_table_def heap_upto_def split: if_splits)
  have e: "c = ?u\<lparr>a8_cells := a8_cells c, heap_ptr := heap_ptr c, l0_table := l0_table c, SCTLR_EL1 := SCTLR_EL1 s AND NOT (push_bit 19 1),
      TTBR0_EL1 := TTBR0_EL1 c, TCR_EL1 := TCR_EL1 c\<rparr>"
    using a8_frame_init [OF e1 F] .
  show thesis
  proof (rule that [OF L])
    have "sym_HEAP_END c = hi" by (subst e) simp
    then have "heap_upto hi c = c" using heap_upto_same [of c] by simp
    then show "tables_within lo hi (heap_upto (sym_HEAP_END s) c)" using V(1) p4 hi by (simp add: tables_within_def)
    show "heap_upto (sym_HEAP_END s) c = s\<lparr>a8_cells := a8_cells (heap_upto (sym_HEAP_END s) c), heap_ptr := heap_ptr (heap_upto (sym_HEAP_END s) c),
      l0_table := l0_table (heap_upto (sym_HEAP_END s) c), SCTLR_EL1 := SCTLR_EL1 s AND NOT (push_bit 19 1),
      TTBR0_EL1 := TTBR0_EL1 (heap_upto (sym_HEAP_END s) c), TCR_EL1 := TCR_EL1 (heap_upto (sym_HEAP_END s) c)\<rparr>"
      by (subst (1) e) (simp add: heap_upto_def)
  qed (use V in \<open>simp_all add: heap_upto_simps\<close>)
qed

text \<open>A store outside the part of the heap that counts.\<close>

lemma store_within:
  assumes "a < lo \<or> hi \<le> a"
  shows "tables_within lo hi s \<Longrightarrow> tables_within lo hi (a8_poke a v s) \<and> a8_view (a8_poke a v s) = a8_view s"
    and "tables_start lo hi s \<Longrightarrow> tables_start lo hi (a8_poke a v s)"
proof -
  have w: "tables_within lo hi (a8_poke a v s) \<and> a8_view (a8_poke a v s) = a8_view s" if "tables_within lo hi s"
  proof -
    have b: "a8_built lo (heap_upto hi s)" "heap_ptr s \<le> hi" "a8_pages_ok (heap_upto hi s)" "a8_paid low_tables lo s"
      using that by (simp_all add: tables_within_def a8_ready_def)
    note D = a8_builtD [OF b(1), unfolded heap_upto_simps]
    have same: "(a8_cells (a8_poke a v s)) x = a8_cells s x" if "lo \<le> x" "x < heap_ptr s" for x
      using assms that b(2) by (auto simp: a8_poke_def)
    note P = a8.same_pages [OF D(1,2) same]
    have l: "l0_table (a8_poke a v s) = l0_table s" "heap_ptr (a8_poke a v s) = heap_ptr s" "sym_HEAP_END (a8_poke a v s) = sym_HEAP_END s"
      by (simp_all add: a8_poke_def)
    have view: "a8_view (a8_poke a v s) = a8_view s"
    proof
      fix q
      show "a8_view (a8_poke a v s) q = a8_view s q" unfolding a8_view_def l using P(4) [of q] by simp
    qed
    have lo: "lo \<le> heap_ptr s" using a8.tables_okD(2,3) [OF D(1), of "[]"] by (auto intro: less_imp_le order_trans)
    have fc: "free_clear (heap_upto hi (a8_poke a v s))" using D(3) assms lo by (auto simp: free_clear_def a8_poke_def)
    have p: "a8_paid low_tables lo (a8_poke a v s)" using b(4) P(3) by (simp add: a8_paid_def paid_def l)
    have bl: "a8_built lo (heap_upto hi (a8_poke a v s))"
      using P(1,2) fc D(4) by (simp add: a8_built_def l)
    have "a8_pages_ok (heap_upto hi (a8_poke a v s))" using b(3) view by (simp add: a8_pages_ok_def)
    then show ?thesis using that bl p b(2) view by (simp add: tables_within_def a8_ready_def l)
  qed
  then show "tables_within lo hi s \<Longrightarrow> tables_within lo hi (a8_poke a v s) \<and> a8_view (a8_poke a v s) = a8_view s" .
  show "tables_start lo hi (a8_poke a v s)" if "tables_start lo hi s"
  proof (cases "tables_within lo hi s")
    case True
    then show ?thesis using w by (simp add: tables_start_def)
  next
    case False
    then have f: "l0_table s = 0" "heap_ptr s = lo" "page_aligned lo" "0 < lo" "lo \<le> hi" "free_clear (heap_upto hi s)" "hi \<le> 0x1000000000000" "hi \<le> sym_HEAP_END s"
      using that by (auto simp: tables_start_def)
    then have "free_clear (heap_upto hi (a8_poke a v s))" using assms by (auto simp: free_clear_def a8_poke_def)
    then show ?thesis using f by (simp add: tables_start_def) (simp add: a8_poke_def)
  qed
qed

section \<open>Any number of initialisations\<close>

text \<open>
  What the benchmarks do to the tables over a run: mem_init (or mem_reset, the same function), mappings of
  data pages, and stores to the memory outside the heap.
\<close>

datatype mem_event = Init_event | Map_event u64 u64 | Store_event u64 u64

fun mem_history :: "a8_image \<Rightarrow> mem_event list \<Rightarrow> armv8_state \<Rightarrow> (armv8_fault + armv8_state) option" where
  "mem_history img [] s = Some (Inr s)"
| "mem_history img (Init_event # es) s = bindL (syscall_mem_init img s) (mem_history img es)"
| "mem_history img (Map_event pa va # es) s = bindL (Some (a8_create_page_mapping_data pa va s)) (mem_history img es)"
| "mem_history img (Store_event a v # es) s = mem_history img es (a8_poke a v s)"

fun event_ok :: "u64 \<Rightarrow> u64 \<Rightarrow> mem_event \<Rightarrow> bool" where
  "event_ok lo hi Init_event \<longleftrightarrow> True"
| "event_ok lo hi (Map_event pa va) \<longleftrightarrow> va < 0xc0000000"
| "event_ok lo hi (Store_event a v) \<longleftrightarrow> a < lo \<or> hi \<le> a"

lemma history_within:
  assumes im: "image_low img" "heap_room_for img lo hi" "unat lo + 0x1000 * 1544 \<le> unat hi"
  shows "tables_within lo hi s \<Longrightarrow> \<forall>e\<in>set es. event_ok lo hi e \<Longrightarrow> \<exists>s'. mem_history img es s = Some (Inr s') \<and> tables_within lo hi s'"
proof (induction es arbitrary: s)
  case (Cons e es)
  show ?case
  proof (cases e)
    case Init_event
    have "tables_start lo hi s" using Cons.prems(1) by (simp add: tables_start_def)
    then obtain s1 where 1: "syscall_mem_init img s = Some (Inr s1)" "tables_within lo hi s1"
      by (rule mem_init_within [OF _ im(1,2)]) (rule that)
    show ?thesis using Cons.IH [OF 1(2)] Cons.prems(2) 1(1) by (simp add: Init_event bindL_def)
  next
    case (Map_event pa va)
    then have "va < 0xc0000000" using Cons.prems(2) by simp
    then obtain s1 where 1: "a8_create_page_mapping_data pa va s = Inr s1" "tables_within lo hi s1"
      by (rule mapping_within_heap [OF a8_mappers(1) Cons.prems(1) im(3), where pa = pa]) (rule that)
    show ?thesis using Cons.IH [OF 1(2)] Cons.prems(2) 1(1) by (simp add: Map_event bindL_def)
  next
    case (Store_event a v)
    then have "tables_within lo hi (a8_poke a v s)" using Cons.prems store_within(1) [of a lo hi s v] by simp
    from Cons.IH [OF this] Cons.prems(2) show ?thesis by (simp add: Store_event)
  qed
qed simp

lemma within_bound: "tables_within lo hi s \<Longrightarrow> unat (heap_ptr s) \<le> unat lo + 0x1000 * 1541"
proof -
  assume "tables_within lo hi s"
  then have "unat (heap_ptr s) \<le> unat lo + 0x1000 * card low_tables"
    using paid_bound [OF _ low_tables_finite] by (auto simp: tables_within_def a8_paid_def)
  moreover have "0x1000 * card low_tables \<le> 0x1000 * 1541" using low_tables_card by simp
  ultimately show ?thesis by simp
qed

text \<open>
  C7: the page heap of the armv8 port has no free, but the tables of the last set-up stay linked and are
  reused: however often the benchmarks initialise the memory management anew, and whatever data pages below
  3 GiB they map and addresses outside the heap they write in between, every call succeeds and no more than 1541
  pages of the heap are ever in use.
\<close>

theorem a8_heap_bounded:
  assumes "image_low img" "heap_room_for img lo hi" "unat lo + 0x1000 * 1544 \<le> unat hi" "tables_start lo hi s"
    and "\<forall>e\<in>set es. event_ok lo hi e"
  shows "\<exists>s'. mem_history img (Init_event # es) s = Some (Inr s') \<and> unat (heap_ptr s') \<le> unat lo + 0x1000 * 1541"
proof -
  obtain s1 where s1: "syscall_mem_init img s = Some (Inr s1)" "tables_within lo hi s1"
    by (rule mem_init_within [OF assms(4,1,2)]) (rule that)
  then show ?thesis using history_within [OF assms(1-3) s1(2) assms(5)] within_bound by (auto simp: bindL_def)
qed

lemma demo_heap:
  "image_low demo_a8" "heap_room_for demo_a8 0x10000000 0x20000000"
  "tables_start 0x10000000 0x20000000 (blank_a8\<lparr>heap_ptr := 0x10000000, sym_HEAP_END := 0x20000000\<rparr>)"
proof -
  show "image_low demo_a8" by (simp add: image_low_def demo_a8_pages)
  show "heap_room_for demo_a8 0x10000000 0x20000000" by (simp add: demo_a8_pages heap_room_for_def)
  have "page_aligned (0x10000000 :: u64)" by (simp add: page_aligned_def)
  moreover have "free_clear (heap_upto 0x20000000 (blank_a8\<lparr>heap_ptr := 0x10000000, sym_HEAP_END := 0x20000000\<rparr>))"
    by (simp add: free_clear_def blank_a8_def a8_base_def)
  ultimately show "tables_start 0x10000000 0x20000000 (blank_a8\<lparr>heap_ptr := 0x10000000, sym_HEAP_END := 0x20000000\<rparr>)"
    unfolding tables_start_def by (intro disjI2) (simp add: blank_a8_def)
qed

theorem a8_heap_bounded_witness:
  "\<exists>s'. mem_history demo_a8 [Init_event, Map_event 0x80000000 0x80000000, Store_event 0x80000000 7, Init_event, Map_event 0x80000000 0x90000000]
      (blank_a8\<lparr>heap_ptr := 0x10000000, sym_HEAP_END := 0x20000000\<rparr>) = Some (Inr s') \<and> unat (heap_ptr s') \<le> 0x10000000 + 0x1000 * 1541"
  using a8_heap_bounded [OF demo_heap(1,2) _ demo_heap(3),
    of "[Map_event 0x80000000 0x80000000, Store_event 0x80000000 7, Init_event, Map_event 0x80000000 0x90000000]"] by simp

end
