(* ===== verification/Virt_Machine.thy ===== *)
theory Virt_Machine
  imports Suite_On_Port Board_Memory Armv8_Trap Armv8_Range
begin

section \<open>The armv8 port on the virt board\<close>

text \<open>
  The operations of the armv8 port and of the virt board, put together to the machine the benchmarks
  run on. reset.S leaves the benchmarks at exception level 0, so that every privileged operation is
  a trap: the system calls of the port, and the instructions and accesses that fault. The state is the
  processor's (with its memory as 8-byte cells), the status word of the code that is running (the level and the
  interrupt mask, which a trap saves in SPSR_EL1 and its return restores), the log of the device
  registers, and the static variables of the benchmarks. With the MMU on an access goes through the tables
  TTBR0_EL1 names; there is no translation buffer.

  What the linker and the machine provide is the record virt_layout: the image, the start of the heap, the
  addresses of the benchmarks' variables and functions, the address of a trapping instruction and of a call's
  continuation, what a skipped instruction leaves in its register, when the interrupt controller
  asserts the processor's line, and what it answers to the loads of an operation.
\<close>

record virt_layout =
  vl_image :: a8_image
  vl_heap :: u64
  vl_code :: u64
  vl_return :: u64
  vl_stale :: u32
  vl_hot :: u64
  vl_nonpriv :: u64
  vl_block :: u64
  vl_small :: "nat \<Rightarrow> u64"
  vl_fast :: bool
  vl_irq_line :: "mmio \<Rightarrow> bool"
  vl_answers :: "mmio_op list \<Rightarrow> u32 list"

record virt_board =
  vcpu :: armv8_state
  pstate :: u32
  vio :: mmio
  virt_statics :: "u64 statics"

datatype virt_stop = Halted armv8_fault | Astray u64 | Spins | Gic_fault board_fault | Unreached u64 | Fetched u64

subsection \<open>Accesses\<close>

definition virt_mmu_on :: "virt_board \<Rightarrow> bool" where
  "virt_mmu_on s \<longleftrightarrow> SCTLR_EL1 (vcpu s) AND 1 \<noteq> 0"

text \<open>The access flag, and the permissions that open a page to both levels, for reading or for writing.\<close>

definition page_open :: "bool \<Rightarrow> u64 \<Rightarrow> bool" where
  "page_open write e \<longleftrightarrow> bit e 10 \<and> bit e 6 \<and> (write \<longrightarrow> \<not> bit e 7)"

definition virt_access :: "bool \<Rightarrow> u64 \<Rightarrow> virt_board \<Rightarrow> u64 option" where
  "virt_access write va s =
     (if \<not> virt_mmu_on s then Some va
      else if 2 ^ 48 \<le> va then None
      else case a8_walk (a8_cells (vcpu s)) (TTBR0_EL1 (vcpu s)) (a8_path va) of
        Some (Inr e) \<Rightarrow> if page_open write e then Some ((e AND table_mask) OR (va AND 0xfff)) else None
      | _ \<Rightarrow> None)"

text \<open>The registers of the board are below its memory.\<close>

definition virt_is_device :: "u64 \<Rightarrow> bool" where
  "virt_is_device pa \<longleftrightarrow> pa < 0x40000000"

subsection \<open>Traps\<close>

definition in_el0 :: "virt_board \<Rightarrow> bool" where
  "in_el0 s \<longleftrightarrow> pstate s AND 0xc = 0"

text \<open>
  A trap saves the status and the return address and runs the handler f of the synchronous vector of
  the level it comes from; the vectors of level 1 with its own stack pointer abort. The return goes on at
  the address in ELR_EL1, which has to be the one the code expects.
\<close>

definition trapped ::
  "virt_layout \<Rightarrow> (armv8_state \<Rightarrow> (armv8_fault + armv8_state) option) \<Rightarrow> u64 \<Rightarrow> u64 \<Rightarrow> virt_board \<Rightarrow> virt_stop + virt_board" where
  "trapped L f elr continue s =
     (if pstate s AND 0xf \<notin> {0, 4} then Inl (Halted Armv8_abort)
      else case f ((vcpu s)\<lparr>SPSR_EL1 := pstate s, ELR_EL1 := elr, backup_lr := vl_return L\<rparr>) of
        None \<Rightarrow> Inl Spins
      | Some (Inl e) \<Rightarrow> Inl (Halted e)
      | Some (Inr c) \<Rightarrow>
          if ELR_EL1 c = continue then Inr (s\<lparr>vcpu := c, pstate := SPSR_EL1 c\<rparr>) else Inl (Astray (ELR_EL1 c)))"

text \<open>The exception classes of an abort tell the level it comes from.\<close>

definition synchronous :: "virt_layout \<Rightarrow> u32 \<Rightarrow> u32 \<Rightarrow> u32 \<Rightarrow> u64 \<Rightarrow> u64 \<Rightarrow> virt_board \<Rightarrow> virt_stop + virt_board" where
  "synchronous L lower same iss elr continue s =
     trapped L (sync_trap (vl_image L) (if in_el0 s then lower else same) iss) elr continue s"

definition virt_data_abort :: "virt_layout \<Rightarrow> virt_board \<Rightarrow> virt_stop + virt_board" where
  "virt_data_abort L s = synchronous L 0x24 0x25 0x7 (vl_code L) (vl_code L + 4) s"

text \<open>A system register that level 0 may not access, or an instruction that is undefined there.\<close>

definition register_trap :: "virt_layout \<Rightarrow> virt_board \<Rightarrow> virt_stop + virt_board" where
  "register_trap L s = synchronous L 0x18 0x18 0 (vl_code L) (vl_code L + 4) s"

definition undefined_trap :: "virt_layout \<Rightarrow> virt_board \<Rightarrow> virt_stop + virt_board" where
  "undefined_trap L s = synchronous L 0 0 0 (vl_code L) (vl_code L + 4) s"

subsection \<open>Loads and stores\<close>

definition cell_shift :: "u64 \<Rightarrow> nat" where
  "cell_shift pa = 8 * unat (pa AND 7)"

definition read_cell :: "u64 \<Rightarrow> virt_board \<Rightarrow> u64" where
  "read_cell pa s = drop_bit (cell_shift pa) (a8_cells (vcpu s) (pa AND NOT 7))"

definition write_cell :: "u64 \<Rightarrow> u64 \<Rightarrow> u64 \<Rightarrow> virt_board \<Rightarrow> virt_board" where
  "write_cell pa field v s =
     (let w = a8_cells (vcpu s) (pa AND NOT 7);
          w' = (w AND NOT (push_bit (cell_shift pa) field)) OR push_bit (cell_shift pa) v
      in s\<lparr>vcpu := a8_poke (pa AND NOT 7) w' (vcpu s)\<rparr>)"

definition virt_device_load :: "u64 \<Rightarrow> virt_board \<Rightarrow> virt_stop + u32 \<times> virt_board" where
  "virt_device_load pa s =
     (case load_reg (ucast pa) (vio s) of None \<Rightarrow> Inl (Gic_fault Unanswered) | Some (v, m) \<Rightarrow> Inr (v, s\<lparr>vio := m\<rparr>))"

definition virt_load32 :: "virt_layout \<Rightarrow> u64 \<Rightarrow> virt_board \<Rightarrow> virt_stop + u32 \<times> virt_board" where
  "virt_load32 L va s =
     (case virt_access False va s of
        None \<Rightarrow> bindE (virt_data_abort L s) (\<lambda>s. Inr (vl_stale L, s))
      | Some pa \<Rightarrow> if virt_is_device pa then virt_device_load pa s else Inr (ucast (read_cell pa s), s))"

definition virt_store32 :: "virt_layout \<Rightarrow> u64 \<Rightarrow> u32 \<Rightarrow> virt_board \<Rightarrow> virt_stop + virt_board" where
  "virt_store32 L va v s =
     (case virt_access True va s of
        None \<Rightarrow> virt_data_abort L s
      | Some pa \<Rightarrow>
          if virt_is_device pa then Inr (s\<lparr>vio := store_reg (ucast pa) v (vio s)\<rparr>)
          else Inr (write_cell pa 0xffffffff (ucast v) s))"

definition virt_load8 :: "virt_layout \<Rightarrow> u64 \<Rightarrow> virt_board \<Rightarrow> virt_stop + u8 \<times> virt_board" where
  "virt_load8 L va s =
     (case virt_access False va s of
        None \<Rightarrow> bindE (virt_data_abort L s) (\<lambda>s. Inr (ucast (vl_stale L), s))
      | Some pa \<Rightarrow>
          if virt_is_device pa then bindE (virt_device_load pa s) (\<lambda>(v, s). Inr (ucast v, s))
          else Inr (ucast (read_cell pa s), s))"

definition virt_store8 :: "virt_layout \<Rightarrow> u64 \<Rightarrow> u8 \<Rightarrow> virt_board \<Rightarrow> virt_stop + virt_board" where
  "virt_store8 L va v s =
     (case virt_access True va s of
        None \<Rightarrow> virt_data_abort L s
      | Some pa \<Rightarrow>
          if virt_is_device pa then Inr (s\<lparr>vio := store_reg (ucast pa) (ucast v) (vio s)\<rparr>)
          else Inr (write_cell pa 0xff (ucast v) s))"

text \<open>A call of an address that holds no known function: without a translation it is an instruction abort.\<close>

definition virt_jump :: "virt_layout \<Rightarrow> u64 \<Rightarrow> virt_board \<Rightarrow> virt_stop + virt_board" where
  "virt_jump L va s =
     (case virt_access False va s of
        None \<Rightarrow> synchronous L 0x20 0x21 0x7 va (vl_return L) s
      | Some pa \<Rightarrow> Inl (Fetched pa))"

subsection \<open>The operations\<close>

definition on_cpu :: "(armv8_state \<Rightarrow> armv8_state) \<Rightarrow> virt_board \<Rightarrow> virt_stop + virt_board" where
  "on_cpu f s = Inr (s\<lparr>vcpu := f (vcpu s)\<rparr>)"

text \<open>A system call is the instruction svc, which returns behind itself.\<close>

definition call_port :: "virt_layout \<Rightarrow> (armv8_state \<Rightarrow> (armv8_fault + armv8_state) option) \<Rightarrow> virt_board \<Rightarrow> virt_stop + virt_board" where
  "call_port L f s = trapped L f (vl_code L + 4) (vl_code L + 4) s"

text \<open>The tables are reached under their physical addresses, which are not mapped: the MMU has to be off.\<close>

definition mmu_off :: "(virt_board \<Rightarrow> virt_stop + virt_board) \<Rightarrow> virt_board \<Rightarrow> virt_stop + virt_board" where
  "mmu_off f s = (if virt_mmu_on s then Inl (Unreached (heap_ptr (vcpu s))) else f s)"

definition virt_map_data :: "u64 \<Rightarrow> u64 \<Rightarrow> virt_board \<Rightarrow> virt_stop + virt_board" where
  "virt_map_data pa va s =
     (case a8_create_page_mapping_data pa va (vcpu s) of Inl e \<Rightarrow> Inl (Halted e) | Inr c \<Rightarrow> Inr (s\<lparr>vcpu := c\<rparr>))"

text \<open>
  The read of CurrentEL in arch_irq_enable and arch_irq_disable: the register is not accessible at level 0,
  where the instruction is undefined; if the trap returns, the variable holds what was in its register. At level 1
  the level stands in the bits 2 and 3.
\<close>

definition read_current_el :: "virt_layout \<Rightarrow> virt_board \<Rightarrow> virt_stop + virt_board" where
  "read_current_el L s =
     (if in_el0 s then bindE (undefined_trap L s) (\<lambda>s. Inr (s\<lparr>vcpu := (vcpu s)\<lparr>CurrentEL := vl_stale L\<rparr>\<rparr>))
      else Inr (s\<lparr>vcpu := (vcpu s)\<lparr>CurrentEL := pstate s AND 0xc\<rparr>\<rparr>))"

definition virt_irq_enable :: "virt_layout \<Rightarrow> virt_board \<Rightarrow> virt_stop + virt_board" where
  "virt_irq_enable L s = bindE (read_current_el L s) (call_port L (a8_irq_enable (vl_image L)))"

definition virt_irq_disable :: "virt_layout \<Rightarrow> virt_board \<Rightarrow> virt_stop + virt_board" where
  "virt_irq_disable L s = bindE (read_current_el L s) (call_port L (a8_irq_disable (vl_image L)))"

text \<open>
  arch.c: the undefined instruction and svc 0 trap; the counter and the instruction-cache operation
  trap at level 0 unless arch_init has opened them; the load of arch_nonpriviliged_read has the
  rights of level 0.
\<close>

definition a8_undefined_instruction :: "virt_layout \<Rightarrow> virt_board \<Rightarrow> virt_stop + virt_board" where
  "a8_undefined_instruction L s = undefined_trap L s"

definition a8_arch_syscall :: "virt_layout \<Rightarrow> virt_board \<Rightarrow> virt_stop + virt_board" where
  "a8_arch_syscall L s = synchronous L 0x15 0x15 0 (vl_code L + 4) (vl_code L + 4) s"

definition a8_coprocessor_access :: "virt_layout \<Rightarrow> virt_board \<Rightarrow> virt_stop + virt_board" where
  "a8_coprocessor_access L s =
     (if in_el0 s \<and> \<not> bit (CNTKCTL_EL1 (vcpu s)) 0 then register_trap L s else Inr s)"

definition a8_code_flush :: "virt_layout \<Rightarrow> u64 \<Rightarrow> virt_board \<Rightarrow> virt_stop + virt_board" where
  "a8_code_flush L a s = (if in_el0 s \<and> \<not> bit (SCTLR_EL1 (vcpu s)) 26 then register_trap L s else Inr s)"

definition a8_nonpriviliged_read :: "virt_layout \<Rightarrow> u64 \<Rightarrow> virt_board \<Rightarrow> virt_stop + u32 \<times> virt_board" where
  "a8_nonpriviliged_read L ptr s = virt_load32 L ptr s"

text \<open>The board's functions, whose registers are reached through the tables once the MMU is on.\<close>

definition virt_gic_registers :: "u32 list" where
  "virt_gic_registers = gic_registers virt_GICD_BASE virt_GICC_BASE"

definition through_gic :: "virt_layout \<Rightarrow> (mmio \<Rightarrow> board_fault + mmio) \<Rightarrow> virt_board \<Rightarrow> virt_stop + virt_board" where
  "through_gic L f s =
     (if \<forall>a\<in>set virt_gic_registers. virt_access True (ucast a) s = Some (ucast a) then
        (case f ((vio s)\<lparr>answers := vl_answers L (mmio_log (vio s))\<rparr>) of
           Inl e \<Rightarrow> Inl (Gic_fault e) | Inr m \<Rightarrow> Inr (s\<lparr>vio := m\<rparr>))
      else Inl (Unreached (ucast virt_GICD_BASE)))"

text \<open>
  An interrupt is taken between two instructions when the line is asserted and the mask bit is clear; from level 1
  its vector aborts, from level 0 it calls the handler, and aborts if there is none.
\<close>

definition virt_poll_irq ::
  "virt_layout \<Rightarrow> (virt_board \<Rightarrow> virt_stop + virt_board) \<Rightarrow> virt_board \<Rightarrow> virt_stop + virt_board" where
  "virt_poll_irq L h s =
     (if vl_irq_line L (vio s) \<and> pstate s AND 0x80 = 0 then
        if in_el0 s \<and> fst (el1_lower_irq_handler (vcpu s)) = 0 then h s else Inl (Halted Armv8_abort)
      else Inr s)"

definition virt_machine :: "virt_layout \<Rightarrow> (virt_stop, virt_board, u64) machine" where
  "virt_machine L =
     \<lparr>fast = vl_fast L, hang = Spins,
      statics_of = virt_statics, put_statics = (\<lambda>st s. s\<lparr>virt_statics := st\<rparr>),
      spinner_start = (\<lambda>n. Inr), spinner_turn = Inr,
      op_mem_init = mmu_off (call_port L (a8_mem_init (vl_image L))), op_mem_reset = mmu_off (call_port L (a8_mem_reset (vl_image L))),
      op_mmu_enable = call_port L (a8_mmu_enable (vl_image L)), op_mmu_disable = call_port L (a8_mmu_disable (vl_image L)),
      op_flush = on_cpu a8_tlb_flush, op_evict = (\<lambda>a. on_cpu (a8_tlb_evict a)),
      op_map_data = (\<lambda>pa va. mmu_off (virt_map_data pa va)), op_page_size = a8_page_size,
      op_phys_start = phys_mem_start virt_mem_get_phys_info, op_phys_end = phys_mem_end virt_mem_get_phys_info,
      op_ifault_return = on_cpu a8_ifault_install_return, op_dfault_skip = on_cpu a8_dfault_install_skip,
      op_syscall_skip = on_cpu a8_syscall_install_skip, op_undef_skip = on_cpu a8_undef_install_skip,
      op_irq_handler = (\<lambda>h. on_cpu (a8_irq_install_handler (Some 0))),
      op_irq_enable = virt_irq_enable L, op_irq_disable = virt_irq_disable L,
      op_syscall = a8_arch_syscall L, op_undefined = a8_undefined_instruction L, op_coprocessor = a8_coprocessor_access L,
      op_nonpriv_read = (\<lambda>a s. discard (a8_nonpriviliged_read L a s)), op_code_flush = a8_code_flush L,
      op_trigger_swi = through_gic L virt_trigger_swi, op_clear_swi = through_gic L virt_clear_swi,
      op_null_devptr = ucast virt_null_devptr, op_null_devval = (\<lambda>s. (virt_null_devval, s)),
      load8 = virt_load8 L, store8 = virt_store8 L, load32 = virt_load32 L, store32 = virt_store32 L,
      jump_to = virt_jump L, call_fn = (\<lambda>x. Inr), poll_irq = virt_poll_irq L,
      sym_hot_value = vl_hot L, sym_nonpriv_value = vl_nonpriv L, sym_block = vl_block L, sym_small_fn = vl_small L\<rparr>"

definition virt_sink :: "virt_board \<Rightarrow> char \<Rightarrow> virt_board" where
  "virt_sink s c =
     (if virt_access True (ucast (virt_UART0_BASE + reg_dr)) s = Some (ucast (virt_UART0_BASE + reg_dr))
      then s\<lparr>vio := virt_uart_putc (vio s) c\<rparr> else s)"

definition virt_text :: "virt_board \<Rightarrow> string" where
  "virt_text s = received virt_UART0_BASE (vio s)"

definition virt_env :: "virt_layout \<Rightarrow> char list \<Rightarrow> (virt_stop, virt_board) harness_env" where
  "virt_env L junk =
     \<lparr>he_arm = True, he_junk = junk, OUTPUT = Some \<lparr>putch_fn = Some virt_sink\<rparr>,
      priv_enter = call_port L (a8_priv_enter (vl_image L)), priv_leave = call_port L (a8_priv_leave (vl_image L))\<rparr>"

text \<open>
  reset.S from the call of arch_init to eret: platform_init, whose uart_init has nothing to do, also makes
  uart_putc the output file, as virt_env has it. eret takes the status that is in SPSR_EL1, which nothing has written.
\<close>

definition virt_start :: "virt_layout \<Rightarrow> virt_board \<Rightarrow> virt_board" where
  "virt_start L s =
     (let c = a8_arch_init (vl_heap L) (vcpu s)
      in s\<lparr>vcpu := c, vio := virt_uart_init (vio s), pstate := SPSR_EL1 c\<rparr>)"

end
