(* ===== verification/Virt_Suite.thy ===== *)
theory Virt_Suite
  imports Virt_Machine
begin

text \<open>
  The virt machine satisfies the laws of the locale port, and those of interrupting_port once the
  handler of the undefined-instruction benchmark is installed, which the port never removes. So the
  suite runs from start-up, because its first benchmark installs that handler, and the interrupt
  benchmark does not run on its own.
\<close>

section \<open>The layout of the image\<close>

text \<open>
  What the linker script of the board fixes (the text at 0x40000000, page-aligned data behind it, then
  the heap), with room below the physical range for the tables, and what the code assumes of the
  machine: a register that is skipped over does not happen to hold 1, the controller answers the loads of an
  operation, and a raised software interrupt reaches the processor.
\<close>

definition virt_layout_ok :: "virt_layout \<Rightarrow> bool" where
  "virt_layout_ok L \<longleftrightarrow>
     (let img = vl_image L in
      0x40000000 \<le> a8_TEXT_START img \<and> page_aligned (a8_TEXT_START img) \<and> a8_TEXT_END img < a8_DATA_START img \<and>
      page_aligned (a8_DATA_START img) \<and> 0x40000000 \<le> a8_DATA_START img \<and> a8_DATA_END img < vl_heap L \<and>
      page_aligned (vl_heap L) \<and> heap_room_for img (vl_heap L) 0x80000000 \<and>
      a8_devices img = device_ranges virt_mem_get_device_info \<and>
      (\<forall>a\<in>{vl_hot L, vl_nonpriv L}. a8_DATA_START img \<le> a \<and> a < a8_DATA_END img) \<and>
      (\<forall>a\<in>code_heads (virt_machine L). 0x40000000 \<le> a \<and> a < vl_heap L) \<and>
      unat (vl_code L) + 4 < 2 ^ 32 \<and> vl_stale L \<noteq> 1 \<and>
      (\<forall>log. 6 \<le> length (vl_answers L log)) \<and>
      (\<forall>m m'. virt_trigger_swi m = Inr m' \<longrightarrow> vl_irq_line L m'))"

subsection \<open>Pages\<close>

lemma clear_low_nat: "unat ((a :: u64) AND NOT (mask k)) = unat a div 2 ^ k * 2 ^ k"
proof -
  have "a AND NOT (mask k) = push_bit k (drop_bit k a)" by (intro bit_eqI) (auto simp: bit_simps)
  then have "unat (a AND NOT (mask k)) = (unat (drop_bit k a) * 2 ^ k) mod 2 ^ 64"
    by (simp only: unsigned_push_bit_eq) (simp add: push_bit_eq_mult take_bit_eq_mod)
  moreover have "unat (drop_bit k a) = unat a div 2 ^ k"
  proof -
    have "take_bit 64 (unat a) = unat a" using unsigned_less [of a, where 'a = nat] by (simp add: take_bit_nat_eq_self)
    then show ?thesis unfolding unsigned_drop_bit_eq by (simp add: drop_bit_eq_div)
  qed
  moreover have "unat a div 2 ^ k * 2 ^ k < 2 ^ 64"
    using le_less_trans [OF div_times_less_eq_dividend unsigned_less [of a, where 'a = nat]] by simp
  ultimately show ?thesis by simp
qed

lemma page_nat: "unat ((a :: u64) AND NOT 0xfff) = unat a div 0x1000 * 0x1000"
  and cell_nat: "unat ((a :: u64) AND NOT 7) = unat a div 8 * 8"
proof -
  have "(0xfff :: u64) = mask 12" "(7 :: u64) = mask 3" by (simp_all add: mask_eq_exp_minus_1)
  then show "unat (a AND NOT 0xfff) = unat a div 0x1000 * 0x1000" "unat (a AND NOT 7) = unat a div 8 * 8"
    using clear_low_nat [of a 12] clear_low_nat [of a 3] by simp_all
qed

lemma aligned_div: "page_aligned a \<Longrightarrow> unat a div 0x1000 * 0x1000 = unat a"
  using div_mult_mod_eq [of "unat a" "0x1000"] by (simp add: page_aligned_nat)

lemma a8_path_same_page:
  assumes "a < 2 ^ 48" "b < 2 ^ 48"
  shows "a8_path a = a8_path b \<longleftrightarrow> unat a div 0x1000 = unat b div 0x1000"
proof
  assume "a8_path a = a8_path b"
  then have "a AND NOT 0xfff = b AND NOT 0xfff" using assms by (intro same_page) (simp_all add: a8_path_eq_iff)
  then have "unat (a AND NOT 0xfff) = unat (b AND NOT 0xfff)" by simp
  then show "unat a div 0x1000 = unat b div 0x1000" unfolding page_nat by simp
next
  assume "unat a div 0x1000 = unat b div 0x1000"
  then have "a AND NOT 0xfff = b AND NOT 0xfff" unfolding word_unat_eq_iff page_nat by simp
  then have "a8_path (a AND NOT 0xfff) = a8_path (b AND NOT 0xfff)" by simp
  then show "a8_path a = a8_path b" by (simp only: a8_path_page)
qed

lemma data_entry_page: "data_entry (a AND NOT 0xfff) = data_entry a"
  unfolding data_entry_def by (simp only: and.assoc and.idem)

lemma pages_range:
  assumes "a \<in> set (pages_of (lo, hi))"
  shows "lo AND NOT 0xfff \<le> a" "a \<le> hi"
proof -
  let ?s = "lo AND NOT 0xfff"
  obtain k where k: "a = ?s + 0x1000 * word_of_nat k" "k < (unat hi - unat ?s) div 0x1000 + 1" "?s \<le> hi"
    using assms by (auto simp: pages_of_def region_pages_def split: if_splits)
  have "k \<le> (unat hi - unat ?s) div 0x1000" using k(2) by simp
  then have "0x1000 * k \<le> 0x1000 * ((unat hi - unat ?s) div 0x1000)" by simp
  also have "\<dots> \<le> unat hi - unat ?s" by (rule times_div_less_eq_dividend)
  finally have b: "unat ?s + 0x1000 * k \<le> unat hi" using k(3) by (simp add: word_le_nat_alt)
  then have lt: "unat ?s + 0x1000 * k < 2 ^ 64" using unsigned_less [of hi, where 'a = nat] by simp
  then have "unat (word_of_nat k :: u64) = k" by (simp add: unat_of_nat)
  then have "unat (0x1000 * word_of_nat k :: u64) = 0x1000 * k" using lt by (simp add: unat_word_ariths)
  then have "unat a = unat ?s + 0x1000 * k" using lt by (simp add: k(1) unat_word_ariths)
  then show "lo AND NOT 0xfff \<le> a" "a \<le> hi" using b by (simp_all add: word_le_nat_alt)
qed

lemma page_in_region:
  assumes "page_aligned lo" "lo \<le> a" "a \<le> hi"
  shows "a AND NOT 0xfff \<in> set (pages_of (lo, hi))"
proof -
  have l: "lo AND NOT 0xfff = lo"
  proof -
    have "unat (lo AND NOT 0xfff) = unat lo" unfolding page_nat using assms(1) by (rule aligned_div)
    then show ?thesis by (simp add: word_unat_eq_iff)
  qed
  define k where "k = unat a div 0x1000 - unat lo div 0x1000"
  have d: "unat lo div 0x1000 \<le> unat a div 0x1000" "unat lo div 0x1000 * 0x1000 = unat lo"
    using assms(1,2) aligned_div by (simp_all add: div_le_mono word_le_nat_alt)
  have e: "unat lo + 0x1000 * k = unat a div 0x1000 * 0x1000" using d by (simp add: k_def algebra_simps)
  then have le: "unat lo + 0x1000 * k \<le> unat a" by simp
  have lt: "unat lo + 0x1000 * k < 2 ^ 64" using le unsigned_less [of a, where 'a = nat] by simp
  then have "unat (word_of_nat k :: u64) = k" by (simp add: unat_of_nat)
  then have "unat (0x1000 * word_of_nat k :: u64) = 0x1000 * k" using lt by (simp add: unat_word_ariths)
  then have "a AND NOT 0xfff = lo + 0x1000 * word_of_nat k" unfolding word_unat_eq_iff page_nat e [symmetric] using lt by (simp add: unat_word_ariths)
  moreover have "0x1000 * k \<le> unat hi - unat lo" using le assms(3) by (simp add: word_le_nat_alt)
  then have "k < (unat hi - unat lo) div 0x1000 + 1" by simp
  ultimately show ?thesis using in_region_pages [OF _ _ _ l] assms(2,3) by fastforce
qed

subsection \<open>What the layout gives\<close>

lemma layout_image:
  assumes "virt_layout_ok L"
  shows "image_low (vl_image L)" "heap_room_for (vl_image L) (vl_heap L) 0x80000000"
    "a \<in> set (text_pages (vl_image L)) \<Longrightarrow> 0x40000000 \<le> a \<and> a < a8_DATA_START (vl_image L)"
    "a \<in> set (data_pages (vl_image L)) \<Longrightarrow> 0x40000000 \<le> a \<and> a < 0x80000000"
    "a \<in> set (device_pages (vl_image L)) \<Longrightarrow> a < 0x40000000"
    "unat (vl_heap L) + 0x1000 * 1544 \<le> unat (0x80000000 :: u64)" "vl_heap L < 0x80000000"
proof -
  let ?i = "vl_image L"
  have L: "0x40000000 \<le> a8_TEXT_START ?i" "page_aligned (a8_TEXT_START ?i)" "a8_TEXT_END ?i < a8_DATA_START ?i" "page_aligned (a8_DATA_START ?i)"
    "0x40000000 \<le> a8_DATA_START ?i" "a8_DATA_END ?i < vl_heap L" "heap_room_for ?i (vl_heap L) 0x80000000"
    "a8_devices ?i = device_ranges virt_mem_get_device_info"
    "a8_DATA_START ?i \<le> vl_hot L" "vl_hot L < a8_DATA_END ?i"
    using assms by (simp_all add: virt_layout_ok_def Let_def)
  show room: "heap_room_for ?i (vl_heap L) 0x80000000" by (rule L(7))
  have d: "a8_devices ?i = [(0x9000000, 0x9000fff), (0x8000000, 0x8020000)]" using L(8) by (simp add: model_eval)
  have al: "x AND NOT 0xfff = x" if "page_aligned x" for x :: u64
    unfolding word_unat_eq_iff page_nat using that by (rule aligned_div)
  show dev: "a < 0x40000000" if "a \<in> set (device_pages ?i)" for a
  proof -
    have "a \<le> 0x9000fff" using that pages_range(2) [of a] unfolding device_pages_def d by (fastforce simp: word_le_nat_alt)
    then show ?thesis by (simp add: word_le_nat_alt word_less_nat_alt)
  qed
  show h: "unat (vl_heap L) + 0x1000 * 1544 \<le> unat (0x80000000 :: u64)"
  proof -
    have "a8_DATA_START ?i AND NOT 0xfff \<in> set (data_pages ?i)"
      unfolding data_pages_def by (rule page_in_region) (use L in \<open>auto intro: order_trans less_imp_le\<close>)
    then have "1 \<le> length (data_pages ?i)" by (cases "data_pages ?i") auto
    then show ?thesis using room by (simp add: heap_room_for_def)
  qed
  then show hp: "vl_heap L < 0x80000000" by (simp add: word_less_nat_alt)
  show data: "0x40000000 \<le> a \<and> a < 0x80000000" if "a \<in> set (data_pages ?i)" for a
    using pages_range [of a "a8_DATA_START ?i" "a8_DATA_END ?i"] that L(5,6) hp unfolding data_pages_def al [OF L(4)]
    by (auto intro: order_trans le_less_trans less_trans)
  show code: "0x40000000 \<le> a \<and> a < a8_DATA_START ?i" if "a \<in> set (text_pages ?i)" for a
    using pages_range [of a "a8_TEXT_START ?i" "a8_TEXT_END ?i"] that L(1,3) unfolding text_pages_def al [OF L(2)]
    by (auto intro: order_trans le_less_trans)
  have dh: "a8_DATA_START ?i < 0x80000000" "a8_DATA_END ?i < 0x80000000" using L(6,9,10) hp by (auto intro: le_less_trans less_trans)
  have low: "a < 0x80000000" if "a \<in> set (text_pages ?i)" for a using less_trans [OF conjunct2 [OF code [OF that]] dh(1)] .
  have "a < 0xc0000000" if "a < 0x80000000" for a :: u64 using that by (simp add: word_less_nat_alt)
  moreover have "a < 0x80000000" if "a < 0x40000000" for a :: u64 using that by (simp add: word_less_nat_alt)
  moreover have "x < 2 ^ 48" if "x < 0x80000000" for x :: u64 using that by (simp add: word_less_nat_alt)
  ultimately show "image_low ?i"
    using dev data low dh L(3) unfolding image_low_def a8_image_ok_def
    by (auto simp: d intro: less_trans)
qed

text \<open>Registers, data and the addresses around the physical range lie in pages of their own.\<close>

lemma other_page:
  assumes "a8_path (a :: u64) = a8_path b" "a < 2 ^ 48" "b < 2 ^ 48" "b < c" "page_aligned c"
  shows "a < c"
proof -
  have "unat a div 0x1000 = unat b div 0x1000" using assms(1-3) a8_path_same_page by blast
  moreover have "unat b < unat c div 0x1000 * 0x1000" using assms(4) aligned_div [OF assms(5)] by (simp add: word_less_nat_alt)
  then have "unat b div 0x1000 < unat c div 0x1000" by (rule less_mult_imp_div_less)
  ultimately have "unat a div 0x1000 < unat c div 0x1000" by simp
  then have "unat a < unat c div 0x1000 * 0x1000"
    by (metis div_less_iff_less_mult zero_less_numeral)
  then show ?thesis using aligned_div [OF assms(5)] by (simp add: word_less_nat_alt)
qed

section \<open>The states of a run\<close>

text \<open>
  What the tables map: the registers, the data of the image and the pages of the physical range up to p, each
  to itself, and nothing at the address the exception benchmarks use.
\<close>

definition virt_mapped :: "virt_layout \<Rightarrow> u64 \<Rightarrow> armv8_state \<Rightarrow> bool" where
  "virt_mapped L p c \<longleftrightarrow> tables_within (vl_heap L) 0x80000000 c \<and> TTBR0_EL1 c = l0_table c \<and>
     (\<forall>a\<in>set virt_registers. a8_view c (a8_path a) = Some (device_entry a)) \<and>
     (\<forall>a. a8_DATA_START (vl_image L) \<le> a \<and> a < a8_DATA_END (vl_image L) \<longrightarrow> a8_view c (a8_path a) = Some (data_entry a)) \<and>
     (\<forall>a. 0x80000000 \<le> a \<and> a < p \<longrightarrow> a8_view c (a8_path a) = Some (data_entry a)) \<and>
     a8_view c (a8_path 0xc0000000) = None \<and> 0x80000000 \<le> p \<and> p \<le> 0xa0000000"

text \<open>What arch_init and, if u is set, the undefined-instruction benchmark have left in the processor.\<close>

definition virt_cpu :: "bool \<Rightarrow> armv8_state \<Rightarrow> bool" where
  "virt_cpu u c \<longleftrightarrow> syscalls_on c \<and> bit (SCTLR_EL1 c) 26 \<and> bit (CNTKCTL_EL1 c) 0 \<and>
     (u \<longrightarrow> el0_sync_table c ARMV8_EC_UNKNOWN = Some exception_skip)"

definition virt_user :: "bool \<Rightarrow> virt_board \<Rightarrow> bool" where
  "virt_user u s \<longleftrightarrow> virt_cpu u (vcpu s) \<and> pstate s AND 0x8f = 0"

definition virt_idle :: "virt_layout \<Rightarrow> bool \<Rightarrow> virt_board \<Rightarrow> bool" where
  "virt_idle L u s \<longleftrightarrow> virt_user u s \<and> \<not> virt_mmu_on s \<and> tables_start (vl_heap L) 0x80000000 (vcpu s)"

definition virt_tables :: "virt_layout \<Rightarrow> bool \<Rightarrow> u64 \<Rightarrow> virt_board \<Rightarrow> bool" where
  "virt_tables L u p s \<longleftrightarrow> virt_user u s \<and> \<not> virt_mmu_on s \<and> virt_mapped L p (vcpu s)"

definition virt_on :: "virt_layout \<Rightarrow> bool \<Rightarrow> u64 \<Rightarrow> virt_board \<Rightarrow> bool" where
  "virt_on L u p s \<longleftrightarrow> virt_user u s \<and> virt_mmu_on s \<and> virt_mapped L p (vcpu s)"

definition virt_inside :: "virt_layout \<Rightarrow> bool \<Rightarrow> virt_board \<Rightarrow> bool" where
  "virt_inside L u s \<longleftrightarrow> virt_cpu u (vcpu s) \<and> pstate s AND 0x8f = 4 \<and> virt_mmu_on s \<and> virt_mapped L 0x80000000 (vcpu s)"

fun virt_handles :: "trap \<Rightarrow> virt_board \<Rightarrow> bool" where
  "virt_handles Bad_data s \<longleftrightarrow> el0_sync_table (vcpu s) 0x24 = Some exception_skip"
| "virt_handles Bad_fetch s \<longleftrightarrow> el0_sync_table (vcpu s) 0x20 = Some armv8_pabt_return"
| "virt_handles Bad_instruction s \<longleftrightarrow> el0_sync_table (vcpu s) ARMV8_EC_UNKNOWN = Some exception_skip"
| "virt_handles System_call s \<longleftrightarrow> True"

definition virt_armed :: "virt_layout \<Rightarrow> virt_board \<Rightarrow> bool" where
  "virt_armed L s \<longleftrightarrow> virt_on L True 0x80000000 s \<and> el0_irq_handler (vcpu s) \<noteq> None"

definition virt_pending :: "virt_layout \<Rightarrow> virt_board \<Rightarrow> bool" where
  "virt_pending L s \<longleftrightarrow> virt_armed L s \<and> vl_irq_line L (vio s)"

lemmas virt_state_defs = virt_idle_def virt_tables_def virt_on_def virt_inside_def virt_armed_def virt_pending_def virt_user_def
  virt_mmu_on_def

text \<open>The parts of the processor's state that matter.\<close>

definition same_tables :: "armv8_state \<Rightarrow> armv8_state \<Rightarrow> bool" where
  "same_tables c d \<longleftrightarrow> a8_cells c = a8_cells d \<and> heap_ptr c = heap_ptr d \<and> l0_table c = l0_table d \<and>
     sym_HEAP_END c = sym_HEAP_END d \<and> TTBR0_EL1 c = TTBR0_EL1 d"

lemma same_tablesD:
  assumes "same_tables c d"
  shows "virt_mapped L p c = virt_mapped L p d" "tables_start lo hi c = tables_start lo hi d" "tables_within lo hi c = tables_within lo hi d"
    "a8_view c = a8_view d"
proof -
  have v: "a8_view c = a8_view d" by (rule a8_view_cong(2)) (use assms in \<open>simp_all add: same_tables_def\<close>)
  have r: "a8_ready lo (heap_upto hi c) = a8_ready lo (heap_upto hi d)" for lo hi
    by (rule a8_view_cong(1)) (use assms in \<open>simp_all add: same_tables_def\<close>)
  show w: "tables_within lo hi c = tables_within lo hi d" for lo hi
    using assms r by (simp add: tables_within_def same_tables_def a8_paid_def)
  have f: "free_clear (heap_upto hi c) = free_clear (heap_upto hi d)" for hi
    using assms by (simp add: free_clear_def same_tables_def)
  show "tables_start lo hi c = tables_start lo hi d" unfolding tables_start_def w f using assms by (simp add: same_tables_def)
  show "virt_mapped L p c = virt_mapped L p d" unfolding virt_mapped_def w v using assms by (simp add: same_tables_def)
  show "a8_view c = a8_view d" by (rule v)
qed

lemma mapped_within: "virt_mapped L p c \<Longrightarrow> tables_start (vl_heap L) 0x80000000 c"
  by (simp add: virt_mapped_def tables_start_def)

subsection \<open>Accesses\<close>

lemma virt_access_off: "\<not> virt_mmu_on s \<Longrightarrow> virt_access w va s = Some va"
  by (simp add: virt_access_def)

lemma virt_access_on:
  assumes "virt_mmu_on s" "virt_mapped L p (vcpu s)" "va < 2 ^ 48"
  shows "virt_access w va s = (case a8_view (vcpu s) (a8_path va) of None \<Rightarrow> None
    | Some e \<Rightarrow> if page_open w e then Some ((e AND table_mask) OR (va AND 0xfff)) else None)"
proof -
  have r: "a8_ready (vl_heap L) (heap_upto 0x80000000 (vcpu s))" and t: "TTBR0_EL1 (vcpu s) = l0_table (vcpu s)"
    using assms(2) by (simp_all add: virt_mapped_def tables_within_def)
  have "a8_walk (a8_cells (vcpu s)) (TTBR0_EL1 (vcpu s)) (a8_path va) = map_option Inr (a8_view (vcpu s) (a8_path va))"
    using a8_translate_view [OF r, of va] by (simp add: a8_translate_def t)
  moreover have "\<not> 2 ^ 48 \<le> va" using assms(3) by simp
  ultimately show ?thesis using assms(1) by (simp add: virt_access_def split: option.splits)
qed

lemma entry_target:
  assumes "va < 2 ^ 48"
  shows "(data_entry va AND table_mask) OR (va AND 0xfff) = va" "(device_entry va AND table_mask) OR (va AND 0xfff) = va"
    "page_open w (data_entry va)" "page_open w (device_entry va)"
proof -
  have hi: "bit va n \<Longrightarrow> n < 48" for n using high_bits_zero [OF assms, of n] by (cases "n < 48") auto
  have m: "table_mask = mask 48 AND NOT (mask 12)" by (simp add: table_mask_def mask_eq_exp_minus_1)
  have k: "(0x443 :: u64) AND table_mask = 0" "(0x447 :: u64) AND table_mask = 0" by (simp_all add: table_mask_def)
  have "((va AND NOT 0xfff) AND table_mask) OR (va AND 0xfff) = va"
  proof (rule bit_eqI)
    fix n
    assume "possible_bit TYPE(64 word) n"
    then show "bit (((va AND NOT 0xfff) AND table_mask) OR (va AND 0xfff)) n \<longleftrightarrow> bit va n"
      unfolding m bit_or_iff bit_and_iff bit_not_iff bit_mask_iff bit_0xfff using hi [of n] by auto
  qed
  then show "(data_entry va AND table_mask) OR (va AND 0xfff) = va" "(device_entry va AND table_mask) OR (va AND 0xfff) = va"
    by (simp_all only: data_entry_def device_entry_def bit.conj_disj_distrib2 k or.right_neutral)
  have b: "bit (va AND NOT 0xfff) 10 = False" "bit (va AND NOT 0xfff) 6 = False" "bit (va AND NOT 0xfff) 7 = False"
    by (simp_all add: bit_and_iff bit_not_iff bit_0xfff)
  have "bit (0x443 :: u64) 10" "bit (0x443 :: u64) 6" "\<not> bit (0x443 :: u64) 7" "bit (0x447 :: u64) 10" "bit (0x447 :: u64) 6" "\<not> bit (0x447 :: u64) 7"
    by simp_all
  then show "page_open w (data_entry va)" "page_open w (device_entry va)"
    unfolding page_open_def data_entry_def device_entry_def bit_or_iff b by simp_all
qed

lemma virt_access_view:
  assumes "virt_mmu_on s \<Longrightarrow> virt_mapped L p (vcpu s)" "va < 2 ^ 48"
    "virt_mmu_on s \<Longrightarrow> a8_view (vcpu s) (a8_path va) \<in> {Some (data_entry va), Some (device_entry va)}"
  shows "virt_access w va s = Some va"
proof (cases "virt_mmu_on s")
  case True
  then show ?thesis using virt_access_on [OF True assms(1) assms(2)] assms(3) entry_target [OF assms(2)] by auto
qed (rule virt_access_off)

subsection \<open>Traps return\<close>

lemma levels:
  "virt_user u s \<Longrightarrow> pstate s AND 0xf = 0 \<and> in_el0 s \<and> pstate s AND 0x80 = 0"
  "virt_inside L u s \<Longrightarrow> pstate s AND 0xf = 4"
proof -
  have k: "x AND 0xf = (x AND 0x8f) AND 0xf" "x AND 0xc = (x AND 0x8f) AND 0xc" "x AND 0x80 = (x AND 0x8f) AND 0x80" for x :: u32
    by (simp_all add: and.assoc)
  show "virt_user u s \<Longrightarrow> pstate s AND 0xf = 0 \<and> in_el0 s \<and> pstate s AND 0x80 = 0"
    unfolding virt_user_def in_el0_def by (subst k(1), subst k(2), subst k(3)) simp
  show "virt_inside L u s \<Longrightarrow> pstate s AND 0xf = 4" unfolding virt_inside_def by (subst k(1)) simp
qed

text \<open>The processor's state in the handler of a system call.\<close>

definition svc_entry :: "virt_layout \<Rightarrow> int \<Rightarrow> virt_board \<Rightarrow> armv8_state" where
  "svc_entry L n s = (vcpu s)\<lparr>SPSR_EL1 := pstate s, ELR_EL1 := vl_code L + 4, backup_lr := vl_return L,
     global_syscall_no := n, ESR_EL1 := 0x56000001\<rparr>"

lemma svc_entry_simps [simp]:
  "same_tables (svc_entry L n s) (vcpu s)" "SCTLR_EL1 (svc_entry L n s) = SCTLR_EL1 (vcpu s)"
  "SPSR_EL1 (svc_entry L n s) = pstate s" "ELR_EL1 (svc_entry L n s) = vl_code L + 4" "virt_cpu u (svc_entry L n s) = virt_cpu u (vcpu s)"
  "global_syscall_no (svc_entry L n s) = n" "el0_irq_handler (svc_entry L n s) = el0_irq_handler (vcpu s)"
  by (simp_all add: svc_entry_def same_tables_def virt_cpu_def syscalls_on_def)

lemmas syscall_numbers = SYSCALL_IRQ_ENABLE_def SYSCALL_IRQ_DISABLE_def SYSCALL_MEM_INIT_def SYSCALL_MMU_ENABLE_def
  SYSCALL_MMU_DISABLE_def SYSCALL_PRIV_ENTER_def SYSCALL_PRIV_LEAVE_def

lemma call_returns:
  assumes "pstate s AND 0xf \<in> {0, 4}" "virt_cpu u (vcpu s)" "armv8_handle_syscall img (svc_entry L n s) = Some (Inr (0, c))"
    "ELR_EL1 c = vl_code L + 4"
  shows "call_port L (armv8_syscall img n) s = Inr (s\<lparr>vcpu := c, pstate := SPSR_EL1 c\<rparr>)"
proof -
  let ?c = "(vcpu s)\<lparr>SPSR_EL1 := pstate s, ELR_EL1 := vl_code L + 4, backup_lr := vl_return L\<rparr>"
  have "syscalls_on ?c" using assms(2) by (simp add: virt_cpu_def syscalls_on_def)
  then have "armv8_syscall img n ?c = Some (Inr c)"
    using assms(3) unfolding armv8_syscall_eq [OF \<open>syscalls_on ?c\<close>] svc_entry_def by (simp add: bindL_def)
  then show ?thesis using assms(1,4) by (simp add: call_port_def trapped_def)
qed

text \<open>A system call that only changes SCTLR_EL1 or SPSR_EL1.\<close>

lemma quick_call:
  assumes "pstate s AND 0xf \<in> {0, 4}" "virt_cpu u (vcpu s)" "armv8_handle_syscall img (svc_entry L n s) = zero (g (svc_entry L n s))"
    "\<And>c. \<exists>a b. g c = c\<lparr>SCTLR_EL1 := a, SPSR_EL1 := b\<rparr>"
  shows "\<exists>s'. call_port L (armv8_syscall img n) s = Inr s' \<and> same_tables (vcpu s') (vcpu s) \<and> pstate s' = SPSR_EL1 (g (svc_entry L n s)) \<and>
    SCTLR_EL1 (vcpu s') = SCTLR_EL1 (g (svc_entry L n s)) \<and> CNTKCTL_EL1 (vcpu s') = CNTKCTL_EL1 (vcpu s) \<and>
    el0_sync_table (vcpu s') = el0_sync_table (vcpu s) \<and> el0_irq_handler (vcpu s') = el0_irq_handler (vcpu s) \<and>
    vio s' = vio s \<and> virt_statics s' = virt_statics s"
proof -
  let ?c = "g (svc_entry L n s)"
  obtain a b where g: "?c = (svc_entry L n s)\<lparr>SCTLR_EL1 := a, SPSR_EL1 := b\<rparr>" using assms(4) by blast
  have e: "ELR_EL1 ?c = vl_code L + 4" by (simp add: g)
  have h: "armv8_handle_syscall img (svc_entry L n s) = Some (Inr (0, ?c))" using assms(3) by (simp add: zero_def)
  show ?thesis
    unfolding call_returns [OF assms(1,2) h e] by (simp add: g) (simp add: svc_entry_def same_tables_def)
qed

text \<open>A trap through the table of handlers.\<close>

lemma skip_returns:
  assumes "pstate s AND 0xf \<in> {0, 4}" "el0_sync_table (vcpu s) (unat ec) = Some exception_skip" "ec < 64" "unat elr + 4 < 2 ^ 32"
  shows "\<exists>c. trapped L (sync_trap img ec iss) elr (elr + 4) s = Inr (s\<lparr>vcpu := c\<rparr>) \<and>
    c = (vcpu s)\<lparr>SPSR_EL1 := pstate s, ELR_EL1 := elr + 4, backup_lr := vl_return L, ESR_EL1 := ESR_EL1 c\<rparr>"
proof -
  note e = next_instruction [OF assms(4)]
  let ?c = "(vcpu s)\<lparr>SPSR_EL1 := pstate s, ELR_EL1 := elr, backup_lr := vl_return L\<rparr>"
  obtain esr where t: "sync_trap img ec iss ?c = Some (Inr (?c\<lparr>ESR_EL1 := esr, ELR_EL1 := elr + 4\<rparr>))"
    using assms(2) unfolding sync_trap_eq [OF assms(3)] Let_def by (simp add: run_exception_skip_def e)
  have "trapped L (sync_trap img ec iss) elr (elr + 4) s = Inr (s\<lparr>vcpu := ?c\<lparr>ESR_EL1 := esr, ELR_EL1 := elr + 4\<rparr>\<rparr>)"
    using assms(1) t by (simp add: trapped_def)
  then show ?thesis by (intro exI [of _ "?c\<lparr>ESR_EL1 := esr, ELR_EL1 := elr + 4\<rparr>"]) simp
qed

section \<open>The laws of a port\<close>

subsection \<open>Memory management\<close>

lemma sctlr_bits:
  fixes c :: u32
  shows "(c AND NOT (push_bit 19 1)) AND 1 = c AND 1" "bit (c AND NOT (push_bit 19 1)) 26 = bit c 26"
    "(c OR 1) AND 1 \<noteq> 0" "bit (c OR 1) 26 = bit c 26" "(c AND NOT 1) AND 1 = 0" "bit (c AND NOT 1) 26 = bit c 26"
    "(c OR ARMV8_SCTLR_I_FLAG) AND 1 = c AND 1" "bit (c OR ARMV8_SCTLR_I_FLAG) 26 = bit c 26"
    "(c AND NOT ARMV8_SCTLR_I_FLAG) AND 1 = c AND 1" "bit (c AND NOT ARMV8_SCTLR_I_FLAG) 26 = bit c 26"
proof -
  have f: "ARMV8_SCTLR_I_FLAG = 0x1000" by (simp add: ARMV8_SCTLR_I_FLAG_def push_bit_eq_mult)
  have "(push_bit 19 1 :: u32) = 0x80000" by (simp add: push_bit_eq_mult)
  then show "(c AND NOT (push_bit 19 1)) AND 1 = c AND 1" "bit (c AND NOT (push_bit 19 1)) 26 = bit c 26"
    by (simp_all add: and.assoc bit_and_iff)
  have "bit ((c OR 1) AND 1) 0" by (simp add: bit_simps)
  then show "(c OR 1) AND 1 \<noteq> 0" by auto
  show "bit (c OR 1) 26 = bit c 26" "(c AND NOT 1) AND 1 = 0" "bit (c AND NOT 1) 26 = bit c 26"
    by (simp_all add: bit_simps and.assoc)
  show "(c OR ARMV8_SCTLR_I_FLAG) AND 1 = c AND 1" "bit (c OR ARMV8_SCTLR_I_FLAG) 26 = bit c 26"
    "(c AND NOT ARMV8_SCTLR_I_FLAG) AND 1 = c AND 1" "bit (c AND NOT ARMV8_SCTLR_I_FLAG) 26 = bit c 26"
    unfolding f by (simp_all add: bit.conj_disj_distrib2 and.assoc bit_or_iff bit_and_iff)
qed

lemma registers_below: "a \<in> set virt_registers \<Longrightarrow> a < 0x40000000"
  by (auto simp: virt_registers_def gic_registers_def virt_UART0_BASE_def virt_null_devptr_def virt_GICD_BASE_def virt_GICC_BASE_def gic_offsets)

lemma fresh_mapped:
  assumes ok: "virt_layout_ok L" and w: "tables_within (vl_heap L) 0x80000000 c" and t: "TTBR0_EL1 c = l0_table c"
    and dev: "\<And>a. a \<in> set (device_pages (vl_image L)) \<Longrightarrow> a8_view c (a8_path a) = Some (device_entry a)"
    and data: "\<And>a. a \<in> set (data_pages (vl_image L)) \<Longrightarrow> a8_path a \<notin> a8_path ` set (device_pages (vl_image L)) \<Longrightarrow>
      a8_view c (a8_path a) = Some (data_entry a)"
    and none: "\<And>q. q \<notin> a8_path ` (set (text_pages (vl_image L)) \<union> set (data_pages (vl_image L)) \<union> set (device_pages (vl_image L))) \<Longrightarrow>
      a8_view c q = None"
  shows "virt_mapped L 0x80000000 c"
proof -
  let ?i = "vl_image L"
  note I = layout_image [OF ok]
  have L: "page_aligned (a8_DATA_START ?i)" "0x40000000 \<le> a8_DATA_START ?i" "a8_DATA_END ?i < vl_heap L"
    "a8_devices ?i = device_ranges virt_mem_get_device_info" using ok by (simp_all add: virt_layout_ok_def Let_def)
  have lt: "x < 0x80000000 \<Longrightarrow> x < 2 ^ 48" "x < 0xc0000000 \<Longrightarrow> x < 2 ^ 48" "x < 0x40000000 \<Longrightarrow> x < 2 ^ 48"
    "x < 0x80000000 \<Longrightarrow> x < 0xc0000000" "x < 0x40000000 \<Longrightarrow> x < 0xc0000000" for x :: u64
    by (simp_all add: word_less_nat_alt)
  have "a8_view c (a8_path a) = Some (device_entry a)" if a: "a \<in> set virt_registers" for a
  proof -
    obtain r where "r \<in> set (a8_devices ?i)" "a AND NOT 0xfff \<in> set (pages_of r)" using virt_pages a unfolding L(4) by blast
    then have "a AND NOT 0xfff \<in> set (device_pages ?i)" by (auto simp: device_pages_def)
    from dev [OF this] show ?thesis unfolding a8_path_page device_entry_page .
  qed
  moreover have "a8_view c (a8_path a) = Some (data_entry a)" if a: "a8_DATA_START ?i \<le> a" "a < a8_DATA_END ?i" for a
  proof -
    have "a AND NOT 0xfff \<in> set (data_pages ?i)"
      unfolding data_pages_def by (rule page_in_region [OF L(1) a(1)]) (use a(2) in simp)
    moreover have "a8_path a \<notin> a8_path ` set (device_pages ?i)"
    proof
      assume "a8_path a \<in> a8_path ` set (device_pages ?i)"
      then obtain b where b: "b \<in> set (device_pages ?i)" "a8_path a = a8_path b" by blast
      have "a < 0x80000000" using a(2) L(3) I(7) by (auto intro: less_trans)
      from other_page [OF b(2) lt(1) [OF this] lt(3) [OF I(5) [OF b(1)]] I(5) [OF b(1)]]
      have "a < 0x40000000" by (simp add: page_aligned_def)
      then show False using a(1) L(2) by simp
    qed
    ultimately show ?thesis using data [of "a AND NOT 0xfff"] unfolding a8_path_page data_entry_page by blast
  qed
  moreover have "a8_view c (a8_path 0xc0000000) = None"
  proof (rule none, rule notI)
    assume "a8_path 0xc0000000 \<in> a8_path ` (set (text_pages ?i) \<union> set (data_pages ?i) \<union> set (device_pages ?i))"
    then obtain b where b: "b \<in> set (text_pages ?i @ data_pages ?i @ device_pages ?i)" "a8_path 0xc0000000 = a8_path b" by auto
    have "b < 0xc0000000" using b(1) I(1) by (simp only: image_low_def)
    from other_page [OF b(2) _ lt(2) [OF this] this] show False by (simp add: page_aligned_def)
  qed
  ultimately show ?thesis using w t by (auto simp: virt_mapped_def)
qed

text \<open>The system call of mem_init and mem_reset.\<close>

lemma virt_init_step:
  assumes ok: "virt_layout_ok L" and s: "virt_idle L u s"
  shows "\<exists>s'. mmu_off (call_port L (a8_mem_init (vl_image L))) s = Inr s' \<and> virt_tables L u 0x80000000 s' \<and>
      virt_text s' = virt_text s \<and> virt_statics s' = virt_statics s"
    and "mmu_off (call_port L (a8_mem_init (vl_image L))) s = Inr s'' \<Longrightarrow> el0_sync_table (vcpu s'') = el0_sync_table (vcpu s)"
proof -
  have c: "virt_cpu u (vcpu s)" "pstate s AND 0x8f = 0" "\<not> virt_mmu_on s" "pstate s AND 0xf \<in> {0, 4}"
    using s levels(1) [of u s] by (auto simp: virt_idle_def virt_user_def)
  let ?e = "svc_entry L SYSCALL_MEM_INIT s"
  have st: "tables_start (vl_heap L) 0x80000000 ?e" using s same_tablesD(2) [OF svc_entry_simps(1)] by (simp add: virt_idle_def)
  note I = layout_image [OF ok]
  obtain d where d: "syscall_mem_init (vl_image L) ?e = Some (Inr d)" and w: "tables_within (vl_heap L) 0x80000000 d" and t: "TTBR0_EL1 d = l0_table d"
    and v: "\<And>a. a \<in> set (device_pages (vl_image L)) \<Longrightarrow> a8_view d (a8_path a) = Some (device_entry a)"
      "\<And>a. a \<in> set (data_pages (vl_image L)) \<Longrightarrow> a8_path a \<notin> a8_path ` set (device_pages (vl_image L)) \<Longrightarrow> a8_view d (a8_path a) = Some (data_entry a)"
      "\<And>q. q \<notin> a8_path ` (set (text_pages (vl_image L)) \<union> set (data_pages (vl_image L)) \<union> set (device_pages (vl_image L))) \<Longrightarrow> a8_view d q = None"
    and fr: "d = ?e\<lparr>a8_cells := a8_cells d, heap_ptr := heap_ptr d, l0_table := l0_table d, SCTLR_EL1 := SCTLR_EL1 ?e AND NOT (push_bit 19 1),
      TTBR0_EL1 := TTBR0_EL1 d, TCR_EL1 := TCR_EL1 d\<rparr>"
    using mem_init_within [OF st I(1,2)] by blast
  have f: "ELR_EL1 d = vl_code L + 4" "SPSR_EL1 d = pstate s" "SCTLR_EL1 d = SCTLR_EL1 (vcpu s) AND NOT (push_bit 19 1)"
    "CNTKCTL_EL1 d = CNTKCTL_EL1 (vcpu s)" "el0_sync_table d = el0_sync_table (vcpu s)"
    by (subst fr, simp add: svc_entry_def)+
  have h: "armv8_handle_syscall (vl_image L) ?e = Some (Inr (0, d))"
    using d by (simp add: armv8_handle_syscall_def zero_def syscall_numbers)
  have m: "virt_mapped L 0x80000000 d" by (rule fresh_mapped [OF ok w t v])
  have b: "bit (SCTLR_EL1 d) 26 = bit (SCTLR_EL1 (vcpu s)) 26" "SCTLR_EL1 d AND 1 = SCTLR_EL1 (vcpu s) AND 1"
    by (simp_all only: f(3) sctlr_bits)
  have "virt_cpu u d" using c(1) by (simp add: virt_cpu_def f(4,5) syscalls_on_def b)
  then have "virt_tables L u 0x80000000 (s\<lparr>vcpu := d, pstate := SPSR_EL1 d\<rparr>)"
    using c(2,3) m by (simp add: virt_state_defs f(2) b)
  moreover have "a8_mem_init (vl_image L) = armv8_syscall (vl_image L) SYSCALL_MEM_INIT" by (simp add: a8_mem_init_def fun_eq_iff)
  ultimately show "\<exists>s'. mmu_off (call_port L (a8_mem_init (vl_image L))) s = Inr s' \<and> virt_tables L u 0x80000000 s' \<and>
      virt_text s' = virt_text s \<and> virt_statics s' = virt_statics s"
    "mmu_off (call_port L (a8_mem_init (vl_image L))) s = Inr s'' \<Longrightarrow> el0_sync_table (vcpu s'') = el0_sync_table (vcpu s)"
    using call_returns [OF c(4,1) h f(1)] c(3) f(5) by (auto simp: mmu_off_def virt_text_def)
qed

lemma virt_enable_step:
  assumes "virt_tables L u p s"
  shows "\<exists>s'. call_port L (a8_mmu_enable (vl_image L)) s = Inr s' \<and> virt_on L u p s' \<and>
      virt_text s' = virt_text s \<and> virt_statics s' = virt_statics s"
    and "call_port L (a8_mmu_enable (vl_image L)) s = Inr s'' \<Longrightarrow> el0_sync_table (vcpu s'') = el0_sync_table (vcpu s)"
proof -
  have c: "virt_cpu u (vcpu s)" "pstate s AND 0x8f = 0" "virt_mapped L p (vcpu s)" "pstate s AND 0xf \<in> {0, 4}"
    using assms levels(1) [of u s] by (auto simp: virt_tables_def virt_user_def)
  have e: "a8_mmu_enable (vl_image L) = armv8_syscall (vl_image L) SYSCALL_MMU_ENABLE" by (simp add: a8_mmu_enable_def fun_eq_iff)
  have h: "armv8_handle_syscall (vl_image L) (svc_entry L SYSCALL_MMU_ENABLE s) = zero (syscall_mem_mmu_enable (svc_entry L SYSCALL_MMU_ENABLE s))"
    by (simp add: armv8_handle_syscall_def syscall_numbers)
  have g: "\<exists>a b. syscall_mem_mmu_enable c = c\<lparr>SCTLR_EL1 := a, SPSR_EL1 := b\<rparr>" for c
    by (intro exI [of _ "SCTLR_EL1 c OR 1"] exI [of _ "SPSR_EL1 c"]) (simp add: syscall_mem_mmu_enable_def)
  obtain s' where s': "call_port L (a8_mmu_enable (vl_image L)) s = Inr s'" "same_tables (vcpu s') (vcpu s)" "pstate s' = pstate s"
    "SCTLR_EL1 (vcpu s') = SCTLR_EL1 (vcpu s) OR 1" "CNTKCTL_EL1 (vcpu s') = CNTKCTL_EL1 (vcpu s)"
    "el0_sync_table (vcpu s') = el0_sync_table (vcpu s)" "vio s' = vio s" "virt_statics s' = virt_statics s"
    using quick_call [OF c(4,1) h g] unfolding e by (auto simp: syscall_mem_mmu_enable_def)
  have "virt_on L u p s'"
    using c s'(3-6) same_tablesD(1) [OF s'(2)] by (simp add: virt_state_defs virt_cpu_def syscalls_on_def sctlr_bits)
  then show "\<exists>s'. call_port L (a8_mmu_enable (vl_image L)) s = Inr s' \<and> virt_on L u p s' \<and>
      virt_text s' = virt_text s \<and> virt_statics s' = virt_statics s"
    using s' by (simp add: virt_text_def)
  show "call_port L (a8_mmu_enable (vl_image L)) s = Inr s'' \<Longrightarrow> el0_sync_table (vcpu s'') = el0_sync_table (vcpu s)"
    using s'(1,6) by simp
qed

lemma virt_disable_step:
  assumes "virt_on L u p s"
  shows "\<exists>s'. call_port L (a8_mmu_disable (vl_image L)) s = Inr s' \<and> virt_idle L u s' \<and>
    virt_text s' = virt_text s \<and> virt_statics s' = virt_statics s"
proof -
  have c: "virt_cpu u (vcpu s)" "pstate s AND 0x8f = 0" "virt_mapped L p (vcpu s)" "pstate s AND 0xf \<in> {0, 4}"
    using assms levels(1) [of u s] by (auto simp: virt_on_def virt_user_def)
  have e: "a8_mmu_disable (vl_image L) = armv8_syscall (vl_image L) SYSCALL_MMU_DISABLE" by (simp add: a8_mmu_disable_def fun_eq_iff)
  have h: "armv8_handle_syscall (vl_image L) (svc_entry L SYSCALL_MMU_DISABLE s) = zero (syscall_mem_mmu_disable (svc_entry L SYSCALL_MMU_DISABLE s))"
    by (simp add: armv8_handle_syscall_def syscall_numbers)
  have g: "\<exists>a b. syscall_mem_mmu_disable c = c\<lparr>SCTLR_EL1 := a, SPSR_EL1 := b\<rparr>" for c
    by (intro exI [of _ "SCTLR_EL1 c AND NOT 1"] exI [of _ "SPSR_EL1 c"]) (simp add: syscall_mem_mmu_disable_def)
  obtain s' where s': "call_port L (a8_mmu_disable (vl_image L)) s = Inr s'" "same_tables (vcpu s') (vcpu s)" "pstate s' = pstate s"
    "SCTLR_EL1 (vcpu s') = SCTLR_EL1 (vcpu s) AND NOT 1" "CNTKCTL_EL1 (vcpu s') = CNTKCTL_EL1 (vcpu s)"
    "el0_sync_table (vcpu s') = el0_sync_table (vcpu s)" "vio s' = vio s" "virt_statics s' = virt_statics s"
    using quick_call [OF c(4,1) h g] unfolding e by (auto simp: syscall_mem_mmu_disable_def)
  have "tables_start (vl_heap L) 0x80000000 (vcpu s')"
    using mapped_within [OF c(3)] same_tablesD(2) [OF s'(2)] by simp
  then have "virt_idle L u s'"
    using c s'(3-6) sctlr_bits(5,6) by (simp add: virt_state_defs virt_cpu_def syscalls_on_def)
  then show ?thesis using s' by (simp add: virt_text_def)
qed

lemma page_step:
  assumes "page_aligned (p :: u64)" "0x80000000 \<le> p" "p < 0xa0000000"
  shows "unat (p + 0x1000) = unat p + 0x1000" "p + 0x1000 \<le> 0xa0000000" "p < p + 0x1000"
    "0x80000000 \<le> a \<Longrightarrow> a < p + 0x1000 \<Longrightarrow> \<not> a < p \<Longrightarrow> a8_path a = a8_path p \<and> data_entry a = data_entry p"
proof -
  have lt: "unat p < 0xa0000000" using assms(3) by (simp add: word_less_nat_alt)
  show u: "unat (p + 0x1000) = unat p + 0x1000" using lt by (simp add: unat_word_ariths)
  have "unat p div 0x1000 < 0xa0000" using lt by (simp add: less_mult_imp_div_less)
  then have "unat p div 0x1000 * 0x1000 + 0x1000 \<le> 0xa0000000" by simp
  then show "p + 0x1000 \<le> 0xa0000000" using aligned_div [OF assms(1)] u by (simp add: word_le_nat_alt)
  show "p < p + 0x1000" using u by (simp add: word_less_nat_alt)
  assume a: "0x80000000 \<le> a" "a < p + 0x1000" "\<not> a < p"
  have n: "unat p \<le> unat a" "unat a < unat p + 0x1000" using a(2,3) u by (simp_all add: word_less_nat_alt not_less)
  have "unat a div 0x1000 = unat p div 0x1000"
  proof (rule div_nat_eqI)
    show "0x1000 * (unat p div 0x1000) \<le> unat a" "unat a < 0x1000 * Suc (unat p div 0x1000)"
      using n aligned_div [OF assms(1)] by simp_all
  qed
  then have e: "a AND NOT 0xfff = p AND NOT 0xfff" unfolding word_unat_eq_iff page_nat by simp
  then have "a8_path (a AND NOT 0xfff) = a8_path (p AND NOT 0xfff)" "data_entry (a AND NOT 0xfff) = data_entry (p AND NOT 0xfff)" by simp_all
  then show "a8_path a = a8_path p \<and> data_entry a = data_entry p" by (simp only: a8_path_page data_entry_page)
qed

lemma map_phys_page:
  assumes ok: "virt_layout_ok L" and m: "virt_mapped L p c" and p: "page_aligned p" "p < 0xa0000000"
  obtains c' where "a8_create_page_mapping_data p p c = Inr c'" "virt_mapped L (p + 0x1000) c'"
    "c' = c\<lparr>a8_cells := a8_cells c', heap_ptr := heap_ptr c'\<rparr>"
proof -
  note I = layout_image [OF ok]
  have M: "tables_within (vl_heap L) 0x80000000 c" "0x80000000 \<le> p" using m by (simp_all add: virt_mapped_def)
  have pl: "p < 0xc0000000" "p < 2 ^ 48" using p(2) by (simp_all add: word_less_nat_alt)
  obtain c' where c': "a8_create_page_mapping_data p p c = Inr c'" "tables_within (vl_heap L) 0x80000000 c'"
    "a8_view c' = (a8_view c)(a8_path p \<mapsto> data_entry p)" "c' = c\<lparr>a8_cells := a8_cells c', heap_ptr := heap_ptr c'\<rparr>"
    using mapping_within_heap [OF a8_mappers(1) M(1) I(6) pl(1)] by blast
  have t: "TTBR0_EL1 c' = TTBR0_EL1 c" "l0_table c' = l0_table c" by (subst c'(4), simp)+
  have lt: "x < 0x80000000 \<Longrightarrow> x < 2 ^ 48" for x :: u64 by (simp add: word_less_nat_alt)
  have low: "a8_path a \<noteq> a8_path p" if "a < 0x80000000" for a
  proof
    assume "a8_path a = a8_path p"
    from other_page [OF this [symmetric] pl(2) lt [OF that] that] show False using M(2) by (simp add: page_aligned_def)
  qed
  have hole: "a8_path 0xc0000000 \<noteq> a8_path p"
  proof
    assume "a8_path 0xc0000000 = a8_path p"
    from other_page [OF this _ pl(2,1)] show False by (simp add: page_aligned_def)
  qed
  have D: "a8_DATA_END (vl_image L) < vl_heap L" using ok by (simp add: virt_layout_ok_def Let_def)
  note P = page_step [OF p(1) M(2) p(2)]
  have reg: "a < 0x80000000" if "a \<in> set virt_registers" for a using registers_below [OF that] by (simp add: word_less_nat_alt)
  have data: "a < 0x80000000" if "a < a8_DATA_END (vl_image L)" for a using that D I(7) by (auto intro: less_trans)
  have before: "a8_path a \<noteq> a8_path p" if "a < p" for a
  proof
    assume "a8_path a = a8_path p"
    from other_page [OF this [symmetric] pl(2) less_trans [OF that pl(2)] that p(1)] show False by simp
  qed
  have "a8_view c' (a8_path a) = Some (data_entry a)" if "0x80000000 \<le> a" "a < p + 0x1000" for a
    using m P(4) [OF that] that(1) before by (cases "a < p") (auto simp: virt_mapped_def c'(3))
  then have "virt_mapped L (p + 0x1000) c'"
    using m c'(2) t low reg data hole P(2,3) by (auto simp: virt_mapped_def c'(3))
  then show thesis using that c'(1,4) by blast
qed

lemma virt_map_step:
  assumes ok: "virt_layout_ok L" and s: "virt_tables L u p s"
    and c: "a8_create_page_mapping_data a a (vcpu s) = Inr c" "virt_mapped L q c" "c = (vcpu s)\<lparr>a8_cells := a8_cells c, heap_ptr := heap_ptr c\<rparr>"
  shows "\<exists>s'. mmu_off (virt_map_data a a) s = Inr s' \<and> virt_tables L u q s' \<and> virt_text s' = virt_text s \<and> virt_statics s' = virt_statics s"
proof -
  have f: "el0_sync_table c = el0_sync_table (vcpu s)" "SCTLR_EL1 c = SCTLR_EL1 (vcpu s)" "CNTKCTL_EL1 c = CNTKCTL_EL1 (vcpu s)"
    by (subst c(3), simp)+
  have "virt_tables L u q (s\<lparr>vcpu := c\<rparr>)" using s c(2) by (simp add: virt_state_defs virt_cpu_def syscalls_on_def f)
  then show ?thesis using s c(1) by (simp add: mmu_off_def virt_map_data_def virt_tables_def virt_text_def)
qed

lemma virt_map_page:
  assumes ok: "virt_layout_ok L" and s: "virt_tables L u p s" and p: "page_aligned p" "p < 0xa0000000"
  shows "\<exists>s'. mmu_off (virt_map_data p p) s = Inr s' \<and> virt_tables L u (p + 0x1000) s' \<and> virt_text s' = virt_text s \<and> virt_statics s' = virt_statics s"
proof -
  have "virt_mapped L p (vcpu s)" using s by (simp add: virt_tables_def)
  from map_phys_page [OF ok this p] show ?thesis using virt_map_step [OF ok s] by metis
qed

lemma virt_map_value:
  assumes ok: "virt_layout_ok L" and s: "virt_tables L u p s" and a: "a8_DATA_START (vl_image L) \<le> a" "a < a8_DATA_END (vl_image L)"
  shows "\<exists>s'. mmu_off (virt_map_data a a) s = Inr s' \<and> virt_tables L u p s' \<and> virt_text s' = virt_text s \<and> virt_statics s' = virt_statics s"
proof -
  note I = layout_image [OF ok]
  have m: "virt_mapped L p (vcpu s)" using s by (simp add: virt_tables_def)
  have w: "tables_within (vl_heap L) 0x80000000 (vcpu s)" using m by (simp add: virt_mapped_def)
  have "a < 0x80000000" using a(2) ok I(7) by (auto simp: virt_layout_ok_def Let_def intro: less_trans)
  then have "a < 0xc0000000" by (simp add: word_less_nat_alt)
  from mapping_within_heap [OF a8_mappers(1) w I(6) this, of a]
  obtain c where c: "a8_create_page_mapping_data a a (vcpu s) = Inr c" "tables_within (vl_heap L) 0x80000000 c"
    "a8_view c = (a8_view (vcpu s))(a8_path a \<mapsto> data_entry a)" "c = (vcpu s)\<lparr>a8_cells := a8_cells c, heap_ptr := heap_ptr c\<rparr>" by blast
  have "a8_view (vcpu s) (a8_path a) = Some (data_entry a)" using m a by (simp add: virt_mapped_def)
  then have v: "a8_view c = a8_view (vcpu s)" unfolding c(3) by (auto simp: fun_eq_iff)
  have t: "TTBR0_EL1 c = TTBR0_EL1 (vcpu s)" "l0_table c = l0_table (vcpu s)" by (subst c(4), simp)+
  have "virt_mapped L p c" using m c(2) unfolding virt_mapped_def v t by blast
  from virt_map_step [OF ok s c(1) this c(4)] show ?thesis .
qed

subsection \<open>Exceptions, levels and interrupts\<close>

text \<open>Changes of the processor that no state notices.\<close>

lemma virt_states_cpu:
  assumes "same_tables c (vcpu s)" "SCTLR_EL1 c AND 1 = SCTLR_EL1 (vcpu s) AND 1" "virt_cpu u c"
  shows "virt_idle L u s \<Longrightarrow> virt_idle L u (s\<lparr>vcpu := c\<rparr>)" "virt_on L u p s \<Longrightarrow> virt_on L u p (s\<lparr>vcpu := c\<rparr>)"
    "virt_inside L u s \<Longrightarrow> virt_inside L u (s\<lparr>vcpu := c\<rparr>)"
  using assms same_tablesD [OF assms(1)] by (simp_all add: virt_state_defs)

lemma virt_states_io:
  "virt_idle L u (s\<lparr>vio := m\<rparr>) = virt_idle L u s" "virt_on L u p (s\<lparr>vio := m\<rparr>) = virt_on L u p s"
  "virt_handles k (s\<lparr>vio := m\<rparr>) = virt_handles k s" "virt_armed L (s\<lparr>vio := m\<rparr>) = virt_armed L s"
  "virt_inside L u (s\<lparr>vio := m\<rparr>) = virt_inside L u s" "virt_user u (s\<lparr>vio := m\<rparr>) = virt_user u s"
  by (cases k; simp add: virt_state_defs)+

lemma virt_states_statics:
  "virt_idle L u (s\<lparr>virt_statics := st\<rparr>) = virt_idle L u s" "virt_on L u p (s\<lparr>virt_statics := st\<rparr>) = virt_on L u p s"
  "virt_tables L u p (s\<lparr>virt_statics := st\<rparr>) = virt_tables L u p s"
  "virt_armed L (s\<lparr>virt_statics := st\<rparr>) = virt_armed L s" "virt_pending L (s\<lparr>virt_statics := st\<rparr>) = virt_pending L s"
  by (simp_all add: virt_state_defs)

lemma virt_text_simps [simp]:
  "virt_text (s\<lparr>vcpu := c\<rparr>) = virt_text s" "virt_text (s\<lparr>virt_statics := st\<rparr>) = virt_text s" "virt_text (s\<lparr>pstate := x\<rparr>) = virt_text s"
  by (simp_all add: virt_text_def)

lemma code_low: "virt_layout_ok L \<Longrightarrow> unat (vl_code L) + 4 < 2 ^ 32"
  by (simp add: virt_layout_ok_def Let_def)

text \<open>A fault at level 0 whose handler skips the instruction.\<close>

lemma fault_skipped:
  assumes ok: "virt_layout_ok L" and s: "virt_user u s" and h: "el0_sync_table (vcpu s) (unat ec) = Some exception_skip" "ec < 64"
  obtains c where "synchronous L ec same iss (vl_code L) (vl_code L + 4) s = Inr (s\<lparr>vcpu := c\<rparr>)" "same_tables c (vcpu s)"
    "SCTLR_EL1 c = SCTLR_EL1 (vcpu s)" "\<And>v. virt_cpu v c = virt_cpu v (vcpu s)" "el0_sync_table c = el0_sync_table (vcpu s)"
    "el0_irq_handler c = el0_irq_handler (vcpu s)" "CNTKCTL_EL1 c = CNTKCTL_EL1 (vcpu s)"
proof -
  have l: "pstate s AND 0xf \<in> {0, 4}" "in_el0 s" using levels(1) [OF s] by simp_all
  obtain c where c: "trapped L (sync_trap (vl_image L) ec iss) (vl_code L) (vl_code L + 4) s = Inr (s\<lparr>vcpu := c\<rparr>)"
    "c = (vcpu s)\<lparr>SPSR_EL1 := pstate s, ELR_EL1 := vl_code L + 4, backup_lr := vl_return L, ESR_EL1 := ESR_EL1 c\<rparr>"
    using skip_returns [OF l(1) h code_low [OF ok]] by blast
  show thesis
  proof
    show "synchronous L ec same iss (vl_code L) (vl_code L + 4) s = Inr (s\<lparr>vcpu := c\<rparr>)" using c(1) l(2) by (simp add: synchronous_def)
    show "same_tables c (vcpu s)" "SCTLR_EL1 c = SCTLR_EL1 (vcpu s)" "\<And>v. virt_cpu v c = virt_cpu v (vcpu s)" "el0_sync_table c = el0_sync_table (vcpu s)"
      "el0_irq_handler c = el0_irq_handler (vcpu s)" "CNTKCTL_EL1 c = CNTKCTL_EL1 (vcpu s)"
      by (subst c(2), simp add: same_tables_def virt_cpu_def syscalls_on_def)+
  qed
qed

lemma virt_hole:
  assumes "virt_on L u p s"
  shows "virt_access w 0xc0000000 s = None"
  using assms virt_access_on [of s L p "0xc0000000" w] by (simp add: virt_on_def virt_mapped_def)

lemma handles_same: "el0_sync_table c = el0_sync_table (vcpu s) \<Longrightarrow> virt_handles k (s\<lparr>vcpu := c\<rparr>) = virt_handles k s"
  by (cases k) simp_all

text \<open>Traps leave every state that differs only in the exception registers.\<close>

lemma trap_keeps:
  assumes "virt_on L u p s" "virt_handles k s" "same_tables c (vcpu s)" "SCTLR_EL1 c = SCTLR_EL1 (vcpu s)" "virt_cpu u c"
    "el0_sync_table c = el0_sync_table (vcpu s)"
  shows "virt_on L u p (s\<lparr>vcpu := c\<rparr>) \<and> virt_handles k (s\<lparr>vcpu := c\<rparr>)"
  using virt_states_cpu(2) [OF assms(3) _ assms(5), of L p] assms(1,2,4) handles_same [OF assms(6)] by simp

lemma skipped_keeps:
  assumes ok: "virt_layout_ok L" and s: "virt_on L u p s" "virt_handles k s"
    and t: "el0_sync_table (vcpu s) (unat ec) = Some exception_skip" "ec < 64"
  shows "\<exists>s'. synchronous L ec same iss (vl_code L) (vl_code L + 4) s = Inr s' \<and> (virt_on L u p s' \<and> virt_handles k s') \<and> virt_text s' = virt_text s"
proof -
  have us: "virt_user u s" "virt_cpu u (vcpu s)" using s(1) by (simp_all add: virt_on_def virt_user_def)
  obtain c where c: "synchronous L ec same iss (vl_code L) (vl_code L + 4) s = Inr (s\<lparr>vcpu := c\<rparr>)" "same_tables c (vcpu s)"
    "SCTLR_EL1 c = SCTLR_EL1 (vcpu s)" "\<And>v. virt_cpu v c = virt_cpu v (vcpu s)" "el0_sync_table c = el0_sync_table (vcpu s)"
    by (rule fault_skipped [OF ok us(1) t]) blast
  then show ?thesis using trap_keeps [OF s c(2,3) _ c(5)] c(4) us(2) by simp
qed

lemma virt_trap_returns:
  assumes ok: "virt_layout_ok L" and s: "virt_on L u p s" and h: "virt_handles k s"
  shows "\<exists>s'. raise_trap (virt_machine L) k s = Inr s' \<and> (virt_on L u p s' \<and> virt_handles k s') \<and> virt_text s' = virt_text s"
proof -
  have us: "virt_user u s" and cpu: "virt_cpu u (vcpu s)" using s by (simp_all add: virt_on_def virt_user_def)
  have l: "pstate s AND 0xf \<in> {0, 4}" "in_el0 s" using levels(1) [OF us] by simp_all
  note keep = trap_keeps [OF s h]
  have lt: "(0x15 :: u32) < 64" "(0x20 :: u32) < 64" "(0x24 :: u32) < 64" "(0 :: u32) < 64" by simp_all
  note hole = virt_hole [OF s]
  let ?e = "\<lambda>elr. (vcpu s)\<lparr>SPSR_EL1 := pstate s, ELR_EL1 := elr, backup_lr := vl_return L\<rparr>"
  show ?thesis
  proof (cases k)
    case Bad_data
    then have t: "el0_sync_table (vcpu s) (unat (0x24 :: u32)) = Some exception_skip" using h by simp
    obtain s' where "synchronous L 0x24 0x25 0x7 (vl_code L) (vl_code L + 4) s = Inr s'"
      "virt_on L u p s' \<and> virt_handles k s'" "virt_text s' = virt_text s" using skipped_keeps [OF ok s h t lt(3)] by blast
    then show ?thesis by (simp add: Bad_data virt_machine_def virt_load32_def hole virt_data_abort_def discard_def)
  next
    case Bad_instruction
    then have t: "el0_sync_table (vcpu s) (unat (0 :: u32)) = Some exception_skip" using h by (simp add: ARMV8_EC_UNKNOWN_def)
    from skipped_keeps [OF ok s h t lt(4)] show ?thesis
      by (simp add: Bad_instruction virt_machine_def a8_undefined_instruction_def undefined_trap_def)
  next
    case Bad_fetch
    let ?c = "run_pabt_return ((?e 0xc0000000)\<lparr>ESR_EL1 := push_bit 26 0x20 OR push_bit 25 1 OR (0x7 AND 0x1ffffff)\<rparr>)"
    have "sync_trap (vl_image L) 0x20 0x7 (?e 0xc0000000) = Some (Inr ?c)"
      using h Bad_fetch unfolding sync_trap_eq [OF lt(2)] Let_def by simp
    then have "raise_trap (virt_machine L) k s = Inr (s\<lparr>vcpu := ?c\<rparr>)"
      using l by (simp add: Bad_fetch virt_machine_def virt_jump_def hole synchronous_def trapped_def run_pabt_return_def)
    moreover have "same_tables ?c (vcpu s)" "SCTLR_EL1 ?c = SCTLR_EL1 (vcpu s)" "virt_cpu u ?c" "el0_sync_table ?c = el0_sync_table (vcpu s)"
      using cpu by (simp_all add: run_pabt_return_def same_tables_def virt_cpu_def syscalls_on_def)
    ultimately show ?thesis using keep by (intro exI [of _ "s\<lparr>vcpu := ?c\<rparr>"]) simp
  next
    case System_call
    let ?c = "(?e (vl_code L + 4))\<lparr>ESR_EL1 := push_bit 26 0x15 OR push_bit 25 1 OR (0 AND 0x1ffffff)\<rparr>"
    have "sync_trap (vl_image L) 0x15 0 (?e (vl_code L + 4)) = Some (Inr ?c)"
      using cpu unfolding sync_trap_eq [OF lt(1)] Let_def by (simp add: virt_cpu_def syscalls_on_def ARMV8_EC_SYSCALL_def)
    then have "raise_trap (virt_machine L) k s = Inr (s\<lparr>vcpu := ?c\<rparr>)"
      using l by (simp add: System_call virt_machine_def a8_arch_syscall_def synchronous_def trapped_def)
    moreover have "same_tables ?c (vcpu s)" "SCTLR_EL1 ?c = SCTLR_EL1 (vcpu s)" "virt_cpu u ?c" "el0_sync_table ?c = el0_sync_table (vcpu s)"
      using cpu by (simp_all add: same_tables_def virt_cpu_def syscalls_on_def)
    ultimately show ?thesis using keep by (intro exI [of _ "s\<lparr>vcpu := ?c\<rparr>"]) simp
  qed
qed

lemma virt_install_step:
  assumes s: "virt_on L u p s"
  shows "\<exists>s'. install_handler (virt_machine L) k s = Inr s' \<and> (virt_on L u p s' \<and> virt_handles k s') \<and> virt_text s' = virt_text s"
    and "k = Bad_instruction \<Longrightarrow>
      \<exists>s'. install_handler (virt_machine L) k s = Inr s' \<and> (virt_on L True p s' \<and> virt_handles k s') \<and> virt_text s' = virt_text s"
proof -
  have cpu: "virt_cpu u (vcpu s)" using s by (simp add: virt_on_def virt_user_def)
  let ?c = "case k of Bad_data \<Rightarrow> a8_dfault_install_skip (vcpu s) | Bad_fetch \<Rightarrow> a8_ifault_install_return (vcpu s)
    | Bad_instruction \<Rightarrow> a8_undef_install_skip (vcpu s) | System_call \<Rightarrow> a8_syscall_install_skip (vcpu s)"
  have i: "install_handler (virt_machine L) k s = Inr (s\<lparr>vcpu := ?c\<rparr>)" by (cases k) (simp_all add: virt_machine_def on_cpu_def)
  have c: "same_tables ?c (vcpu s)" "SCTLR_EL1 ?c AND 1 = SCTLR_EL1 (vcpu s) AND 1" "virt_cpu u ?c" "virt_handles k (s\<lparr>vcpu := ?c\<rparr>)"
    "k = Bad_instruction \<Longrightarrow> virt_cpu True ?c"
    using cpu
    by (cases k; simp add: a8_dfault_install_skip_def a8_ifault_install_return_def a8_undef_install_skip_def a8_syscall_install_skip_def
        armv8_install_sync_handler_def same_tables_def virt_cpu_def syscalls_on_def ARMV8_EC_SYSCALL_def ARMV8_EC_UNKNOWN_def)+
  show "\<exists>s'. install_handler (virt_machine L) k s = Inr s' \<and> (virt_on L u p s' \<and> virt_handles k s') \<and> virt_text s' = virt_text s"
    using i virt_states_cpu(2) [OF c(1-3) s] c(4) by simp
  assume k: "k = Bad_instruction"
  have "virt_on L True p (s\<lparr>vcpu := ?c\<rparr>)"
    using virt_states_cpu(2) [OF c(1-3) s] c(5) [OF k] by (simp add: virt_on_def virt_user_def)
  then show "\<exists>s'. install_handler (virt_machine L) k s = Inr s' \<and> (virt_on L True p s' \<and> virt_handles k s') \<and> virt_text s' = virt_text s"
    using i c(4) by simp
qed

text \<open>The level switches.\<close>

lemma level_bits:
  fixes x :: u32
  shows "x AND 0x8f = 0 \<Longrightarrow> ((x AND NOT (push_bit 2 3)) OR push_bit 2 1) AND 0x8f = 4"
    "x AND 0x8f \<in> {0, 4} \<Longrightarrow> ((x AND NOT (push_bit 2 3)) OR push_bit 2 0) AND 0x8f = 0"
proof -
  have p: "(push_bit 2 3 :: u32) = 0xc" "(push_bit 2 1 :: u32) = 4" "(push_bit 2 0 :: u32) = 0" by (simp_all add: push_bit_eq_mult)
  have k: "(x AND NOT 0xc) AND 0x8f = (x AND 0x8f) AND NOT 0xc" for x :: u32 by (simp only: and.assoc and.commute [of "NOT 0xc"])
  show "x AND 0x8f = 0 \<Longrightarrow> ((x AND NOT (push_bit 2 3)) OR push_bit 2 1) AND 0x8f = 4"
    "x AND 0x8f \<in> {0, 4} \<Longrightarrow> ((x AND NOT (push_bit 2 3)) OR push_bit 2 0) AND 0x8f = 0"
    unfolding p bit.conj_disj_distrib2 k by auto
qed

lemma virt_levels:
  shows "virt_on L u 0x80000000 s \<Longrightarrow>
      \<exists>s'. call_port L (a8_priv_enter (vl_image L)) s = Inr s' \<and> virt_inside L u s' \<and> virt_text s' = virt_text s"
    and "virt_inside L u s \<Longrightarrow>
      \<exists>s'. call_port L (a8_priv_leave (vl_image L)) s = Inr s' \<and> virt_on L u 0x80000000 s' \<and> virt_text s' = virt_text s"
    and "virt_idle L u s \<Longrightarrow>
      \<exists>s'. call_port L (a8_priv_leave (vl_image L)) s = Inr s' \<and> virt_idle L u s' \<and> virt_text s' = virt_text s"
proof -
  have e: "a8_priv_enter (vl_image L) = armv8_syscall (vl_image L) SYSCALL_PRIV_ENTER" "a8_priv_leave (vl_image L) = armv8_syscall (vl_image L) SYSCALL_PRIV_LEAVE"
    by (simp_all add: a8_priv_enter_def a8_priv_leave_def fun_eq_iff)
  have he: "armv8_handle_syscall (vl_image L) (svc_entry L SYSCALL_PRIV_ENTER s) = zero (syscall_priv_enter (svc_entry L SYSCALL_PRIV_ENTER s))"
    and hl: "armv8_handle_syscall (vl_image L) (svc_entry L SYSCALL_PRIV_LEAVE s) = zero (syscall_priv_leave (svc_entry L SYSCALL_PRIV_LEAVE s))"
    by (simp_all add: armv8_handle_syscall_def syscall_numbers)
  have ge: "\<exists>a b. syscall_priv_enter c = c\<lparr>SCTLR_EL1 := a, SPSR_EL1 := b\<rparr>"
    and gl: "\<exists>a b. syscall_priv_leave c = c\<lparr>SCTLR_EL1 := a, SPSR_EL1 := b\<rparr>" for c
    by (intro exI [of _ "SCTLR_EL1 c"] exI [of _ "SPSR_EL1 (syscall_priv_enter c)"], simp add: syscall_priv_enter_def)
      (intro exI [of _ "SCTLR_EL1 c"] exI [of _ "SPSR_EL1 (syscall_priv_leave c)"], simp add: syscall_priv_leave_def)
  have enter: "\<exists>s'. call_port L (a8_priv_enter (vl_image L)) s = Inr s' \<and> same_tables (vcpu s') (vcpu s) \<and>
      SCTLR_EL1 (vcpu s') = SCTLR_EL1 (vcpu s) \<and> virt_cpu u (vcpu s') \<and> pstate s' AND 0x8f = 4 \<and> virt_text s' = virt_text s"
    if "pstate s AND 0xf \<in> {0, 4}" "virt_cpu u (vcpu s)" "pstate s AND 0x8f = 0"
    using quick_call [OF that(1,2) he ge] level_bits(1) [OF that(3)] that(2) unfolding e
    by (auto simp: syscall_priv_enter_def virt_cpu_def syscalls_on_def virt_text_def)
  have leave: "\<exists>s'. call_port L (a8_priv_leave (vl_image L)) s = Inr s' \<and> same_tables (vcpu s') (vcpu s) \<and>
      SCTLR_EL1 (vcpu s') = SCTLR_EL1 (vcpu s) \<and> virt_cpu u (vcpu s') \<and> pstate s' AND 0x8f = 0 \<and> virt_text s' = virt_text s"
    if "pstate s AND 0xf \<in> {0, 4}" "virt_cpu u (vcpu s)" "pstate s AND 0x8f \<in> {0, 4}"
    using quick_call [OF that(1,2) hl gl] level_bits(2) [OF that(3)] that(2) unfolding e
    by (auto simp: syscall_priv_leave_def virt_cpu_def syscalls_on_def virt_text_def)
  show "\<exists>s'. call_port L (a8_priv_enter (vl_image L)) s = Inr s' \<and> virt_inside L u s' \<and> virt_text s' = virt_text s"
    if "virt_on L u 0x80000000 s"
  proof -
    have c: "virt_user u s" "virt_mmu_on s" "virt_mapped L 0x80000000 (vcpu s)" using that by (simp_all add: virt_on_def)
    then show ?thesis using enter levels(1) [OF c(1)] same_tablesD(1) by (fastforce simp: virt_user_def virt_inside_def virt_mmu_on_def)
  qed
  show "\<exists>s'. call_port L (a8_priv_leave (vl_image L)) s = Inr s' \<and> virt_on L u 0x80000000 s' \<and> virt_text s' = virt_text s"
    if "virt_inside L u s"
    using leave levels(2) [OF that] that same_tablesD(1) by (fastforce simp: virt_user_def virt_inside_def virt_on_def virt_mmu_on_def)
  show "\<exists>s'. call_port L (a8_priv_leave (vl_image L)) s = Inr s' \<and> virt_idle L u s' \<and> virt_text s' = virt_text s"
    if "virt_idle L u s"
  proof -
    have c: "virt_user u s" "\<not> virt_mmu_on s" "tables_start (vl_heap L) 0x80000000 (vcpu s)" using that by (simp_all add: virt_idle_def)
    then show ?thesis using leave levels(1) [OF c(1)] same_tablesD(2) by (fastforce simp: virt_user_def virt_idle_def virt_mmu_on_def)
  qed
qed

text \<open>The interrupt switches, whose read of CurrentEL is skipped.\<close>

lemma read_el_skipped:
  assumes ok: "virt_layout_ok L" and s: "virt_on L True p s"
  obtains c where "read_current_el L s = Inr (s\<lparr>vcpu := c\<rparr>)" "virt_on L True p (s\<lparr>vcpu := c\<rparr>)" "CurrentEL c = vl_stale L"
    "el0_irq_handler c = el0_irq_handler (vcpu s)"
proof -
  have us: "virt_user True s" and cpu: "virt_cpu True (vcpu s)" using s by (simp_all add: virt_on_def virt_user_def)
  have l: "in_el0 s" using levels(1) [OF us] by simp
  have t: "el0_sync_table (vcpu s) (unat (0 :: u32)) = Some exception_skip" "(0 :: u32) < 64" using cpu by (simp_all add: virt_cpu_def ARMV8_EC_UNKNOWN_def)
  obtain c where c: "synchronous L 0 0 0 (vl_code L) (vl_code L + 4) s = Inr (s\<lparr>vcpu := c\<rparr>)" "same_tables c (vcpu s)"
    "SCTLR_EL1 c = SCTLR_EL1 (vcpu s)" "\<And>v. virt_cpu v c = virt_cpu v (vcpu s)" "el0_irq_handler c = el0_irq_handler (vcpu s)"
    by (rule fault_skipped [OF ok us t]) blast
  let ?c = "c\<lparr>CurrentEL := vl_stale L\<rparr>"
  have d: "same_tables ?c (vcpu s)" "SCTLR_EL1 ?c AND 1 = SCTLR_EL1 (vcpu s) AND 1" "virt_cpu True ?c"
    using c(2,3) c(4) [of True] cpu by (simp_all add: same_tables_def virt_cpu_def syscalls_on_def)
  show thesis
    by (rule that [of ?c]) (use l c(1,5) virt_states_cpu(2) [OF d s] in \<open>simp_all add: read_current_el_def undefined_trap_def\<close>)
qed

lemma virt_irq_switches:
  assumes ok: "virt_layout_ok L" and s: "virt_on L True p s"
  shows "\<exists>s'. virt_irq_enable L s = Inr s' \<and> virt_on L True p s' \<and> el0_irq_handler (vcpu s') = el0_irq_handler (vcpu s) \<and> virt_text s' = virt_text s"
    and "\<exists>s'. virt_irq_disable L s = Inr s' \<and> virt_on L True p s' \<and> virt_text s' = virt_text s"
proof -
  obtain c where c: "read_current_el L s = Inr (s\<lparr>vcpu := c\<rparr>)" "virt_on L True p (s\<lparr>vcpu := c\<rparr>)" "CurrentEL c = vl_stale L"
    "el0_irq_handler c = el0_irq_handler (vcpu s)" by (rule read_el_skipped [OF ok s])
  let ?s = "s\<lparr>vcpu := c\<rparr>" and ?i = "vl_image L"
  have "vl_stale L \<noteq> 1" using ok by (simp add: virt_layout_ok_def Let_def)
  then have el: "call_port L (a8_irq_enable ?i) ?s = call_port L (armv8_syscall ?i SYSCALL_IRQ_ENABLE) ?s"
    "call_port L (a8_irq_disable ?i) ?s = call_port L (armv8_syscall ?i SYSCALL_IRQ_DISABLE) ?s"
    using c(3) by (simp_all add: call_port_def trapped_def a8_irq_enable_def a8_irq_disable_def armv8_in_el1_def armv8_get_current_el_def)
  have us: "virt_user True ?s" "virt_cpu True (vcpu ?s)" "virt_mapped L p (vcpu ?s)" "virt_mmu_on ?s" "pstate ?s AND 0x8f = 0"
    using c(2) unfolding virt_on_def virt_user_def by blast+
  have l: "pstate ?s AND 0xf \<in> {0, 4}" using levels(1) [OF us(1)] by simp
  have h: "armv8_handle_syscall ?i (svc_entry L SYSCALL_IRQ_ENABLE ?s) = zero (syscall_irq_enable (svc_entry L SYSCALL_IRQ_ENABLE ?s))"
    "armv8_handle_syscall ?i (svc_entry L SYSCALL_IRQ_DISABLE ?s) = zero (syscall_irq_disable (svc_entry L SYSCALL_IRQ_DISABLE ?s))"
    by (simp_all add: armv8_handle_syscall_def syscall_numbers)
  have g: "\<exists>a b. syscall_irq_enable x = x\<lparr>SCTLR_EL1 := a, SPSR_EL1 := b\<rparr>" "\<exists>a b. syscall_irq_disable x = x\<lparr>SCTLR_EL1 := a, SPSR_EL1 := b\<rparr>" for x
    by (intro exI [of _ "SCTLR_EL1 (syscall_irq_enable x)"] exI [of _ "SPSR_EL1 x"], simp add: syscall_irq_enable_def)
      (intro exI [of _ "SCTLR_EL1 (syscall_irq_disable x)"] exI [of _ "SPSR_EL1 x"], simp add: syscall_irq_disable_def)
  have on: "virt_on L True p s'"
    if "same_tables (vcpu s') (vcpu ?s)" "pstate s' = pstate ?s" "SCTLR_EL1 (vcpu s') = SCTLR_EL1 (vcpu ?s) AND NOT ARMV8_SCTLR_I_FLAG \<or>
      SCTLR_EL1 (vcpu s') = SCTLR_EL1 (vcpu ?s) OR ARMV8_SCTLR_I_FLAG" "CNTKCTL_EL1 (vcpu s') = CNTKCTL_EL1 (vcpu ?s)"
      "el0_sync_table (vcpu s') = el0_sync_table (vcpu ?s)" for s'
  proof -
    have "SCTLR_EL1 (vcpu s') AND 1 = SCTLR_EL1 (vcpu ?s) AND 1" "bit (SCTLR_EL1 (vcpu s')) 26 = bit (SCTLR_EL1 (vcpu ?s)) 26"
      using that(3) sctlr_bits(7-10) by auto
    moreover have "virt_mapped L p (vcpu s')" using us(3) same_tablesD(1) [OF that(1)] by simp
    ultimately show ?thesis
      using us that(2,4,5) by (simp add: virt_on_def virt_user_def virt_cpu_def syscalls_on_def virt_mmu_on_def)
  qed
  obtain s1 where 1: "call_port L (armv8_syscall ?i SYSCALL_IRQ_ENABLE) ?s = Inr s1" "virt_on L True p s1" "el0_irq_handler (vcpu s1) = el0_irq_handler c"
    "virt_text s1 = virt_text ?s"
    using quick_call [OF l us(2) h(1) g(1)] on by (auto simp: syscall_irq_enable_def virt_text_def)
  obtain s2 where 2: "call_port L (armv8_syscall ?i SYSCALL_IRQ_DISABLE) ?s = Inr s2" "virt_on L True p s2" "virt_text s2 = virt_text ?s"
    using quick_call [OF l us(2) h(2) g(2)] on by (auto simp: syscall_irq_disable_def virt_text_def)
  show "\<exists>s'. virt_irq_enable L s = Inr s' \<and> virt_on L True p s' \<and> el0_irq_handler (vcpu s') = el0_irq_handler (vcpu s) \<and> virt_text s' = virt_text s"
    using 1 c(1,4) el(1) by (simp add: virt_irq_enable_def)
  show "\<exists>s'. virt_irq_disable L s = Inr s' \<and> virt_on L True p s' \<and> virt_text s' = virt_text s"
    using 2 c(1) el(2) by (simp add: virt_irq_disable_def)
qed

lemma virt_arm_step:
  assumes ok: "virt_layout_ok L" and s: "virt_on L True 0x80000000 s"
  shows "\<exists>s'. bindE (on_cpu (a8_irq_install_handler (Some 0)) s) (virt_irq_enable L) = Inr s' \<and> virt_armed L s' \<and> virt_text s' = virt_text s"
proof -
  let ?c = "a8_irq_install_handler (Some 0) (vcpu s)"
  have cpu: "virt_cpu True (vcpu s)" using s by (simp add: virt_on_def virt_user_def)
  have "same_tables ?c (vcpu s)" "SCTLR_EL1 ?c AND 1 = SCTLR_EL1 (vcpu s) AND 1" "virt_cpu True ?c" "el0_irq_handler ?c = Some 0"
    using cpu by (simp_all add: a8_irq_install_handler_def same_tables_def virt_cpu_def syscalls_on_def)
  from virt_irq_switches(1) [OF ok virt_states_cpu(2) [OF this(1-3) s]] this(4) show ?thesis
    by (auto simp: on_cpu_def virt_armed_def)
qed

text \<open>Without the handler the read of CurrentEL is the end.\<close>

lemma virt_irq_enable_aborts:
  assumes "virt_user u s" "el0_sync_table (vcpu s) ARMV8_EC_UNKNOWN = None"
  shows "virt_irq_enable L s = Inl (Halted Armv8_abort)"
proof -
  have lt: "(0 :: u32) < 64" by simp
  have l: "pstate s AND 0xf = 0" "in_el0 s" using levels(1) [OF assms(1)] by simp_all
  have n: "el0_sync_table (vcpu s) (unat (0 :: u32)) = None" using assms(2) by (simp add: ARMV8_EC_UNKNOWN_def)
  have "sync_trap (vl_image L) 0 0 ((vcpu s)\<lparr>SPSR_EL1 := pstate s, ELR_EL1 := vl_code L, backup_lr := vl_return L\<rparr>) = Some (Inl Armv8_abort)"
    using n unfolding sync_trap_eq [OF lt] Let_def by simp
  then show ?thesis
    using l by (simp add: virt_irq_enable_def read_current_el_def undefined_trap_def synchronous_def trapped_def)
qed

subsection \<open>The board's registers\<close>

lemma virt_reaches_register:
  assumes "virt_mmu_on s \<Longrightarrow> virt_mapped L p (vcpu s)" "a \<in> set virt_registers"
  shows "virt_access w a s = Some a"
proof -
  have "a < 2 ^ 48" using registers_below [OF assms(2)] by (simp add: word_less_nat_alt)
  from virt_access_view [OF assms(1) this, of w] show ?thesis using assms by (simp add: virt_mapped_def)
qed

lemma gic_in_registers: "a \<in> set virt_gic_registers \<Longrightarrow> ucast a \<in> set virt_registers" "ucast (virt_UART0_BASE + reg_dr) \<in> set virt_registers"
  "ucast virt_null_devptr \<in> set virt_registers"
  by (auto simp: virt_registers_def virt_gic_registers_def reg_dr_def)

lemma load_text: "load_reg a m = Some (v, m') \<Longrightarrow> received dr m' = received dr m"
  by (auto simp: load_reg_def received_def split: list.splits)

lemma read_text: "read_reg a m = Inr (v, m') \<Longrightarrow> received dr m' = received dr m"
  by (auto simp: read_reg_def answered_def load_text split: option.splits)

lemma or_text: "or_reg a v m = Some m' \<Longrightarrow> a \<noteq> dr \<Longrightarrow> received dr m' = received dr m"
  by (auto simp: or_reg_def received_store load_text)

lemma gic_text:
  assumes "\<forall>a\<in>set (gic_registers gicd gicc). a \<noteq> dr"
  shows "gic_forward gicd gicc m = Inr m' \<Longrightarrow> received dr m' = received dr m"
    and "gic_clear_swi gicd gicc m = Inr m' \<Longrightarrow> received dr m' = received dr m"
  using assms
  by (auto simp: gic_forward_def answered_def gic_registers_def gic_clear_swi_def received_store read_text or_text split: option.splits)

lemma virt_swi_text:
  "virt_trigger_swi m = Inr m' \<Longrightarrow> received virt_UART0_BASE m' = received virt_UART0_BASE m"
  "virt_clear_swi m = Inr m' \<Longrightarrow> received virt_UART0_BASE m' = received virt_UART0_BASE m"
proof -
  have r: "\<forall>a\<in>set (gic_registers virt_GICD_BASE virt_GICC_BASE). a \<noteq> virt_UART0_BASE"
    by (simp add: gic_registers_def virt_GICD_BASE_def virt_GICC_BASE_def virt_UART0_BASE_def gic_offsets)
  then have ne: "virt_GICD_BASE + GICD_ISENABLER0 \<noteq> virt_UART0_BASE" "virt_GICD_BASE + GICD_IPRIORITYR0 \<noteq> virt_UART0_BASE"
    "virt_GICC_BASE + GICC_PMR \<noteq> virt_UART0_BASE" "virt_GICD_BASE + GICD_SGIR \<noteq> virt_UART0_BASE" by (simp_all add: gic_registers_def)
  have ids: "read_gicd_ids g m = Inr (i, m') \<Longrightarrow> received dr m' = received dr m" for g m m' i dr
    by (auto simp: read_gicd_ids_def read_text)
  show "virt_trigger_swi m = Inr m' \<Longrightarrow> received virt_UART0_BASE m' = received virt_UART0_BASE m"
    by (auto simp: virt_trigger_swi_def Let_def received_store ne ids gic_text(1) [OF r])
  show "virt_clear_swi m = Inr m' \<Longrightarrow> received virt_UART0_BASE m' = received virt_UART0_BASE m"
    by (simp add: virt_clear_swi_def gic_text(2) [OF r])
qed

lemma gic_answered:
  assumes "6 \<le> length (answers m)"
  shows "\<exists>m'. virt_trigger_swi m = Inr m'" "\<exists>m'. virt_clear_swi m = Inr m'"
proof -
  obtain i0 i1 i2 i3 d c vs where a: "answers m = [i0, i1, i2, i3] @ d # c # vs"
    using assms by (auto simp: numeral_eq_Suc Suc_le_length_iff)
  then show "\<exists>m'. virt_trigger_swi m = Inr m'"
    using trigger_raises [of "[i0, i1, i2, i3]" m d c vs Armv8_virt] by auto
  show "\<exists>m'. virt_clear_swi m = Inr m'" using clear_acknowledges [of m i0 _ Armv8_virt] a by auto
qed

lemma virt_swi_step:
  assumes ok: "virt_layout_ok L" and s: "virt_armed L s"
  shows "\<exists>s'. through_gic L virt_trigger_swi s = Inr s' \<and> virt_pending L s' \<and> virt_text s' = virt_text s \<and> virt_statics s' = virt_statics s"
    and "\<exists>s'. through_gic L virt_clear_swi s = Inr s' \<and> virt_armed L s' \<and> virt_text s' = virt_text s \<and> virt_statics s' = virt_statics s"
proof -
  have m: "virt_mapped L 0x80000000 (vcpu s)" using s by (simp add: virt_armed_def virt_on_def)
  have r: "\<forall>a\<in>set virt_gic_registers. virt_access True (ucast a) s = Some (ucast a)"
    using virt_reaches_register [OF m gic_in_registers(1)] by blast
  have L: "6 \<le> length (vl_answers L log)" "virt_trigger_swi n = Inr n' \<Longrightarrow> vl_irq_line L n'" for log n n'
    using ok by (simp_all add: virt_layout_ok_def Let_def)
  let ?m = "(vio s)\<lparr>answers := vl_answers L (mmio_log (vio s))\<rparr>"
  have t: "received virt_UART0_BASE ?m = virt_text s" by (simp add: virt_text_def received_def)
  obtain n where n: "virt_trigger_swi ?m = Inr n" using gic_answered(1) [of ?m] L(1) by auto
  have "through_gic L virt_trigger_swi s = Inr (s\<lparr>vio := n\<rparr>)" using r n by (simp add: through_gic_def)
  moreover have "virt_pending L (s\<lparr>vio := n\<rparr>)" using s L(2) [OF n] by (simp add: virt_pending_def virt_states_io)
  ultimately show "\<exists>s'. through_gic L virt_trigger_swi s = Inr s' \<and> virt_pending L s' \<and> virt_text s' = virt_text s \<and> virt_statics s' = virt_statics s"
    using virt_swi_text(1) [OF n] t by (simp add: virt_text_def)
  obtain n where n: "virt_clear_swi ?m = Inr n" using gic_answered(2) [of ?m] L(1) by auto
  have "through_gic L virt_clear_swi s = Inr (s\<lparr>vio := n\<rparr>)" using r n by (simp add: through_gic_def)
  then show "\<exists>s'. through_gic L virt_clear_swi s = Inr s' \<and> virt_armed L s' \<and> virt_text s' = virt_text s \<and> virt_statics s' = virt_statics s"
    using virt_swi_text(2) [OF n] t s by (simp add: virt_text_def virt_states_io)
qed

subsection \<open>Memory\<close>

text \<open>Stores below the heap or into the physical range leave the tables alone.\<close>

definition plain_address :: "virt_layout \<Rightarrow> u64 \<Rightarrow> bool" where
  "plain_address L a \<longleftrightarrow> 0x40000000 \<le> a \<and> (a < vl_heap L \<or> 0x80000000 \<le> a)"

lemma plain_cell:
  assumes "plain_address L a"
  shows "a AND NOT 7 < vl_heap L \<or> 0x80000000 \<le> a AND NOT 7"
proof (cases "a < vl_heap L")
  case True
  have "unat (a AND NOT 7) \<le> unat a" unfolding cell_nat by (rule div_times_less_eq_dividend)
  then show ?thesis using True by (simp add: word_less_nat_alt)
next
  case False
  then have "0x80000000 \<le> unat a" using assms by (simp add: plain_address_def word_le_nat_alt)
  then have "0x80000000 div 8 \<le> unat a div 8" by (rule div_le_mono)
  then have "0x80000000 \<le> unat (a AND NOT 7)" unfolding cell_nat by simp
  then show ?thesis by (simp add: word_le_nat_alt)
qed

lemma poke_mapped:
  assumes "b < vl_heap L \<or> 0x80000000 \<le> b"
  shows "virt_mapped L p c \<Longrightarrow> virt_mapped L p (a8_poke b v c)"
    "tables_start (vl_heap L) 0x80000000 c \<Longrightarrow> tables_start (vl_heap L) 0x80000000 (a8_poke b v c)"
proof -
  have f: "TTBR0_EL1 (a8_poke b v c) = TTBR0_EL1 c" "l0_table (a8_poke b v c) = l0_table c" by (simp_all add: a8_poke_def)
  show "virt_mapped L p c \<Longrightarrow> virt_mapped L p (a8_poke b v c)"
    using store_within(1) [OF assms, of c v] by (simp add: virt_mapped_def f)
  show "tables_start (vl_heap L) 0x80000000 c \<Longrightarrow> tables_start (vl_heap L) 0x80000000 (a8_poke b v c)"
    by (rule store_within(2) [OF assms])
qed

lemma virt_states_write:
  assumes "plain_address L a"
  shows "virt_idle L u s \<Longrightarrow> virt_idle L u (write_cell a f v s)" "virt_on L u p s \<Longrightarrow> virt_on L u p (write_cell a f v s)"
    "virt_text (write_cell a f v s) = virt_text s" "virt_statics (write_cell a f v s) = virt_statics s"
proof -
  have c: "SCTLR_EL1 (a8_poke b w c) = SCTLR_EL1 c" "virt_cpu u (a8_poke b w c) = virt_cpu u c" for b w c
    by (simp_all add: a8_poke_def virt_cpu_def syscalls_on_def)
  note P = poke_mapped [OF plain_cell [OF assms]]
  show "virt_idle L u s \<Longrightarrow> virt_idle L u (write_cell a f v s)" "virt_on L u p s \<Longrightarrow> virt_on L u p (write_cell a f v s)"
    "virt_text (write_cell a f v s) = virt_text s" "virt_statics (write_cell a f v s) = virt_statics s"
    using P by (simp_all add: write_cell_def Let_def virt_idle_def virt_on_def virt_user_def virt_mmu_on_def c)
qed

lemma plain_device: "plain_address L a \<Longrightarrow> \<not> virt_is_device a"
  by (simp add: plain_address_def virt_is_device_def not_less)

text \<open>Accesses to an address of the memory that is reached under itself.\<close>

lemma virt_keeps_memory:
  assumes "\<And>s w. P s \<Longrightarrow> virt_access w a s = Some a" "plain_address L a" "\<And>f v s. P s \<Longrightarrow> P (write_cell a f v s)"
  shows "keeps virt_text P P {} (\<lambda>s. discard (virt_load32 L a s))" "keeps virt_text P P {} (\<lambda>s. discard (virt_load8 L a s))"
    "keeps virt_text P P {} (virt_store32 L a v32)" "keeps virt_text P P {} (virt_store8 L a v8)"
proof -
  note d = plain_device [OF assms(2)]
  have w: "virt_text (write_cell a f v s) = virt_text s" for f v s by (simp add: write_cell_def Let_def)
  show "keeps virt_text P P {} (\<lambda>s. discard (virt_load32 L a s))" "keeps virt_text P P {} (\<lambda>s. discard (virt_load8 L a s))"
    "keeps virt_text P P {} (virt_store32 L a v32)" "keeps virt_text P P {} (virt_store8 L a v8)"
    using d assms(1,3) w
    by (simp_all add: keeps_def virt_load32_def virt_load8_def virt_store32_def virt_store8_def discard_def)
qed

lemma data_plain:
  assumes "virt_layout_ok L" "a8_DATA_START (vl_image L) \<le> a" "a < a8_DATA_END (vl_image L)"
  shows "plain_address L a"
proof -
  have "a8_DATA_END (vl_image L) < vl_heap L" "0x40000000 \<le> a8_DATA_START (vl_image L)" using assms(1) by (simp_all add: virt_layout_ok_def Let_def)
  then show ?thesis using assms(2,3) by (auto simp: plain_address_def intro: order_trans less_trans)
qed

lemma virt_reaches_data:
  assumes ok: "virt_layout_ok L" and m: "virt_mmu_on s \<Longrightarrow> virt_mapped L p (vcpu s)" and a: "a8_DATA_START (vl_image L) \<le> a" "a < a8_DATA_END (vl_image L)"
  shows "virt_access w a s = Some a"
proof -
  have "a8_DATA_END (vl_image L) < vl_heap L" using ok by (simp add: virt_layout_ok_def Let_def)
  then have "a < 0x80000000" using a(2) layout_image(7) [OF ok] by simp
  then have "a < 2 ^ 48" by (simp add: word_less_nat_alt)
  from virt_access_view [OF m this, of w] show "virt_access w a s = Some a" using m a by (simp add: virt_mapped_def)
qed

lemma phys_plain: "0x80000000 \<le> a \<Longrightarrow> plain_address L a"
  by (simp add: plain_address_def word_le_nat_alt)

lemma virt_reaches_phys:
  assumes m: "virt_mmu_on s \<Longrightarrow> virt_mapped L 0xa0000000 (vcpu s)" and a: "0x80000000 \<le> a" "a < 0xa0000000"
  shows "virt_access w a s = Some a"
proof -
  have "a < 2 ^ 48" using a(2) by (simp add: word_less_nat_alt)
  from virt_access_view [OF m this, of w] show "virt_access w a s = Some a" using m a by (simp add: virt_mapped_def)
qed

subsection \<open>The console\<close>

definition virt_uart_reached :: "virt_board \<Rightarrow> bool" where
  "virt_uart_reached s \<longleftrightarrow> virt_access True (ucast (virt_UART0_BASE + reg_dr)) s = Some (ucast (virt_UART0_BASE + reg_dr))"

lemma virt_access_io [simp]: "virt_access w a (s\<lparr>vio := m\<rparr>) = virt_access w a s"
  by (simp add: virt_access_def virt_mmu_on_def)

lemma virt_reached_states:
  "virt_idle L u s \<Longrightarrow> virt_uart_reached s" "virt_on L u p s \<Longrightarrow> virt_uart_reached s"
  unfolding virt_uart_reached_def
  using virt_reaches_register [OF _ gic_in_registers(2), of s L p True] virt_access_off [of s]
  by (simp_all add: virt_idle_def virt_on_def)

interpretation virt_port: guarded_console virt_sink virt_text virt_uart_reached
proof unfold_locales
  fix s c
  assume r: "virt_uart_reached s"
  then show "virt_uart_reached (virt_sink s c)" by (simp add: virt_uart_reached_def virt_sink_def)
  show "virt_text (virt_sink s c) = virt_text s @ [c]"
    using r by (simp add: virt_uart_reached_def virt_sink_def virt_text_def virt.shown_putch)
qed

section \<open>The board as a port\<close>

lemma mem_reset_init: "a8_mem_reset = a8_mem_init"
  by (intro ext) (rule a8_mem_reset_def)

lemma virt_ops:
  "statics_of (virt_machine L) = virt_statics" "put_statics (virt_machine L) st s = s\<lparr>virt_statics := st\<rparr>"
  "spinner_start (virt_machine L) n = Inr" "spinner_turn (virt_machine L) = Inr"
  "op_mem_init (virt_machine L) = mmu_off (call_port L (a8_mem_init (vl_image L)))"
  "op_mem_reset (virt_machine L) = mmu_off (call_port L (a8_mem_init (vl_image L)))"
  "op_mmu_enable (virt_machine L) = call_port L (a8_mmu_enable (vl_image L))"
  "op_mmu_disable (virt_machine L) = call_port L (a8_mmu_disable (vl_image L))"
  "op_flush (virt_machine L) = Inr" "op_evict (virt_machine L) a = Inr"
  "op_map_data (virt_machine L) pa va = mmu_off (virt_map_data pa va)"
  "op_page_size (virt_machine L) = 0x1000"
  "op_phys_start (virt_machine L) = 0x80000000" "op_phys_end (virt_machine L) = 0xa0000000"
  "op_irq_handler (virt_machine L) h = on_cpu (a8_irq_install_handler (Some 0))"
  "op_irq_enable (virt_machine L) = virt_irq_enable L" "op_irq_disable (virt_machine L) = virt_irq_disable L"
  "op_coprocessor (virt_machine L) = a8_coprocessor_access L"
  "op_nonpriv_read (virt_machine L) a = (\<lambda>s. discard (virt_load32 L a s))"
  "op_code_flush (virt_machine L) a = a8_code_flush L a"
  "op_trigger_swi (virt_machine L) = through_gic L virt_trigger_swi" "op_clear_swi (virt_machine L) = through_gic L virt_clear_swi"
  "op_null_devptr (virt_machine L) = ucast virt_null_devptr" "op_null_devval (virt_machine L) s = (virt_null_devval, s)"
  "load8 (virt_machine L) = virt_load8 L" "store8 (virt_machine L) = virt_store8 L"
  "load32 (virt_machine L) = virt_load32 L" "store32 (virt_machine L) = virt_store32 L"
  "call_fn (virt_machine L) x = Inr" "poll_irq (virt_machine L) = virt_poll_irq L"
  "sym_hot_value (virt_machine L) = vl_hot L" "sym_nonpriv_value (virt_machine L) = vl_nonpriv L"
  unfolding mem_reset_init virt_machine_def
  by (simp_all add: virt_machine_def a8_page_size_def push_bit_eq_mult virt_mem_get_phys_info_def virt_phys_info_def
      a8_nonpriviliged_read_def on_cpu_def a8_tlb_flush_def a8_tlb_evict_def fun_eq_iff)

lemma virt_phys_page:
  assumes "phys_page (virt_machine L) p"
  shows "page_aligned p" "p < 0xa0000000"
proof -
  have d: "0x1000 dvd unat p - 0x80000000" "0x80000000 \<le> unat p"
    using assms by (simp_all add: phys_page_def virt_ops word_le_nat_alt)
  have "0x1000 dvd (unat p - 0x80000000) + 0x80000000" using d(1) by (rule dvd_add) simp
  then have "0x1000 dvd unat p" using d(2) by simp
  then show "page_aligned p" by (simp add: page_aligned_nat dvd_eq_mod_eq_0)
  show "p < 0xa0000000" using assms by (simp add: phys_page_def virt_ops)
qed

locale virt_port_laws =
  fixes L :: virt_layout and junk :: "char list" and u :: bool
  assumes layout: "virt_layout_ok L" and room: "0x1000 \<le> length junk"
begin

lemma keeps_virt: "(\<And>s. P s \<Longrightarrow> \<exists>s'. f s = Inr s' \<and> Q s' \<and> virt_text s' = virt_text s) \<Longrightarrow> keeps virt_text P Q {} f"
  unfolding keeps_def by fastforce

lemma keeps_virt_statics:
  "(\<And>s. P s \<Longrightarrow> \<exists>s'. f s = Inr s' \<and> Q s' \<and> virt_text s' = virt_text s \<and> virt_statics s' = virt_statics s) \<Longrightarrow>
    keeps virt_text (with_statics (virt_machine L) st P) (with_statics (virt_machine L) st Q) {} f"
  unfolding keeps_def with_statics_def virt_ops by fastforce

lemma keeps_nothing: "keeps virt_text P P {} Inr"
  by (simp add: keeps_def)

lemma sink_states:
  "virt_idle L u s \<Longrightarrow> virt_idle L u (virt_sink s c)" "virt_on L u p s \<Longrightarrow> virt_on L u p (virt_sink s c)"
  "virt_armed L s \<Longrightarrow> virt_armed L (virt_sink s c)" "virt_handles k s \<Longrightarrow> virt_handles k (virt_sink s c)"
  "virt_armed L s \<Longrightarrow> virt_uart_reached s"
  using virt_reached_states(2) [of L True "0x80000000" s]
  by (simp_all add: virt_sink_def virt_states_io) (simp add: virt_armed_def)

lemma statics_laws:
  "statics_of (virt_machine L) (virt_sink s c) = statics_of (virt_machine L) s"
  "statics_of (virt_machine L) (put_statics (virt_machine L) st s) = st"
  "virt_text (put_statics (virt_machine L) st s) = virt_text s"
  "virt_idle L u s \<Longrightarrow> virt_idle L u (put_statics (virt_machine L) st s)"
  "virt_tables L u p s \<Longrightarrow> virt_tables L u p (put_statics (virt_machine L) st s)"
  "virt_armed L s \<Longrightarrow> virt_armed L (put_statics (virt_machine L) st s)"
  "virt_pending L s \<Longrightarrow> virt_pending L (put_statics (virt_machine L) st s)"
  by (simp_all add: virt_ops virt_states_statics virt_sink_def)

lemma range_laws:
  "op_page_size (virt_machine L) \<noteq> 0" "op_phys_start (virt_machine L) < op_phys_end (virt_machine L)"
  "unat (op_phys_end (virt_machine L)) + unat (op_page_size (virt_machine L)) < 2 ^ LENGTH(64)"
  "unat (op_phys_end (virt_machine L)) + 4096 < 2 ^ LENGTH(64)"
  "unat (op_page_size (virt_machine L)) dvd unat (op_phys_end (virt_machine L)) - unat (op_phys_start (virt_machine L))"
  by (simp_all add: virt_ops)

lemma data_laws:
  "a8_DATA_START (vl_image L) \<le> vl_hot L" "vl_hot L < a8_DATA_END (vl_image L)"
  "a8_DATA_START (vl_image L) \<le> vl_nonpriv L" "vl_nonpriv L < a8_DATA_END (vl_image L)"
  using layout by (simp_all add: virt_layout_ok_def Let_def)

lemma tables_idle: "virt_tables L u p s \<Longrightarrow> virt_idle L u s"
  unfolding virt_tables_def virt_idle_def by (blast intro: mapped_within)

lemma memory_laws:
  "keeps virt_text (virt_idle L u) (virt_tables L u (op_phys_start (virt_machine L))) {} (op_mem_init (virt_machine L))"
  "keeps virt_text (virt_tables L u (op_phys_start (virt_machine L))) (virt_tables L u (op_phys_start (virt_machine L))) {}
     (op_map_data (virt_machine L) (sym_nonpriv_value (virt_machine L)) (sym_nonpriv_value (virt_machine L)))"
  "keeps virt_text (virt_on L u p) (virt_idle L u) {} (op_mmu_disable (virt_machine L))"
  "keeps virt_text (virt_idle L u) (virt_idle L u) {} (op_mem_reset (virt_machine L))"
  unfolding virt_ops
  by (rule keeps_virt; use virt_init_step(1) [OF layout] virt_map_value [OF layout _ data_laws(3,4)] virt_disable_step tables_idle in blast)+

lemma tables_laws:
  "phys_page (virt_machine L) q \<Longrightarrow> keeps virt_text (with_statics (virt_machine L) st (virt_tables L u q))
     (with_statics (virt_machine L) st (virt_tables L u (q + op_page_size (virt_machine L)))) {} (op_map_data (virt_machine L) q q)"
  "keeps virt_text (with_statics (virt_machine L) st (virt_tables L u p)) (with_statics (virt_machine L) st (virt_on L u p)) {}
     (op_mmu_enable (virt_machine L))"
  "keeps virt_text (with_statics (virt_machine L) st (virt_on L u p)) (with_statics (virt_machine L) st (virt_on L u p)) {} (op_flush (virt_machine L))"
  "keeps virt_text (virt_idle L u) (virt_idle L u) {} (op_flush (virt_machine L))"
  "keeps virt_text (with_statics (virt_machine L) st (virt_on L u p)) (with_statics (virt_machine L) st (virt_on L u p)) {} (op_evict (virt_machine L) a)"
proof -
  show "keeps virt_text (with_statics (virt_machine L) st (virt_tables L u q))
     (with_statics (virt_machine L) st (virt_tables L u (q + op_page_size (virt_machine L)))) {} (op_map_data (virt_machine L) q q)"
    if "phys_page (virt_machine L) q"
    using virt_map_page [OF layout _ virt_phys_page [OF that]] unfolding virt_ops by (rule keeps_virt_statics)
  show "keeps virt_text (with_statics (virt_machine L) st (virt_tables L u p)) (with_statics (virt_machine L) st (virt_on L u p)) {}
     (op_mmu_enable (virt_machine L))"
    using virt_enable_step(1) unfolding virt_ops by (rule keeps_virt_statics)
qed (simp_all add: virt_ops keeps_nothing)

lemma trap_laws:
  "keeps virt_text (virt_on L u p) (\<lambda>s. virt_on L u p s \<and> virt_handles k s) {} (install_handler (virt_machine L) k)"
  "keeps virt_text (\<lambda>s. virt_on L u p s \<and> virt_handles k s) (\<lambda>s. virt_on L u p s \<and> virt_handles k s) {} (raise_trap (virt_machine L) k)"
  by (rule keeps_virt; use virt_install_step(1) virt_trap_returns [OF layout] in blast)+

lemma level_laws:
  "keeps virt_text (virt_on L u (op_phys_start (virt_machine L))) (virt_inside L u) {} (priv_enter (virt_env L junk))"
  "keeps virt_text (virt_inside L u) (virt_on L u (op_phys_start (virt_machine L))) {} (priv_leave (virt_env L junk))"
  "keeps virt_text (virt_idle L u) (virt_idle L u) {} (priv_leave (virt_env L junk))"
  by (rule keeps_virt; simp add: virt_env_def virt_ops; use virt_levels in blast)+

lemma device_laws:
  "keeps virt_text (virt_idle L u) (virt_idle L u) {} (op_coprocessor (virt_machine L))"
  "keeps virt_text (virt_idle L u) (virt_idle L u) {} (\<lambda>s. Inr (snd (op_null_devval (virt_machine L) s)))"
  "keeps virt_text (virt_idle L u) (virt_idle L u) {} (store32 (virt_machine L) (op_null_devptr (virt_machine L)) w)"
  "keeps virt_text (virt_idle L u) (virt_idle L u) {} (op_code_flush (virt_machine L) a)"
  "keeps virt_text (virt_idle L u) (virt_idle L u) {} (call_fn (virt_machine L) x)"
proof -
  show "keeps virt_text (virt_idle L u) (virt_idle L u) {} (op_coprocessor (virt_machine L))"
    "keeps virt_text (virt_idle L u) (virt_idle L u) {} (op_code_flush (virt_machine L) a)"
    by (rule keeps_virt, simp add: virt_ops a8_coprocessor_access_def a8_code_flush_def virt_idle_def virt_user_def virt_cpu_def)+
  have d: "virt_is_device (ucast virt_null_devptr)" "ucast (ucast virt_null_devptr :: u64) = virt_null_devptr" "virt_null_devptr \<noteq> virt_UART0_BASE"
    by (simp_all add: virt_is_device_def virt_null_devptr_def virt_UART0_BASE_def)
  have t: "virt_text (s\<lparr>vio := store_reg virt_null_devptr w (vio s)\<rparr>) = virt_text s" for s
    using d(3) by (simp add: virt_text_def received_store)
  have a: "virt_idle L u s \<Longrightarrow> virt_access True va s = Some va" for va s by (simp add: virt_idle_def virt_access_off)
  show "keeps virt_text (virt_idle L u) (virt_idle L u) {} (store32 (virt_machine L) (op_null_devptr (virt_machine L)) w)"
    by (rule keeps_virt) (simp add: virt_ops virt_store32_def a d(1,2) t virt_states_io)
qed (simp_all add: virt_ops keeps_nothing)

lemma plain_code: "a \<in> code_heads (virt_machine L) \<Longrightarrow> plain_address L a"
  using layout by (auto simp: virt_layout_ok_def Let_def plain_address_def)

lemma access_laws:
  "b \<in> code_heads (virt_machine L) \<Longrightarrow> keeps virt_text (virt_idle L u) (virt_idle L u) {} (\<lambda>s. discard (load8 (virt_machine L) b s))"
  "b \<in> code_heads (virt_machine L) \<Longrightarrow> keeps virt_text (virt_idle L u) (virt_idle L u) {} (store8 (virt_machine L) b x)"
  "P \<in> {virt_idle L u, virt_on L u (op_phys_start (virt_machine L))} \<Longrightarrow>
    keeps virt_text P P {} (\<lambda>s. discard (load32 (virt_machine L) (sym_hot_value (virt_machine L)) s))"
  "P \<in> {virt_idle L u, virt_on L u (op_phys_start (virt_machine L))} \<Longrightarrow>
    keeps virt_text P P {} (store32 (virt_machine L) (sym_hot_value (virt_machine L)) w)"
  "phys_addr (virt_machine L) q \<Longrightarrow> P \<in> {virt_idle L u, virt_on L u (op_phys_end (virt_machine L))} \<Longrightarrow>
    keeps virt_text P P {} (\<lambda>s. discard (load8 (virt_machine L) q s))"
  "phys_addr (virt_machine L) q \<Longrightarrow>
    keeps virt_text (with_statics (virt_machine L) st (virt_on L u (op_phys_end (virt_machine L))))
      (with_statics (virt_machine L) st (virt_on L u (op_phys_end (virt_machine L)))) {} (store32 (virt_machine L) q w)"
  "keeps virt_text (virt_inside L u) (virt_inside L u) {} (op_nonpriv_read (virt_machine L) (sym_nonpriv_value (virt_machine L)))"
proof -
  have off: "virt_idle L u s \<Longrightarrow> virt_access f a s = Some a" for f a s by (simp add: virt_idle_def virt_access_off)
  show "keeps virt_text (virt_idle L u) (virt_idle L u) {} (\<lambda>s. discard (load8 (virt_machine L) b s))"
    "keeps virt_text (virt_idle L u) (virt_idle L u) {} (store8 (virt_machine L) b x)" if "b \<in> code_heads (virt_machine L)"
    unfolding virt_ops by (rule virt_keeps_memory [where P = "virt_idle L u", OF off plain_code [OF that] virt_states_write(1) [OF plain_code [OF that]]]; assumption)+
  note data = virt_reaches_data [OF layout]
  have plain: "plain_address L (vl_hot L)" by (rule data_plain [OF layout data_laws(1,2)])
  have hot: "Q s \<Longrightarrow> virt_access f (vl_hot L) s = Some (vl_hot L)" "Q s \<Longrightarrow> Q (write_cell (vl_hot L) m x s)"
    if "Q \<in> {virt_idle L u, virt_on L u 0x80000000}" for Q f m x s
    using that off virt_states_write(1,2) [OF plain] data [of s "0x80000000", OF _ data_laws(1,2)] by (auto simp: virt_on_def)
  show "keeps virt_text P P {} (\<lambda>s. discard (load32 (virt_machine L) (sym_hot_value (virt_machine L)) s))"
    "keeps virt_text P P {} (store32 (virt_machine L) (sym_hot_value (virt_machine L)) w)"
    if "P \<in> {virt_idle L u, virt_on L u (op_phys_start (virt_machine L))}"
    using that unfolding virt_ops by - (rule virt_keeps_memory [where P = P and a = "vl_hot L" and L = L]; use hot [of P] plain in blast)+
  have range: "0x80000000 \<le> q \<and> q < 0xa0000000" "plain_address L q" if "phys_addr (virt_machine L) q"
    using that phys_plain [of q] by (auto simp: phys_addr_def virt_ops)
  have phys: "Q s \<Longrightarrow> virt_access f q s = Some q" "Q s \<Longrightarrow> Q (write_cell q m x s)"
    if "Q \<in> {virt_idle L u, virt_on L u 0xa0000000}" "phys_addr (virt_machine L) q" for Q f m x s
    using that off virt_states_write(1,2) [OF range(2) [OF that(2)]] virt_reaches_phys [of s L q f] range(1) [OF that(2)]
    by (auto simp: virt_on_def)
  show "keeps virt_text P P {} (\<lambda>s. discard (load8 (virt_machine L) q s))"
    if "phys_addr (virt_machine L) q" "P \<in> {virt_idle L u, virt_on L u (op_phys_end (virt_machine L))}"
    using that unfolding virt_ops by - (rule virt_keeps_memory [where P = P and a = q and L = L]; use phys [of P] range(2) in blast)
  let ?on = "with_statics (virt_machine L) st (virt_on L u (op_phys_end (virt_machine L)))"
  show "keeps virt_text ?on ?on {} (store32 (virt_machine L) q w)" if p: "phys_addr (virt_machine L) q"
  proof -
    have "virt_on L u 0xa0000000 \<in> {virt_idle L u, virt_on L u 0xa0000000}" by simp
    from phys [OF this p] virt_states_write(4) [OF range(2) [OF p]] show ?thesis
      unfolding virt_ops by - (rule virt_keeps_memory(3) [OF _ range(2) [OF p]]; auto simp: with_statics_def virt_ops)
  qed
  have "virt_load32 L (vl_nonpriv L) s = Inr (ucast (read_cell (vl_nonpriv L) s), s)" if "virt_inside L u s" for s
    using data [of s "0x80000000", OF _ data_laws(3,4)] data_plain [OF layout data_laws(3,4)] that
    by (simp add: virt_load32_def plain_device virt_inside_def)
  then show "keeps virt_text (virt_inside L u) (virt_inside L u) {} (op_nonpriv_read (virt_machine L) (sym_nonpriv_value (virt_machine L)))"
    by (intro keeps_virt) (simp add: virt_ops discard_def)
qed

end

sublocale virt_port_laws \<subseteq> port virt_sink virt_text virt_uart_reached "virt_machine L" "virt_env L junk"
  "virt_idle L u" "virt_tables L u" "virt_on L u" virt_handles "virt_inside L u"
proof unfold_locales
  show "virt_idle L u s \<Longrightarrow> virt_uart_reached s" "virt_on L u p s \<Longrightarrow> virt_uart_reached s" for s p
    by (rule virt_reached_states; assumption)+
  show "spinner_start (virt_machine L) n = Inr" "spinner_turn (virt_machine L) = Inr" for n by (simp_all add: virt_ops)
qed (rule sink_states statics_laws range_laws memory_laws tables_laws trap_laws level_laws device_laws access_laws; assumption)+

text \<open>
  With the skip of undefined instructions installed, as the first benchmark leaves it, the interrupt switches
  work as well.
\<close>

locale virt_board_laws = virt_port_laws L junk True for L junk
begin

lemma irq_laws:
  "keeps virt_text (virt_on L True (op_phys_start (virt_machine L))) (virt_armed L) {}
     (\<lambda>s. bindE (op_irq_handler (virt_machine L) h s) (op_irq_enable (virt_machine L)))"
  "keeps virt_text (virt_armed L) (virt_on L True (op_phys_start (virt_machine L))) {} (op_irq_disable (virt_machine L))"
proof -
  show "keeps virt_text (virt_on L True (op_phys_start (virt_machine L))) (virt_armed L) {}
     (\<lambda>s. bindE (op_irq_handler (virt_machine L) h s) (op_irq_enable (virt_machine L)))"
    using virt_arm_step [OF layout] unfolding virt_ops by (rule keeps_virt)
  have "virt_armed L s \<Longrightarrow> virt_on L True 0x80000000 s" for s by (simp add: virt_armed_def)
  from virt_irq_switches(2) [OF layout this] show "keeps virt_text (virt_armed L) (virt_on L True (op_phys_start (virt_machine L))) {} (op_irq_disable (virt_machine L))"
    unfolding virt_ops by (rule keeps_virt)
qed

lemma swi_laws:
  "keeps virt_text (with_statics (virt_machine L) st (virt_armed L)) (with_statics (virt_machine L) st (virt_pending L)) {}
     (op_trigger_swi (virt_machine L))"
  "keeps virt_text (with_statics (virt_machine L) st (virt_pending L)) (with_statics (virt_machine L) st (virt_armed L)) {}
     (op_clear_swi (virt_machine L))"
  "virt_pending L s \<Longrightarrow> poll_irq (virt_machine L) h s = h s"
proof -
  show "keeps virt_text (with_statics (virt_machine L) st (virt_armed L)) (with_statics (virt_machine L) st (virt_pending L)) {}
     (op_trigger_swi (virt_machine L))"
    using virt_swi_step(1) [OF layout] unfolding virt_ops by (rule keeps_virt_statics)
  have a: "virt_pending L s \<Longrightarrow> virt_armed L s" for s by (simp add: virt_pending_def)
  from virt_swi_step(2) [OF layout this]
  show "keeps virt_text (with_statics (virt_machine L) st (virt_pending L)) (with_statics (virt_machine L) st (virt_armed L)) {}
     (op_clear_swi (virt_machine L))"
    unfolding virt_ops by (rule keeps_virt_statics)
  assume p: "virt_pending L s"
  then have "virt_user True s" "el0_irq_handler (vcpu s) \<noteq> None" "vl_irq_line L (vio s)" by (simp_all add: virt_pending_def virt_armed_def virt_on_def)
  then show "poll_irq (virt_machine L) h s = h s"
    using levels(1) [of True s] by (auto simp: virt_ops virt_poll_irq_def el1_lower_irq_handler_def)
qed

end

sublocale virt_board_laws \<subseteq> interrupting_port virt_sink virt_text virt_uart_reached "virt_machine L" "virt_env L junk"
  "virt_idle L True" "virt_tables L True" "virt_on L True" virt_handles "virt_inside L True" "virt_armed L" "virt_pending L"
  by unfold_locales (rule irq_laws swi_laws sink_states statics_laws; assumption)+

section \<open>The suite on the board\<close>

text \<open>
  The board as reset.S finds it: the MMU off, the heap below the physical range clear, and in SPSR_EL1 a status of
  level 0 with interrupts enabled.
\<close>

definition virt_reset :: "virt_layout \<Rightarrow> virt_board \<Rightarrow> bool" where
  "virt_reset L s \<longleftrightarrow> \<not> virt_mmu_on s \<and> SPSR_EL1 (vcpu s) AND 0x8f = 0 \<and> l0_table (vcpu s) = 0 \<and>
     0x80000000 \<le> sym_HEAP_END (vcpu s) \<and> (\<forall>a. vl_heap L \<le> a \<and> a < 0x80000000 \<longrightarrow> a8_cells (vcpu s) a = 0)"

lemma arch_init_bits:
  fixes c :: u32
  defines "d \<equiv> (((c AND NOT (push_bit 4 1 OR push_bit 3 1)) OR push_bit 26 1) OR push_bit 12 1) OR push_bit 2 1"
  shows "d AND 1 = c AND 1" "bit d 26"
proof -
  have p: "(push_bit 4 1 OR push_bit 3 1 :: u32) = 0x18" "(push_bit 26 1 :: u32) = 0x4000000" "(push_bit 12 1 :: u32) = 0x1000"
    "(push_bit 2 1 :: u32) = 4" by (simp_all add: push_bit_eq_mult)
  show "d AND 1 = c AND 1" unfolding d_def p bit.conj_disj_distrib2 by (simp add: and.assoc)
  show "bit d 26" unfolding d_def p by (simp add: bit_or_iff)
qed

lemma virt_start_fields:
  "vcpu (virt_start L s) = a8_arch_init (vl_heap L) (vcpu s)" "vio (virt_start L s) = vio s" "pstate (virt_start L s) = SPSR_EL1 (vcpu s)"
  "virt_text (virt_start L s) = virt_text s"
  by (simp_all add: virt_start_def a8_arch_init_def Let_def armv8_heap_init_def armv8_install_syscall_handler_def armv8_install_sync_handler_def
      virt_uart_init_def virt_text_def)

lemma arch_init_fields [simp]:
  "a8_cells (a8_arch_init h c) = a8_cells c" "heap_ptr (a8_arch_init h c) = h" "l0_table (a8_arch_init h c) = l0_table c"
  "sym_HEAP_END (a8_arch_init h c) = sym_HEAP_END c" "SCTLR_EL1 (a8_arch_init h c) AND 1 = SCTLR_EL1 c AND 1"
  "bit (SCTLR_EL1 (a8_arch_init h c)) 26" "bit (CNTKCTL_EL1 (a8_arch_init h c)) 0"
  "el0_sync_table (a8_arch_init h c) = (el0_sync_table c)(ARMV8_EC_SYSCALL := Some handle_syscall)"
proof -
  have e: "SCTLR_EL1 (a8_arch_init h c) =
      (((SCTLR_EL1 c AND NOT (push_bit 4 1 OR push_bit 3 1)) OR push_bit 26 1) OR push_bit 12 1) OR push_bit 2 1"
    by (simp add: a8_arch_init_def Let_def armv8_heap_init_def armv8_install_syscall_handler_def armv8_install_sync_handler_def)
  show "SCTLR_EL1 (a8_arch_init h c) AND 1 = SCTLR_EL1 c AND 1" "bit (SCTLR_EL1 (a8_arch_init h c)) 26"
    unfolding e by (rule arch_init_bits)+
qed (simp_all add: a8_arch_init_def Let_def armv8_heap_init_def armv8_install_syscall_handler_def armv8_install_sync_handler_def bit_or_iff)

lemma virt_start_idle:
  assumes ok: "virt_layout_ok L" and s: "virt_reset L s"
  shows "virt_idle L False (virt_start L s)"
proof -
  have L: "page_aligned (vl_heap L)" "0x40000000 \<le> a8_DATA_START (vl_image L)" "a8_DATA_START (vl_image L) \<le> vl_hot L"
    "vl_hot L < a8_DATA_END (vl_image L)" "a8_DATA_END (vl_image L) < vl_heap L"
    using ok by (simp_all add: virt_layout_ok_def Let_def)
  then have h: "0 < vl_heap L" by (auto intro: le_less_trans)
  have "free_clear (heap_upto 0x80000000 (vcpu (virt_start L s)))"
    using s by (simp add: free_clear_def virt_start_fields virt_reset_def a8_base_def)
  then have "tables_start (vl_heap L) 0x80000000 (vcpu (virt_start L s))"
    using L(1) h s less_imp_le [OF layout_image(7) [OF ok]] by (simp add: tables_start_def virt_start_fields virt_reset_def)
  then show ?thesis
    using s by (simp add: virt_idle_def virt_user_def virt_cpu_def virt_reset_def virt_mmu_on_def syscalls_on_def virt_start_fields)
qed

sublocale virt_board_laws \<subseteq> fresh: virt_port_laws L junk False
  by unfold_locales (rule layout room)+

context virt_board_laws
begin

text \<open>The set-up of the first benchmark installs the handler.\<close>

lemma first_setup:
  "keeps virt_text (virt_idle L False) (\<lambda>s. virt_on L True (op_phys_start (virt_machine L)) s \<and> virt_handles Bad_instruction s) {}
     (undef_init (virt_machine L))"
proof -
  have i: "undef_init (virt_machine L) = (\<lambda>s. bindE (mmu_init (virt_machine L) s) (install_handler (virt_machine L) Bad_instruction))"
    by (simp add: undef_init_def fun_eq_iff)
  show ?thesis
    unfolding i
    by (rule keeps_bind [OF fresh.mmu_init_on keeps_virt]) (use virt_install_step(2) in \<open>simp add: virt_ops\<close>)
qed

lemma whole_report:
  assumes "virt_idle L False s"
  shows "\<exists>s' runs. harness_main (virt_env L junk) (suite (virt_machine L)) s = Inr s' \<and> virt_idle L True s' \<and>
    recorded (suite (virt_machine L)) runs \<and>
    virt_text s' = virt_text s @ crlf @ crlf @ marker ''BEGIN'' @ report runs @ marker ''END''"
  by (rule suite_moves_report [where before = "virt_idle L False"])
    (use room assms first_setup virt_reached_states(1) in \<open>simp_all add: wired_def virt_env_def virt_states_io virt_sink_def\<close>)

end

text \<open>Without the handler the set-up of the interrupt benchmark stops the machine.\<close>

lemma swi_setup_aborts:
  assumes ok: "virt_layout_ok L" and s: "virt_idle L u s" and n: "el0_sync_table (vcpu s) ARMV8_EC_UNKNOWN = None"
  shows "swi_init (virt_machine L) s = Inl (Halted Armv8_abort)"
proof -
  obtain s1 where 1: "mmu_off (call_port L (a8_mem_init (vl_image L))) s = Inr s1" "virt_tables L u 0x80000000 s1"
    using virt_init_step(1) [OF ok s] by blast
  obtain s2 where 2: "call_port L (a8_mmu_enable (vl_image L)) s1 = Inr s2" "virt_on L u 0x80000000 s2"
    using virt_enable_step(1) [OF 1(2)] by blast
  let ?s = "s2\<lparr>vcpu := a8_irq_install_handler (Some 0) (vcpu s2)\<rparr>"
  have "el0_sync_table (vcpu s2) = el0_sync_table (vcpu s)"
    using virt_init_step(2) [OF ok s 1(1)] virt_enable_step(2) [OF 1(2) 2(1)] by simp
  then have "el0_sync_table (vcpu ?s) ARMV8_EC_UNKNOWN = None" using n by (simp add: a8_irq_install_handler_def)
  moreover have "virt_user u ?s"
    using 2(2) by (simp add: virt_on_def virt_user_def virt_cpu_def syscalls_on_def a8_irq_install_handler_def)
  ultimately have "virt_irq_enable L ?s = Inl (Halted Armv8_abort)" by (intro virt_irq_enable_aborts)
  then show ?thesis by (simp add: swi_init_def mmu_init_def virt_ops 1(1) 2(1) on_cpu_def)
qed

context virt_board_laws
begin

lemma interrupt_first_stops:
  assumes "virt_idle L u s" "el0_sync_table (vcpu s) ARMV8_EC_UNKNOWN = None"
  shows "harness_main (virt_env L junk) (interrupt (virt_machine L) # bms) s = Inl (Abort_in (Halted Armv8_abort))"
  by (rule harness_main_stops [where before = "\<lambda>s. virt_idle L u s \<and> el0_sync_table (vcpu s) ARMV8_EC_UNKNOWN = None"
        and f = "swi_init (virt_machine L)"])
    (use room assms swi_setup_aborts [OF layout] virt_reached_states(1) in
      \<open>auto simp: wired_def virt_env_def virt_states_io virt_sink_def interrupt_def words\<close>)

end

text \<open>
  C5: the whole suite runs on the virt board of the armv8 port, from its reset. On any image laid out as
  the board's linker script does, arch_init and the switch to level 0 leave the board in a state from which the harness runs every
  benchmark to its end. Every system call and every trap goes through the exception vectors and returns, the
  tables of all set-ups together stay in the heap below the physical range, the interrupt
  benchmark gets its interrupt because the first benchmark of the suite has installed the skip of undefined
  instructions, and the serial port receives a complete report of all benchmarks between the two markers.
\<close>

theorem virt_suite_report:
  assumes "virt_layout_ok L" and "0x1000 \<le> length junk" and "virt_reset L s"
  shows "\<exists>s' runs. harness_main (virt_env L junk) (suite (virt_machine L)) (virt_start L s) = Inr s' \<and> virt_idle L True s' \<and>
    recorded (suite (virt_machine L)) runs \<and>
    virt_text s' = virt_text s @ crlf @ crlf @ marker ''BEGIN'' @ report runs @ marker ''END''"
proof -
  have l: "virt_board_laws L junk" using assms(1,2) by (simp add: virt_board_laws_def virt_port_laws_def)
  show ?thesis using virt_board_laws.whole_report [OF l virt_start_idle [OF assms(1,3)]] by (simp only: virt_start_fields(4))
qed

text \<open>
  C6: the interrupt benchmark does not run on the virt board unless the benchmark of undefined instructions has run
  before it. arch_irq_enable reads CurrentEL at level 0, where that is an undefined instruction; without the skip that
  the other benchmark installs, its trap ends in arch_abort. So every list of benchmarks that begins with the interrupt
  benchmark stops in its set-up.
\<close>

theorem virt_interrupt_first_aborts:
  assumes "virt_layout_ok L" and "0x1000 \<le> length junk" and "virt_reset L s"
    and "el0_sync_table (vcpu s) ARMV8_EC_UNKNOWN = None"
  shows "harness_main (virt_env L junk) (interrupt (virt_machine L) # bms) (virt_start L s) = Inl (Abort_in (Halted Armv8_abort))"
proof -
  have l: "virt_board_laws L junk" using assms(1,2) by (simp add: virt_board_laws_def virt_port_laws_def)
  show ?thesis
    by (rule virt_board_laws.interrupt_first_stops [OF l virt_start_idle [OF assms(1,3)]])
      (use assms(4) in \<open>simp add: virt_start_fields ARMV8_EC_UNKNOWN_def ARMV8_EC_SYSCALL_def\<close>)
qed

subsection \<open>A board\<close>

text \<open>
  The controller as the board wires it: a write to GICD_SGIR makes interrupt 0 pending, its acknowledgement in GICC_IAR ends
  that, and both parts have to forward.
\<close>

fun gic_pending :: "bool \<Rightarrow> mmio_op \<Rightarrow> bool" where
  "gic_pending p (Load a) \<longleftrightarrow> p \<and> a \<noteq> virt_GICC_BASE + GICC_IAR"
| "gic_pending p (Store a v) \<longleftrightarrow> p \<or> a = virt_GICD_BASE + GICD_SGIR"

definition gic_line :: "mmio \<Rightarrow> bool" where
  "gic_line m \<longleftrightarrow> foldl gic_pending False (mmio_log m) \<and>
     has_bit (stored (virt_GICD_BASE + GICD_CTLR) m) 1 \<and> has_bit (stored (virt_GICC_BASE + GICC_CTLR) m) 1"

lemma raised_line: "sgi_raised virt_GICD_BASE virt_GICC_BASE m \<Longrightarrow> gic_line m"
proof -
  assume r: "sgi_raised virt_GICD_BASE virt_GICC_BASE m"
  then obtain v where v: "mmio_log m \<noteq> []" "last (mmio_log m) = Store (virt_GICD_BASE + GICD_SGIR) v" by (auto simp: sgi_raised_def)
  then have "mmio_log m = butlast (mmio_log m) @ [Store (virt_GICD_BASE + GICD_SGIR) v]" by (metis append_butlast_last_id)
  then have "foldl gic_pending False (mmio_log m)" by (metis foldl_append foldl_Cons foldl_Nil gic_pending.simps(2))
  then show ?thesis using r by (simp add: gic_line_def sgi_raised_def)
qed

lemma load_answers: "load_reg a m = Some (v, m') \<Longrightarrow> length (answers m) = Suc (length (answers m'))"
  by (auto simp: load_reg_def split: list.splits)

lemma triggered_line:
  assumes "virt_trigger_swi m = Inr m'"
  shows "gic_line m'"
proof -
  have r: "read_reg a m = Inr (v, m') \<Longrightarrow> length (answers m) = Suc (length (answers m'))" for a v m m'
    using load_answers by (auto simp: read_reg_def answered_def split: option.splits)
  have o: "or_reg a v m = Some m' \<Longrightarrow> length (answers m) = Suc (length (answers m'))" for a v m m'
    using load_answers by (fastforce simp: or_reg_def store_reg_def)
  have st: "answers (store_reg a v m) = answers m" for a v m by (simp add: store_reg_def)
  have "6 \<le> length (answers m)"
    using assms by (auto simp: virt_trigger_swi_def Let_def read_gicd_ids_def gic_forward_def answered_def st dest!: r o split: option.splits)
  then obtain i0 i1 i2 i3 d c vs where a: "answers m = [i0, i1, i2, i3] @ d # c # vs"
    by (auto simp: numeral_eq_Suc Suc_le_length_iff)
  have "sgi_raised virt_GICD_BASE virt_GICC_BASE m'"
    using trigger_raises [of "[i0, i1, i2, i3]" m d c vs Armv8_virt] a assms by auto
  then show ?thesis by (rule raised_line)
qed

text \<open>An image as sys.ld of the board lays it out, and the processor before reset.S.\<close>

definition built_virt :: virt_layout where
  "built_virt =
     \<lparr>vl_image = \<lparr>a8_TEXT_START = 0x40000000, a8_TEXT_END = 0x40008000, a8_DATA_START = 0x40009000, a8_DATA_END = 0x40040000,
        a8_devices = device_ranges virt_mem_get_device_info\<rparr>,
      vl_heap = 0x40100000, vl_code = 0x40004000, vl_return = 0x40004100, vl_stale = 0, vl_hot = 0x40010000, vl_nonpriv = 0x40010008,
      vl_block = 0x40005000, vl_small = (\<lambda>n. 0x40006000), vl_fast = False, vl_irq_line = gic_line, vl_answers = (\<lambda>log. replicate 6 0)\<rparr>"

definition reset_virt :: virt_board where
  "reset_virt = \<lparr>vcpu = blank_a8\<lparr>sym_HEAP_END := 0x80100000\<rparr>, pstate = 0x3c5, vio = quiet,
     virt_statics = \<lparr>swi_flag = 0, flush_start = 0, flush_end = 0, evict_start = 0, evict_end = 0, lb_value1 = 0, lb_value2 = 0, lb_value3 = 0\<rparr>\<rparr>"

lemma built_room: "heap_room_for (vl_image built_virt) (vl_heap built_virt) 0x80000000"
proof -
  have "length (text_pages (vl_image built_virt)) = 9" "length (data_pages (vl_image built_virt)) = 56"
    by (simp_all add: text_pages_def data_pages_def pages_of_def region_pages_def built_virt_def)
  moreover have "length (device_pages (vl_image built_virt)) = 34"
    by (simp add: device_pages_def pages_of_def region_pages_def built_virt_def model_eval)
  ultimately show ?thesis by (simp add: heap_room_for_def) (simp add: built_virt_def)
qed

lemma built_virt_ok: "virt_layout_ok built_virt"
proof -
  have "page_aligned (0x40000000 :: u64)" "page_aligned (0x40009000 :: u64)" "page_aligned (0x40100000 :: u64)" by (simp_all add: page_aligned_def)
  then show ?thesis
    using built_room triggered_line
    by (simp add: virt_layout_ok_def built_virt_def code_heads_def virt_machine_def)
qed

lemma reset_virt_ok: "virt_reset built_virt reset_virt"
  by (simp add: virt_reset_def reset_virt_def virt_mmu_on_def blank_a8_def)

interpretation built_virt_board: virt_board_laws built_virt "replicate 0x1000 nul"
  by unfold_locales (simp_all add: built_virt_ok)

theorem virt_suite_report_witness:
  "\<exists>s' runs. harness_main (virt_env built_virt (replicate 0x1000 nul)) (suite (virt_machine built_virt)) (virt_start built_virt reset_virt) = Inr s' \<and>
    recorded (suite (virt_machine built_virt)) runs \<and>
    virt_text s' = crlf @ crlf @ marker ''BEGIN'' @ report runs @ marker ''END''"
proof -
  have t: "virt_text reset_virt = []" by (simp add: virt_text_def reset_virt_def quiet_def received_def)
  show ?thesis
    using virt_suite_report [OF built_virt_ok _ reset_virt_ok, of "replicate 0x1000 nul"] unfolding t by auto
qed

theorem virt_interrupt_first_aborts_witness:
  "harness_main (virt_env built_virt (replicate 0x1000 nul)) [interrupt (virt_machine built_virt)] (virt_start built_virt reset_virt) =
     Inl (Abort_in (Halted Armv8_abort))"
  by (rule virt_interrupt_first_aborts [OF built_virt_ok _ reset_virt_ok]) (simp_all add: reset_virt_def blank_a8_def)

end
