(* ===== verification/X86_Fault_Report.thy ===== *)
theory X86_Fault_Report
  imports X86_Start
begin

section \<open>What a fatal trap of the x86-64 port prints (irq.c, arch_abort of arch.c)\<close>

text \<open>
  The default handlers, the handlers of unexpected traps and the page heap print to ERROR and call arch_abort, which
  prints a line and halts for ever. X86_Memory and X86_Trap have them as the values of x86_fault; here is their output. The
  result Inr s is the state in which the processor halts. The build is the one without SIMBENCH_DEBUG, where dprintf
  is empty.
\<close>

definition eol :: string where "eol = [CHR 0x0A]"

definition error_print :: "char list \<Rightarrow> 's printf_files \<Rightarrow> string \<Rightarrow> vararg list \<Rightarrow> 's \<Rightarrow> printf_fault + 's" where
  "error_print junk fs fmt args s =
     (case fprintf False junk (Some (error_file fs)) fmt args s of Inl e \<Rightarrow> Inl e | Inr (rc, s) \<Rightarrow> Inr s)"

definition x86_arch_abort :: "char list \<Rightarrow> 's printf_files \<Rightarrow> 's \<Rightarrow> printf_fault + 's" where
  "x86_arch_abort junk fs = error_print junk fs (''x86-64: abort!'' @ eol) []"

text \<open>The lines of dump_context differ in the name and the value.\<close>

definition context_registers :: "mcontext \<Rightarrow> (string \<times> u64) list" where
  "context_registers mc =
     [(''rax'', rax mc), (''rbx'', rbx mc), (''rcx'', rcx mc), (''rdx'', rdx mc), (''rsi'', rsi mc), (''rdi'', rdi mc), (''rbp'', rbp mc),
      (''r8 '', r8 mc), (''r9 '', r9 mc), (''r10'', r10 mc), (''r11'', r11 mc), (''r12'', r12 mc), (''r13'', r13 mc), (''r14'', r14 mc),
      (''r15'', r15 mc), (''rip'', rip mc)]"

fun dump_registers :: "char list \<Rightarrow> 's printf_files \<Rightarrow> (string \<times> u64) list \<Rightarrow> 's \<Rightarrow> printf_fault + 's" where
  "dump_registers junk fs [] s = Inr s"
| "dump_registers junk fs ((name, v) # rs) s =
     bindE (error_print junk fs (''  '' @ name @ '' = %lx'' @ eol) [Num v] s) (dump_registers junk fs rs)"

definition dump_context :: "char list \<Rightarrow> 's printf_files \<Rightarrow> mcontext \<Rightarrow> 's \<Rightarrow> printf_fault + 's" where
  "dump_context junk fs mc s =
     bindE (error_print junk fs (''machine context:'' @ eol) [] s) (dump_registers junk fs (context_registers mc))"

definition asterisks :: string where "asterisks = ''*********'' @ eol"

text \<open>The handlers, by the fault each of them is; No_answer is a poll that goes on for ever.\<close>

fun report_fault :: "char list \<Rightarrow> 's printf_files \<Rightarrow> mcontext \<Rightarrow> x86_fault \<Rightarrow> 's \<Rightarrow> printf_fault + 's" where
  "report_fault junk fs mc (Unhandled_syscall pc) s =
     bindE (error_print junk fs (''x86: unhandled syscall: rip=%p'' @ eol) [Num pc] s) (x86_arch_abort junk fs)"
| "report_fault junk fs mc (Unhandled_page_fault code pc va) s =
     bindE (error_print junk fs (''x86: unhandled page-fault: code=%lx, rip=%p, va=%p'' @ eol) [Num code, Num pc, Num va] s)
       (x86_arch_abort junk fs)"
| "report_fault junk fs mc (Unhandled_irq pc) s =
     bindE (error_print junk fs (''x86: unhandled irq: rip=%p'' @ eol) [Num pc] s) (x86_arch_abort junk fs)"
| "report_fault junk fs mc (Undefined_instruction pc) s =
     bindE (error_print junk fs (''x86: undefined instruction: rip=%p'' @ eol) [Num pc] s) (x86_arch_abort junk fs)"
| "report_fault junk fs mc (Unknown_exception pc None) s =
     bindE (error_print junk fs (''unknown exception from rip=%lx'' @ eol) [Num pc] s) (x86_arch_abort junk fs)"
| "report_fault junk fs mc (Unknown_exception pc (Some val)) s =
     bindE (error_print junk fs (''unknown exception from rip=%lx, val=%lx'' @ eol) [Num pc, Num val] s) (x86_arch_abort junk fs)"
| "report_fault junk fs mc (General_protection pc val) s =
     bindE (error_print junk fs asterisks [] s) (\<lambda>s.
     bindE (error_print junk fs (''general protection fault: rip=%lx, val=%lx'' @ eol) [Num pc, Num val] s) (\<lambda>s.
     bindE (dump_context junk fs mc s) (\<lambda>s.
     bindE (error_print junk fs asterisks [] s) (x86_arch_abort junk fs))))"
| "report_fault junk fs mc Out_of_memory s =
     bindE (error_print junk fs (''out of memory'' @ eol) [] s) (x86_arch_abort junk fs)"
| "report_fault junk fs mc (Cannot_decode pc) s = x86_arch_abort junk fs s"
| "report_fault junk fs mc Break_handler s = x86_arch_abort junk fs s"
| "report_fault junk fs mc Device_mapping s = x86_arch_abort junk fs s"
| "report_fault junk fs mc No_answer s = Inr s"

section \<open>The printed text\<close>

text \<open>Numbers are printed right below 2 ^ 35 only, because append_num keeps the quotient in an int.\<close>

abbreviation hex :: "u64 \<Rightarrow> string" where
  "hex v \<equiv> number_text Hex (unat v)"

definition small :: "u64 \<Rightarrow> bool" where
  "small v \<longleftrightarrow> v < 0x800000000"

definition register_text :: "string \<Rightarrow> u64 \<Rightarrow> string" where
  "register_text name v = ''  '' @ name @ '' = '' @ hex v @ eol"

definition context_text :: "mcontext \<Rightarrow> string" where
  "context_text mc = ''machine context:'' @ eol @
     register_text ''rax'' (rax mc) @ register_text ''rbx'' (rbx mc) @ register_text ''rcx'' (rcx mc) @ register_text ''rdx'' (rdx mc) @
     register_text ''rsi'' (rsi mc) @ register_text ''rdi'' (rdi mc) @ register_text ''rbp'' (rbp mc) @
     register_text ''r8 '' (r8 mc) @ register_text ''r9 '' (r9 mc) @ register_text ''r10'' (r10 mc) @ register_text ''r11'' (r11 mc) @
     register_text ''r12'' (r12 mc) @ register_text ''r13'' (r13 mc) @ register_text ''r14'' (r14 mc) @ register_text ''r15'' (r15 mc) @
     register_text ''rip'' (rip mc)"

fun fault_text :: "mcontext \<Rightarrow> x86_fault \<Rightarrow> string" where
  "fault_text mc (Unhandled_syscall pc) = ''x86: unhandled syscall: rip=0x'' @ hex pc @ eol"
| "fault_text mc (Unhandled_page_fault code pc va) =
     ''x86: unhandled page-fault: code='' @ hex code @ '', rip=0x'' @ hex pc @ '', va=0x'' @ hex va @ eol"
| "fault_text mc (Unhandled_irq pc) = ''x86: unhandled irq: rip=0x'' @ hex pc @ eol"
| "fault_text mc (Undefined_instruction pc) = ''x86: undefined instruction: rip=0x'' @ hex pc @ eol"
| "fault_text mc (Unknown_exception pc None) = ''unknown exception from rip='' @ hex pc @ eol"
| "fault_text mc (Unknown_exception pc (Some val)) = ''unknown exception from rip='' @ hex pc @ '', val='' @ hex val @ eol"
| "fault_text mc (General_protection pc val) =
     asterisks @ ''general protection fault: rip='' @ hex pc @ '', val='' @ hex val @ eol @ context_text mc @ asterisks"
| "fault_text mc Out_of_memory = ''out of memory'' @ eol"
| "fault_text mc f = []"

fun fault_numbers :: "mcontext \<Rightarrow> x86_fault \<Rightarrow> u64 list" where
  "fault_numbers mc (Unhandled_page_fault code pc va) = [code, pc, va]"
| "fault_numbers mc (General_protection pc val) = pc # val # map snd (context_registers mc)"
| "fault_numbers mc (Unhandled_syscall pc) = [pc]"
| "fault_numbers mc (Unhandled_irq pc) = [pc]"
| "fault_numbers mc (Undefined_instruction pc) = [pc]"
| "fault_numbers mc (Unknown_exception pc val) = pc # (case val of None \<Rightarrow> [] | Some v \<Rightarrow> [v])"
| "fault_numbers mc f = []"

lemma render_long:
  assumes "small v"
  shows "render False (CHR ''%'' # CHR ''l'' # CHR ''x'' # fmt) (Num v # args) = map_option (\<lambda>u. hex v @ u) (render False fmt args)"
    and "render False (CHR ''%'' # CHR ''p'' # fmt) (Num v # args) = map_option (\<lambda>u. ''0x'' @ hex v @ u) (render False fmt args)"
proof -
  have "unat v < 0x800000000" using assms by (simp add: small_def word_less_nat_alt)
  then show "render False (CHR ''%'' # CHR ''l'' # CHR ''x'' # fmt) (Num v # args) = map_option (\<lambda>u. hex v @ u) (render False fmt args)"
    "render False (CHR ''%'' # CHR ''p'' # fmt) (Num v # args) = map_option (\<lambda>u. ''0x'' @ hex v @ u) (render False fmt args)"
    by (cases "render False fmt args"; simp add: initial_spec_def nul_def render_num_def writable_def pad_left_def)+
qed

lemma render_char: "c \<noteq> nul \<Longrightarrow> c \<noteq> CHR ''%'' \<Longrightarrow> render arm (c # fmt) args = map_option (\<lambda>u. c # u) (render arm fmt args)"
  by simp

lemma hex_plain: "nul \<notin> set (hex v)"
  using number_text_hex [of "unat v"] hex_chars_plain(2) by auto

lemma hex_short: "small v \<Longrightarrow> length (hex v) \<le> 9"
  using number_text_length [of "unat v" 8] by (simp add: small_def word_less_nat_alt)

text \<open>One call of fprintf.\<close>

lemma error_print_text:
  assumes "error_file fs = \<lparr>putch_fn = Some putch\<rparr>" "0x1000 \<le> length junk"
    and "render False fmt args = Some t" "nul \<notin> set t" "length t < 0xfff"
  shows "error_print junk fs fmt args s = Inr (foldl putch s t)"
  using fprintf_render_eq [OF assms(3-5,2), of putch s] by (simp add: error_print_def assms(1))

lemma render_prefix: "nul \<notin> set pre \<Longrightarrow> CHR ''%'' \<notin> set pre \<Longrightarrow>
  render arm (pre @ fmt) args = map_option (\<lambda>u. pre @ u) (render arm fmt args)"
  by (induction pre) (cases "render arm fmt args"; auto)+

lemma one_number:
  assumes "error_file fs = \<lparr>putch_fn = Some putch\<rparr>" "0x1000 \<le> length junk"
    and pre: "nul \<notin> set pre" "CHR ''%'' \<notin> set pre" "length pre < 100" and v: "small v"
  shows "error_print junk fs (pre @ ''%p'' @ eol) [Num v] s = Inr (foldl putch s (pre @ ''0x'' @ hex v @ eol))"
    and "error_print junk fs (pre @ ''%lx'' @ eol) [Num v] s = Inr (foldl putch s (pre @ hex v @ eol))"
proof -
  have e: "render False eol [] = Some eol" "nul \<notin> set eol" "length eol = 1" by (simp_all add: eol_def nul_def)
  have t: "render False (pre @ ''%p'' @ eol) [Num v] = Some (pre @ ''0x'' @ hex v @ eol)" "render False (pre @ ''%lx'' @ eol) [Num v] = Some (pre @ hex v @ eol)"
    by (simp_all add: render_prefix [OF pre(1,2)] render_long [OF v] e del: render.simps(2))
  show "error_print junk fs (pre @ ''%p'' @ eol) [Num v] s = Inr (foldl putch s (pre @ ''0x'' @ hex v @ eol))"
    "error_print junk fs (pre @ ''%lx'' @ eol) [Num v] s = Inr (foldl putch s (pre @ hex v @ eol))"
    by (rule error_print_text [OF assms(1,2) t(1)] error_print_text [OF assms(1,2) t(2)];
        use pre e hex_plain [of v] hex_short [OF v] in \<open>simp add: nul_def\<close>)+
qed

lemma dump_registers_text:
  assumes "error_file fs = \<lparr>putch_fn = Some putch\<rparr>" "0x1000 \<le> length junk"
    and "\<forall>(n, v)\<in>set rs. small v \<and> nul \<notin> set n \<and> CHR ''%'' \<notin> set n \<and> length n \<le> 3"
  shows "dump_registers junk fs rs s = Inr (foldl putch s (concat (map (\<lambda>(n, v). register_text n v) rs)))"
  using assms(3)
proof (induction rs arbitrary: s)
  case (Cons r rs)
  obtain n v where r: "r = (n, v)" by (cases r)
  have v: "small v" "nul \<notin> set n" "CHR ''%'' \<notin> set n" "length n \<le> 3" using Cons.prems by (auto simp: r)
  have "nul \<notin> set (''  '' @ n @ '' = '')" "CHR ''%'' \<notin> set (''  '' @ n @ '' = '')" "length (''  '' @ n @ '' = '') < 100"
    using v(2-4) by (simp_all add: nul_def)
  from one_number(2) [OF assms(1,2) this v(1)] show ?case using Cons by (simp add: r register_text_def)
qed simp

text \<open>The whole report.\<close>

definition abort_text :: string where "abort_text = ''x86-64: abort!'' @ eol"

lemma abort_printed:
  assumes "error_file fs = \<lparr>putch_fn = Some putch\<rparr>" "0x1000 \<le> length junk"
  shows "x86_arch_abort junk fs s = Inr (foldl putch s abort_text)"
  unfolding x86_arch_abort_def abort_text_def
  by (rule error_print_text [OF assms render_plain]) (simp_all add: eol_def nul_def)

lemma context_printed:
  assumes "error_file fs = \<lparr>putch_fn = Some putch\<rparr>" "0x1000 \<le> length junk" "list_all small (map snd (context_registers mc))"
  shows "dump_context junk fs mc s = Inr (foldl putch s (context_text mc))"
proof -
  have h: "error_print junk fs (''machine context:'' @ eol) [] s = Inr (foldl putch s (''machine context:'' @ eol))"
    by (rule error_print_text [OF assms(1,2) render_plain]) (simp_all add: eol_def nul_def)
  have "\<forall>(n, v)\<in>set (context_registers mc). small v \<and> nul \<notin> set n \<and> CHR ''%'' \<notin> set n \<and> length n \<le> 3"
    using assms(3) by (simp add: context_registers_def nul_def)
  note d = dump_registers_text [OF assms(1,2) this]
  have t: "context_text mc = (''machine context:'' @ eol) @ concat (map (\<lambda>(n, v). register_text n v) (context_registers mc))"
    by (simp add: context_text_def context_registers_def)
  show ?thesis unfolding t dump_context_def h bindE_simps d foldl_append by (rule refl)
qed

lemma more_numbers:
  assumes f: "error_file fs = \<lparr>putch_fn = Some putch\<rparr>" "0x1000 \<le> length junk"
  shows "small c \<Longrightarrow> small pc \<Longrightarrow> small va \<Longrightarrow>
      error_print junk fs (''x86: unhandled page-fault: code=%lx, rip=%p, va=%p'' @ eol) [Num c, Num pc, Num va] s =
      Inr (foldl putch s (''x86: unhandled page-fault: code='' @ hex c @ '', rip=0x'' @ hex pc @ '', va=0x'' @ hex va @ eol))"
    and "small pc \<Longrightarrow> small val \<Longrightarrow>
      error_print junk fs (''general protection fault: rip=%lx, val=%lx'' @ eol) [Num pc, Num val] s =
      Inr (foldl putch s (''general protection fault: rip='' @ hex pc @ '', val='' @ hex val @ eol))"
    and "small pc \<Longrightarrow> small val \<Longrightarrow>
      error_print junk fs (''unknown exception from rip=%lx, val=%lx'' @ eol) [Num pc, Num val] s =
      Inr (foldl putch s (''unknown exception from rip='' @ hex pc @ '', val='' @ hex val @ eol))"
proof -
  have e: "render False eol [] = Some eol" "nul \<notin> set eol" "length eol = 1" by (simp_all add: eol_def nul_def)
  note r = render_char render_long e(1) nul_def and pl = hex_plain and p = error_print_text [OF f]
  show "error_print junk fs (''x86: unhandled page-fault: code=%lx, rip=%p, va=%p'' @ eol) [Num c, Num pc, Num va] s =
      Inr (foldl putch s (''x86: unhandled page-fault: code='' @ hex c @ '', rip=0x'' @ hex pc @ '', va=0x'' @ hex va @ eol))"
    if "small c" "small pc" "small va"
    by (rule p) (use that pl e hex_short [of c] hex_short [of pc] hex_short [of va] in \<open>simp_all add: r del: render.simps(2)\<close>)
  show "error_print junk fs (''general protection fault: rip=%lx, val=%lx'' @ eol) [Num pc, Num val] s =
      Inr (foldl putch s (''general protection fault: rip='' @ hex pc @ '', val='' @ hex val @ eol))" if "small pc" "small val"
    by (rule p) (use that pl e hex_short [of pc] hex_short [of val] in \<open>simp_all add: r del: render.simps(2)\<close>)
  show "error_print junk fs (''unknown exception from rip=%lx, val=%lx'' @ eol) [Num pc, Num val] s =
      Inr (foldl putch s (''unknown exception from rip='' @ hex pc @ '', val='' @ hex val @ eol))" if "small pc" "small val"
    by (rule p) (use that pl e hex_short [of pc] hex_short [of val] in \<open>simp_all add: r del: render.simps(2)\<close>)
qed

lemma fault_printed:
  assumes f: "error_file fs = \<lparr>putch_fn = Some putch\<rparr>" "0x1000 \<le> length junk" and v: "list_all small (fault_numbers mc fl)"
    and "fl \<noteq> No_answer"
  shows "report_fault junk fs mc fl s = Inr (foldl putch s (fault_text mc fl @ abort_text))"
proof -
  note p = error_print_text [OF f] and ab = abort_printed [OF f] and so = bindE_simps foldl_append
  have a: "error_print junk fs asterisks [] s = Inr (foldl putch s asterisks)"
    and m: "error_print junk fs (''out of memory'' @ eol) [] s = Inr (foldl putch s (''out of memory'' @ eol))" for s
    by (rule p [OF render_plain]; simp add: asterisks_def eol_def nul_def)+
  show ?thesis
  proof (cases fl)
    case (General_protection pc val)
    then have s: "small pc" "small val" "list_all small (map snd (context_registers mc))" using v by simp_all
    show ?thesis
      by (simp only: General_protection report_fault.simps fault_text.simps a so more_numbers(2) [OF f s(1,2)] context_printed [OF f s(3)] ab)
  next
    case (Unhandled_page_fault code pc va)
    then have s: "small code" "small pc" "small va" using v by simp_all
    show ?thesis by (simp only: Unhandled_page_fault report_fault.simps fault_text.simps so ab more_numbers(1) [OF f s])
  next
    case (Unknown_exception pc val)
    then have s: "small pc" "\<And>x. val = Some x \<Longrightarrow> small x" using v by auto
    show ?thesis
    proof (cases val)
      case None
      then show ?thesis using s(1) one_number(2) [OF f, of "''unknown exception from rip=''" pc] by (simp add: Unknown_exception nul_def ab)
    next
      case (Some x)
      then show ?thesis by (simp only: Unknown_exception report_fault.simps fault_text.simps so ab more_numbers(3) [OF f s(1) s(2) [OF Some]])
    qed
  next
    case (Unhandled_syscall pc)
    then show ?thesis using v one_number(1) [OF f, of "''x86: unhandled syscall: rip=''" pc] by (simp add: nul_def ab)
  next
    case (Unhandled_irq pc)
    then show ?thesis using v one_number(1) [OF f, of "''x86: unhandled irq: rip=''" pc] by (simp add: nul_def ab)
  next
    case (Undefined_instruction pc)
    then show ?thesis using v one_number(1) [OF f, of "''x86: undefined instruction: rip=''" pc] by (simp add: nul_def ab)
  qed (use assms(4) in \<open>simp_all only: report_fault.simps fault_text.simps so ab m foldl.simps append_Nil simp_thms\<close>)
qed

section \<open>On the screen\<close>

lemma error_sink:
  assumes "native_platform_init (fs0, m0) = Inr (fs, m) \<or> qemu_platform_init False (fs0, m0) = (fs, m)"
  shows "error_file fs = \<lparr>putch_fn = Some console_sink\<rparr>"
  using assms
  by (auto simp: native_platform_init_def qemu_platform_init_def Let_def printf_register_output_def printf_register_debug_def
      printf_register_error_def bindE_def split: sum.splits)

text \<open>
  C23: a fatal trap is reported before the machine halts. Once the platform is initialised, native or qemu, an unhandled
  system call, page fault or interrupt, an undefined instruction, an exception without a handler, a general
  protection fault and an exhausted heap print their message with the numbers in question in hexadecimal (a
  general protection fault the sixteen registers of its context, too) and the line of arch_abort, and the screen shows what a
  terminal would, whatever it showed before, provided that no number has more than 35 bits.
\<close>

theorem fatal_trap_on_screen:
  assumes "native_platform_init (fs0, m0) = Inr (fs, m) \<or> qemu_platform_init False (fs0, m0) = (fs, m)"
    and "0x1000 \<le> length junk" and "terminal_ok t" and "displays (screen m') t"
    and "list_all small (fault_numbers mc fault)" and "fault \<noteq> No_answer"
  shows "\<exists>v. report_fault junk fs mc fault (Inr m') = Inr (Inr (m'\<lparr>screen := v\<rparr>)) \<and>
    displays v (foldl term_putc t (fault_text mc fault @ abort_text))"
proof -
  obtain v where "console_text (fault_text mc fault @ abort_text) (screen m') = Inr v"
    "displays v (foldl term_putc t (fault_text mc fault @ abort_text))"
    using console_text_displays [OF assms(3,4)] by blast
  then show ?thesis
    unfolding fault_printed [OF error_sink [OF assms(1)] assms(2,5,6)] console_sink_text by (intro exI [of _ v]) simp
qed

text \<open>A context whose registers hold their number.\<close>

definition demo_context :: mcontext where
  "demo_context = \<lparr>r15 = 15, r14 = 14, r13 = 13, r12 = 12, r11 = 11, r10 = 10, r9 = 9, r8 = 8, rbp = 7, rsi = 6, rdi = 5, rdx = 4,
     rcx = 3, rbx = 2, rax = 1, mc_flags = 0, rsp = 0, extra = 0, rip = 0x100000, tempCS = 0, tempFLAGS = 0, tempSP = 0, tempSS = 0\<rparr>"

theorem fatal_trap_on_screen_witness:
  "\<exists>fs m v. qemu_platform_init False (no_sinks, demo_io []) = (fs, m) \<and>
    report_fault (replicate 0x1000 nul) fs demo_context (General_protection 0x100000 0x10) (Inr m) = Inr (Inr (m\<lparr>screen := v\<rparr>)) \<and>
    displays v (foldl term_putc blank_terminal (fault_text demo_context (General_protection 0x100000 0x10) @ abort_text))"
proof -
  obtain fs m where i: "qemu_platform_init False (no_sinks, demo_io []) = (fs, m)" by fastforce
  then have "screen m = console_init blank_vga" by (auto simp: qemu_platform_init_def Let_def demo_io_def)
  moreover have "length (vga blank_vga) = 2000" by (simp add: blank_vga_def)
  ultimately have d: "displays (screen m) blank_terminal" "terminal_ok blank_terminal"
    using console_init_displays [of blank_vga] by simp_all
  have "list_all small (fault_numbers demo_context (General_protection 0x100000 0x10))"
    by (simp add: context_registers_def demo_context_def small_def)
  then show ?thesis
    using fatal_trap_on_screen [OF disjI2 [OF i] _ d(2,1), of "replicate 0x1000 nul" demo_context "General_protection 0x100000 0x10"] i
    by auto
qed

end
