(* ===== verification/Spec2Isabelle.thy ===== *)
theory Spec2Isabelle
  imports X86_Decode Printf X86_Memory X86_Trap Armv8_Memory Armv8_Trap Harness Host
    Arm_Memory Arm_Trap Board_Uart Board_Swi Board_Memory
    X86_Console X86_Platform Benchmarks Suite_On_Port Versatile_Machine Versatile_Suite
    X86_Range X86_Start Memory_Helpers Armv8_Range Virt_Machine Virt_Suite X86_Fault_Report
begin

text \<open>
  SimBench is a set of small benchmarks that run on a bare (simulated) machine: src/harness runs
  every registered benchmark and reports start and end over a serial console; src/arch holds
  the ports to arm, armv8 and x86-64, each with its page tables, exception vectors and a common
  interface (src/include/arch.h, mem.h); src/platform holds the devices of each board; src/util
  the small C library; src/host a program that reads the console and times the benchmarks.

  Theories, by the part of the program they model:
  \<^item> Sim_Prelude: the C integer types, the error monad bindE and shared lemmas.
  \<^item> Memory_Helpers: src/util/memcpy.c and memset.c on a memory of bytes.
  \<^item> Printf: src/util/printf.c on an explicit character array, the registered files and fprintf.
  \<^item> Harness: src/harness/harness.c and the spinner of src/util/debug.c; the locales console (a sink
    that shows every character) and guarded_console (one that does so in certain states).
  \<^item> Host: src/host/main.c, the reader of the console protocol.
  \<^item> Benchmarks: src/benchmarks over a record machine of the operations of arch.h, mem.h and
    platform.h that the benchmarks call.
  \<^item> Page_Tables: what the 64-bit ports share: a tree of 512-entry tables in memory, its invariant
    tables_ok, the locale entry_format (what a descriptor format provides) and the locale page_mapper
    (what a mapping function promises) with the lemmas on mapping regions.
  \<^item> X86_Memory, X86_Decode, X86_Trap: src/arch/x86_64 (heap.c and mem.c; decode.c; irq.c, exception.c,
    arch.c and pit.c). X86_Console and X86_Platform: src/platform/x86_64 (console.c; serial.c, timer.c,
    platform.c, mem.c). X86_Start: arch_start, the set-up and the run on the qemu platform.
    X86_Fault_Report: what the port prints before it halts. X86_Range: the benchmarks that map the physical range, on this port.
  \<^item> Armv8_Memory, Armv8_Trap: src/arch/armv8. Armv8_Range: how much of the heap its tables take.
  \<^item> Arm_Memory, Arm_Trap: src/arch/arm (mem.c; exception.c, vector-handlers.c and arch.c).
  \<^item> Board_Uart, Board_Swi, Board_Memory: uart.c, platform.c and mem.c of the seven boards of
    src/platform/arm and src/platform/armv8.
  \<^item> Suite_On_Port: the locale port, what the benchmarks need of a port, its extension interrupting_port,
    and from them that the whole suite runs.
  \<^item> Versatile_Machine, Versatile_Suite: the arm port on the Versatile board put together to one machine,
    and its proof of the laws of both locales.
  \<^item> Virt_Machine, Virt_Suite: the same for the armv8 port on the virt board, whose benchmarks run at exception
    level 0, so that every operation of the port is a trap. The laws of interrupting_port hold once the skip of undefined
    instructions is installed, which the first benchmark of the suite does.

  How the parts interact. arch_start or reset.S initialises port and platform and calls harness_main,
  which runs for each benchmark kernel_init, the control kernel, the kernel and kernel_cleanup and
  prints brackets around them; the kernels call the port (Benchmarks' record), the printing calls
  the sink the platform registered (Harness' locales), and the host program reads the sink's text.
  Each interface is a locale that the providers interpret: the consoles of all boards interpret
  console or guarded_console, the descriptor formats of x86-64 and armv8 entry_format, their mapping
  functions and those of arm page_mapper, and the Versatile and virt machines port and interrupting_port
  (by sublocales of versatile_board and of virt_port_laws and virt_board_laws, which fix a linker layout;
  built_board and built_virt_board are the layouts of the boards' sys.ld).

  State and errors. A component's static variables and the hardware registers it writes are the
  fields of a record that the operations pass on. Memory that holds tables is a function from
  addresses to 64-bit cells (the section table of arm is a list of 4096 words). An operation that can
  stop the machine (arch_abort), leave defined C behaviour or run out of heap returns fault +
  result. Devices are a log of loads and stores; polling loops read a list of answers, one per read.
  Functions that exist in several ports carry the prefix a8_ for armv8 and arm_ for arm, those of a
  board the board's name.

  What the lemmas show. Printf: memory safety, and that the output is the text a format denotes.
  Harness and Host: the report is complete and is read back. X86_Decode: the decoder accepts exactly
  the supported encodings, described by their bytes, and how it ends on all others. The memory theories: every mapping function changes the hardware's
  translation by exactly one page or section and preserves the tables; mem_init builds exactly the
  identity map of the image. The trap theories: the vectors, the skip handlers, the privilege
  switches. The board theories: the software interrupt of each controller, the serial text, the
  reachability after mem_init of every register their operations use. Suite_On_Port, Versatile_Suite and Virt_Suite: each benchmark
  runs to its end with traps, interrupt and accesses through the tables. Armv8_Range: the heap of the armv8 port
  lasts for any number of set-ups, at most 1541 pages below 3 GiB; on x86-64 the heap of qemu does not last for
  one set-up of the range (X86_Range).

  Bounds and loops. Table walks have the fixed depth four. A region loop is a partial_function
  (option), None being a loop whose counter wraps, and is shown to end where a region ends below the
  top of the address space; the benchmarks' loops over the physical range are shown to end on every
  port. The other loops are structural or carry a measure: the polls the answers left, the string
  loops the text left, memcpy and memset the count. Nothing is bounded by fuel except the steps of a walk
  over the range, whose number is the iteration count of the source.

  Not modelled: the assembly files as such (start-up, vectors, cache and context-switch routines appear as
  their effect on the modelled state: resume of Arm_Trap, fast_zero_page of X86_Memory, the control
  bits of the arm cache routines); translation buffers and caches, so that an access sees the
  tables as they are; dprintf in builds without SIMBENCH_DEBUG is empty; what follows arch_abort and platform_shutdown of the arm boards, which loop for ever; the headers
  of src/include, which only declare. The suite is put together for the Versatile and virt boards: the
  other arm boards differ from Versatile in their controller and sink, and on x86-64 the set-up of three benchmarks
  cannot succeed. The answers of the interrupt controller of virt are
  taken from the layout. The statement that turns the MMU of arm on works only when the compiler gives its two operands one register;
  arm_mmu_enable has the choice of the register as a parameter, and the Versatile machine takes them to be the same. Of the
  decoder's opcode cd, whose function returns no value, only this is modelled: the page-fault handler then has no defined way on.
\<close>

section \<open>Properties that span components\<close>

text \<open>
  C3: the report protocol round trip. What the harness prints on a console through printf, the
  host program reads back: for every list of benchmarks, after any earlier console text in which
  the host finds no begin marker, and with enough time stamps, the host prints for each
  benchmark, in order, its category, its name, its iteration count and the ticks between the
  stamps of its brackets, and finishes.
\<close>

theorem report_round_trip:
  assumes "console putch shown" and "wired putch env" and "env_ok shown env" and "\<forall>bm\<in>set bms. benchmark_ok shown bm"
    and "read_start (shown s @ crlf) = None" and "sum_list (map stamps bms) \<le> length readings"
  shows "\<exists>s' st'. harness_main env bms s = Inr s' \<and>
    host_main lf junk \<lparr>inp = shown s' @ later, clock = readings, host_out = []\<rparr> = Inr st' \<and>
    host_out st' = marker ''BEGIN'' @ host_lines lf bms readings @ ''Done.'' @ [line_feed]"
proof -
  obtain s' runs where h: "harness_main env bms s = Inr s'" "recorded bms runs"
    "shown s' = shown s @ crlf @ crlf @ marker ''BEGIN'' @ report runs @ marker ''END''"
    using console.harness_main_shows [OF assms(1-4)] by blast
  have w: "\<forall>bm\<in>set bms. word_ok (category bm) \<and> word_ok (bm_name bm)"
    using assms(4) by (auto simp: benchmark_ok_def)
  show ?thesis
    using host_main_ok [OF h(2) w, of "\<lparr>inp = shown s' @ later, clock = readings, host_out = []\<rparr>" "shown s" later]
      h(1,3) assms(5,6) by simp
qed

lemma report_round_trip_witness:
  "\<exists>s' st'. harness_main demo_env [demo_benchmark] ''boot'' = Inr s' \<and>
    host_main (\<lambda>v. ''t'') 0 \<lparr>inp = s', clock = replicate 4 \<lparr>tv_sec = 0, tv_nsec = 0\<rparr>, host_out = []\<rparr> = Inr st' \<and>
    host_out st' = marker ''BEGIN'' @ ''Exception - IF 10  t'' @ crlf @ ''Done.'' @ [line_feed]"
proof -
  have "read_start (''boot'' @ crlf) = None"
    using read_start_line [of "''boot'' @ [CHR 0x0D]" "[]"]
    by (simp add: crlf_def line_feed_def same_string_def STR_BENCHMARK_BEGIN_def nul_def read_start.simps [of "[]"] getline_def)
  then show ?thesis
    using report_round_trip [OF list_console demo_ok(1,2), of "[demo_benchmark]" "''boot''"
        "replicate 4 \<lparr>tv_sec = 0, tv_nsec = 0\<rparr>" "\<lambda>v. ''t''" 0 "[]"] demo_ok(3)
    by (simp add: demo_words demo_line)
qed

subsection \<open>A run on the Versatile board, timed by the host\<close>

lemmas benchmark_records = undef_def interrupt_def syscall_def dfault_def ifault_def small_blocks_def large_blocks_def
  intra_page_indirect_def inter_page_indirect_def intra_page_direct_def inter_page_direct_def tlb_flush_def tlb_evict_def
  memory_hot_nommu_def memory_hot_mmu_def memory_cold_nommu_def memory_cold_mmu_def memory_nonpriv_def device_access_def
  coprocessor_access_def

lemma suite_words: "\<forall>bm\<in>set (suite M). word_ok (category bm) \<and> word_ok (bm_name bm)"
  by (simp add: suite_def benchmark_records word_ok_def white_def nul_def)

lemma suite_stamps: "sum_list (map stamps (suite M)) = 52"
  by (simp add: suite_def benchmark_records stamps_def)

text \<open>
  C4: the path of a measurement, from the board to the host. When the suite runs on the Versatile
  board and the host program reads what its serial port received, the host takes two time stamps
  for each of the twenty benchmarks and two more for each of the six control loops, 52 in all, and
  prints the line of every benchmark in the order of the suite, whatever the kernels' spinners
  wrote in between.
\<close>

theorem versatile_run_timed:
  assumes "layout_ok L" and "0x1000 \<le> length stack" and "board_idle L s"
    and "read_start (uart_text s @ crlf) = None" and "52 \<le> length readings"
  shows "\<exists>s' st'. harness_main (versatile_env stack) (suite (versatile_machine L)) s = Inr s' \<and>
    host_main lf junk \<lparr>inp = uart_text s' @ later, clock = readings, host_out = []\<rparr> = Inr st' \<and>
    host_out st' = marker ''BEGIN'' @ host_lines lf (suite (versatile_machine L)) readings @ ''Done.'' @ [line_feed]"
proof -
  have "versatile_board L stack" using assms(1,2) by (simp add: versatile_board_def)
  from versatile_board.whole_report [OF this assms(3)] obtain s' runs where
    h: "harness_main (versatile_env stack) (suite (versatile_machine L)) s = Inr s'" "recorded (suite (versatile_machine L)) runs"
      "uart_text s' = uart_text s @ crlf @ crlf @ marker ''BEGIN'' @ report runs @ marker ''END''" by blast
  show ?thesis
    using host_main_ok [OF h(2) suite_words, of "\<lparr>inp = uart_text s' @ later, clock = readings, host_out = []\<rparr>" "uart_text s" later lf junk]
      h(1,3) assms(4,5) by (simp add: suite_stamps)
qed

lemma versatile_run_timed_witness:
  "\<exists>s' st'. harness_main (versatile_env (replicate 0x1000 nul)) (suite (versatile_machine built_layout)) reset_board = Inr s' \<and>
    host_main (\<lambda>v. ''t'') 0 \<lparr>inp = uart_text s', clock = replicate 52 \<lparr>tv_sec = 0, tv_nsec = 0\<rparr>, host_out = []\<rparr> = Inr st' \<and>
    host_out st' = marker ''BEGIN'' @ host_lines (\<lambda>v. ''t'') (suite (versatile_machine built_layout))
      (replicate 52 \<lparr>tv_sec = 0, tv_nsec = 0\<rparr>) @ ''Done.'' @ [line_feed]"
proof -
  have t: "uart_text reset_board = []" by (simp add: uart_text_def reset_board_def quiet_def received_def)
  have "read_start crlf = None"
    using read_start_line [of "[CHR 0x0D]" "[]"]
    by (simp add: crlf_def line_feed_def same_string_def STR_BENCHMARK_BEGIN_def nul_def read_start.simps [of "[]"] getline_def)
  then show ?thesis
    using versatile_run_timed [OF built_ok _ reset_idle, of "replicate 0x1000 nul" "replicate 52 \<lparr>tv_sec = 0, tv_nsec = 0\<rparr>" "\<lambda>v. ''t''" 0 "[]"]
    unfolding t by simp
qed

end
